(* ===== verification/Prelude.thy ===== *)
theory Prelude
  imports Main "HOL-Library.Word" "HOL-Library.Signed_Division"
begin

text \<open>
  Shared vocabulary of the development: the machine integer types of
  \<^verbatim>\<open>student-distrib/types.h\<close>, character constants as bytes, the two named
  collections that carry the component proofs (\<open>mem_simps\<close> for reads over writes,
  \<open>wf_intros\<close> for preservation of well-formedness), and the facts on words and lists
  that several components use.
\<close>

unbundle bit_operations_syntax

named_theorems mem_simps "reads of memory after writes"
named_theorems wf_intros "operations that keep a well-formedness predicate"

section \<open>Machine integers\<close>

text \<open>
  \<open>uint8_t\<close>, \<open>uint16_t\<close> and \<open>uint32_t\<close> are words, and so are the signed types: an
  \<open>int32_t\<close> is a \<open>u32\<close> that is compared with \<open>sint\<close>. Addresses are \<open>u32\<close>.
\<close>

type_synonym u8 = "8 word"
type_synonym u16 = "16 word"
type_synonym u32 = "32 word"
type_synonym addr = "32 word"
type_synonym bytes = "8 word list"

text \<open>A string literal of the source as the bytes the compiler lays out (without the NUL).\<close>

definition lit :: "string \<Rightarrow> bytes" where
  "lit s = map of_char s"

lemma lit_simps [simp]: "lit [] = []" "lit (c # s) = of_char c # lit s"
  by (simp_all add: lit_def)

lemma length_lit [simp]: "length (lit s) = length s"
  by (simp add: lit_def)

section \<open>Words\<close>

lemma unat_lt_2p32 [simp]: "unat (x :: u32) < 4294967296"
  using unsigned_less [of x] by simp

lemma unat_of_nat_u32: "n < 4294967296 \<Longrightarrow> unat (of_nat n :: u32) = n"
  by (simp add: unat_of_nat take_bit_nat_eq_self)

lemma of_nat_unat_u32 [simp]: "of_nat (unat (x :: u32)) = x"
  by simp

lemma of_nat_eq_iff_u32:
  "m < 4294967296 \<Longrightarrow> n < 4294967296 \<Longrightarrow> (of_nat m :: u32) = of_nat n \<longleftrightarrow> m = n"
  by (metis unat_of_nat_u32)

lemma of_nat_less_u32: "i \<le> unat n \<Longrightarrow> of_nat i < (n :: u32) \<longleftrightarrow> i < unat n"
  using unat_of_nat_u32 [OF le_less_trans [OF _ unat_lt_2p32 [of n]], of i]
  by (simp add: word_less_nat_alt)

lemma unat_minus_Suc_u32:
  assumes "x \<noteq> (0 :: u32)"
  shows "unat x = Suc (unat (x - 1))"
proof -
  have "unat x \<noteq> 0" using assms by (simp add: unat_eq_0)
  then have "unat (x - 1) = unat x - 1" by (simp add: unat_minus_one assms)
  with \<open>unat x \<noteq> 0\<close> show ?thesis by simp
qed

lemma unat_Suc_u32:
  assumes "Suc n = unat (x :: u32)"
  shows "x \<noteq> 0" "unat (x - 1) = n"
proof -
  show "x \<noteq> 0" using assms by auto
  then show "unat (x - 1) = n" using assms unat_minus_Suc_u32 [of x] by linarith
qed

text \<open>A counter below its bound does not wrap, and counting up to the bound terminates.\<close>

lemma unat_add1_u32:
  assumes "i < (n :: u32)"
  shows "unat (i + 1) = Suc (unat i)"
proof -
  have "unat i < unat n" using assms by (simp add: word_less_nat_alt)
  then have "unat i + 1 < 4294967296" using unat_lt_2p32 [of n] by linarith
  then show ?thesis by (subst unat_plus_if') simp
qed

lemma count_up_u32 [termination_simp]:
  assumes "i < (n :: u32)"
  shows "unat n - unat (i + 1) < unat n - unat i"
  using assms unat_add1_u32 [OF assms] by (simp add: word_less_nat_alt)

lemma unat_add_le_u32: "unat (x + y :: u32) \<le> unat x + unat y"
  by (simp add: unat_word_ariths)

lemma unat_minus1_u32 [simp]: "unat (- 1 :: u32) = 4294967295"
  by (simp add: unsigned_minus_1_eq_mask mask_eq_exp_minus_1)

lemma unat_pow2_u32:
  assumes "k < 32"
  shows "unat (2 ^ k :: u32) = 2 ^ k"
proof -
  have "(2 :: nat) ^ k < 2 ^ 32" using assms by (rule power_strict_increasing) simp
  then have "unat (of_nat (2 ^ k) :: u32) = 2 ^ k" by (intro unat_of_nat_u32) simp
  then show ?thesis by simp
qed

lemma sint_small_u32: "k < 2147483648 \<Longrightarrow> sint (of_nat k :: u32) = int k"
  by (simp add: signed_of_nat signed_take_bit_int_eq_self)

lemma sint_pow2_u32:
  assumes "k < 31"
  shows "sint (2 ^ k :: u32) = 2 ^ k"
proof -
  have "(2 :: nat) ^ k < 2 ^ 31" using assms by (rule power_strict_increasing) simp
  then have "sint (of_nat (2 ^ k) :: u32) = int (2 ^ k)" by (intro sint_small_u32) simp
  then show ?thesis by simp
qed

lemma pow2_le_u32: "j < 32 \<Longrightarrow> k < 32 \<Longrightarrow> (2 :: u32) ^ j \<le> 2 ^ k \<longleftrightarrow> j \<le> k"
  by (simp add: word_le_nat_alt unat_pow2_u32)

lemma scast_eq_iff_u8 [simp]: "(scast (a :: u8) :: u32) = scast b \<longleftrightarrow> a = b"
proof
  assume e: "(scast a :: u32) = scast b"
  have "bit a n = bit b n" if "n < 8" for n
    using arg_cong [OF e, of "\<lambda>w. bit w n"] that by (cases "n = 7") (auto simp: bit_simps min_def)
  then show "a = b" by (intro bit_word_eqI) simp
qed simp

lemma scast_eq_0_u8 [simp]: "(scast (a :: u8) :: u32) = 0 \<longleftrightarrow> a = 0"
  using scast_eq_iff_u8 [of a 0] by simp

lemma unat_of_int_u32: "0 \<le> k \<Longrightarrow> k < 4294967296 \<Longrightarrow> unat (of_int k :: u32) = nat k"
  using unat_of_nat_u32 [of "nat k"] by (simp add: of_nat_nat nat_less_iff)

lemma of_int_eq_iff_u32:
  "0 \<le> k \<Longrightarrow> k < 4294967296 \<Longrightarrow> 0 \<le> l \<Longrightarrow> l < 4294967296 \<Longrightarrow> (of_int k :: u32) = of_int l \<longleftrightarrow> k = l"
  by (metis unat_of_int_u32 nat_eq_iff2)

text \<open>Truncating division agrees with \<open>div\<close> and \<open>mod\<close> on non-negative numbers.\<close>

lemma sdiv_nonneg: "0 \<le> a \<Longrightarrow> 0 < b \<Longrightarrow> a sdiv b = a div (b :: int)"
  by (cases "a = 0") (simp_all add: signed_divide_int_def)

lemma smod_nonneg: "0 \<le> a \<Longrightarrow> 0 < b \<Longrightarrow> a smod b = a mod (b :: int)"
  by (cases "a = 0") (simp_all add: signed_modulo_int_def)

section \<open>Ranges of addresses\<close>

text \<open>
  \<open>rng a n\<close> is the set of the \<open>n\<close> addresses \<open>a\<close>, \<open>a + 1\<close>, \<open>\<dots>\<close> (modulo
  \<open>2 ^ 32\<close>, as address arithmetic wraps).
\<close>

definition rng :: "addr \<Rightarrow> nat \<Rightarrow> addr set" where
  "rng a n = {x. unat (x - a) < n}"

lemma rng_iff: "x \<in> rng a n \<longleftrightarrow> unat (x - a) < n"
  by (simp add: rng_def)

lemma rng_0 [simp]: "rng a 0 = {}"
  by (simp add: rng_def)

lemma rng_mono: "m \<le> n \<Longrightarrow> rng a m \<subseteq> rng a n"
  by (auto simp: rng_def)

lemma rng_offset:
  assumes "i < n" "i < 4294967296"
  shows "a + of_nat i \<in> rng a n"
  using assms by (simp add: rng_def unat_of_nat_u32)

lemma rng_sub:
  assumes "i + j \<le> n"
  shows "rng (a + of_nat i) j \<subseteq> rng a n"
proof
  fix x assume "x \<in> rng (a + of_nat i) j"
  then have j: "unat (x - (a + of_nat i)) < j" by (simp add: rng_def)
  have "unat (of_nat i :: u32) \<le> i"
    by (metis le_less_linear le_unat_uoi nat_less_le)
  moreover have "unat (x - a) \<le> unat (x - (a + of_nat i)) + unat (of_nat i :: u32)"
    using unat_add_le_u32 [of "x - (a + of_nat i)" "of_nat i"] by (simp add: algebra_simps)
  ultimately show "x \<in> rng a n" using j assms by (simp add: rng_def)
qed

lemma rng_Suc:
  assumes "n < 4294967296"
  shows "rng a (Suc n) = insert a (rng (a + 1) n)"
proof (intro set_eqI)
  fix x
  show "x \<in> rng a (Suc n) \<longleftrightarrow> x \<in> insert a (rng (a + 1) n)"
  proof (cases "x = a")
    case True
    then show ?thesis by (simp add: rng_def)
  next
    case False
    then have "unat (x - a) = Suc (unat (x - a - 1))" by (intro unat_minus_Suc_u32) simp
    then show ?thesis using False by (simp add: rng_def algebra_simps)
  qed
qed

lemma rng_all: "4294967296 \<le> n \<Longrightarrow> rng a n = UNIV"
  by (auto simp: rng_def intro: less_le_trans [OF unat_lt_2p32])

lemma notin_rng_Suc: "n < 4294967296 \<Longrightarrow> a \<notin> rng (a + 1) n"
  by (simp add: rng_def)

lemma rng_disjoint:
  assumes "unat a + i \<le> unat b" "unat b + j \<le> 4294967296"
  shows "rng a i \<inter> rng b j = {}" "rng b j \<inter> rng a i = {}"
proof -
  have "unat (x - b) \<ge> j" if "unat (x - a) < i" for x
  proof -
    have "unat (x - a) + unat a < 4294967296" using that assms unat_lt_2p32 [of b] by linarith
    then have x: "unat x = unat (x - a) + unat a"
      using unat_plus_if' [of "x - a" a] by simp
    then have "unat x < unat b" using that assms by linarith
    then have "unat (x - b) = unat x + 4294967296 - unat b" by (simp add: unat_sub_if')
    then show ?thesis using assms(2) by linarith
  qed
  then show "rng a i \<inter> rng b j = {}" "rng b j \<inter> rng a i = {}" by (fastforce simp: rng_def)+
qed

lemma rng_shift: "x \<in> rng a n \<longleftrightarrow> x + c \<in> rng (a + c) n"
  by (simp add: rng_def)

lemma rng_split:
  assumes "i < 4294967296"
  shows "rng a (i + j) \<subseteq> rng a i \<union> rng (a + of_nat i) j"
proof
  fix x assume x: "x \<in> rng a (i + j)"
  show "x \<in> rng a i \<union> rng (a + of_nat i) j"
  proof (cases "unat (x - a) < i")
    case False
    then have "unat (x - a - of_nat i) = unat (x - a) - i"
      using assms by (simp add: unat_sub_if' unat_of_nat_u32 not_less)
    with x False show ?thesis by (simp add: rng_def algebra_simps)
  qed (simp add: rng_def)
qed

section \<open>Numbers and lists\<close>

lemma block_offset_less:
  assumes "b < d" "r < (c :: nat)"
  shows "(1 + n + b) * c + r < (1 + n + d) * c"
proof -
  have "(1 + n + b) * c + r < Suc (1 + n + b) * c" using assms(2) by simp
  also have "\<dots> \<le> (1 + n + d) * c" using assms(1) by (intro mult_le_mono1) simp
  finally show ?thesis .
qed

lemma take_then_rest:
  assumes "d = take n (drop p xs)"
  shows "d @ take k (drop (p + length d) xs) = take (n + k) (drop p xs)"
proof -
  have "drop (p + length d) xs = drop (length d) (drop p xs)" by (simp add: add.commute)
  then show ?thesis
    using assms by (cases "n \<le> length (drop p xs)") (simp_all add: take_add min_absorb2)
qed

text \<open>A loop that clears an array.\<close>

lemma fold_update_const:
  assumes "length q = n"
  shows "fold (\<lambda>i q. q[i := c]) [0..<n] q = replicate n c"
proof -
  have "k \<le> n \<Longrightarrow> fold (\<lambda>i q. q[i := c]) [0..<k] q = replicate k c @ drop k q" for k
  proof (induction k)
    case (Suc k)
    then show ?case
      using assms by (simp add: list_update_append Cons_nth_drop_Suc [symmetric] replicate_append_same)
  qed simp
  from this [of n] assms show ?thesis by simp
qed

lemma fold_update_map:
  assumes "length ps = n"
  shows "fold (\<lambda>i ps. ps[i := f (ps ! i)]) [0..<n] ps = map f ps"
proof -
  have "k \<le> n \<Longrightarrow> fold (\<lambda>i ps. ps[i := f (ps ! i)]) [0..<k] ps = map f (take k ps) @ drop k ps" for k
  proof (induction k)
    case (Suc k)
    then show ?case
      using assms by (simp add: list_update_append nth_append Cons_nth_drop_Suc [symmetric] take_Suc_conv_app_nth)
  qed simp
  from this [of n] assms show ?thesis by simp
qed

lemma nth_Suc_unat_minus:
  "x \<noteq> (a :: u32) \<Longrightarrow> (b # bs) ! unat (x - a) = bs ! unat (x - (a + 1))"
  using unat_minus_Suc_u32 [of "x - a"] by (simp add: algebra_simps)

text \<open>Searching a range of numbers yields the least match.\<close>

lemma find_upt_Some:
  "find P [a..<b] = Some i \<longleftrightarrow> a \<le> i \<and> i < b \<and> P i \<and> (\<forall>j. a \<le> j \<and> j < i \<longrightarrow> \<not> P j)"
proof (induction "b - a" arbitrary: a)
  case (Suc n)
  then have a: "a < b" by simp
  have IH: "find P [Suc a..<b] = Some i \<longleftrightarrow> Suc a \<le> i \<and> i < b \<and> P i \<and> (\<forall>j. Suc a \<le> j \<and> j < i \<longrightarrow> \<not> P j)"
    using Suc by (intro Suc.hyps) auto
  show ?case
  proof (cases "P a")
    case True
    then show ?thesis using a by (auto simp: upt_conv_Cons dest: le_neq_implies_less)
  next
    case False
    then have "find P [a..<b] = find P [Suc a..<b]" using a by (simp add: upt_conv_Cons)
    with IH False show ?thesis by (metis Suc_leD Suc_leI le_neq_implies_less less_irrefl)
  qed
qed auto

lemma find_upt_None: "find P [a..<b] = None \<longleftrightarrow> (\<forall>i. a \<le> i \<and> i < b \<longrightarrow> \<not> P i)"
  by (auto simp: find_None_iff)

end
