(* ===== verification/Memory.thy ===== *)
theory Memory
  imports Prelude
begin

text \<open>
  Byte-addressed memory as the C and assembly code of the kernel sees it. A memory maps
  physical addresses to bytes; every access of the code goes through the address translation
  \<open>tr\<close> that the loaded page directory defines (the identity before paging is switched on,
  the walk of theory \<open>Virtualmem\<close> afterwards). The locale \<open>address_space\<close> is the
  interface between the two: a translation that is injective on the mapped addresses. All
  facts on loads over stores are proved once under that law.
\<close>

type_synonym memory = "addr \<Rightarrow> u8"
type_synonym translation = "addr \<Rightarrow> addr"

section \<open>Loads and stores\<close>

definition ld8 :: "translation \<Rightarrow> memory \<Rightarrow> addr \<Rightarrow> u8" where
  "ld8 tr m a = m (tr a)"

definition st8 :: "translation \<Rightarrow> memory \<Rightarrow> addr \<Rightarrow> u8 \<Rightarrow> memory" where
  "st8 tr m a v = m(tr a := v)"

text \<open>Little-endian 32-bit words, as x86 lays them out.\<close>

definition word_of_bytes :: "u8 \<Rightarrow> u8 \<Rightarrow> u8 \<Rightarrow> u8 \<Rightarrow> u32" where
  "word_of_bytes b0 b1 b2 b3 =
     ucast b0 OR push_bit 8 (ucast b1) OR push_bit 16 (ucast b2) OR push_bit 24 (ucast b3)"

definition byte_of_word :: "nat \<Rightarrow> u32 \<Rightarrow> u8" where
  "byte_of_word i w = ucast (drop_bit (8 * i) w)"

definition ld32 :: "translation \<Rightarrow> memory \<Rightarrow> addr \<Rightarrow> u32" where
  "ld32 tr m a =
     word_of_bytes (ld8 tr m a) (ld8 tr m (a + 1)) (ld8 tr m (a + 2)) (ld8 tr m (a + 3))"

text \<open>Runs of bytes.\<close>

fun load_bytes :: "translation \<Rightarrow> memory \<Rightarrow> addr \<Rightarrow> nat \<Rightarrow> bytes" where
  "load_bytes tr m a 0 = []"
| "load_bytes tr m a (Suc n) = ld8 tr m a # load_bytes tr m (a + 1) n"

fun store_bytes :: "translation \<Rightarrow> memory \<Rightarrow> addr \<Rightarrow> bytes \<Rightarrow> memory" where
  "store_bytes tr m a [] = m"
| "store_bytes tr m a (b # bs) = store_bytes tr (st8 tr m a b) (a + 1) bs"

definition st32 :: "translation \<Rightarrow> memory \<Rightarrow> addr \<Rightarrow> u32 \<Rightarrow> memory" where
  "st32 tr m a w = store_bytes tr m a (map (\<lambda>i. byte_of_word i w) [0, 1, 2, 3])"

section \<open>Facts that hold for every translation\<close>

lemma length_load_bytes [simp]: "length (load_bytes tr m a n) = n"
  by (induction n arbitrary: a) auto

lemma nth_load_bytes [simp]: "i < n \<Longrightarrow> load_bytes tr m a n ! i = ld8 tr m (a + of_nat i)"
  by (induction n arbitrary: a i) (auto simp: nth_Cons algebra_simps split: nat.splits)

lemma load_bytes_numeral:
  "load_bytes tr m a (numeral k) = ld8 tr m a # load_bytes tr m (a + 1) (pred_numeral k)"
  by (simp add: numeral_eq_Suc)

lemma load_bytes_append:
  "load_bytes tr m a (i + j) = load_bytes tr m a i @ load_bytes tr m (a + of_nat i) j"
  by (induction i arbitrary: a) (auto simp: algebra_simps)

lemma load_bytes_eqI:
  assumes "length bs = n" "\<And>i. i < n \<Longrightarrow> bs ! i = ld8 tr m (a + of_nat i)"
  shows "load_bytes tr m a n = bs"
  using assms by (intro nth_equalityI) auto

lemma load_bytes_cong:
  assumes "\<And>x. x \<in> rng a n \<Longrightarrow> ld8 tr m' x = ld8 tr m x" "n \<le> 4294967296"
  shows "load_bytes tr m' a n = load_bytes tr m a n"
  using assms by (intro nth_equalityI) (auto simp: rng_offset)

lemma take_load_bytes: "i \<le> n \<Longrightarrow> take i (load_bytes tr m a n) = load_bytes tr m a i"
  by (intro nth_equalityI) auto

lemma store_bytes_append:
  "store_bytes tr m a (xs @ ys) = store_bytes tr (store_bytes tr m a xs) (a + of_nat (length xs)) ys"
  by (induction xs arbitrary: m a) (auto simp: algebra_simps)

lemma st8_st8 [simp]: "st8 tr (st8 tr m a v) a w = st8 tr m a w"
  by (simp add: st8_def)

lemma store_bytes_snoc:
  "store_bytes tr m a (xs @ [b]) = st8 tr (store_bytes tr m a xs) (a + of_nat (length xs)) b"
  by (simp add: store_bytes_append)

lemma store_bytes_take_Suc:
  assumes "i < length bs"
  shows "store_bytes tr m a (take (Suc i) bs) =
    st8 tr (store_bytes tr m a (take i bs)) (a + of_nat i) (bs ! i)"
  using assms by (simp add: take_Suc_conv_app_nth store_bytes_snoc)

lemma store_load_id [simp]: "store_bytes tr m a (load_bytes tr m a n) = m"
  by (induction n arbitrary: a) (auto simp: st8_def ld8_def)

lemma load_bytes_4:
  "load_bytes tr m a 4 = [ld8 tr m a, ld8 tr m (a + 1), ld8 tr m (a + 2), ld8 tr m (a + 3)]"
  by (simp add: numeral_eq_Suc algebra_simps)

text \<open>A store touches no physical byte outside the image of its range.\<close>

lemma store_bytes_frame:
  assumes "p \<notin> tr ` rng a (length bs)" "length bs \<le> 4294967296"
  shows "store_bytes tr m a bs p = m p"
  using assms
proof (induction bs arbitrary: m a)
  case (Cons b bs)
  then have "rng a (length (b # bs)) = insert a (rng (a + 1) (length bs))"
    by (simp add: rng_Suc)
  with Cons show ?case by (simp add: st8_def)
qed simp

section \<open>Words and their bytes\<close>

lemma bit_word_of_bytes:
  "bit (word_of_bytes b0 b1 b2 b3) n \<longleftrightarrow>
     (if n < 8 then bit b0 n else if n < 16 then bit b1 (n - 8)
      else if n < 24 then bit b2 (n - 16) else n < 32 \<and> bit b3 (n - 24))"
  by (auto simp: word_of_bytes_def bit_simps dest: bit_imp_le_length)

lemma bit_byte_of_word: "bit (byte_of_word i w) n \<longleftrightarrow> n < 8 \<and> bit w (8 * i + n)"
  by (auto simp: byte_of_word_def bit_simps)

text \<open>The two conversions are inverse to each other.\<close>

lemma word_of_bytes_of_word [simp]:
  "word_of_bytes (byte_of_word 0 w) (byte_of_word (Suc 0) w) (byte_of_word 2 w) (byte_of_word 3 w) = w"
proof (rule bit_word_eqI)
  fix n assume n: "n < LENGTH(32)"
  then show "bit (word_of_bytes (byte_of_word 0 w) (byte_of_word (Suc 0) w) (byte_of_word 2 w)
       (byte_of_word 3 w)) n = bit w n"
    by (simp add: bit_word_of_bytes bit_byte_of_word) linarith
qed

lemma byte_of_word_of_bytes [simp]:
  "byte_of_word 0 (word_of_bytes b0 b1 b2 b3) = b0"
  "byte_of_word (Suc 0) (word_of_bytes b0 b1 b2 b3) = b1"
  "byte_of_word 2 (word_of_bytes b0 b1 b2 b3) = b2"
  "byte_of_word 3 (word_of_bytes b0 b1 b2 b3) = b3"
  by (rule bit_word_eqI; simp add: bit_word_of_bytes bit_byte_of_word)+

section \<open>The interface to address translation\<close>

locale address_space =
  fixes tr :: translation and mapped :: "addr set"
  assumes tr_inj: "inj_on tr mapped"
begin

lemma ld8_st8 [simp]:
  "a \<in> mapped \<Longrightarrow> x \<in> mapped \<Longrightarrow> ld8 tr (st8 tr m a v) x = (if x = a then v else ld8 tr m x)"
  using tr_inj by (auto simp: ld8_def st8_def dest: inj_onD)

lemma ld8_store_bytes:
  assumes "rng a (length bs) \<subseteq> mapped" "x \<in> mapped" "length bs \<le> 4294967296"
  shows "ld8 tr (store_bytes tr m a bs) x =
    (if x \<in> rng a (length bs) then bs ! unat (x - a) else ld8 tr m x)"
  using assms
proof (induction bs arbitrary: m a)
  case (Cons b bs)
  then have r: "rng a (length (b # bs)) = insert a (rng (a + 1) (length bs))"
    by (simp add: rng_Suc)
  with Cons.prems have "a \<in> mapped" "rng (a + 1) (length bs) \<subseteq> mapped" by auto
  then have "ld8 tr (store_bytes tr m a (b # bs)) x =
    (if x \<in> rng (a + 1) (length bs) then bs ! unat (x - (a + 1)) else if x = a then b else ld8 tr m x)"
    using Cons by simp
  also have "\<dots> = (if x \<in> rng a (length (b # bs)) then (b # bs) ! unat (x - a) else ld8 tr m x)"
    using Cons.prems(3) by (cases "x = a") (auto simp: r [simplified] notin_rng_Suc nth_Suc_unat_minus)
  finally show ?case .
qed simp

lemma ld8_store_outside:
  assumes "rng a (length bs) \<subseteq> mapped" "x \<in> mapped" "length bs \<le> 4294967296"
    and "x \<notin> rng a (length bs)"
  shows "ld8 tr (store_bytes tr m a bs) x = ld8 tr m x"
  using assms by (simp add: ld8_store_bytes)

lemma ld8_store_inside:
  assumes "rng a (length bs) \<subseteq> mapped" "length bs \<le> 4294967296" "i < length bs"
  shows "ld8 tr (store_bytes tr m a bs) (a + of_nat i) = bs ! i"
proof -
  have "a + of_nat i \<in> rng a (length bs)" using assms by (intro rng_offset) auto
  then show ?thesis using assms by (subst ld8_store_bytes) (auto simp: unat_of_nat_u32)
qed

lemma load_store_same:
  assumes "rng a (length bs) \<subseteq> mapped" "length bs \<le> 4294967296"
  shows "load_bytes tr (store_bytes tr m a bs) a (length bs) = bs"
  using assms
  by (intro load_bytes_eqI)
    (auto simp: ld8_store_bytes rng_offset unat_of_nat_u32 subset_iff)

lemma st8_store_commute:
  assumes "rng a (length bs) \<subseteq> mapped" "x \<in> mapped" "x \<notin> rng a (length bs)"
    and "length bs \<le> 4294967296"
  shows "store_bytes tr (st8 tr m x v) a bs = st8 tr (store_bytes tr m a bs) x v"
  using assms
proof (induction bs arbitrary: m a)
  case (Cons b bs)
  then have r: "rng a (length (b # bs)) = insert a (rng (a + 1) (length bs))"
    by (simp add: rng_Suc)
  with Cons.prems have "tr x \<noteq> tr a" using tr_inj by (auto dest: inj_onD)
  then have "st8 tr (st8 tr m x v) a b = st8 tr (st8 tr m a b) x v"
    by (simp add: st8_def fun_upd_twist)
  with Cons r show ?case by simp
qed simp

lemma st8_store_update:
  assumes "rng a (length bs) \<subseteq> mapped" "length bs \<le> 4294967296" "i < length bs"
  shows "st8 tr (store_bytes tr m a bs) (a + of_nat i) v = store_bytes tr m a (bs[i := v])"
  using assms
proof (induction bs arbitrary: m a i)
  case (Cons b bs)
  then have r: "rng a (length (b # bs)) = insert a (rng (a + 1) (length bs))"
    by (simp add: rng_Suc)
  show ?case
  proof (cases i)
    case 0
    then have "st8 tr (store_bytes tr (st8 tr m a b) (a + 1) bs) a v =
        store_bytes tr (st8 tr (st8 tr m a b) a v) (a + 1) bs"
      using Cons.prems r by (intro st8_store_commute [symmetric]) (auto simp: notin_rng_Suc)
    then show ?thesis using 0 by simp
  next
    case (Suc j)
    then show ?thesis
      using Cons.IH [of "a + 1" j "st8 tr m a b"] Cons.prems r by (simp add: algebra_simps)
  qed
qed simp

lemma store_bytes_overwrite:
  assumes "length xs = length ys" "rng a (length (xs @ zs)) \<subseteq> mapped"
    and "length (xs @ zs) \<le> 4294967296"
  shows "store_bytes tr (store_bytes tr m a (xs @ zs)) a ys = store_bytes tr m a (ys @ zs)"
  using assms
proof (induction xs ys arbitrary: m a rule: list_induct2)
  case (Cons x xs y ys)
  then have r: "rng a (length (x # xs @ zs)) = insert a (rng (a + 1) (length (xs @ zs)))"
    by (simp add: rng_Suc)
  then have "st8 tr (store_bytes tr (st8 tr m a x) (a + 1) (xs @ zs)) a y =
      store_bytes tr (st8 tr (st8 tr m a x) a y) (a + 1) (xs @ zs)"
    using Cons.prems by (intro st8_store_commute [symmetric]) (auto simp: notin_rng_Suc)
  then show ?case
    using Cons.IH [of "a + 1" "st8 tr m a y"] Cons.prems r by simp
qed simp

lemma load_store_disjoint:
  assumes "rng a (length bs) \<subseteq> mapped" "length bs \<le> 4294967296"
    and "rng b n \<subseteq> mapped" "n \<le> 4294967296" "rng a (length bs) \<inter> rng b n = {}"
  shows "load_bytes tr (store_bytes tr m a bs) b n = load_bytes tr m b n"
proof (rule load_bytes_cong)
  fix x assume x: "x \<in> rng b n"
  with assms(3,5) have "x \<in> mapped" "x \<notin> rng a (length bs)" by auto
  with assms(1,2) show "ld8 tr (store_bytes tr m a bs) x = ld8 tr m x"
    by (simp add: ld8_store_bytes)
qed (use assms in simp)

lemma ld32_store_disjoint:
  assumes "rng a (length bs) \<subseteq> mapped" "length bs \<le> 4294967296"
    and "rng b 4 \<subseteq> mapped" "rng a (length bs) \<inter> rng b 4 = {}"
  shows "ld32 tr (store_bytes tr m a bs) b = ld32 tr m b"
proof -
  have "x \<in> rng b 4 \<Longrightarrow> ld8 tr (store_bytes tr m a bs) x = ld8 tr m x" for x
    using assms by (subst ld8_store_bytes) auto
  moreover have "b \<in> rng b 4" "b + 1 \<in> rng b 4" "b + 2 \<in> rng b 4" "b + 3 \<in> rng b 4"
    by (simp_all add: rng_def)
  ultimately show ?thesis by (simp add: ld32_def)
qed

lemma ld32_st32_same:
  assumes "rng a 4 \<subseteq> mapped"
  shows "ld32 tr (st32 tr m a w) a = w"
proof -
  let ?bs = "map (\<lambda>i. byte_of_word i w) [0, 1, 2, 3]"
  have l: "length ?bs = 4" by simp
  have "load_bytes tr (st32 tr m a w) a 4 = ?bs"
    using load_store_same [of a ?bs m] assms unfolding st32_def l by simp
  then show ?thesis by (simp add: ld32_def load_bytes_4)
qed

end

text \<open>Before paging, and for the kernel's identity-mapped page, an address is its own translation.\<close>

interpretation flat: address_space "\<lambda>a. a" UNIV
  by unfold_locales simp

end
