(* ===== verification/Lib_Mem.thy ===== *)
theory Lib_Mem
  imports Memory
begin

text \<open>
  The block operations of \<^verbatim>\<open>student-distrib/lib.c\<close>: \<open>memset\<close>, \<open>memset_word\<close>,
  \<open>memset_dword\<close>, \<open>memcpy\<close> and \<open>memmove\<close>. They are written in inline assembly with an
  unaligned head, a body that moves 32-bit words and a tail of single bytes; the model keeps the
  registers and the labels of the assembly. The lemmas show that each routine computes the
  obvious byte-wise reference (\<open>store_bytes\<close> of a constant or of \<open>load_bytes\<close>), whatever the
  alignment of the destination is.
\<close>

section \<open>String instructions\<close>

text \<open>
  The x86 instructions \<open>rep stosw\<close>, \<open>rep stosl\<close>, \<open>rep movsl\<close> and \<open>rep movsb\<close>, with the
  count in \<open>ecx\<close> read as a number. The direction flag is clear (\<open>cld\<close>) in all but the
  backward form of \<open>movsb\<close>, which \<open>memmove\<close> selects with \<open>std\<close>.
\<close>

fun rep_stosw :: "translation \<Rightarrow> memory \<Rightarrow> u32 \<Rightarrow> addr \<Rightarrow> nat \<Rightarrow> memory \<times> addr" where
  "rep_stosw tr m eax edi 0 = (m, edi)"
| "rep_stosw tr m eax edi (Suc n) =
     rep_stosw tr (store_bytes tr m edi [byte_of_word 0 eax, byte_of_word 1 eax]) eax (edi + 2) n"

fun rep_stosl :: "translation \<Rightarrow> memory \<Rightarrow> u32 \<Rightarrow> addr \<Rightarrow> nat \<Rightarrow> memory \<times> addr" where
  "rep_stosl tr m eax edi 0 = (m, edi)"
| "rep_stosl tr m eax edi (Suc n) = rep_stosl tr (st32 tr m edi eax) eax (edi + 4) n"

fun rep_movsl :: "translation \<Rightarrow> memory \<Rightarrow> addr \<Rightarrow> addr \<Rightarrow> nat \<Rightarrow> memory \<times> addr \<times> addr" where
  "rep_movsl tr m esi edi 0 = (m, esi, edi)"
| "rep_movsl tr m esi edi (Suc n) =
     rep_movsl tr (st32 tr m edi (ld32 tr m esi)) (esi + 4) (edi + 4) n"

fun rep_movsb :: "translation \<Rightarrow> memory \<Rightarrow> addr \<Rightarrow> addr \<Rightarrow> nat \<Rightarrow> memory" where
  "rep_movsb tr m esi edi 0 = m"
| "rep_movsb tr m esi edi (Suc n) =
     rep_movsb tr (st8 tr m edi (ld8 tr m esi)) (esi + 1) (edi + 1) n"

fun rep_movsb_std :: "translation \<Rightarrow> memory \<Rightarrow> addr \<Rightarrow> addr \<Rightarrow> nat \<Rightarrow> memory" where
  "rep_movsb_std tr m esi edi 0 = m"
| "rep_movsb_std tr m esi edi (Suc n) =
     rep_movsb_std tr (st8 tr m edi (ld8 tr m esi)) (esi - 1) (edi - 1) n"

section \<open>memset\<close>

function memset_bottom :: "translation \<Rightarrow> memory \<Rightarrow> u32 \<Rightarrow> addr \<Rightarrow> u32 \<Rightarrow> memory" where
  "memset_bottom tr m eax edi edx =
     (if edx = 0 then m
      else memset_bottom tr (st8 tr m edi (byte_of_word 0 eax)) eax (edi + 1) (edx - 1))"
  by pat_completeness auto
termination
  by (relation "measure (\<lambda>(tr, m, eax, edi, edx). unat edx)")
    (auto simp: unat_minus_Suc_u32)

definition memset_aligned :: "translation \<Rightarrow> memory \<Rightarrow> u32 \<Rightarrow> addr \<Rightarrow> u32 \<Rightarrow> memory" where
  "memset_aligned tr m eax edi ecx =
     (let edx = ecx AND 3;
          (m', edi') = rep_stosl tr m eax edi (unat (drop_bit 2 ecx))
      in memset_bottom tr m' eax edi' edx)"

function memset_top :: "translation \<Rightarrow> memory \<Rightarrow> u32 \<Rightarrow> addr \<Rightarrow> u32 \<Rightarrow> memory" where
  "memset_top tr m eax edi ecx =
     (if ecx = 0 then m
      else if edi AND 3 = 0 then memset_aligned tr m eax edi ecx
      else memset_top tr (st8 tr m edi (byte_of_word 0 eax)) eax (edi + 1) (ecx - 1))"
  by pat_completeness auto
termination
  by (relation "measure (\<lambda>(tr, m, eax, edi, ecx). unat ecx)")
    (auto simp: unat_minus_Suc_u32)

definition memset :: "translation \<Rightarrow> memory \<Rightarrow> addr \<Rightarrow> u32 \<Rightarrow> u32 \<Rightarrow> memory" where
  "memset tr m s c n =
     (let c = c AND 0xFF
      in memset_top tr m (push_bit 24 c OR push_bit 16 c OR push_bit 8 c OR c) s n)"

definition memset_word :: "translation \<Rightarrow> memory \<Rightarrow> addr \<Rightarrow> u32 \<Rightarrow> u32 \<Rightarrow> memory" where
  "memset_word tr m s c n = fst (rep_stosw tr m c s (unat n))"

definition memset_dword :: "translation \<Rightarrow> memory \<Rightarrow> addr \<Rightarrow> u32 \<Rightarrow> u32 \<Rightarrow> memory" where
  "memset_dword tr m s c n = fst (rep_stosl tr m c s (unat n))"

section \<open>memcpy\<close>

function memcpy_bottom :: "translation \<Rightarrow> memory \<Rightarrow> addr \<Rightarrow> addr \<Rightarrow> u32 \<Rightarrow> memory" where
  "memcpy_bottom tr m esi edi edx =
     (if edx = 0 then m
      else memcpy_bottom tr (st8 tr m edi (ld8 tr m esi)) (esi + 1) (edi + 1) (edx - 1))"
  by pat_completeness auto
termination
  by (relation "measure (\<lambda>(tr, m, esi, edi, edx). unat edx)")
    (auto simp: unat_minus_Suc_u32)

definition memcpy_aligned :: "translation \<Rightarrow> memory \<Rightarrow> addr \<Rightarrow> addr \<Rightarrow> u32 \<Rightarrow> memory" where
  "memcpy_aligned tr m esi edi ecx =
     (let edx = ecx AND 3;
          (m', esi', edi') = rep_movsl tr m esi edi (unat (drop_bit 2 ecx))
      in memcpy_bottom tr m' esi' edi' edx)"

function memcpy_top :: "translation \<Rightarrow> memory \<Rightarrow> addr \<Rightarrow> addr \<Rightarrow> u32 \<Rightarrow> memory" where
  "memcpy_top tr m esi edi ecx =
     (if ecx = 0 then m
      else if edi AND 3 = 0 then memcpy_aligned tr m esi edi ecx
      else memcpy_top tr (st8 tr m edi (ld8 tr m esi)) (esi + 1) (edi + 1) (ecx - 1))"
  by pat_completeness auto
termination
  by (relation "measure (\<lambda>(tr, m, esi, edi, ecx). unat ecx)")
    (auto simp: unat_minus_Suc_u32)

definition memcpy :: "translation \<Rightarrow> memory \<Rightarrow> addr \<Rightarrow> addr \<Rightarrow> u32 \<Rightarrow> memory" where
  "memcpy tr m dest src n = memcpy_top tr m src dest n"

section \<open>memmove\<close>

definition memmove :: "translation \<Rightarrow> memory \<Rightarrow> addr \<Rightarrow> addr \<Rightarrow> u32 \<Rightarrow> memory" where
  "memmove tr m dest src n =
     (if src \<ge> dest then rep_movsb tr m src dest (unat n)
      else rep_movsb_std tr m (src + n - 1) (dest + n - 1) (unat n))"

declare memset_bottom.simps [simp del] memset_top.simps [simp del]
  memcpy_bottom.simps [simp del] memcpy_top.simps [simp del]

section \<open>memset is a run of equal bytes\<close>

lemma unat_split4: "unat (ecx :: u32) = 4 * unat (drop_bit 2 ecx) + unat (ecx AND 3)"
proof -
  have "(3 :: u32) = mask 2" by (simp add: mask_eq_exp_minus_1)
  then have "unat (ecx AND 3) = unat ecx mod 4"
    by (simp only: take_bit_eq_mask [symmetric] unsigned_take_bit_eq) (simp add: take_bit_eq_mod)
  moreover have "unat (drop_bit 2 ecx) = unat ecx div 4"
    by (simp only: unsigned_drop_bit_eq) (simp add: drop_bit_eq_div take_bit_eq_mod)
  ultimately show ?thesis by simp
qed

lemma rep_stosl_eq:
  assumes "\<And>i. i < 4 \<Longrightarrow> byte_of_word i eax = b"
  shows "rep_stosl tr m eax edi n = (store_bytes tr m edi (replicate (4 * n) b), edi + of_nat (4 * n))"
proof (induction n arbitrary: m edi)
  case (Suc n)
  have w: "st32 tr m edi eax = store_bytes tr m edi (replicate 4 b)"
    using assms by (simp add: st32_def numeral_eq_Suc)
  have "replicate (4 * Suc n) b = replicate 4 b @ replicate (4 * n) b"
    by (simp add: replicate_add [symmetric])
  then have "store_bytes tr m edi (replicate (4 * Suc n) b) =
      store_bytes tr (store_bytes tr m edi (replicate 4 b)) (edi + 4) (replicate (4 * n) b)"
    by (simp only: store_bytes_append) simp
  with Suc show ?case by (simp add: w algebra_simps del: store_bytes.simps replicate.simps)
qed simp

lemma memset_bottom_eq:
  "memset_bottom tr m eax edi edx = store_bytes tr m edi (replicate (unat edx) (byte_of_word 0 eax))"
proof (induction tr m eax edi edx rule: memset_bottom.induct)
  case (1 tr m eax edi edx)
  then show ?case
    by (subst memset_bottom.simps) (simp add: unat_minus_Suc_u32 [of edx])
qed

lemma memset_aligned_eq:
  assumes "\<And>i. i < 4 \<Longrightarrow> byte_of_word i eax = b"
  shows "memset_aligned tr m eax edi ecx = store_bytes tr m edi (replicate (unat ecx) b)"
proof -
  have "byte_of_word 0 eax = b" using assms by simp
  then show ?thesis
    unfolding memset_aligned_def
    by (simp add: rep_stosl_eq [OF assms] memset_bottom_eq Let_def
        unat_split4 [of ecx] replicate_add store_bytes_append)
qed

lemma memset_top_eq:
  assumes "\<And>i. i < 4 \<Longrightarrow> byte_of_word i eax = b"
  shows "memset_top tr m eax edi ecx = store_bytes tr m edi (replicate (unat ecx) b)"
  using assms
proof (induction tr m eax edi ecx rule: memset_top.induct)
  case (1 tr m eax edi ecx)
  have b: "byte_of_word 0 eax = b" using 1(2) by simp
  show ?case
  proof (cases "ecx = 0 \<or> edi AND 3 = 0")
    case True
    then show ?thesis
      using memset_aligned_eq [OF 1(2)] by (subst memset_top.simps) auto
  next
    case False
    then have "memset_top tr (st8 tr m edi b) eax (edi + 1) (ecx - 1) =
        store_bytes tr (st8 tr m edi b) (edi + 1) (replicate (unat (ecx - 1)) b)"
      using 1 b by blast
    then show ?thesis
      using False b by (subst memset_top.simps) (simp add: unat_minus_Suc_u32 [of ecx])
  qed
qed

lemma memset_pattern:
  fixes c :: u32
  assumes "i < 4"
  shows "byte_of_word i (push_bit 24 (c AND 0xFF) OR push_bit 16 (c AND 0xFF) OR
    push_bit 8 (c AND 0xFF) OR (c AND 0xFF)) = ucast c"
proof (rule bit_word_eqI)
  fix n assume n: "n < LENGTH(8)"
  have ff: "(0xFF :: u32) = mask 8" by (simp add: mask_eq_exp_minus_1)
  from assms consider "i = 0" | "i = 1" | "i = 2" | "i = 3" by linarith
  then show "bit (byte_of_word i (push_bit 24 (c AND 0xFF) OR push_bit 16 (c AND 0xFF) OR
    push_bit 8 (c AND 0xFF) OR (c AND 0xFF))) n = bit (ucast c :: u8) n"
    using n by cases (auto simp: bit_byte_of_word ff bit_simps)
qed

lemma memset_eq: "memset tr m s c n = store_bytes tr m s (replicate (unat n) (ucast c))"
  unfolding memset_def Let_def by (rule memset_top_eq) (rule memset_pattern)

lemma rep_stosw_eq:
  "rep_stosw tr m eax edi n =
     (store_bytes tr m edi (concat (replicate n [byte_of_word 0 eax, byte_of_word 1 eax])),
      edi + of_nat (2 * n))"
  by (induction n arbitrary: m edi) (auto simp: algebra_simps)

lemma memset_word_eq:
  "memset_word tr m s c n =
     store_bytes tr m s (concat (replicate (unat n) [byte_of_word 0 c, byte_of_word 1 c]))"
  by (simp add: memset_word_def rep_stosw_eq)

lemma rep_stosl_concat:
  "fst (rep_stosl tr m eax edi n) =
     store_bytes tr m edi (concat (replicate n (map (\<lambda>i. byte_of_word i eax) [0, 1, 2, 3])))"
proof (induction n arbitrary: m edi)
  case (Suc n)
  then show ?case by (simp add: st32_def algebra_simps)
qed simp

lemma memset_dword_eq:
  "memset_dword tr m s c n =
     store_bytes tr m s (concat (replicate (unat n) (map (\<lambda>i. byte_of_word i c) [0, 1, 2, 3])))"
  by (simp add: memset_dword_def rep_stosl_concat)

section \<open>memcpy and memmove copy a range\<close>

lemma st32_ld32: "st32 tr m edi (ld32 tr m esi) = store_bytes tr m edi (load_bytes tr m esi 4)"
  by (simp add: st32_def ld32_def load_bytes_4 del: load_bytes.simps)

context address_space
begin

text \<open>
  One step of a copy: the bytes still to be read are not affected by the bytes just written,
  as long as source and destination do not overlap.
\<close>

lemma copy_step:
  assumes "rng esi (i + j) \<subseteq> mapped" "rng edi (i + j) \<subseteq> mapped"
    and "rng esi (i + j) \<inter> rng edi (i + j) = {}" "i + j \<le> 4294967296"
  shows "store_bytes tr (store_bytes tr m edi (load_bytes tr m esi i)) (edi + of_nat i)
      (load_bytes tr (store_bytes tr m edi (load_bytes tr m esi i)) (esi + of_nat i) j) =
    store_bytes tr m edi (load_bytes tr m esi (i + j))"
proof -
  have "rng edi i \<subseteq> rng edi (i + j)" "rng (esi + of_nat i) j \<subseteq> rng esi (i + j)"
    by (simp_all add: rng_mono rng_sub)
  then have "load_bytes tr (store_bytes tr m edi (load_bytes tr m esi i)) (esi + of_nat i) j =
      load_bytes tr m (esi + of_nat i) j"
    using assms by (intro load_store_disjoint) auto
  then show ?thesis by (simp add: load_bytes_append store_bytes_append)
qed

lemma rep_movsl_eq:
  assumes "rng esi (4 * n) \<subseteq> mapped" "rng edi (4 * n) \<subseteq> mapped"
    and "rng esi (4 * n) \<inter> rng edi (4 * n) = {}" "4 * n \<le> 4294967296"
  shows "rep_movsl tr m esi edi n =
    (store_bytes tr m edi (load_bytes tr m esi (4 * n)), esi + of_nat (4 * n), edi + of_nat (4 * n))"
  using assms
proof (induction n arbitrary: m esi edi)
  case (Suc n)
  have sub: "rng (esi + of_nat 4) (4 * n) \<subseteq> rng esi (4 * Suc n)"
    "rng (edi + of_nat 4) (4 * n) \<subseteq> rng edi (4 * Suc n)"
    by (rule rng_sub; simp)+
  define m' where "m' = store_bytes tr m edi (load_bytes tr m esi 4)"
  have "rep_movsl tr m' (esi + 4) (edi + 4) n =
    (store_bytes tr m' (edi + 4) (load_bytes tr m' (esi + 4) (4 * n)),
     esi + 4 + of_nat (4 * n), edi + 4 + of_nat (4 * n))"
    using Suc.prems sub by (intro Suc.IH) auto
  moreover have "store_bytes tr m' (edi + 4) (load_bytes tr m' (esi + 4) (4 * n)) =
      store_bytes tr m edi (load_bytes tr m esi (4 + 4 * n))"
    unfolding m'_def using copy_step [of esi 4 "4 * n" edi m] Suc.prems by simp
  ultimately show ?case by (simp add: st32_ld32 m'_def algebra_simps)
qed simp

text \<open>The byte loops at the head and at the tail of \<open>memcpy\<close> move one byte first.\<close>

lemma copy_first:
  assumes "rng esi (Suc n) \<subseteq> mapped" "rng edi (Suc n) \<subseteq> mapped"
    and "rng esi (Suc n) \<inter> rng edi (Suc n) = {}" "Suc n \<le> 4294967296"
  shows "store_bytes tr (st8 tr m edi (ld8 tr m esi)) (edi + 1)
      (load_bytes tr (st8 tr m edi (ld8 tr m esi)) (esi + 1) n) =
    store_bytes tr m edi (load_bytes tr m esi (Suc n))"
  using copy_step [of esi 1 n edi m] assms by simp

lemma copy_rest:
  assumes "rng esi (Suc n) \<subseteq> mapped" "rng edi (Suc n) \<subseteq> mapped"
    and "rng esi (Suc n) \<inter> rng edi (Suc n) = {}"
  shows "rng (esi + 1) n \<subseteq> mapped" "rng (edi + 1) n \<subseteq> mapped"
    "rng (esi + 1) n \<inter> rng (edi + 1) n = {}"
proof -
  have "rng (esi + of_nat 1) n \<subseteq> rng esi (Suc n)" "rng (edi + of_nat 1) n \<subseteq> rng edi (Suc n)"
    by (rule rng_sub; simp)+
  with assms show "rng (esi + 1) n \<subseteq> mapped" "rng (edi + 1) n \<subseteq> mapped"
    "rng (esi + 1) n \<inter> rng (edi + 1) n = {}" by auto
qed

lemma memcpy_bottom_eq:
  assumes "unat edx = n" "rng esi n \<subseteq> mapped" "rng edi n \<subseteq> mapped" "rng esi n \<inter> rng edi n = {}"
  shows "memcpy_bottom tr m esi edi edx = store_bytes tr m edi (load_bytes tr m esi n)"
  using assms
proof (induction n arbitrary: m esi edi edx)
  case 0
  then show ?case by (subst memcpy_bottom.simps) (simp add: unat_eq_0)
next
  case (Suc n)
  note edx = unat_Suc_u32 [OF Suc.prems(1) [symmetric]]
  have "Suc n \<le> 4294967296" using Suc.prems(1) unat_lt_2p32 [of edx] by linarith
  then show ?case
    using Suc.IH [OF edx(2) copy_rest [OF Suc.prems(2-4)]] copy_first [OF Suc.prems(2-4)] edx(1)
    by (subst memcpy_bottom.simps) simp
qed

lemma memcpy_aligned_eq:
  assumes "rng esi (unat ecx) \<subseteq> mapped" "rng edi (unat ecx) \<subseteq> mapped"
    and "rng esi (unat ecx) \<inter> rng edi (unat ecx) = {}"
  shows "memcpy_aligned tr m esi edi ecx = store_bytes tr m edi (load_bytes tr m esi (unat ecx))"
proof -
  define q r where "q = 4 * unat (drop_bit 2 ecx)" and "r = unat (ecx AND 3)"
  have qr: "unat ecx = q + r" unfolding q_def r_def by (rule unat_split4)
  have le: "q + r \<le> 4294967296" using unat_lt_2p32 [of ecx] unfolding qr by (rule less_imp_le)
  note prems = assms [unfolded qr]
  have subq: "rng esi q \<subseteq> rng esi (q + r)" "rng edi q \<subseteq> rng edi (q + r)"
    by (simp_all add: rng_mono)
  have subr: "rng (esi + of_nat q) r \<subseteq> rng esi (q + r)" "rng (edi + of_nat q) r \<subseteq> rng edi (q + r)"
    by (rule rng_sub; simp)+
  define m' where "m' = store_bytes tr m edi (load_bytes tr m esi q)"
  have movs: "rng esi q \<subseteq> mapped" "rng edi q \<subseteq> mapped" "rng esi q \<inter> rng edi q = {}" "q \<le> 4294967296"
    using prems subq le by auto
  have "rep_movsl tr m esi edi (unat (drop_bit 2 ecx)) = (m', esi + of_nat q, edi + of_nat q)"
    using rep_movsl_eq [OF movs [unfolded q_def]] unfolding m'_def q_def .
  moreover have "memcpy_bottom tr m' (esi + of_nat q) (edi + of_nat q) (ecx AND 3) =
      store_bytes tr m' (edi + of_nat q) (load_bytes tr m' (esi + of_nat q) r)"
    using prems subr by (intro memcpy_bottom_eq) (auto simp: r_def)
  ultimately show ?thesis
    unfolding memcpy_aligned_def m'_def qr using copy_step [OF prems le]
    by (simp add: Let_def)
qed

lemma memcpy_top_eq:
  assumes "unat ecx = n" "rng esi n \<subseteq> mapped" "rng edi n \<subseteq> mapped" "rng esi n \<inter> rng edi n = {}"
  shows "memcpy_top tr m esi edi ecx = store_bytes tr m edi (load_bytes tr m esi n)"
  using assms
proof (induction n arbitrary: m esi edi ecx)
  case 0
  then show ?case by (subst memcpy_top.simps) (simp add: unat_eq_0)
next
  case (Suc n)
  note ecx = unat_Suc_u32 [OF Suc.prems(1) [symmetric]]
  have "Suc n \<le> 4294967296" using Suc.prems(1) unat_lt_2p32 [of ecx] by linarith
  then show ?case
    using Suc.IH [OF ecx(2) copy_rest [OF Suc.prems(2-4)]] copy_first [OF Suc.prems(2-4)] ecx(1)
      memcpy_aligned_eq [of esi ecx edi m] Suc.prems
    by (subst memcpy_top.simps) simp
qed

lemma memcpy_eq:
  assumes "rng src (unat n) \<subseteq> mapped" "rng dest (unat n) \<subseteq> mapped"
    and "rng src (unat n) \<inter> rng dest (unat n) = {}"
  shows "memcpy tr m dest src n = store_bytes tr m dest (load_bytes tr m src (unat n))"
  unfolding memcpy_def using refl assms by (rule memcpy_top_eq)

text \<open>
  \<open>memmove\<close>: the forward copy is right when no byte written is read later, the backward copy
  when no byte written is read earlier. Both conditions follow from the order of the two
  addresses when neither range wraps around the end of the address space.
\<close>

lemma rep_movsb_eq:
  assumes "rng esi n \<subseteq> mapped" "rng edi n \<subseteq> mapped" "n \<le> 4294967296"
    and "\<And>i k. i < k \<Longrightarrow> k < n \<Longrightarrow> esi + of_nat k \<noteq> edi + of_nat i"
  shows "rep_movsb tr m esi edi n = store_bytes tr m edi (load_bytes tr m esi n)"
  using assms
proof (induction n arbitrary: m esi edi)
  case (Suc n)
  define m' where "m' = st8 tr m edi (ld8 tr m esi)"
  have sub: "rng (esi + of_nat 1) n \<subseteq> rng esi (Suc n)" "rng (edi + of_nat 1) n \<subseteq> rng edi (Suc n)"
    by (rule rng_sub; simp)+
  have "esi + 1 + of_nat k \<noteq> edi + 1 + of_nat i" if "i < k" "k < n" for i k
    using Suc.prems(4) [of "Suc i" "Suc k"] that by (simp add: algebra_simps)
  then have "rep_movsb tr m' (esi + 1) (edi + 1) n =
      store_bytes tr m' (edi + 1) (load_bytes tr m' (esi + 1) n)"
    using Suc.prems sub by (intro Suc.IH) auto
  moreover have "load_bytes tr m' (esi + 1) n = load_bytes tr m (esi + 1) n"
  proof (rule load_bytes_cong)
    fix x assume x: "x \<in> rng (esi + 1) n"
    then have "Suc (unat (x - (esi + 1))) < Suc n" by (simp add: rng_def)
    then have "esi + of_nat (Suc (unat (x - (esi + 1)))) \<noteq> edi + of_nat 0"
      by (intro Suc.prems(4)) auto
    then have "x \<noteq> edi" by simp
    moreover have "x \<in> mapped" "edi \<in> mapped"
      using x sub Suc.prems(1,2) by (auto simp: rng_def)
    ultimately show "ld8 tr m' x = ld8 tr m x" by (simp add: m'_def)
  qed (use Suc.prems in simp)
  ultimately show ?case by (simp add: m'_def)
qed simp

lemma rep_movsb_std_eq:
  assumes "rng esi n \<subseteq> mapped" "rng edi n \<subseteq> mapped" "n < 4294967296"
    and "\<And>i k. k < i \<Longrightarrow> i < n \<Longrightarrow> esi + of_nat k \<noteq> edi + of_nat i"
  shows "rep_movsb_std tr m (esi + of_nat n - 1) (edi + of_nat n - 1) n =
    store_bytes tr m edi (load_bytes tr m esi n)"
  using assms
proof (induction n arbitrary: m)
  case (Suc n)
  define m' where "m' = st8 tr m (edi + of_nat n) (ld8 tr m (esi + of_nat n))"
  have sub: "rng esi n \<subseteq> rng esi (Suc n)" "rng edi n \<subseteq> rng edi (Suc n)"
    by (simp_all add: rng_mono)
  have last: "edi + of_nat n \<in> rng edi (Suc n)" "edi + of_nat n \<notin> rng edi n"
    using Suc.prems(3) by (simp_all add: rng_def unat_of_nat_u32)
  have IH: "rep_movsb_std tr m' (esi + of_nat n - 1) (edi + of_nat n - 1) n =
      store_bytes tr m' edi (load_bytes tr m' esi n)"
    using Suc.prems sub by (intro Suc.IH) auto
  have "load_bytes tr m' esi n = load_bytes tr m esi n"
  proof (rule load_bytes_cong)
    fix x assume x: "x \<in> rng esi n"
    then have "esi + of_nat (unat (x - esi)) \<noteq> edi + of_nat n"
      using Suc.prems(4) [of "unat (x - esi)" n] by (simp add: rng_def)
    then have "x \<noteq> edi + of_nat n" by simp
    with x sub last Suc.prems(1,2) show "ld8 tr m' x = ld8 tr m x"
      by (simp add: m'_def subset_iff)
  qed (use Suc.prems in simp)
  moreover have "store_bytes tr m' edi (load_bytes tr m esi n) =
      st8 tr (store_bytes tr m edi (load_bytes tr m esi n)) (edi + of_nat n) (ld8 tr m (esi + of_nat n))"
    unfolding m'_def using Suc.prems sub last by (intro st8_store_commute) auto
  moreover have "load_bytes tr m esi (Suc n) = load_bytes tr m esi n @ [ld8 tr m (esi + of_nat n)]"
    using load_bytes_append [of tr m esi n 1] by simp
  ultimately show ?case
    using IH by (simp add: m'_def [symmetric] store_bytes_append algebra_simps del: load_bytes.simps)
qed simp

lemma memmove_eq:
  assumes "rng src (unat n) \<subseteq> mapped" "rng dest (unat n) \<subseteq> mapped"
    and "unat src + unat n \<le> 4294967296" "unat dest + unat n \<le> 4294967296"
  shows "memmove tr m dest src n = store_bytes tr m dest (load_bytes tr m src (unat n))"
proof -
  have pos: "unat (a + of_nat k) = unat a + k" if "unat a + unat n \<le> 4294967296" "k < unat n"
    for a :: addr and k
  proof -
    have "k < 4294967296" using that unat_lt_2p32 [of n] by linarith
    then have "unat (of_nat k :: u32) = k" by (rule unat_of_nat_u32)
    with that show ?thesis by (subst unat_plus_if') (simp add: unat_of_nat_u32)
  qed
  show ?thesis
  proof (cases "src \<ge> dest")
    case True
    then have "src + of_nat k \<noteq> dest + of_nat i" if "i < k" "k < unat n" for i k
      using that pos [OF assms(3), of k] pos [OF assms(4), of i]
      by (auto simp: word_le_nat_alt dest!: arg_cong [where f = unat])
    then show ?thesis
      using True assms rep_movsb_eq [of src "unat n" dest m] unat_lt_2p32 [of n, THEN less_imp_le]
      unfolding memmove_def by simp
  next
    case False
    then have "src + of_nat k \<noteq> dest + of_nat i" if "k < i" "i < unat n" for i k
      using that pos [OF assms(3), of k] pos [OF assms(4), of i]
      by (auto simp: word_le_nat_alt dest!: arg_cong [where f = unat])
    then show ?thesis
      using False assms rep_movsb_std_eq [of src "unat n" dest m] unat_lt_2p32 [of n]
      unfolding memmove_def by simp
  qed
qed

end

section \<open>Properties\<close>

lemma load_store_frame:
  assumes "address_space tr mapped" "rng a (length bs) \<subseteq> mapped" "length bs \<le> 4294967296"
  shows "load_bytes tr (store_bytes tr m a bs) a (length bs) = bs \<and>
    (\<forall>p. p \<notin> tr ` rng a (length bs) \<longrightarrow> store_bytes tr m a bs p = m p)"
  using assms by (auto simp: address_space.load_store_same store_bytes_frame)

text \<open>
  C11. \<open>memcpy\<close> copies: for source and destination ranges that are mapped injectively and do not
  overlap, whatever their alignment, the destination afterwards reads as the source did, and no
  physical byte outside the destination changes.
\<close>

theorem memcpy_copies:
  assumes "inj_on tr mapped" "rng src (unat n) \<subseteq> mapped" "rng dest (unat n) \<subseteq> mapped"
    and "rng src (unat n) \<inter> rng dest (unat n) = {}"
  shows "load_bytes tr (memcpy tr m dest src n) dest (unat n) = load_bytes tr m src (unat n) \<and>
    (\<forall>p. p \<notin> tr ` rng dest (unat n) \<longrightarrow> memcpy tr m dest src n p = m p)"
proof -
  have as: "address_space tr mapped" using assms(1) by (rule address_space.intro)
  show ?thesis
    unfolding address_space.memcpy_eq [OF as assms(2-4)]
    using load_store_frame [OF as, of dest "load_bytes tr m src (unat n)" m] assms(3)
    by (simp add: less_imp_le)
qed

theorem memcpy_copies_witness:
  "load_bytes (\<lambda>a. a) (memcpy (\<lambda>a. a) (\<lambda>a. ucast a) 0x1003 0x2001 9) 0x1003 9 =
     [0x01, 0x02, 0x03, 0x04, 0x05, 0x06, 0x07, 0x08, 0x09]"
  using memcpy_copies [of "\<lambda>a. a" UNIV "0x2001" 9 "0x1003" "\<lambda>a. ucast a"]
    rng_disjoint(2) [of "0x1003" 9 "0x2001" 9]
  by (simp add: load_bytes_numeral ld8_def)

text \<open>
  \<open>memmove\<close> copies also when the ranges overlap, in either direction, as long as neither
  wraps around the end of the address space.
\<close>

theorem memmove_copies:
  assumes "inj_on tr mapped" "rng src (unat n) \<subseteq> mapped" "rng dest (unat n) \<subseteq> mapped"
    and "unat src + unat n \<le> 4294967296" "unat dest + unat n \<le> 4294967296"
  shows "load_bytes tr (memmove tr m dest src n) dest (unat n) = load_bytes tr m src (unat n) \<and>
    (\<forall>p. p \<notin> tr ` rng dest (unat n) \<longrightarrow> memmove tr m dest src n p = m p)"
proof -
  have as: "address_space tr mapped" using assms(1) by (rule address_space.intro)
  show ?thesis
    unfolding address_space.memmove_eq [OF as assms(2-5)]
    using load_store_frame [OF as, of dest "load_bytes tr m src (unat n)" m] assms(3)
    by (simp add: less_imp_le)
qed

theorem memmove_copies_witness:
  "load_bytes (\<lambda>a. a) (memmove (\<lambda>a. a) (\<lambda>a. ucast a) 0x1002 0x1000 5) 0x1002 5 = [0, 1, 2, 3, 4] \<and>
   load_bytes (\<lambda>a. a) (memmove (\<lambda>a. a) (\<lambda>a. ucast a) 0x1000 0x1002 5) 0x1000 5 = [2, 3, 4, 5, 6]"
  using memmove_copies [of "\<lambda>a. a" UNIV "0x1000" 5 "0x1002" "\<lambda>a. ucast a"]
    memmove_copies [of "\<lambda>a. a" UNIV "0x1002" 5 "0x1000" "\<lambda>a. ucast a"]
  by (simp add: load_bytes_numeral ld8_def)

text \<open>
  \<open>memset\<close> fills the range with the low byte of its argument, whatever the alignment, and
  changes nothing else.
\<close>

theorem memset_fills:
  assumes "inj_on tr mapped" "rng s (unat n) \<subseteq> mapped"
  shows "load_bytes tr (memset tr m s c n) s (unat n) = replicate (unat n) (ucast c) \<and>
    (\<forall>p. p \<notin> tr ` rng s (unat n) \<longrightarrow> memset tr m s c n p = m p)"
proof -
  have as: "address_space tr mapped" using assms(1) by (rule address_space.intro)
  show ?thesis
    unfolding memset_eq
    using load_store_frame [OF as, of s "replicate (unat n) (ucast c)" m] assms(2)
    by (simp add: less_imp_le)
qed

theorem memset_fills_witness:
  "load_bytes (\<lambda>a. a) (memset (\<lambda>a. a) (\<lambda>a. 0) 0x1001 0x1A5 7) 0x1001 7 = replicate 7 0xA5"
  using memset_fills [of "\<lambda>a. a" UNIV "0x1001" 7 "\<lambda>a. 0" "0x1A5"] by simp

end
