(* ===== verification/Lib_String.thy ===== *)
theory Lib_String
  imports Lib_Mem
begin

text \<open>
  The NUL-terminated string routines of \<^verbatim>\<open>student-distrib/lib.c\<close>: \<open>strlen\<close>,
  \<open>strncmp\<close>, \<open>strcpy\<close>, \<open>strncpy\<close>, \<open>strrev\<close> and \<open>itoa\<close>, over the byte memory. The scans that
  need a terminator to stop are partial functions, with \<open>None\<close> for a scan that never returns.
  The predicate \<open>cstring\<close> is the abstraction of a string in memory; the lemmas state each routine
  against lists of bytes, and \<open>itoa\<close> against the positional numeral of its argument.
\<close>

section \<open>Strings in memory\<close>

definition cstring :: "translation \<Rightarrow> memory \<Rightarrow> addr \<Rightarrow> bytes \<Rightarrow> bool" where
  "cstring tr m s bs \<longleftrightarrow>
     load_bytes tr m s (length bs) = bs \<and> ld8 tr m (s + of_nat (length bs)) = 0 \<and>
     0 \<notin> set bs \<and> length bs < 4294967296"

section \<open>The routines\<close>

partial_function (option) strlen_loop ::
  "translation \<Rightarrow> memory \<Rightarrow> addr \<Rightarrow> u32 \<Rightarrow> u32 option" where
  "strlen_loop tr m s len =
     (if ld8 tr m (s + len) \<noteq> 0 then strlen_loop tr m s (len + 1) else Some len)"

definition strlen :: "translation \<Rightarrow> memory \<Rightarrow> addr \<Rightarrow> u32 option" where
  "strlen tr m s = strlen_loop tr m s 0"

text \<open>
  \<open>i < n\<close> compares an \<open>int32_t\<close> with a \<open>uint32_t\<close>, hence unsigned; the characters are
  \<open>int8_t\<close>, so that their difference is taken after sign extension.
\<close>

function strncmp_loop ::
  "translation \<Rightarrow> memory \<Rightarrow> addr \<Rightarrow> addr \<Rightarrow> u32 \<Rightarrow> u32 \<Rightarrow> u32" where
  "strncmp_loop tr m s1 s2 n i =
     (if i < n then
        let c1 = ld8 tr m (s1 + i); c2 = ld8 tr m (s2 + i)
        in if c1 \<noteq> c2 \<or> c1 = 0 then scast c1 - scast c2
           else strncmp_loop tr m s1 s2 n (i + 1)
      else 0)"
  by pat_completeness auto
termination
  by (relation "measure (\<lambda>(tr, m, s1, s2, n, i). unat n - unat i)") (simp_all add: count_up_u32)

definition strncmp :: "translation \<Rightarrow> memory \<Rightarrow> addr \<Rightarrow> addr \<Rightarrow> u32 \<Rightarrow> u32" where
  "strncmp tr m s1 s2 n = strncmp_loop tr m s1 s2 n 0"

partial_function (option) strcpy_loop ::
  "translation \<Rightarrow> memory \<Rightarrow> addr \<Rightarrow> addr \<Rightarrow> u32 \<Rightarrow> memory option" where
  "strcpy_loop tr m dest src i =
     (if ld8 tr m (src + i) \<noteq> 0
      then strcpy_loop tr (st8 tr m (dest + i) (ld8 tr m (src + i))) dest src (i + 1)
      else Some (st8 tr m (dest + i) 0))"

definition strcpy :: "translation \<Rightarrow> memory \<Rightarrow> addr \<Rightarrow> addr \<Rightarrow> memory option" where
  "strcpy tr m dest src = strcpy_loop tr m dest src 0"

function strncpy_copy ::
  "translation \<Rightarrow> memory \<Rightarrow> addr \<Rightarrow> addr \<Rightarrow> u32 \<Rightarrow> u32 \<Rightarrow> memory \<times> u32" where
  "strncpy_copy tr m dest src n i =
     (if ld8 tr m (src + i) \<noteq> 0 \<and> i < n
      then strncpy_copy tr (st8 tr m (dest + i) (ld8 tr m (src + i))) dest src n (i + 1)
      else (m, i))"
  by pat_completeness auto
termination
  by (relation "measure (\<lambda>(tr, m, dest, src, n, i). unat n - unat i)") (simp_all add: count_up_u32)

function strncpy_pad :: "translation \<Rightarrow> memory \<Rightarrow> addr \<Rightarrow> u32 \<Rightarrow> u32 \<Rightarrow> memory" where
  "strncpy_pad tr m dest n i =
     (if i < n then strncpy_pad tr (st8 tr m (dest + i) 0) dest n (i + 1) else m)"
  by pat_completeness auto
termination
  by (relation "measure (\<lambda>(tr, m, dest, n, i). unat n - unat i)") (simp_all add: count_up_u32)

definition strncpy :: "translation \<Rightarrow> memory \<Rightarrow> addr \<Rightarrow> addr \<Rightarrow> u32 \<Rightarrow> memory" where
  "strncpy tr m dest src n =
     (let (m', i) = strncpy_copy tr m dest src n 0 in strncpy_pad tr m' dest n i)"

function strrev_loop :: "translation \<Rightarrow> memory \<Rightarrow> addr \<Rightarrow> int \<Rightarrow> int \<Rightarrow> memory" where
  "strrev_loop tr m s beg end =
     (if beg < end then
        let tmp = ld8 tr m (s + of_int end);
            m1 = st8 tr m (s + of_int end) (ld8 tr m (s + of_int beg));
            m2 = st8 tr m1 (s + of_int beg) tmp
        in strrev_loop tr m2 s (beg + 1) (end - 1)
      else m)"
  by pat_completeness auto
termination
  by (relation "measure (\<lambda>(tr, m, s, beg, end). nat (end - beg))") auto

text \<open>\<open>beg\<close> and \<open>end\<close> are \<open>int32_t\<close>: \<open>end = strlen(s) - 1\<close> is read as a signed word.\<close>

definition strrev :: "translation \<Rightarrow> memory \<Rightarrow> addr \<Rightarrow> memory option" where
  "strrev tr m s =
     (case strlen tr m s of None \<Rightarrow> None
      | Some len \<Rightarrow> Some (strrev_loop tr m s 0 (sint (len - 1))))"

definition lookup :: bytes where
  "lookup = lit ''0123456789ABCDEFGHIJKLMNOPQRSTUVWXYZ'' @ [0]"

text \<open>
  The digit loop of \<open>itoa\<close>. \<open>None\<close> stands for a division by zero (radix 0), a read behind the
  37 bytes of \<open>lookup\<close>, and a loop that does not end (radix 1).
\<close>

partial_function (option) itoa_loop ::
  "translation \<Rightarrow> memory \<Rightarrow> u32 \<Rightarrow> addr \<Rightarrow> u32 \<Rightarrow> (memory \<times> addr) option" where
  "itoa_loop tr m newval newbuf radix =
     (if newval > 0 then
        (if radix = 0 \<or> 37 \<le> unat (newval mod radix) then None
         else itoa_loop tr (st8 tr m newbuf (lookup ! unat (newval mod radix)))
                (newval div radix) (newbuf + 1) radix)
      else Some (m, newbuf))"

definition itoa :: "translation \<Rightarrow> memory \<Rightarrow> u32 \<Rightarrow> addr \<Rightarrow> u32 \<Rightarrow> memory option" where
  "itoa tr m value buf radix =
     (if value = 0 then Some (st8 tr (st8 tr m buf (of_char CHR ''0'')) (buf + 1) 0)
      else case itoa_loop tr m value buf radix of None \<Rightarrow> None
           | Some (m', newbuf) \<Rightarrow> strrev tr (st8 tr m' newbuf 0) buf)"

declare strncmp_loop.simps [simp del] strncpy_copy.simps [simp del] strncpy_pad.simps [simp del]
  strrev_loop.simps [simp del]

section \<open>strlen\<close>

lemma cstring_nth:
  assumes "cstring tr m s bs" "i \<le> length bs"
  shows "ld8 tr m (s + of_nat i) = (bs @ [0]) ! i"
  using assms nth_load_bytes [of i "length bs" tr m s]
  by (cases "i = length bs") (auto simp: cstring_def nth_append)

lemma cstring_nz:
  assumes "cstring tr m s bs" "i < length bs"
  shows "ld8 tr m (s + of_nat i) \<noteq> 0"
  using assms cstring_nth [of tr m s bs i] by (auto simp: cstring_def nth_append) (metis nth_mem)

lemma strlen_loop_skip:
  assumes "\<And>j. j < k \<Longrightarrow> ld8 tr m (s + of_nat (i + j)) \<noteq> 0"
  shows "strlen_loop tr m s (of_nat i) = strlen_loop tr m s (of_nat (i + k))"
  using assms
proof (induction k arbitrary: i)
  case (Suc k)
  have "strlen_loop tr m s (of_nat i) = strlen_loop tr m s (of_nat (Suc i))"
    using Suc.prems [of 0] by (subst strlen_loop.simps) (simp add: add.commute)
  also have "\<dots> = strlen_loop tr m s (of_nat (Suc i + k))"
    using Suc.prems [of "Suc _"] by (intro Suc.IH) (simp add: add.commute)
  finally show ?case by simp
qed simp

lemma strlen_cstring:
  assumes "cstring tr m s bs"
  shows "strlen tr m s = Some (of_nat (length bs))"
proof -
  have "strlen tr m s = strlen_loop tr m s (of_nat (0 + length bs))"
    unfolding strlen_def using strlen_loop_skip [of "length bs" tr m s 0] cstring_nz [OF assms] by simp
  then show ?thesis
    using assms by (subst (asm) strlen_loop.simps) (simp add: cstring_def)
qed

text \<open>Conversely a result of \<open>strlen\<close> delimits a string, and one exists as soon as there is a NUL.\<close>

lemma cstring_exists:
  assumes "ld8 tr m (s + of_nat n) = 0" "n < 4294967296"
  shows "\<exists>bs. cstring tr m s bs \<and> length bs \<le> n"
proof -
  define k where "k = (LEAST k. ld8 tr m (s + of_nat k) = 0)"
  have k: "ld8 tr m (s + of_nat k) = 0" "k \<le> n"
    unfolding k_def using assms(1) by (auto intro: LeastI Least_le)
  have nz: "ld8 tr m (s + of_nat j) \<noteq> 0" if "j < k" for j
    using that not_less_Least [of j "\<lambda>k. ld8 tr m (s + of_nat k) = 0"] by (auto simp: k_def)
  have "cstring tr m s (load_bytes tr m s k)"
    using k nz assms(2) by (auto simp: cstring_def in_set_conv_nth)
  with k show ?thesis by (intro exI [of _ "load_bytes tr m s k"]) simp
qed

lemma strlen_SomeD:
  assumes "strlen tr m s = Some n"
  shows "ld8 tr m (s + n) = 0"
proof -
  have "strlen_loop tr m s x = Some y \<Longrightarrow> ld8 tr m (s + y) = 0" for x y
    by (rule strlen_loop.raw_induct [where P = "\<lambda>tr m s x y. ld8 tr m (s + y) = 0"])
       (auto split: if_splits)
  then show ?thesis using assms by (simp add: strlen_def)
qed

section \<open>strncmp\<close>

text \<open>The comparison on lists of bytes that \<open>strncmp\<close> implements.\<close>

fun strncmp_list :: "nat \<Rightarrow> bytes \<Rightarrow> bytes \<Rightarrow> u32" where
  "strncmp_list 0 xs ys = 0"
| "strncmp_list (Suc n) xs ys =
     (let c1 = (xs @ [0]) ! 0; c2 = (ys @ [0]) ! 0
      in if c1 \<noteq> c2 \<or> c1 = 0 then scast c1 - scast c2 else strncmp_list n (tl xs) (tl ys))"

lemma cstring_drop_hd:
  assumes "cstring tr m s bs" "i \<le> length bs"
  shows "ld8 tr m (s + of_nat i) = (drop i bs @ [0]) ! 0"
  using cstring_nth [OF assms] assms(2) by (cases "i = length bs") (auto simp: nth_append)

lemma strncmp_loop_list:
  assumes "cstring tr m s1 xs" "cstring tr m s2 ys"
    and "i \<le> length xs" "i \<le> length ys" "k = unat n - i" "i \<le> unat n"
  shows "strncmp_loop tr m s1 s2 n (of_nat i) = strncmp_list k (drop i xs) (drop i ys)"
  using assms(3-)
proof (induction k arbitrary: i)
  case 0
  then show ?case by (subst strncmp_loop.simps) (simp add: of_nat_less_u32)
next
  case (Suc k)
  have i: "i < unat n" using Suc.prems by linarith
  then have lt: "of_nat i < n"
    by (simp add: of_nat_less_u32)
  let ?c1 = "ld8 tr m (s1 + of_nat i)" and ?c2 = "ld8 tr m (s2 + of_nat i)"
  have c: "?c1 = (drop i xs @ [0]) ! 0" "?c2 = (drop i ys @ [0]) ! 0"
    using Suc.prems assms(1,2) by (simp_all add: cstring_drop_hd)
  show ?case
  proof (cases "?c1 \<noteq> ?c2 \<or> ?c1 = 0")
    case True
    with lt c show ?thesis by (subst strncmp_loop.simps) (simp add: Let_def)
  next
    case False
    then have "i < length xs" "i < length ys"
      using Suc.prems assms(1,2) by (auto simp: cstring_def le_less)
    then have "strncmp_loop tr m s1 s2 n (of_nat (Suc i)) = strncmp_list k (drop (Suc i) xs) (drop (Suc i) ys)"
      using Suc.prems i by (intro Suc.IH) auto
    with False lt c show ?thesis
      by (subst strncmp_loop.simps) (simp add: Let_def tl_drop [symmetric] drop_Suc add.commute)
  qed
qed

lemma strncmp_cstrings:
  assumes "cstring tr m s1 xs" "cstring tr m s2 ys"
  shows "strncmp tr m s1 s2 n = strncmp_list (unat n) xs ys"
  using strncmp_loop_list [OF assms, of 0 "unat n" n] by (simp add: strncmp_def)

lemma strncmp_list_0:
  assumes "0 \<notin> set xs" "0 \<notin> set ys"
  shows "strncmp_list n xs ys = 0 \<longleftrightarrow> take n xs = take n ys"
  using assms
proof (induction n arbitrary: xs ys)
  case (Suc n)
  then show ?case
    by (cases xs; cases ys) (auto simp: Let_def)
qed simp

lemma cstring_drop:
  assumes "cstring tr m s xs" "i \<le> length xs"
  shows "cstring tr m (s + of_nat i) (drop i xs)"
proof -
  have "load_bytes tr m (s + of_nat i) (length xs - i) = drop i xs"
  proof (rule load_bytes_eqI)
    fix l assume "l < length xs - i"
    then have "i + l < length xs" by simp
    then show "drop i xs ! l = ld8 tr m (s + of_nat i + of_nat l)"
      using cstring_nth [OF assms(1), of "i + l"] by (simp add: nth_append add.assoc)
  qed simp
  moreover have "ld8 tr m (s + of_nat (i + (length xs - i))) = 0"
    using assms by (simp add: cstring_def)
  moreover have "0 \<notin> set (drop i xs)" using assms(1) in_set_dropD by (fastforce simp: cstring_def)
  moreover have "length xs - i < 4294967296" using assms(1) by (auto simp: cstring_def)
  ultimately show ?thesis using assms by (simp add: cstring_def add.assoc)
qed

section \<open>strcpy and strncpy\<close>

context address_space
begin

lemma strcpy_loop_eq:
  assumes "cstring tr m src bs" "rng src (Suc (length bs)) \<subseteq> mapped"
    and "rng dest (Suc (length bs)) \<subseteq> mapped"
    and "rng src (Suc (length bs)) \<inter> rng dest (Suc (length bs)) = {}"
    and "k = length bs - i" "i \<le> length bs"
  shows "strcpy_loop tr (store_bytes tr m dest (take i bs)) dest src (of_nat i) =
    Some (store_bytes tr m dest (bs @ [0]))"
  using assms(5,6)
proof (induction k arbitrary: i)
  case 0
  then have i: "i = length bs" by simp
  have "ld8 tr (store_bytes tr m dest bs) (src + of_nat i) = ld8 tr m (src + of_nat i)"
    using assms i rng_offset [of i "Suc (length bs)" src] rng_mono [of "length bs" "Suc (length bs)" dest]
    by (intro ld8_store_outside) (auto simp: cstring_def)
  with assms(1) i show ?case
    by (subst strcpy_loop.simps) (simp add: cstring_def store_bytes_snoc)
next
  case (Suc k)
  then have i: "i < length bs" by linarith
  have "rng dest i \<subseteq> rng dest (Suc (length bs))" using i by (intro rng_mono) simp
  then have "ld8 tr (store_bytes tr m dest (take i bs)) (src + of_nat i) = ld8 tr m (src + of_nat i)"
    using assms i rng_offset [of i "Suc (length bs)" src]
    by (intro ld8_store_outside) (auto simp: cstring_def)
  also have "\<dots> = bs ! i" using cstring_nth [OF assms(1), of i] i by (simp add: nth_append)
  finally have c: "ld8 tr (store_bytes tr m dest (take i bs)) (src + of_nat i) = bs ! i" .
  have "bs ! i \<noteq> 0" using assms(1) i by (auto simp: cstring_def) (metis nth_mem)
  with c Suc.IH [of "Suc i"] Suc.prems i show ?case
    by (subst strcpy_loop.simps) (simp add: store_bytes_take_Suc add.commute)
qed

lemma strcpy_eq:
  assumes "cstring tr m src bs" "rng src (Suc (length bs)) \<subseteq> mapped"
    and "rng dest (Suc (length bs)) \<subseteq> mapped"
    and "rng src (Suc (length bs)) \<inter> rng dest (Suc (length bs)) = {}"
  shows "strcpy tr m dest src = Some (store_bytes tr m dest (bs @ [0]))"
  using strcpy_loop_eq [OF assms, of "length bs" 0] by (simp add: strcpy_def)

end

lemma strncpy_pad_eq:
  assumes "k = unat n - i" "i \<le> unat n"
  shows "strncpy_pad tr m dest n (of_nat i) = store_bytes tr m (dest + of_nat i) (replicate k 0)"
  using assms
proof (induction k arbitrary: i m)
  case 0
  then show ?case by (subst strncpy_pad.simps) (simp add: of_nat_less_u32)
next
  case (Suc k)
  then have "i < unat n" by linarith
  then have "of_nat i < n"
    by (simp add: of_nat_less_u32)
  moreover have "strncpy_pad tr m' dest n (of_nat (Suc i)) =
      store_bytes tr m' (dest + of_nat (Suc i)) (replicate k 0)" for m'
    using Suc.prems \<open>i < unat n\<close> by (intro Suc.IH) auto
  ultimately show ?case
    by (subst strncpy_pad.simps) (simp add: algebra_simps)
qed

context address_space
begin

lemma strncpy_copy_eq:
  assumes "cstring tr m src bs" "rng src (Suc (length bs)) \<subseteq> mapped" "rng dest (unat n) \<subseteq> mapped"
    and "rng src (Suc (length bs)) \<inter> rng dest (unat n) = {}"
    and "k = min (unat n) (length bs) - i" "i \<le> unat n" "i \<le> length bs"
  shows "strncpy_copy tr (store_bytes tr m dest (take i bs)) dest src n (of_nat i) =
    (store_bytes tr m dest (take (unat n) bs), of_nat (min (unat n) (length bs)))"
  using assms(5-)
proof (induction k arbitrary: i)
  case (0 i)
  have i: "i = min (unat n) (length bs)" using 0 by linarith
  have "rng dest i \<subseteq> rng dest (unat n)" using 0 by (intro rng_mono)
  then have "ld8 tr (store_bytes tr m dest (take i bs)) (src + of_nat i) = ld8 tr m (src + of_nat i)"
    using assms 0 rng_offset [of i "Suc (length bs)" src]
    by (intro ld8_store_outside) (auto simp: cstring_def)
  then have "\<not> (ld8 tr (store_bytes tr m dest (take i bs)) (src + of_nat i) \<noteq> 0 \<and> of_nat i < n)"
    using assms(1) i unat_lt_2p32 [of n]
    by (auto simp: min_def cstring_def word_less_nat_alt unat_of_nat_u32 split: if_splits)
  moreover have "take i bs = take (unat n) bs" using i by (simp add: min_def)
  ultimately show ?case using i by (subst strncpy_copy.simps) auto
next
  case (Suc k)
  then have i: "i < length bs" "i < unat n" by linarith+
  have "rng dest i \<subseteq> rng dest (unat n)" using i by (intro rng_mono) simp
  then have "ld8 tr (store_bytes tr m dest (take i bs)) (src + of_nat i) = ld8 tr m (src + of_nat i)"
    using assms i rng_offset [of i "Suc (length bs)" src]
    by (intro ld8_store_outside) (auto simp: cstring_def)
  also have "\<dots> = bs ! i" using cstring_nth [OF assms(1), of i] i by (simp add: nth_append)
  finally have c: "ld8 tr (store_bytes tr m dest (take i bs)) (src + of_nat i) = bs ! i" .
  have nz: "bs ! i \<noteq> 0" using assms(1) i by (auto simp: cstring_def) (metis nth_mem)
  have lt: "of_nat i < n"
    using i by (simp add: of_nat_less_u32)
  from c nz lt Suc.IH [of "Suc i"] Suc.prems i show ?case
    by (subst strncpy_copy.simps) (simp add: store_bytes_take_Suc add.commute)
qed

lemma strncpy_eq:
  assumes "cstring tr m src bs" "rng src (Suc (length bs)) \<subseteq> mapped" "rng dest (unat n) \<subseteq> mapped"
    and "rng src (Suc (length bs)) \<inter> rng dest (unat n) = {}"
  shows "strncpy tr m dest src n =
    store_bytes tr m dest (take (unat n) bs @ replicate (unat n - length bs) 0)"
proof -
  define i where "i = min (unat n) (length bs)"
  have "strncpy_copy tr m dest src n 0 = (store_bytes tr m dest (take (unat n) bs), of_nat i)"
    using strncpy_copy_eq [OF assms, of i 0] by (simp add: i_def)
  moreover have "unat n - i = unat n - length bs" "length (take (unat n) bs) = i"
    by (simp_all add: i_def min_def)
  moreover have "strncpy_pad tr m' dest n (of_nat i) =
      store_bytes tr m' (dest + of_nat i) (replicate (unat n - i) 0)" for m'
    by (rule strncpy_pad_eq) (simp_all add: i_def)
  ultimately show ?thesis
    by (simp add: strncpy_def store_bytes_append)
qed

end

section \<open>strrev\<close>

context address_space
begin

lemma cstring_store:
  assumes "0 \<notin> set bs" "Suc (length bs) \<le> 4294967296" "rng a (Suc (length bs)) \<subseteq> mapped"
  shows "cstring tr (store_bytes tr m a (bs @ [0])) a bs"
proof -
  have l: "load_bytes tr (store_bytes tr m a (bs @ [0])) a (length (bs @ [0])) = bs @ [0]"
    using assms by (intro load_store_same) auto
  have "load_bytes tr (store_bytes tr m a (bs @ [0])) a (length bs) = bs"
    using arg_cong [OF l, of "take (length bs)"] by (simp add: take_load_bytes del: load_bytes.simps)
  moreover have "ld8 tr (store_bytes tr m a (bs @ [0])) (a + of_nat (length bs)) = 0"
    using arg_cong [OF l, of "\<lambda>xs. xs ! length bs"] by (simp del: load_bytes.simps)
  ultimately show ?thesis using assms by (simp add: cstring_def)
qed

lemma strrev_loop_eq:
  assumes "rng s (length ys) \<subseteq> mapped" "length ys \<le> 4294967296" "e < length ys"
  shows "strrev_loop tr (store_bytes tr m s ys) s (int b) (int e) =
    store_bytes tr m s (map (\<lambda>i. if b \<le> i \<and> i \<le> e then ys ! (b + e - i) else ys ! i) [0..<length ys])"
  using assms
proof (induction "e - b" arbitrary: b e ys rule: less_induct)
  case less
  show ?case
  proof (cases "b < e")
    case False
    have "map (\<lambda>i. if b \<le> i \<and> i \<le> e then ys ! (b + e - i) else ys ! i) [0..<length ys] = ys"
    proof (intro nth_equalityI)
      fix i assume "i < length (map (\<lambda>i. if b \<le> i \<and> i \<le> e then ys ! (b + e - i) else ys ! i) [0..<length ys])"
      moreover have "b \<le> i \<Longrightarrow> i \<le> e \<Longrightarrow> b + e - i = i" using False by linarith
      ultimately show "map (\<lambda>i. if b \<le> i \<and> i \<le> e then ys ! (b + e - i) else ys ! i) [0..<length ys] ! i = ys ! i"
        by simp
    qed simp
    with False show ?thesis by (subst strrev_loop.simps) simp
  next
    case True
    define zs where "zs = ys[e := ys ! b, b := ys ! e]"
    have ld: "ld8 tr (store_bytes tr m s ys) (s + of_nat k) = ys ! k" if "k < length ys" for k
      using less.prems that by (intro ld8_store_inside) auto
    have "st8 tr (store_bytes tr m s ys) (s + of_nat e) (ys ! b) = store_bytes tr m s (ys[e := ys ! b])"
      using less.prems by (intro st8_store_update) auto
    moreover have "st8 tr (store_bytes tr m s (ys[e := ys ! b])) (s + of_nat b) (ys ! e) = store_bytes tr m s zs"
      unfolding zs_def using less.prems True by (intro st8_store_update) auto
    ultimately have "strrev_loop tr (store_bytes tr m s ys) s (int b) (int e) =
        strrev_loop tr (store_bytes tr m s zs) s (int (Suc b)) (int (e - 1))"
      using True less.prems ld
      by (subst strrev_loop.simps) (simp add: Let_def of_nat_diff add.commute)
    also have "\<dots> = store_bytes tr m s (map (\<lambda>i. if Suc b \<le> i \<and> i \<le> e - 1
        then zs ! (Suc b + (e - 1) - i) else zs ! i) [0..<length zs])"
      using True less.prems by (intro less.hyps) (auto simp: zs_def)
    also have "map (\<lambda>i. if Suc b \<le> i \<and> i \<le> e - 1 then zs ! (Suc b + (e - 1) - i) else zs ! i) [0..<length zs] =
        map (\<lambda>i. if b \<le> i \<and> i \<le> e then ys ! (b + e - i) else ys ! i) [0..<length ys]"
      using True less.prems by (intro nth_equalityI) (auto simp: zs_def nth_list_update)
    finally show ?thesis .
  qed
qed

lemma sint_pred_u32:
  assumes "n < 2147483648"
  shows "sint (of_nat n - 1 :: u32) = int n - 1"
proof (cases n)
  case (Suc k)
  then have "(of_nat n - 1 :: u32) = of_int (int k)" by simp
  then show ?thesis
    using assms Suc by (simp only: signed_of_int) (simp add: signed_take_bit_int_eq_self)
qed simp

lemma strrev_eq:
  assumes "cstring tr m s bs" "length bs < 2147483648" "rng s (length bs) \<subseteq> mapped"
  shows "strrev tr m s = Some (store_bytes tr m s (rev bs))"
proof (cases bs)
  case Nil
  then show ?thesis
    using strlen_cstring [OF assms(1)] by (simp add: strrev_def strrev_loop.simps)
next
  case (Cons c cs)
  have "strrev_loop tr (store_bytes tr m s bs) s (int 0) (int (length bs - 1)) =
    store_bytes tr m s (map (\<lambda>i. if 0 \<le> i \<and> i \<le> length bs - 1 then bs ! (0 + (length bs - 1) - i)
      else bs ! i) [0..<length bs])"
    using assms Cons by (intro strrev_loop_eq) auto
  also have "map (\<lambda>i. if 0 \<le> i \<and> i \<le> length bs - 1 then bs ! (0 + (length bs - 1) - i)
      else bs ! i) [0..<length bs] = rev bs"
    by (intro nth_equalityI) (auto simp: rev_nth)
  finally have loop: "strrev_loop tr (store_bytes tr m s bs) s 0 (int (length bs) - 1) =
      store_bytes tr m s (rev bs)"
    using Cons by (simp add: of_nat_diff)
  have "store_bytes tr m s bs = m"
    using assms(1) store_load_id [of tr m s "length bs"] by (simp add: cstring_def)
  with loop assms(2) strlen_cstring [OF assms(1)] show ?thesis
    by (simp add: strrev_def sint_pred_u32)
qed

end

section \<open>itoa\<close>

text \<open>The positional numeral that \<open>itoa\<close> prints: least significant digit first, then reversed.\<close>

fun digits_le :: "nat \<Rightarrow> nat \<Rightarrow> nat list" where
  "digits_le b n = (if n = 0 \<or> b < 2 then [] else n mod b # digits_le b (n div b))"

declare digits_le.simps [simp del]

definition itoa_digits :: "nat \<Rightarrow> nat \<Rightarrow> nat list" where
  "itoa_digits b n = (if n = 0 then [0] else rev (digits_le b n))"

definition itoa_text :: "nat \<Rightarrow> nat \<Rightarrow> bytes" where
  "itoa_text b n = map (\<lambda>d. lookup ! d) (itoa_digits b n)"

text \<open>Horner's scheme reads a numeral back.\<close>

definition numeral_value :: "nat \<Rightarrow> nat list \<Rightarrow> nat" where
  "numeral_value b ds = foldl (\<lambda>a d. a * b + d) 0 ds"

lemma digits_le_small: "d \<in> set (digits_le b n) \<Longrightarrow> d < b"
proof (induction b n rule: digits_le.induct)
  case (1 b n)
  then show ?case by (subst (asm) digits_le.simps) (auto split: if_splits)
qed

lemma itoa_digits_value:
  assumes "2 \<le> b"
  shows "numeral_value b (itoa_digits b n) = n"
proof -
  have "foldr (\<lambda>d a. a * b + d) (digits_le b n) 0 = n" using assms
  proof (induction b n rule: digits_le.induct)
    case (1 b n)
    then show ?case by (subst digits_le.simps) (auto simp: mult.commute)
  qed
  then show ?thesis by (simp add: numeral_value_def itoa_digits_def foldl_conv_foldr)
qed

lemma length_digits_le: "n < 2 ^ k \<Longrightarrow> length (digits_le b n) \<le> k"
proof (induction k arbitrary: n)
  case 0
  then show ?case by (subst digits_le.simps) simp
next
  case (Suc k)
  show ?case
  proof (cases "n = 0 \<or> b < 2")
    case False
    then have "n div b \<le> n div 2" by (intro div_le_mono2) auto
    then have "n div b < 2 ^ k" using Suc.prems by (auto simp: less_mult_imp_div_less mult.commute)
    then have "length (digits_le b (n div b)) \<le> k" by (rule Suc.IH)
    with False show ?thesis by (subst digits_le.simps) simp
  qed (subst digits_le.simps, simp)
qed

lemma length_itoa_text: "n < 4294967296 \<Longrightarrow> length (itoa_text b n) \<le> 32"
  using length_digits_le [of n 32 b] by (simp add: itoa_text_def itoa_digits_def)

lemma lookup_nz: "d < 36 \<Longrightarrow> lookup ! d \<noteq> 0"
proof -
  assume d: "d < 36"
  have "\<forall>c \<in> set (lit ''0123456789ABCDEFGHIJKLMNOPQRSTUVWXYZ''). c \<noteq> 0" by simp
  moreover have "lookup ! d \<in> set (lit ''0123456789ABCDEFGHIJKLMNOPQRSTUVWXYZ'')"
    using d unfolding lookup_def by (subst nth_append) (simp del: lit_simps)
  ultimately show ?thesis by blast
qed

lemma itoa_text_nz:
  assumes "2 \<le> b" "b \<le> 36"
  shows "0 \<notin> set (itoa_text b n)"
proof -
  have "d < 36" if "d \<in> set (itoa_digits b n)" for d
    using that assms digits_le_small [of d b n] by (auto simp: itoa_digits_def split: if_splits)
  then show ?thesis using lookup_nz by (fastforce simp: itoa_text_def)
qed

lemma itoa_loop_eq:
  assumes "2 \<le> unat radix" "unat radix \<le> 36"
  shows "itoa_loop tr m v nb radix =
    (let ds = map (\<lambda>d. lookup ! d) (digits_le (unat radix) (unat v))
     in Some (store_bytes tr m nb ds, nb + of_nat (length ds)))"
proof (induction "unat v" arbitrary: m v nb rule: less_induct)
  case less
  show ?case
  proof (cases "v = 0")
    case True
    then show ?thesis by (subst itoa_loop.simps, subst digits_le.simps) simp
  next
    case False
    then have v: "0 < unat v" by (simp add: unat_gt_0)
    have r: "radix \<noteq> 0" using assms by auto
    have lt: "unat (v div radix) < unat v" using v assms by (simp add: unat_div div_less_dividend)
    have md: "unat (v mod radix) = unat v mod unat radix" by (simp add: unat_mod)
    then have "unat (v mod radix) < 37" using assms by (simp add: order_less_le_trans [OF mod_less_divisor])
    then show ?thesis
      using False v r assms less.hyps [OF lt]
      by (subst itoa_loop.simps, subst digits_le.simps)
        (simp add: Let_def md unat_div word_gt_0 algebra_simps)
  qed
qed

context address_space
begin

lemma itoa_eq:
  assumes "2 \<le> unat radix" "unat radix \<le> 36"
    and "rng buf (Suc (length (itoa_text (unat radix) (unat v)))) \<subseteq> mapped"
  shows "itoa tr m v buf radix =
    Some (store_bytes tr m buf (itoa_text (unat radix) (unat v) @ [0]))"
proof (cases "v = 0")
  case True
  then show ?thesis by (simp add: itoa_def itoa_text_def itoa_digits_def lookup_def add.commute)
next
  case False
  define ds where "ds = map (\<lambda>d. lookup ! d) (digits_le (unat radix) (unat v))"
  have num: "itoa_text (unat radix) (unat v) = rev ds"
    using False by (simp add: itoa_text_def itoa_digits_def ds_def rev_map unat_eq_0)
  have len: "length ds \<le> 32"
    using length_itoa_text [of "unat v" "unat radix"] num by simp
  have nz: "0 \<notin> set ds" using itoa_text_nz [OF assms(1,2), of "unat v"] num by simp
  define m' where "m' = store_bytes tr m buf (ds @ [0])"
  have r: "rng buf (Suc (length ds)) \<subseteq> mapped" using assms(3) num by simp
  then have "cstring tr m' buf ds" unfolding m'_def using nz len by (intro cstring_store) auto
  then have "strrev tr m' buf = Some (store_bytes tr m' buf (rev ds))"
    using len r rng_mono [of "length ds" "Suc (length ds)" buf] by (intro strrev_eq) auto
  moreover have "store_bytes tr m' buf (rev ds) = store_bytes tr m buf (rev ds @ [0])"
    unfolding m'_def using r len by (intro store_bytes_overwrite) auto
  ultimately show ?thesis
    using False itoa_loop_eq [OF assms(1,2), of tr m v buf]
    by (simp add: itoa_def num ds_def [symmetric] Let_def m'_def store_bytes_snoc)
qed

end

section \<open>Properties\<close>

text \<open>
  C12. \<open>itoa\<close> returns, for every value and every radix from 2 to 36, and leaves in the buffer the
  NUL-terminated numeral of the value: digits below the radix whose positional value is the
  value printed. 33 bytes of buffer are enough, and nothing else changes.
\<close>

theorem itoa_roundtrip:
  assumes "inj_on tr mapped" "rng buf 33 \<subseteq> mapped" "2 \<le> unat radix" "unat radix \<le> 36"
  shows "\<exists>m' ds. itoa tr m v buf radix = Some m' \<and> cstring tr m' buf (map (\<lambda>d. lookup ! d) ds) \<and>
    numeral_value (unat radix) ds = unat v \<and> (\<forall>d \<in> set ds. d < unat radix) \<and>
    (\<forall>p. p \<notin> tr ` rng buf 33 \<longrightarrow> m' p = m p)"
proof -
  have as: "address_space tr mapped" using assms(1) by (rule address_space.intro)
  define ds where "ds = itoa_digits (unat radix) (unat v)"
  define bs where "bs = itoa_text (unat radix) (unat v)"
  have len: "length bs \<le> 32" unfolding bs_def by (rule length_itoa_text) simp
  have sub: "rng buf (Suc (length bs)) \<subseteq> rng buf 33" using len by (intro rng_mono) simp
  then have r: "rng buf (Suc (length bs)) \<subseteq> mapped" using assms(2) by blast
  have "itoa tr m v buf radix = Some (store_bytes tr m buf (bs @ [0]))"
    unfolding bs_def using assms r by (intro address_space.itoa_eq [OF as]) (auto simp: bs_def)
  moreover have "cstring tr (store_bytes tr m buf (bs @ [0])) buf bs"
    using itoa_text_nz [OF assms(3,4), of "unat v"] len r
    by (intro address_space.cstring_store [OF as]) (auto simp: bs_def)
  moreover have "numeral_value (unat radix) ds = unat v"
    unfolding ds_def using assms(3) by (rule itoa_digits_value)
  moreover have "\<forall>d \<in> set ds. d < unat radix"
    using assms(3) digits_le_small by (auto simp: ds_def itoa_digits_def)
  moreover have "store_bytes tr m buf (bs @ [0]) p = m p" if "p \<notin> tr ` rng buf 33" for p
    using that sub len by (intro store_bytes_frame) auto
  ultimately show ?thesis unfolding bs_def itoa_text_def ds_def by blast
qed

theorem itoa_roundtrip_witness:
  "\<exists>m' ds. itoa (\<lambda>a. a) (\<lambda>a. 0) 4095 0x100 16 = Some m' \<and>
     cstring (\<lambda>a. a) m' 0x100 (map (\<lambda>d. lookup ! d) ds) \<and> numeral_value 16 ds = 4095"
  using itoa_roundtrip [of "\<lambda>a. a" UNIV "0x100" 16 "\<lambda>a. 0" 4095] by auto

text \<open>
  \<open>strncmp\<close> on NUL-terminated strings returns 0 exactly if the strings agree on their first
  \<open>n\<close> characters (or are equal, if they are shorter), for all byte values.
\<close>

theorem strncmp_equal:
  assumes "cstring tr m s1 xs" "cstring tr m s2 ys"
  shows "strncmp tr m s1 s2 n = 0 \<longleftrightarrow> take (unat n) xs = take (unat n) ys"
  using assms by (simp add: strncmp_cstrings strncmp_list_0 cstring_def)

theorem strncmp_equal_witness:
  "strncmp (\<lambda>a. a) ((\<lambda>a. 0)(0x10 := 0xE9, 0x11 := 0x41, 0x20 := 0xE9, 0x21 := 0x42)) 0x10 0x20 1 = 0 \<and>
   strncmp (\<lambda>a. a) ((\<lambda>a. 0)(0x10 := 0xE9, 0x11 := 0x41, 0x20 := 0xE9, 0x21 := 0x42)) 0x10 0x20 2 \<noteq> 0"
proof -
  let ?m = "(\<lambda>a. 0 :: u8)(0x10 := 0xE9, 0x11 := 0x41, 0x20 := 0xE9, 0x21 := 0x42 :: u8) :: memory"
  have "cstring (\<lambda>a. a) ?m 0x10 [0xE9, 0x41]" "cstring (\<lambda>a. a) ?m 0x20 [0xE9, 0x42]"
    by (simp_all add: cstring_def ld8_def)
  from strncmp_equal [OF this, of 1] strncmp_equal [OF this, of 2] show ?thesis by simp
qed

text \<open>
  \<open>strcpy\<close> returns and leaves a copy of the source string at a destination that does not
  overlap it, and changes nothing else.
\<close>

theorem strcpy_copies:
  assumes "inj_on tr mapped" "cstring tr m src bs" "rng src (Suc (length bs)) \<subseteq> mapped"
    and "rng dest (Suc (length bs)) \<subseteq> mapped"
    and "rng src (Suc (length bs)) \<inter> rng dest (Suc (length bs)) = {}"
  shows "\<exists>m'. strcpy tr m dest src = Some m' \<and> cstring tr m' dest bs \<and>
    (\<forall>p. p \<notin> tr ` rng dest (Suc (length bs)) \<longrightarrow> m' p = m p)"
proof -
  have as: "address_space tr mapped" using assms(1) by (rule address_space.intro)
  have "cstring tr (store_bytes tr m dest (bs @ [0])) dest bs"
    using assms by (intro address_space.cstring_store [OF as]) (auto simp: cstring_def)
  moreover have "store_bytes tr m dest (bs @ [0]) p = m p" if "p \<notin> tr ` rng dest (Suc (length bs))" for p
    using that assms(2) by (intro store_bytes_frame) (auto simp: cstring_def)
  ultimately show ?thesis using address_space.strcpy_eq [OF as assms(2-5)] by blast
qed

theorem strcpy_copies_witness:
  "\<exists>m'. strcpy (\<lambda>a. a) ((\<lambda>a. 0)(0x10 := 0x68, 0x11 := 0x69)) 0x40 0x10 = Some m' \<and>
     cstring (\<lambda>a. a) m' 0x40 [0x68, 0x69]"
  using strcpy_copies [of "\<lambda>a. a" UNIV "(\<lambda>a. 0)(0x10 := 0x68, 0x11 := 0x69)" "0x10" "[0x68, 0x69]" "0x40"]
    rng_disjoint(1) [of "0x10" 3 "0x40" 3]
  by (auto simp: cstring_def ld8_def numeral_3_eq_3)

end
