(* ===== verification/Process.thy ===== *)
theory Process
  imports Prelude
begin

text \<open>
  The process bookkeeping of \<^verbatim>\<open>student-distrib/process.c\<close> and
  \<^verbatim>\<open>process.h\<close>: the table of live process ids, the active process of each terminal, the
  table of device operations, and the process control block that sits at the bottom of every
  kernel stack. The static variables of the file are the fields of one record.

  The locale \<open>slot_table\<close> is the contract of a table whose slots are handed out and given back;
  the process table and (in theory \<open>Syscalls\<close>) the file descriptors of a process provide it.
\<close>

section \<open>Types\<close>

abbreviation (input) MAX_PROCESSES :: u32 where "MAX_PROCESSES \<equiv> 6"
abbreviation (input) MAX_DEVICES :: u32 where "MAX_DEVICES \<equiv> 6"
abbreviation (input) MAX_TERMINALS :: u32 where "MAX_TERMINALS \<equiv> 3"
abbreviation (input) FILE_ARRAY_LEN :: int where "FILE_ARRAY_LEN \<equiv> 8"
abbreviation (input) ARGS_MAX :: nat where "ARGS_MAX \<equiv> 128"
abbreviation (input) PCB_MASK :: u32 where "PCB_MASK \<equiv> 0xFFFFE000"
abbreviation (input) FD_LIVE :: u32 where "FD_LIVE \<equiv> 1"
abbreviation (input) KERNEL_MEM_END :: addr where "KERNEL_MEM_END \<equiv> 0x800000"
abbreviation (input) KERNEL_STACK_SIZE :: u32 where "KERNEL_STACK_SIZE \<equiv> 0x2000"
abbreviation (input) RTC_FTYPE :: u32 where "RTC_FTYPE \<equiv> 0"
abbreviation (input) DIR_FTYPE :: u32 where "DIR_FTYPE \<equiv> 1"
abbreviation (input) FILE_FTYPE :: u32 where "FILE_FTYPE \<equiv> 2"
abbreviation (input) TERM_FTYPE :: u32 where "TERM_FTYPE \<equiv> 3"

text \<open>
  A \<open>fops_t *\<close> points to one of the four static tables of function pointers, or is \<open>NULL\<close>
  (\<open>None\<close>); which functions a table holds is said where a system call dispatches over it. A page
  directory pointer is one of the six rows of \<open>pd\<close> in \<open>process.c\<close>, \<open>pd_first\<close> of
  \<open>virtualmem.c\<close>, or \<open>NULL\<close>.
\<close>

datatype fops_t = fs_fops | dir_fops | rtc_fops | term_fops

datatype pd_ptr = pd_first_ptr | pd_row nat

record fd_t =
  fops :: "fops_t option"
  inode :: addr
  inode_num :: u32
  pos :: u32
  flags :: u32

record context_t =
  c_esp :: u32
  c_eip :: u32
  c_esp0 :: u32
  c_ebp :: u32

record pcb_t =
  files :: "fd_t list"
  args :: bytes
  args_len :: u32
  pid :: u32
  parent_pcb :: addr
  ctx :: context_t
  esp_parent :: u32
  ebp_parent :: u32
  pd :: "pd_ptr option"
  term_num :: u32

record ptable =
  proc_count :: u32
  procs :: bytes
  active_processes :: "u32 list"
  devices :: "fops_t option list"

definition ptable_init :: ptable where
  "ptable_init = \<lparr>proc_count = 0, procs = [0, 0, 0, 0, 0, 0], active_processes = [-1, -1, -1],
     devices = [None, None, None, None, None, None]\<rparr>"

section \<open>Operations\<close>

definition add_device :: "u32 \<Rightarrow> fops_t \<Rightarrow> ptable \<Rightarrow> u32 \<times> ptable" where
  "add_device ftype f s =
     (if ftype < 0 \<or> ftype \<ge> MAX_DEVICES then (-1, s)
      else (0, s\<lparr>devices := (devices s)[unat ftype := Some f]\<rparr>))"

definition get_device_fops :: "u32 \<Rightarrow> ptable \<Rightarrow> fops_t option" where
  "get_device_fops ftype s =
     (if ftype < 0 \<or> ftype \<ge> MAX_DEVICES then None else devices s ! unat ftype)"

function add_process_loop :: "u32 \<Rightarrow> ptable \<Rightarrow> u32 \<times> ptable" where
  "add_process_loop i s =
     (if i < MAX_PROCESSES then
        if procs s ! unat i = 0
        then (i + 1, s\<lparr>procs := (procs s)[unat i := 1], proc_count := proc_count s + 1\<rparr>)
        else add_process_loop (i + 1) s
      else (-1, s))"
  by pat_completeness auto
termination
  by (relation "measure (\<lambda>(i, s). unat MAX_PROCESSES - unat i)") (auto dest: count_up_u32)

declare add_process_loop.simps [simp del]

definition add_process :: "ptable \<Rightarrow> u32 \<times> ptable" where
  "add_process s = add_process_loop 0 s"

definition delete_process :: "u32 \<Rightarrow> ptable \<Rightarrow> u32 \<times> ptable" where
  "delete_process p s =
     (let p = p - 1
      in if sint p < 0 \<or> sint p \<ge> 6 then (-1, s)
         else (0, s\<lparr>procs := (procs s)[unat p := 0], proc_count := proc_count s - 1\<rparr>))"

definition get_process_pd :: "u32 \<Rightarrow> pd_ptr option" where
  "get_process_pd p =
     (let p = p - 1 in if sint p < 0 \<or> sint p \<ge> 6 then None else Some (pd_row (unat p)))"

definition processes :: "ptable \<Rightarrow> u32" where
  "processes s = proc_count s"

definition free_procs :: "ptable \<Rightarrow> bool" where
  "free_procs s \<longleftrightarrow> proc_count s < MAX_PROCESSES"

definition get_active_process :: "u32 \<Rightarrow> ptable \<Rightarrow> u32" where
  "get_active_process t s =
     (if t < 0 \<or> t \<ge> MAX_TERMINALS then -1 else active_processes s ! unat t)"

definition set_active_process :: "u32 \<Rightarrow> u32 \<Rightarrow> ptable \<Rightarrow> u32 \<times> ptable" where
  "set_active_process t p s =
     (if t < 0 \<or> t \<ge> MAX_TERMINALS then (-1, s)
      else (0, s\<lparr>active_processes := (active_processes s)[unat t := p]\<rparr>))"

text \<open>The macro \<open>pcb(x)\<close>: the control block under the stack pointer \<open>esp\<close>.\<close>

definition pcb_of_esp :: "u32 \<Rightarrow> addr" where
  "pcb_of_esp esp = esp AND PCB_MASK"

text \<open>The address of the control block of a process, as \<open>execute\<close> and the scheduler compute it.\<close>

definition pcb_addr :: "u32 \<Rightarrow> addr" where
  "pcb_addr p = KERNEL_MEM_END - (p + 1) * KERNEL_STACK_SIZE"

section \<open>Tables of slots\<close>

datatype slot_op = Alloc | Release nat

locale slot_table =
  fixes inv :: "'s \<Rightarrow> bool" and slots :: "nat set" and live :: "'s \<Rightarrow> nat \<Rightarrow> bool"
    and alloc :: "'s \<Rightarrow> (nat \<times> 's) option" and release :: "nat \<Rightarrow> 's \<Rightarrow> 's"
  assumes alloc_Some: "inv s \<Longrightarrow> alloc s = Some (k, s') \<Longrightarrow>
      k \<in> slots \<and> \<not> live s k \<and> live s' = (live s)(k := True) \<and> inv s'"
    and alloc_None: "inv s \<Longrightarrow> alloc s = None \<longleftrightarrow> (\<forall>k \<in> slots. live s k)"
    and release: "inv s \<Longrightarrow> k \<in> slots \<Longrightarrow> live s k \<Longrightarrow>
      live (release k s) = (live s)(k := False) \<and> inv (release k s)"
begin

text \<open>A slot is never handed out twice without being given back in between.\<close>

lemma alloc_distinct:
  assumes "inv s" "alloc s = Some (k, s1)" "alloc s1 = Some (l, s2)"
  shows "k \<noteq> l"
  using assms alloc_Some [of s k s1] alloc_Some [of s1 l s2] by auto

lemma alloc_keeps_live:
  assumes "inv s" "alloc s = Some (k, s1)" "live s j"
  shows "live s1 j \<and> j \<noteq> k"
  using assms alloc_Some by fastforce

lemma alloc_release:
  assumes "inv s" "alloc s = Some (k, s1)"
  shows "live (release k s1) = live s" "inv (release k s1)"
  using alloc_Some [OF assms] release [of s1 k] by (auto intro: fun_upd_idem)

lemma release_makes_room:
  assumes "inv s" "k \<in> slots" "live s k"
  shows "\<exists>l s'. alloc (release k s) = Some (l, s') \<and> l \<in> slots"
proof -
  have r: "live (release k s) = (live s)(k := False)" "inv (release k s)"
    using release [OF assms] by auto
  then have "alloc (release k s) \<noteq> None" using alloc_None [OF r(2)] assms(2) by auto
  then obtain l s' where "alloc (release k s) = Some (l, s')" by auto
  with alloc_Some [OF r(2)] show ?thesis by blast
qed

text \<open>
  Sequences of operations: an allocation that finds no slot changes nothing, and only live slots
  are released.
\<close>

fun run :: "slot_op list \<Rightarrow> 's \<Rightarrow> 's" where
  "run [] s = s"
| "run (Alloc # ops) s = run ops (case alloc s of None \<Rightarrow> s | Some (k, s') \<Rightarrow> s')"
| "run (Release k # ops) s = run ops (if k \<in> slots \<and> live s k then release k s else s)"

lemma run_inv: "inv s \<Longrightarrow> inv (run ops s)"
proof (induction ops arbitrary: s)
  case (Cons x ops)
  show ?case
  proof (cases x)
    case Alloc
    with Cons alloc_Some show ?thesis by (auto split: option.split)
  next
    case (Release k)
    with Cons release show ?thesis by auto
  qed
qed simp

end

section \<open>The process table\<close>

definition ptable_wf :: "ptable \<Rightarrow> bool" where
  "ptable_wf s \<longleftrightarrow> length (procs s) = 6 \<and> set (procs s) \<subseteq> {0, 1} \<and>
     proc_count s = of_nat (count_list (procs s) 1) \<and>
     length (active_processes s) = 3 \<and> length (devices s) = 6"

definition proc_live :: "ptable \<Rightarrow> nat \<Rightarrow> bool" where
  "proc_live s p \<longleftrightarrow> 1 \<le> p \<and> p \<le> 6 \<and> procs s ! (p - 1) \<noteq> 0"

lemma ptable_wf_init: "ptable_wf ptable_init"
  by (simp add: ptable_wf_def ptable_init_def)

lemma count_list_update:
  assumes "i < length xs"
  shows "count_list (xs[i := x]) y + (if xs ! i = y then 1 else 0) =
    count_list xs y + (if x = y then 1 else 0)"
  using assms
proof (induction xs arbitrary: i)
  case (Cons a xs)
  show ?case
  proof (cases i)
    case (Suc j)
    with Cons.prems have "count_list (xs[j := x]) y + (if xs ! j = y then 1 else 0) =
        count_list xs y + (if x = y then 1 else 0)"
      by (intro Cons.IH) simp
    with Suc show ?thesis by (simp split: if_splits)
  qed simp
qed simp

text \<open>\<open>add_process\<close> returns the lowest free pid.\<close>

lemma add_process_loop_eq:
  assumes "k \<le> 6"
  shows "add_process_loop (of_nat k) s =
    (case find (\<lambda>i. procs s ! i = 0) [k..<6] of None \<Rightarrow> (-1, s)
     | Some i \<Rightarrow> (of_nat (i + 1),
         s\<lparr>procs := (procs s)[i := 1], proc_count := proc_count s + 1\<rparr>))"
  using assms
proof (induction "6 - k" arbitrary: k)
  case 0
  then show ?case by (subst add_process_loop.simps) simp
next
  case (Suc n)
  then have k: "k < 6" by simp
  then have lt: "(of_nat k :: u32) < 6" and u: "unat (of_nat k :: u32) = k"
    by (simp_all add: word_less_nat_alt unat_of_nat_u32)
  have "add_process_loop (of_nat (Suc k)) s = (case find (\<lambda>i. procs s ! i = 0) [Suc k..<6] of
      None \<Rightarrow> (-1, s) | Some i \<Rightarrow> (of_nat (i + 1), s\<lparr>procs := (procs s)[i := 1], proc_count := proc_count s + 1\<rparr>))"
    using Suc k by (intro Suc.hyps) auto
  with lt u k show ?case
    by (subst add_process_loop.simps) (simp add: upt_conv_Cons add.commute)
qed

lemma add_process_eq:
  "add_process s = (case find (\<lambda>i. procs s ! i = 0) [0..<6] of None \<Rightarrow> (-1, s)
     | Some i \<Rightarrow> (of_nat (i + 1), s\<lparr>procs := (procs s)[i := 1], proc_count := proc_count s + 1\<rparr>))"
  unfolding add_process_def using add_process_loop_eq [of 0 s] by simp

text \<open>On pids the signed comparisons of the guards are the expected ones.\<close>

lemma sint_pid:
  assumes "1 \<le> p" "p \<le> 6"
  shows "sint (of_nat p - 1 :: u32) = int p - 1" "unat (of_nat p - 1 :: u32) = p - 1"
proof -
  have "p \<in> {1, 2, 3, 4, 5, 6}" using assms by auto
  then show "sint (of_nat p - 1 :: u32) = int p - 1" "unat (of_nat p - 1 :: u32) = p - 1" by auto
qed

lemma delete_process_eq:
  assumes "1 \<le> p" "p \<le> 6"
  shows "delete_process (of_nat p) s =
    (0, s\<lparr>procs := (procs s)[p - 1 := 0], proc_count := proc_count s - 1\<rparr>)"
  using assms sint_pid [OF assms] by (simp add: delete_process_def Let_def)

definition proc_alloc :: "ptable \<Rightarrow> (nat \<times> ptable) option" where
  "proc_alloc s = (case add_process s of (p, s') \<Rightarrow> if p = -1 then None else Some (unat p, s'))"

definition proc_release :: "nat \<Rightarrow> ptable \<Rightarrow> ptable" where
  "proc_release p s = snd (delete_process (of_nat p) s)"

lemma proc_alloc_eq:
  "proc_alloc s = (case find (\<lambda>i. procs s ! i = 0) [0..<6] of None \<Rightarrow> None
     | Some i \<Rightarrow> Some (i + 1, s\<lparr>procs := (procs s)[i := 1], proc_count := proc_count s + 1\<rparr>))"
proof (cases "find (\<lambda>i. procs s ! i = 0) [0..<6]")
  case (Some i)
  then have i: "i < 6" by (auto simp: find_Some_iff)
  then have u: "unat (of_nat (Suc i) :: u32) = Suc i" by (simp add: unat_of_nat_u32 del: of_nat_Suc)
  have "(of_nat (Suc i) :: u32) \<noteq> -1"
  proof
    assume "(of_nat (Suc i) :: u32) = -1"
    with u have "Suc i = unat (-1 :: u32)" by (simp only:)
    with i show False by simp
  qed
  with Some u show ?thesis by (simp add: proc_alloc_def add_process_eq del: of_nat_Suc)
qed (simp add: proc_alloc_def add_process_eq)

lemma proc_find:
  "find (\<lambda>i. procs s ! i = 0) [0..<6] = Some i \<Longrightarrow> i < 6 \<and> procs s ! i = 0"
  "find (\<lambda>i. procs s ! i = 0) [0..<6] = None \<longleftrightarrow> (\<forall>i < 6. procs s ! i \<noteq> 0)"
  by (auto simp: find_Some_iff find_None_iff)

lemma set_procs_update:
  assumes "ptable_wf s" "x \<in> {0, 1}"
  shows "set ((procs s)[i := x]) \<subseteq> {0, 1}"
  using assms set_update_subset_insert [of "procs s" i x] by (auto simp: ptable_wf_def)

lemma proc_alloc_wf:
  assumes "ptable_wf s" "i < 6" "procs s ! i = 0"
  shows "ptable_wf (s\<lparr>procs := (procs s)[i := 1], proc_count := proc_count s + 1\<rparr>)"
  using assms count_list_update [of i "procs s" 1 1] set_procs_update [OF assms(1), of 1 i]
  by (simp add: ptable_wf_def add.commute)

lemma proc_release_wf:
  assumes "ptable_wf s" "i < 6" "procs s ! i \<noteq> 0"
  shows "ptable_wf (s\<lparr>procs := (procs s)[i := 0], proc_count := proc_count s - 1\<rparr>)"
proof -
  have "procs s ! i \<in> set (procs s)" using assms by (simp add: ptable_wf_def)
  then have "procs s ! i \<in> {0, 1}" using assms(1) unfolding ptable_wf_def by blast
  then have "count_list (procs s) 1 = Suc (count_list ((procs s)[i := 0]) 1)"
    using assms count_list_update [of i "procs s" 0 1] by (auto simp: ptable_wf_def)
  then show ?thesis
    using assms set_procs_update [OF assms(1), of 0 i] by (simp add: ptable_wf_def)
qed

interpretation pt: slot_table ptable_wf "{1..6}" proc_live proc_alloc proc_release
proof unfold_locales
  fix s k s' assume wf: "ptable_wf s" and "proc_alloc s = Some (k, s')"
  then obtain i where i: "k = i + 1" "i < 6" "procs s ! i = 0"
    and s': "s' = s\<lparr>procs := (procs s)[i := 1], proc_count := proc_count s + 1\<rparr>"
    using proc_find(1) [of s] by (auto simp: proc_alloc_eq split: option.splits)
  have "length (procs s) = 6" using wf by (simp add: ptable_wf_def)
  then have "proc_live s' = (proc_live s)(k := True)"
    using i by (auto simp: fun_eq_iff s' proc_live_def nth_list_update)
  with i s' proc_alloc_wf [OF wf i(2,3)]
  show "k \<in> {1..6} \<and> \<not> proc_live s k \<and> proc_live s' = (proc_live s)(k := True) \<and> ptable_wf s'"
    by (simp add: proc_live_def)
next
  fix s assume "ptable_wf s"
  have "(\<forall>i < 6. procs s ! i \<noteq> 0) \<longleftrightarrow> (\<forall>k \<in> {1..6}. procs s ! (k - 1) \<noteq> 0)"
    by (metis One_nat_def Suc_leI Suc_le_lessD Suc_pred add_diff_cancel_left' atLeastAtMost_iff
        diff_Suc_1 less_eq_Suc_le plus_1_eq_Suc zero_less_Suc le_simps(2) diff_le_self nat_less_le)
  then show "proc_alloc s = None \<longleftrightarrow> (\<forall>k \<in> {1..6}. proc_live s k)"
    using proc_find(2) [of s] by (auto simp: proc_alloc_eq proc_live_def split: option.split)
next
  fix s k assume wf: "ptable_wf s" and k: "k \<in> {1..6}" "proc_live s k"
  then have "proc_live (proc_release k s) = (proc_live s)(k := False)"
    by (auto simp: fun_eq_iff proc_release_def delete_process_eq proc_live_def nth_list_update ptable_wf_def)
  with wf k show "proc_live (proc_release k s) = (proc_live s)(k := False) \<and> ptable_wf (proc_release k s)"
    using proc_release_wf [OF wf, of "k - 1"] by (auto simp: proc_release_def delete_process_eq proc_live_def)
qed

section \<open>Control blocks and kernel stacks\<close>

text \<open>
  The kernel stack of process \<open>p\<close> is the 8 KB block whose lowest address is \<open>pcb_addr p\<close>. Masking
  any stack pointer inside that block yields the control block.
\<close>

lemma and_not_mask_block:
  fixes a x :: u32
  assumes "a AND mask 13 = 0" "x \<in> rng a 8192"
  shows "x AND NOT (mask 13) = a"
proof -
  define d where "d = x - a"
  have x: "x = a + d" by (simp add: d_def)
  have "unat d < 8192" using assms(2) by (simp add: d_def rng_def)
  then have d: "take_bit 13 d = d"
    by (intro word_unat_eq_iff [THEN iffD2]) (simp add: unsigned_take_bit_eq take_bit_nat_eq_self)
  have lo: "\<not> bit a n" if "n < 13" for n
    using arg_cong [OF assms(1), of "\<lambda>w. bit w n"] that by (auto simp: bit_simps)
  have hi: "\<not> bit d n" if "13 \<le> n" for n
    using arg_cong [OF d, of "\<lambda>w. bit w n"] that by (auto simp: bit_simps)
  have "\<not> (bit a n \<and> bit d n)" for n using lo hi by (cases "n < 13") auto
  then have "a AND d = 0" by (intro bit_word_eqI) (simp add: bit_simps)
  then have "x = a OR d" by (simp add: x disjunctive_add_eq_or)
  moreover have "(bit a n \<or> bit d n) \<and> \<not> n < 13 \<longleftrightarrow> bit a n" for n
    using lo [of n] hi [of n] by (cases "n < 13") auto
  ultimately show ?thesis by (intro bit_word_eqI) (simp add: bit_simps)
qed

lemma pcb_of_esp_rng:
  assumes "1 \<le> p" "p \<le> 6" "esp \<in> rng (pcb_addr (of_nat p)) 8192"
  shows "pcb_of_esp esp = pcb_addr (of_nat p)"
proof -
  have m: "PCB_MASK = NOT (mask 13)" by (simp add: mask_eq_exp_minus_1 not_eq_complement)
  have "p \<in> {1, 2, 3, 4, 5, 6}" using assms by auto
  then have "pcb_addr (of_nat p) AND mask 13 = 0"
    by (auto simp: pcb_addr_def mask_eq_exp_minus_1)
  then show ?thesis unfolding pcb_of_esp_def m using assms(3) by (rule and_not_mask_block)
qed

lemma pcb_addr_inj:
  assumes "1 \<le> p" "p \<le> 6" "1 \<le> q" "q \<le> 6" "pcb_addr (of_nat p) = pcb_addr (of_nat q)"
  shows "p = q"
proof -
  have "p \<in> {1, 2, 3, 4, 5, 6}" "q \<in> {1, 2, 3, 4, 5, 6}" using assms by auto
  then show ?thesis using assms(5) by (auto simp: pcb_addr_def)
qed

section \<open>Properties\<close>

lemma count_list_procs:
  assumes "ptable_wf s"
  shows "proc_count s < 6 \<longleftrightarrow> (\<exists>i < 6. procs s ! i = 0)"
proof -
  have len: "length (procs s) = 6" and cnt: "proc_count s = of_nat (count_list (procs s) 1)"
    and sub: "set (procs s) \<subseteq> {0, 1}"
    using assms by (auto simp: ptable_wf_def)
  have le: "count_list (procs s) 1 \<le> 6" using count_le_length [of "procs s" 1] len by simp
  then have "unat (proc_count s) = count_list (procs s) 1" unfolding cnt by (intro unat_of_nat_u32) simp
  then have "proc_count s < 6 \<longleftrightarrow> count_list (procs s) 1 < 6" by (simp add: word_less_nat_alt)
  also have "\<dots> \<longleftrightarrow> (\<exists>x \<in> set (procs s). x \<noteq> 1)"
  proof -
    have "count_list xs 1 < length xs \<longleftrightarrow> (\<exists>x \<in> set xs. x \<noteq> 1)" for xs :: bytes
    proof (induction xs)
      case (Cons a xs)
      then show ?case using count_le_length [of xs 1] by (auto simp: less_Suc_eq_le)
    qed simp
    then show ?thesis using len by metis
  qed
  also have "\<dots> \<longleftrightarrow> (\<exists>i < 6. procs s ! i = 0)"
    using sub len by (force simp: set_conv_nth)
  finally show ?thesis .
qed

text \<open>
  C10. In a well-formed process table \<open>add_process\<close> hands out the lowest pid from 1 to 6 that is
  not live, marks it live and keeps the table well formed; it fails, without any change, exactly
  when all six are live.
\<close>

theorem add_process_spec:
  assumes "ptable_wf s"
  shows "(\<exists>p s'. add_process s = (of_nat p, s') \<and> p \<in> {1..6} \<and> \<not> proc_live s p \<and>
      (\<forall>q \<in> {1..<p}. proc_live s q) \<and> proc_live s' = (proc_live s)(p := True) \<and> ptable_wf s') \<or>
    ((\<forall>p \<in> {1..6}. proc_live s p) \<and> add_process s = (-1, s))"
proof (cases "find (\<lambda>i. procs s ! i = 0) [0..<6]")
  case None
  then have "proc_alloc s = None" "add_process s = (-1, s)" by (simp_all add: proc_alloc_eq add_process_eq)
  with pt.alloc_None [OF assms] show ?thesis by blast
next
  case (Some i)
  then obtain s' where a: "proc_alloc s = Some (i + 1, s')" "add_process s = (of_nat (i + 1), s')"
    by (simp add: proc_alloc_eq add_process_eq)
  have least: "proc_live s q" if "q \<in> {1..<i + 1}" for q
  proof -
    have "procs s ! (q - 1) \<noteq> 0" "i < 6" using Some that by (auto simp: find_Some_iff)
    with that show ?thesis by (simp add: proc_live_def)
  qed
  have "i + 1 \<in> {1..6} \<and> \<not> proc_live s (i + 1) \<and> proc_live s' = (proc_live s)(i + 1 := True) \<and> ptable_wf s'"
    by (rule pt.alloc_Some [OF assms a(1)])
  with a(2) least show ?thesis by blast
qed

theorem add_process_spec_witness:
  "\<exists>p s'. add_process ptable_init = (of_nat p, s') \<and> p \<in> {1..6} \<and>
     proc_live s' = (proc_live ptable_init)(p := True) \<and> ptable_wf s'"
proof -
  have "\<not> proc_live ptable_init 1" by (simp add: proc_live_def ptable_init_def)
  then have "\<not> (\<forall>p \<in> {1..6}. proc_live ptable_init p)" by force
  with add_process_spec [OF ptable_wf_init] show ?thesis by blast
qed

text \<open>
  The counter and the bitmap agree: \<open>free_procs\<close> promises room exactly when \<open>add_process\<close>
  would succeed.
\<close>

theorem free_procs_accurate:
  assumes "ptable_wf s"
  shows "free_procs s \<longleftrightarrow> fst (add_process s) \<noteq> -1"
proof -
  have "fst (add_process s) \<noteq> -1 \<longleftrightarrow> proc_alloc s \<noteq> None"
    by (auto simp: proc_alloc_def split: prod.split)
  also have "\<dots> \<longleftrightarrow> (\<exists>i < 6. procs s ! i = 0)"
    using proc_find(2) [of s] by (auto simp: proc_alloc_eq split: option.split)
  finally show ?thesis using count_list_procs [OF assms] by (simp add: free_procs_def)
qed

theorem free_procs_accurate_witness:
  "free_procs ptable_init \<longleftrightarrow> fst (add_process ptable_init) \<noteq> -1"
  using free_procs_accurate [OF ptable_wf_init] .

text \<open>
  Deleting a live process succeeds, frees exactly its pid and keeps the table well formed,
  so that the pid can be handed out again.
\<close>

theorem delete_process_spec:
  assumes "ptable_wf s" "p \<in> {1..6}" "proc_live s p"
  shows "\<exists>s'. delete_process (of_nat p) s = (0, s') \<and> proc_live s' = (proc_live s)(p := False) \<and>
    ptable_wf s' \<and> fst (add_process s') \<noteq> -1"
proof -
  obtain s' where s': "delete_process (of_nat p) s = (0, s')"
    using assms(2) by (simp add: delete_process_eq)
  then have r: "proc_release p s = s'" by (simp add: proc_release_def)
  have "proc_live s' = (proc_live s)(p := False) \<and> ptable_wf s'"
    using pt.release [OF assms] by (simp add: r)
  moreover have "proc_alloc s' \<noteq> None" using pt.release_makes_room [OF assms] by (auto simp: r)
  then have "fst (add_process s') \<noteq> -1" by (auto simp: proc_alloc_def split: prod.splits)
  ultimately show ?thesis using s' by blast
qed

theorem delete_process_spec_witness:
  "\<exists>s'. delete_process 2 (snd (add_process (snd (add_process ptable_init)))) = (0, s') \<and> ptable_wf s' \<and>
     fst (add_process s') \<noteq> -1"
proof -
  let ?s = "snd (add_process (snd (add_process ptable_init)))"
  have s: "?s = \<lparr>proc_count = 2, procs = [1, 1, 0, 0, 0, 0], active_processes = [-1, -1, -1],
     devices = [None, None, None, None, None, None]\<rparr>"
    by (simp add: add_process_def add_process_loop.simps ptable_init_def)
  then have "ptable_wf ?s" "proc_live ?s 2" by (simp_all add: ptable_wf_def proc_live_def)
  with delete_process_spec [of ?s 2] show ?thesis by auto
qed

text \<open>
  The \<open>pcb\<close> macro: for every stack pointer inside the 8 KB kernel stack of a process the
  mask yields that process's control block, at the address \<open>execute\<close> and the scheduler compute,
  and no other process has it. The stack top that \<open>execute\<close> loads into the TSS is inside.
\<close>

theorem pcb_of_kernel_stack:
  assumes "p \<in> {1..6}" "esp \<in> rng (pcb_addr (of_nat p)) 8192"
  shows "pcb_of_esp esp = pcb_addr (of_nat p) \<and>
    (\<forall>q \<in> {1..6}. pcb_of_esp esp = pcb_addr (of_nat q) \<longrightarrow> q = p) \<and>
    KERNEL_MEM_END - KERNEL_STACK_SIZE * of_nat p - 4 \<in> rng (pcb_addr (of_nat p)) 8192"
proof -
  have "pcb_of_esp esp = pcb_addr (of_nat p)" using assms by (auto intro: pcb_of_esp_rng)
  moreover have "KERNEL_MEM_END - KERNEL_STACK_SIZE * of_nat p - 4 = pcb_addr (of_nat p) + of_nat 8188"
    by (simp add: pcb_addr_def algebra_simps)
  then have "KERNEL_MEM_END - KERNEL_STACK_SIZE * of_nat p - 4 \<in> rng (pcb_addr (of_nat p)) 8192"
    by (simp only:) (rule rng_offset; simp)
  ultimately show ?thesis using assms(1) pcb_addr_inj by auto
qed

theorem pcb_of_kernel_stack_witness:
  "pcb_of_esp 0x7FDFE4 = 0x7FC000 \<and> 0x7FDFFC \<in> rng (pcb_addr 1) 8192"
  using pcb_of_kernel_stack [of 1 "0x7FDFE4"] by (simp add: rng_def pcb_addr_def)

end
