(* ===== verification/Fs.thy ===== *)
theory Fs
  imports Lib_String Process
begin

text \<open>
  The read-only file system of \<^verbatim>\<open>student-distrib/fs.c\<close>. The image is the run of
  4 KB blocks that the boot loader leaves at the address \<open>bb\<close> (the static variable \<open>bootblock\<close>):
  the boot block with the directory, one block per inode, then the data blocks. All functions
  read it through the byte memory with the structure offsets of \<^verbatim>\<open>fs.h\<close>; a
  pointer argument is an address, also where the caller passes the address of a local variable.

  The abstract file system is a list of names and, for every inode, the list of bytes of the
  file; \<open>fs_wf\<close> says that an image is well formed and lies in mapped memory.
\<close>

section \<open>Layout of the structures\<close>

abbreviation (input) BLOCK_SIZE :: u32 where "BLOCK_SIZE \<equiv> 4096"
abbreviation (input) CHARS_PER_BLOCK :: u32 where "CHARS_PER_BLOCK \<equiv> 4096"
abbreviation (input) BYTES_DENTRY :: u32 where "BYTES_DENTRY \<equiv> 64"

definition dentry_ftype :: "translation \<Rightarrow> memory \<Rightarrow> addr \<Rightarrow> u32" where
  "dentry_ftype tr m d = ld32 tr m (d + 32)"

definition dentry_inode :: "translation \<Rightarrow> memory \<Rightarrow> addr \<Rightarrow> u32" where
  "dentry_inode tr m d = ld32 tr m (d + 36)"

definition dir_entries_cnt :: "translation \<Rightarrow> memory \<Rightarrow> addr \<Rightarrow> u32" where
  "dir_entries_cnt tr m bb = ld32 tr m bb"

definition inode_cnt :: "translation \<Rightarrow> memory \<Rightarrow> addr \<Rightarrow> u32" where
  "inode_cnt tr m bb = ld32 tr m (bb + 4)"

definition data_block_cnt :: "translation \<Rightarrow> memory \<Rightarrow> addr \<Rightarrow> u32" where
  "data_block_cnt tr m bb = ld32 tr m (bb + 8)"

definition bootblock_dentry :: "addr \<Rightarrow> u32 \<Rightarrow> addr" where
  "bootblock_dentry bb index = bb + 64 + BYTES_DENTRY * index"

definition inode_length :: "translation \<Rightarrow> memory \<Rightarrow> addr \<Rightarrow> u32" where
  "inode_length tr m ino = ld32 tr m ino"

definition inode_data_block :: "translation \<Rightarrow> memory \<Rightarrow> addr \<Rightarrow> u32 \<Rightarrow> u32" where
  "inode_data_block tr m ino k = ld32 tr m (ino + 4 + 4 * k)"

section \<open>Operations\<close>

text \<open>\<open>fs_init\<close> returns the new \<open>bootblock\<close> pointer with the registered devices.\<close>

definition fs_init :: "addr \<Rightarrow> ptable \<Rightarrow> addr \<times> ptable" where
  "fs_init mod_start s =
     (mod_start, snd (add_device DIR_FTYPE dir_fops (snd (add_device FILE_FTYPE fs_fops s))))"

text \<open>
  \<open>None\<close> is a \<open>strlen\<close> that does not return. The \<open>int\<close> counter is compared with the
  \<open>int32_t\<close> count of entries.
\<close>

function read_dentry_loop ::
  "translation \<Rightarrow> addr \<Rightarrow> memory \<Rightarrow> addr \<Rightarrow> addr \<Rightarrow> int \<Rightarrow> addr \<Rightarrow> (u32 \<times> memory) option" where
  "read_dentry_loop tr bb m fname dentry i curr_dentry =
     (if i < sint (dir_entries_cnt tr m bb) then
        case (strlen tr m fname, strlen tr m curr_dentry) of
          (Some l1, Some l2) \<Rightarrow>
            if l1 = l2 \<and> strncmp tr m fname curr_dentry l2 = 0
            then Some (0, memcpy tr m dentry curr_dentry BYTES_DENTRY)
            else read_dentry_loop tr bb m fname dentry (i + 1) (curr_dentry + BYTES_DENTRY)
        | _ \<Rightarrow> None
      else Some (-1, m))"
  by pat_completeness auto
termination
  by (relation "measure (\<lambda>(tr, bb, m, fname, dentry, i, curr_dentry).
       nat (sint (dir_entries_cnt tr m bb) - i))") auto

declare read_dentry_loop.simps [simp del]

definition read_dentry_by_name ::
  "translation \<Rightarrow> addr \<Rightarrow> memory \<Rightarrow> addr \<Rightarrow> addr \<Rightarrow> (u32 \<times> memory) option" where
  "read_dentry_by_name tr bb m fname dentry =
     read_dentry_loop tr bb m fname dentry 0 (bootblock_dentry bb 0)"

definition read_dentry_by_index ::
  "translation \<Rightarrow> addr \<Rightarrow> memory \<Rightarrow> u32 \<Rightarrow> addr \<Rightarrow> u32 \<times> memory" where
  "read_dentry_by_index tr bb m index dentry =
     (if index \<ge> 0 \<and> index < dir_entries_cnt tr m bb
      then (0, memcpy tr m dentry (bootblock_dentry bb index) BYTES_DENTRY)
      else (-1, m))"

text \<open>The address of the data block that entry \<open>k\<close> of an inode names.\<close>

definition block_addr :: "translation \<Rightarrow> addr \<Rightarrow> memory \<Rightarrow> addr \<Rightarrow> u32 \<Rightarrow> addr" where
  "block_addr tr bb m curr_inode k =
     bb + (1 + inode_cnt tr m bb + inode_data_block tr m curr_inode k) * BLOCK_SIZE"

function read_data_loop ::
  "translation \<Rightarrow> addr \<Rightarrow> addr \<Rightarrow> u32 \<Rightarrow> addr \<Rightarrow> u32 \<Rightarrow>
   u32 \<Rightarrow> u32 \<Rightarrow> u32 \<Rightarrow> u32 \<Rightarrow> addr \<Rightarrow> memory \<Rightarrow> u32 \<times> memory" where
  "read_data_loop tr bb curr_inode offset buf len
     i bytes_read off_data_block new_offset curr_data_block m =
     (if i < len then
        if bytes_read + offset < inode_length tr m curr_inode then
          let m = st8 tr m (buf + i) (ld8 tr m (curr_data_block + new_offset));
              bytes_read = bytes_read + 1;
              new_offset = new_offset + 1
          in if sint new_offset \<ge> 4096
             then read_data_loop tr bb curr_inode offset buf len (i + 1) bytes_read
                    (off_data_block + 1) 0 (block_addr tr bb m curr_inode (off_data_block + 1)) m
             else read_data_loop tr bb curr_inode offset buf len (i + 1) bytes_read
                    off_data_block new_offset curr_data_block m
        else read_data_loop tr bb curr_inode offset buf len (i + 1) bytes_read
               off_data_block new_offset curr_data_block m
      else (bytes_read, m))"
  by pat_completeness auto
termination
  by (relation "measure (\<lambda>(tr, bb, curr_inode, offset, buf, len, i, _). unat len - unat i)")
    (simp_all add: count_up_u32)

declare read_data_loop.simps [simp del]

definition read_data ::
  "translation \<Rightarrow> addr \<Rightarrow> memory \<Rightarrow> u32 \<Rightarrow> u32 \<Rightarrow> addr \<Rightarrow> u32 \<Rightarrow> u32 \<times> memory" where
  "read_data tr bb m ino offset buf len =
     (if ino < 0 \<or> ino \<ge> inode_cnt tr m bb then (0, m)
      else
        let new_offset = offset mod CHARS_PER_BLOCK;
            off_data_block = offset div CHARS_PER_BLOCK;
            curr_inode = bb + (ino + 1) * BLOCK_SIZE;
            curr_data_block = block_addr tr bb m curr_inode off_data_block
        in read_data_loop tr bb curr_inode offset buf len 0 0 off_data_block new_offset
             curr_data_block m)"

text \<open>
  The copy of a name out of a directory entry: the loops of \<open>read_directory\<close> and
  \<open>read_directory_entry\<close>, whose test calls \<open>strlen\<close> again in every round.
\<close>

partial_function (option) read_directory_name ::
  "translation \<Rightarrow> addr \<Rightarrow> addr \<Rightarrow> u32 \<Rightarrow> u32 \<Rightarrow> u32 \<Rightarrow> u32 \<times> u32 \<times> u32 \<times> memory \<Rightarrow>
   (u32 \<times> u32 \<times> u32 \<times> memory) option" where
  "read_directory_name tr dentry buf offset len i st =
     (case st of (buf_idx, buf_off, ret_val, m) \<Rightarrow>
        case strlen tr m dentry of None \<Rightarrow> None
        | Some slen \<Rightarrow>
            if i < slen then
              if buf_off \<ge> offset \<and> ret_val < len
              then read_directory_name tr dentry buf offset len (i + 1)
                     (buf_idx + 1, buf_off, ret_val + 1,
                      st8 tr m (buf + buf_idx) (ld8 tr m (dentry + i)))
              else read_directory_name tr dentry buf offset len (i + 1)
                     (buf_idx, buf_off + 1, ret_val, m)
            else Some st)"

partial_function (option) read_directory_loop ::
  "translation \<Rightarrow> addr \<Rightarrow> addr \<Rightarrow> addr \<Rightarrow> u32 \<Rightarrow> u32 \<Rightarrow> u32 \<Rightarrow> u32 \<times> u32 \<times> u32 \<times> memory \<Rightarrow>
   (u32 \<times> u32 \<times> u32 \<times> memory) option" where
  "read_directory_loop tr bb dentry buf offset len k st =
     (case st of (buf_idx, buf_off, ret_val, m) \<Rightarrow>
        if k < dir_entries_cnt tr m bb then
          case read_directory_name tr dentry buf offset len 0
                 (buf_idx, buf_off, ret_val, snd (read_dentry_by_index tr bb m k dentry)) of
            None \<Rightarrow> None
          | Some (buf_idx, buf_off, ret_val, m) \<Rightarrow>
              if buf_off \<ge> offset \<and> ret_val < len
              then read_directory_loop tr bb dentry buf offset len (k + 1)
                     (buf_idx + 1, buf_off, ret_val, st8 tr m (buf + buf_idx) 10)
              else read_directory_loop tr bb dentry buf offset len (k + 1)
                     (buf_idx, buf_off, ret_val, m)
        else Some st)"

definition read_directory ::
  "translation \<Rightarrow> addr \<Rightarrow> memory \<Rightarrow> addr \<Rightarrow> u32 \<Rightarrow> addr \<Rightarrow> u32 \<Rightarrow> (u32 \<times> memory) option" where
  "read_directory tr bb m dentry offset buf len =
     (case read_directory_loop tr bb dentry buf offset len 0 (0, 0, 0, m) of
        None \<Rightarrow> None
      | Some (buf_idx, buf_off, ret_val, m) \<Rightarrow> Some (ret_val, st8 tr m (buf + buf_idx) 0))"

partial_function (option) read_directory_entry_loop ::
  "translation \<Rightarrow> addr \<Rightarrow> addr \<Rightarrow> u32 \<Rightarrow> u32 \<Rightarrow> u32 \<times> u32 \<times> memory \<Rightarrow> (u32 \<times> u32 \<times> memory) option" where
  "read_directory_entry_loop tr dentry buf len i st =
     (case st of (buf_idx, ret_val, m) \<Rightarrow>
        case strlen tr m dentry of None \<Rightarrow> None
        | Some slen \<Rightarrow>
            if i < slen then
              if ret_val < len
              then read_directory_entry_loop tr dentry buf len (i + 1)
                     (buf_idx + 1, ret_val + 1,
                      st8 tr m (buf + buf_idx) (ld8 tr m (dentry + i)))
              else read_directory_entry_loop tr dentry buf len (i + 1) st
            else Some st)"

definition read_directory_entry ::
  "translation \<Rightarrow> addr \<Rightarrow> memory \<Rightarrow> addr \<Rightarrow> u32 \<Rightarrow> addr \<Rightarrow> u32 \<Rightarrow> (u32 \<times> memory) option" where
  "read_directory_entry tr bb m dentry dir_entry buf len =
     (if dir_entry \<ge> dir_entries_cnt tr m bb \<or> dir_entry < 0 then Some (0, m)
      else
        case read_directory_entry_loop tr dentry buf len 0
               (0, 0, snd (read_dentry_by_index tr bb m dir_entry dentry)) of
          None \<Rightarrow> None
        | Some (buf_idx, ret_val, m) \<Rightarrow>
            let m = st8 tr m (buf + buf_idx) 10; buf_idx = buf_idx + 1
            in Some (ret_val, st8 tr m (buf + buf_idx) 0))"

definition load :: "translation \<Rightarrow> addr \<Rightarrow> memory \<Rightarrow> addr \<Rightarrow> addr \<Rightarrow> u32 \<times> memory" where
  "load tr bb m d mem =
     (if d = 0 \<or> mem = 0 then (-1, m)
      else
        let curr_inode = bb + (dentry_inode tr m d + 1) * BLOCK_SIZE;
            len = inode_length tr m curr_inode
        in (0, snd (read_data tr bb m (dentry_inode tr m d) 0 mem len)))"

definition get_inode_ptr :: "addr \<Rightarrow> u32 \<Rightarrow> addr" where
  "get_inode_ptr bb ino = bb + (ino + 1) * BLOCK_SIZE"

section \<open>File operations\<close>

text \<open>
  The operations of \<open>fs_fops\<close> and \<open>dir_fops\<close> work on the descriptor \<open>files[fd]\<close> of the calling
  process, which the caller passes in and stores back; \<open>dentry\<close> is the address of the local
  variable of \<open>read_directory_entry\<close>.
\<close>

definition dir_read ::
  "translation \<Rightarrow> addr \<Rightarrow> memory \<Rightarrow> addr \<Rightarrow> fd_t \<Rightarrow> addr \<Rightarrow> u32 \<Rightarrow> (u32 \<times> fd_t \<times> memory) option" where
  "dir_read tr bb m dentry fs_fd buf nbytes =
     (case read_directory_entry tr bb m dentry (pos fs_fd) buf nbytes of
        None \<Rightarrow> None
      | Some (bytes_read, m) \<Rightarrow> Some (bytes_read, fs_fd\<lparr>pos := pos fs_fd + 1\<rparr>, m))"

definition fs_read ::
  "translation \<Rightarrow> addr \<Rightarrow> memory \<Rightarrow> fd_t \<Rightarrow> addr \<Rightarrow> u32 \<Rightarrow> u32 \<times> fd_t \<times> memory" where
  "fs_read tr bb m fs_fd buf nbytes =
     (let (bytes_read, m) = read_data tr bb m (inode_num fs_fd) (pos fs_fd) buf nbytes
      in (bytes_read, fs_fd\<lparr>pos := pos fs_fd + bytes_read\<rparr>, m))"

definition fs_write :: "u32 \<Rightarrow> addr \<Rightarrow> u32 \<Rightarrow> u32" where
  "fs_write fd buf nbytes = -1"

definition fs_open :: "addr \<Rightarrow> u32" where
  "fs_open filename = 0"

definition fs_close :: "u32 \<Rightarrow> u32" where
  "fs_close fd = 0"

section \<open>The abstract file system\<close>

definition fs_size :: "translation \<Rightarrow> memory \<Rightarrow> addr \<Rightarrow> nat" where
  "fs_size tr m bb = (1 + unat (inode_cnt tr m bb) + unat (data_block_cnt tr m bb)) * 4096"

definition file_len :: "translation \<Rightarrow> memory \<Rightarrow> addr \<Rightarrow> u32 \<Rightarrow> nat" where
  "file_len tr m bb ino = unat (inode_length tr m (get_inode_ptr bb ino))"

definition file_byte :: "translation \<Rightarrow> memory \<Rightarrow> addr \<Rightarrow> u32 \<Rightarrow> nat \<Rightarrow> u8" where
  "file_byte tr m bb ino i =
     ld8 tr m (block_addr tr bb m (get_inode_ptr bb ino) (of_nat (i div 4096)) + of_nat (i mod 4096))"

definition file_bytes :: "translation \<Rightarrow> memory \<Rightarrow> addr \<Rightarrow> u32 \<Rightarrow> bytes" where
  "file_bytes tr m bb ino = map (file_byte tr m bb ino) [0..<file_len tr m bb ino]"

text \<open>
  An image is well formed if it fits the address space, has at most 63 directory entries, and
  every file is at most 1023 blocks long and names existing data blocks.
\<close>

definition inode_wf :: "translation \<Rightarrow> memory \<Rightarrow> addr \<Rightarrow> u32 \<Rightarrow> bool" where
  "inode_wf tr m bb ino \<longleftrightarrow> file_len tr m bb ino \<le> 1023 * 4096 \<and>
     (\<forall>k < 1023. k * 4096 < file_len tr m bb ino \<longrightarrow>
        inode_data_block tr m (get_inode_ptr bb ino) (of_nat k) < data_block_cnt tr m bb)"

definition fs_wf :: "translation \<Rightarrow> memory \<Rightarrow> addr \<Rightarrow> bool" where
  "fs_wf tr m bb \<longleftrightarrow> fs_size tr m bb \<le> 4294967296 \<and> unat (dir_entries_cnt tr m bb) \<le> 63 \<and>
     (\<forall>k < unat (inode_cnt tr m bb). inode_wf tr m bb (of_nat k))"

lemma length_file_bytes [simp]: "length (file_bytes tr m bb ino) = file_len tr m bb ino"
  by (simp add: file_bytes_def)

lemma ld32_cong:
  assumes "\<And>x. x \<in> rng a 4 \<Longrightarrow> ld8 tr m' x = ld8 tr m x"
  shows "ld32 tr m' a = ld32 tr m a"
proof -
  have "a \<in> rng a 4" "a + 1 \<in> rng a 4" "a + 2 \<in> rng a 4" "a + 3 \<in> rng a 4" by (simp_all add: rng_def)
  with assms show ?thesis by (simp add: ld32_def)
qed

text \<open>The words that the code reads lie inside the image.\<close>

lemma rng_sub_fs:
  assumes "i + j \<le> fs_size tr m bb" "a = bb + of_nat i"
  shows "rng a j \<subseteq> rng bb (fs_size tr m bb)"
  unfolding assms(2) using assms(1) by (rule rng_sub)

lemma inode_ptr_nat: "get_inode_ptr bb ino = bb + of_nat ((unat ino + 1) * 4096)"
  by (simp add: get_inode_ptr_def)

lemma inode_rng:
  assumes "ino < inode_cnt tr m bb" "i + j \<le> 4096"
  shows "rng (get_inode_ptr bb ino + of_nat i) j \<subseteq> rng bb (fs_size tr m bb)"
proof -
  have "unat ino < unat (inode_cnt tr m bb)" using assms(1) by (simp add: word_less_nat_alt)
  then have "(unat ino + 1) * 4096 + i + j \<le> fs_size tr m bb" using assms(2) by (simp add: fs_size_def)
  then show ?thesis by (rule rng_sub_fs) (simp add: inode_ptr_nat)
qed

lemma header_rng: "rng bb 4 \<subseteq> rng bb (fs_size tr m bb)" "rng (bb + 4) 4 \<subseteq> rng bb (fs_size tr m bb)"
  "rng (bb + 8) 4 \<subseteq> rng bb (fs_size tr m bb)"
  using rng_sub_fs [of 0 4 tr m bb bb] rng_sub_fs [of 4 4 tr m bb "bb + 4"]
    rng_sub_fs [of 8 4 tr m bb "bb + 8"] by (simp_all add: fs_size_def)

text \<open>
  A memory that agrees on the image holds the same file system: every field the code consults
  has the same value.
\<close>

definition fs_same :: "translation \<Rightarrow> addr \<Rightarrow> memory \<Rightarrow> memory \<Rightarrow> bool" where
  "fs_same tr bb m m' \<longleftrightarrow> (\<forall>x \<in> rng bb (fs_size tr m bb). ld8 tr m' x = ld8 tr m x)"

lemma fs_sameD: "fs_same tr bb m m' \<Longrightarrow> rng a 4 \<subseteq> rng bb (fs_size tr m bb) \<Longrightarrow> ld32 tr m' a = ld32 tr m a"
  by (intro ld32_cong) (auto simp: fs_same_def)

lemma fs_same_header:
  assumes "fs_same tr bb m m'"
  shows "dir_entries_cnt tr m' bb = dir_entries_cnt tr m bb" "inode_cnt tr m' bb = inode_cnt tr m bb"
    "data_block_cnt tr m' bb = data_block_cnt tr m bb"
  using assms by (simp_all add: dir_entries_cnt_def inode_cnt_def data_block_cnt_def fs_sameD header_rng)

lemma fs_same_inode:
  assumes "fs_same tr bb m m'" "ino < inode_cnt tr m bb"
  shows "inode_length tr m' (get_inode_ptr bb ino) = inode_length tr m (get_inode_ptr bb ino)"
    "k < 1023 \<Longrightarrow> inode_data_block tr m' (get_inode_ptr bb ino) (of_nat k) =
       inode_data_block tr m (get_inode_ptr bb ino) (of_nat k)"
    "k < 1023 \<Longrightarrow> block_addr tr bb m' (get_inode_ptr bb ino) (of_nat k) =
       block_addr tr bb m (get_inode_ptr bb ino) (of_nat k)"
proof -
  show "inode_length tr m' (get_inode_ptr bb ino) = inode_length tr m (get_inode_ptr bb ino)"
    unfolding inode_length_def using assms inode_rng [OF assms(2), of 0 4] by (intro fs_sameD) auto
  show d: "inode_data_block tr m' (get_inode_ptr bb ino) (of_nat k) =
       inode_data_block tr m (get_inode_ptr bb ino) (of_nat k)" if "k < 1023"
    unfolding inode_data_block_def using assms that inode_rng [OF assms(2), of "4 + 4 * k" 4]
    by (intro fs_sameD) (auto simp: algebra_simps)
  show "block_addr tr bb m' (get_inode_ptr bb ino) (of_nat k) =
       block_addr tr bb m (get_inode_ptr bb ino) (of_nat k)" if "k < 1023"
    using d [OF that] fs_same_header [OF assms(1)] by (simp add: block_addr_def)
qed

text \<open>Every byte of a file lies inside the image.\<close>

lemma file_byte_rng:
  assumes "fs_wf tr m bb" "ino < inode_cnt tr m bb" "i < file_len tr m bb ino"
  shows "block_addr tr bb m (get_inode_ptr bb ino) (of_nat (i div 4096)) + of_nat (i mod 4096)
      \<in> rng bb (fs_size tr m bb)"
    "i div 4096 < 1023"
proof -
  have "inode_wf tr m bb (of_nat (unat ino))"
    using assms(1,2) unfolding fs_wf_def by (auto simp: word_less_nat_alt simp del: of_nat_unat_u32)
  then have wf: "inode_wf tr m bb ino" by simp
  then have "i < 1023 * 4096" using assms(3) by (simp add: inode_wf_def)
  then show k: "i div 4096 < 1023" by (simp add: less_mult_imp_div_less)
  let ?b = "inode_data_block tr m (get_inode_ptr bb ino) (of_nat (i div 4096))"
  have "i div 4096 * 4096 < file_len tr m bb ino" using assms(3) by (rule le_less_trans [OF div_times_less_eq_dividend])
  with wf k have "?b < data_block_cnt tr m bb" by (simp add: inode_wf_def)
  then have "unat ?b < unat (data_block_cnt tr m bb)" by (simp add: word_less_nat_alt)
  moreover have "i mod 4096 < 4096" by simp
  ultimately have le: "(1 + unat (inode_cnt tr m bb) + unat ?b) * 4096 + i mod 4096 < fs_size tr m bb"
    unfolding fs_size_def by (rule block_offset_less)
  have "block_addr tr bb m (get_inode_ptr bb ino) (of_nat (i div 4096)) + of_nat (i mod 4096) =
      bb + of_nat ((1 + unat (inode_cnt tr m bb) + unat ?b) * 4096 + i mod 4096)"
    by (simp add: block_addr_def)
  also have "\<dots> \<in> rng bb (fs_size tr m bb)"
    using le assms(1) by (intro rng_offset) (auto simp: fs_wf_def)
  finally show "block_addr tr bb m (get_inode_ptr bb ino) (of_nat (i div 4096)) + of_nat (i mod 4096)
      \<in> rng bb (fs_size tr m bb)" .
qed

lemma fs_same_file_byte:
  assumes "fs_wf tr m bb" "fs_same tr bb m m'" "ino < inode_cnt tr m bb" "i < file_len tr m bb ino"
  shows "file_byte tr m' bb ino i = file_byte tr m bb ino i"
  unfolding file_byte_def using assms file_byte_rng [OF assms(1,3,4)] fs_same_inode(3) [OF assms(2,3)]
  by (simp add: fs_same_def)

lemma fs_same_file_bytes:
  assumes "fs_wf tr m bb" "fs_same tr bb m m'" "ino < inode_cnt tr m bb"
  shows "file_bytes tr m' bb ino = file_bytes tr m bb ino"
  using assms fs_same_inode(1) [OF assms(2,3)]
  by (auto simp: file_bytes_def file_len_def fs_same_file_byte [OF assms(1-3)])

section \<open>Reading a file\<close>

lemma read_data_loop_eof:
  assumes "\<not> bytes_read + offset < inode_length tr m curr_inode"
  shows "read_data_loop tr bb curr_inode offset buf len i bytes_read odb new_offset cdb m = (bytes_read, m)"
proof (induction "unat len - unat i" arbitrary: i rule: less_induct)
  case less
  show ?case
  proof (cases "i < len")
    case True
    then have "read_data_loop tr bb curr_inode offset buf len (i + 1) bytes_read odb new_offset cdb m =
        (bytes_read, m)"
      by (intro less.hyps count_up_u32)
    with True assms show ?thesis by (subst read_data_loop.simps) simp
  qed (subst read_data_loop.simps, simp)
qed

lemma of_nat_mod_Suc:
  assumes "Suc (p mod 4096) \<noteq> 4096"
  shows "Suc p mod 4096 = Suc (p mod 4096)" "Suc p div 4096 = p div 4096"
  using assms by (simp_all add: mod_Suc div_Suc)

context address_space
begin

text \<open>Storing outside the image leaves the file system as it is.\<close>

lemma fs_same_store:
  assumes "rng bb (fs_size tr m bb) \<subseteq> mapped" "rng a (length bs) \<subseteq> mapped"
    and "rng bb (fs_size tr m bb) \<inter> rng a (length bs) = {}" "length bs \<le> 4294967296"
  shows "fs_same tr bb m (store_bytes tr m a bs)"
  unfolding fs_same_def using assms by (auto intro!: ld8_store_outside)

lemma fs_same_store_buf:
  assumes "rng bb (fs_size tr m bb) \<subseteq> mapped" "rng buf (unat len) \<subseteq> mapped"
    and "rng bb (fs_size tr m bb) \<inter> rng buf (unat len) = {}" "length bs \<le> unat (len :: u32)"
  shows "fs_same tr bb m (store_bytes tr m buf bs)"
proof -
  have "length bs \<le> 4294967296" using assms(4) unat_lt_2p32 [of len] by linarith
  moreover have "rng buf (length bs) \<subseteq> rng buf (unat len)" using assms(4) by (rule rng_mono)
  ultimately show ?thesis using assms by (intro fs_same_store) auto
qed

lemma read_data_loop_eq:
  assumes wf: "fs_wf tr m bb" "rng bb (fs_size tr m bb) \<subseteq> mapped" "ino < inode_cnt tr m bb"
    and buf: "rng buf (unat len) \<subseteq> mapped" "rng bb (fs_size tr m bb) \<inter> rng buf (unat len) = {}"
    and data: "data = take (unat len) (drop (unat offset) (file_bytes tr m bb ino))"
    and j: "j \<le> length data" "p = unat offset + j" "n = length data - j"
    and off: "unat offset < file_len tr m bb ino"
    and cdb: "p < file_len tr m bb ino \<Longrightarrow> cdb = block_addr tr bb m (get_inode_ptr bb ino) (of_nat (p div 4096))"
  shows "read_data_loop tr bb (get_inode_ptr bb ino) offset buf len (of_nat j) (of_nat j)
      (of_nat (p div 4096)) (of_nat (p mod 4096)) cdb (store_bytes tr m buf (take j data)) =
    (of_nat (length data), store_bytes tr m buf data)"
  using j cdb
proof (induction n arbitrary: j p cdb)
  case 0
  then have jl: "j = length data" by simp
  let ?m = "store_bytes tr m buf data"
  have ld: "length data \<le> unat len" by (simp add: data)
  then have same: "fs_same tr bb m ?m" by (rule fs_same_store_buf [OF wf(2) buf])
  show ?case
  proof (cases "j = unat len")
    case True
    then have "of_nat j = len" by simp
    with jl show ?thesis by (subst read_data_loop.simps) simp
  next
    case False
    then have "p = file_len tr m bb ino" using 0 jl ld off by (auto simp: data)
    then have "of_nat j + offset = inode_length tr m (get_inode_ptr bb ino)"
      using 0 by (simp add: file_len_def) (metis of_nat_add of_nat_unat_u32 add.commute)
    then show ?thesis
      using jl fs_same_inode(1) [OF same wf(3)] by (simp add: read_data_loop_eof)
  qed
next
  case (Suc n)
  then have j: "j < length data" by linarith
  let ?m = "store_bytes tr m buf (take j data)" and ?ino = "get_inode_ptr bb ino"
  have ld: "length data \<le> unat len" by (simp add: data)
  then have jlen: "j < unat len" using j by simp
  have p: "p < file_len tr m bb ino" using j Suc.prems off by (auto simp: data)
  have dj: "data ! j = file_byte tr m bb ino p"
    using j p Suc.prems by (simp add: data file_bytes_def nth_append)
  have same: "fs_same tr bb m ?m" using ld by (intro fs_same_store_buf [OF wf(2) buf]) simp
  have "ld8 tr ?m (cdb + of_nat (p mod 4096)) = data ! j"
    using same file_byte_rng(1) [OF wf(1,3) p] Suc.prems(4) [OF p] dj
    by (simp add: fs_same_def file_byte_def)
  then have st: "st8 tr ?m (buf + of_nat j) (ld8 tr ?m (cdb + of_nat (p mod 4096))) =
      store_bytes tr m buf (take (Suc j) data)"
    using j by (simp add: store_bytes_take_Suc)
  have same': "fs_same tr bb m (store_bytes tr m buf (take (Suc j) data))"
    using ld by (intro fs_same_store_buf [OF wf(2) buf]) simp
  have lt: "of_nat j < len" using jlen by (simp add: of_nat_less_u32)
  have "of_nat j + offset = (of_nat p :: u32)" using Suc.prems by simp
  moreover have "(of_nat p :: u32) < inode_length tr m ?ino"
    using p by (simp add: file_len_def of_nat_less_u32)
  ultimately have neof: "of_nat j + offset < inode_length tr ?m ?ino"
    using fs_same_inode(1) [OF same wf(3)] by simp
  have IH: "read_data_loop tr bb ?ino offset buf len (of_nat (Suc j)) (of_nat (Suc j))
      (of_nat (Suc p div 4096)) (of_nat (Suc p mod 4096)) cdb' (store_bytes tr m buf (take (Suc j) data)) =
      (of_nat (length data), store_bytes tr m buf data)"
    if "Suc p < file_len tr m bb ino \<Longrightarrow> cdb' = block_addr tr bb m ?ino (of_nat (Suc p div 4096))" for cdb'
    using Suc.prems j that by (intro Suc.IH) auto
  have s: "sint (of_nat (p mod 4096) + 1 :: u32) = int (Suc (p mod 4096))"
    using sint_small_u32 [of "Suc (p mod 4096)"] by (simp add: add.commute)
  show ?case
  proof (cases "Suc (p mod 4096) = 4096")
    case True
    then have d: "Suc p div 4096 = Suc (p div 4096)" "Suc p mod 4096 = 0" by (simp_all add: mod_Suc div_Suc)
    have "block_addr tr bb (store_bytes tr m buf (take (Suc j) data)) ?ino (of_nat (Suc p div 4096)) =
        block_addr tr bb m ?ino (of_nat (Suc p div 4096))" if "Suc p < file_len tr m bb ino"
      using fs_same_inode(3) [OF same' wf(3)] file_byte_rng(2) [OF wf(1,3) that] by blast
    from IH [OF this] show ?thesis
      using lt neof st s True d by (subst read_data_loop.simps) (simp add: Let_def add.commute)
  next
    case False
    then have "Suc (p mod 4096) < 4096" by (simp add: less_le Suc_le_eq)
    moreover note of_nat_mod_Suc [OF False]
    ultimately show ?thesis
      using IH [of cdb] lt neof st s Suc.prems(4) [OF p]
      by (subst read_data_loop.simps) (simp add: Let_def add.commute)
  qed
qed

lemma read_data_eq:
  assumes wf: "fs_wf tr m bb" "rng bb (fs_size tr m bb) \<subseteq> mapped" "ino < inode_cnt tr m bb"
    and buf: "rng buf (unat len) \<subseteq> mapped" "rng bb (fs_size tr m bb) \<inter> rng buf (unat len) = {}"
    and data: "data = take (unat len) (drop (unat offset) (file_bytes tr m bb ino))"
  shows "read_data tr bb m ino offset buf len = (of_nat (length data), store_bytes tr m buf data)"
proof -
  have e: "read_data tr bb m ino offset buf len = read_data_loop tr bb (get_inode_ptr bb ino) offset buf len 0 0
      (offset div 4096) (offset mod 4096) (block_addr tr bb m (get_inode_ptr bb ino) (offset div 4096)) m"
    using wf(3) by (simp add: read_data_def Let_def get_inode_ptr_def not_le [symmetric])
  have o: "offset div 4096 = of_nat (unat offset div 4096)" "offset mod 4096 = of_nat (unat offset mod 4096)"
    by (simp_all add: word_arith_nat_div word_arith_nat_mod)
  show ?thesis
  proof (cases "unat offset < file_len tr m bb ino")
    case True
    then show ?thesis
      unfolding e o using read_data_loop_eq [OF wf buf data, of 0 "unat offset" "length data"] by simp
  next
    case False
    then have "\<not> offset < inode_length tr m (get_inode_ptr bb ino)"
      by (simp add: file_len_def word_less_nat_alt)
    then show ?thesis
      unfolding e using False by (simp add: read_data_loop_eof data)
  qed
qed

text \<open>\<open>load\<close> copies the whole file.\<close>

lemma load_eq:
  assumes wf: "fs_wf tr m bb" "rng bb (fs_size tr m bb) \<subseteq> mapped"
    and d: "d \<noteq> 0" "mem \<noteq> 0" "dentry_inode tr m d = ino" "ino < inode_cnt tr m bb"
    and mem: "rng mem (file_len tr m bb ino) \<subseteq> mapped"
      "rng bb (fs_size tr m bb) \<inter> rng mem (file_len tr m bb ino) = {}"
  shows "load tr bb m d mem = (0, store_bytes tr m mem (file_bytes tr m bb ino))"
proof -
  define len where "len = inode_length tr m (get_inode_ptr bb ino)"
  have len: "unat len = file_len tr m bb ino" by (simp add: len_def file_len_def)
  have "read_data tr bb m ino 0 mem len = (of_nat (length (file_bytes tr m bb ino)), store_bytes tr m mem (file_bytes tr m bb ino))"
    using wf d mem len by (intro read_data_eq) auto
  then show ?thesis
    using d by (simp add: load_def Let_def len_def get_inode_ptr_def)
qed

lemma fs_read_eq:
  assumes "fs_wf tr m bb" "rng bb (fs_size tr m bb) \<subseteq> mapped" "inode_num f < inode_cnt tr m bb"
    and "rng buf (unat n) \<subseteq> mapped" "rng bb (fs_size tr m bb) \<inter> rng buf (unat n) = {}"
    and "data = take (unat n) (drop (unat (pos f)) (file_bytes tr m bb (inode_num f)))"
  shows "fs_read tr bb m f buf n =
    (of_nat (length data), f\<lparr>pos := pos f + of_nat (length data)\<rparr>, store_bytes tr m buf data)"
  using read_data_eq [OF assms] by (simp add: fs_read_def)

end

section \<open>Looking up a name\<close>

definition dir_names :: "translation \<Rightarrow> memory \<Rightarrow> addr \<Rightarrow> bytes list \<Rightarrow> bool" where
  "dir_names tr m bb names \<longleftrightarrow> length names = unat (dir_entries_cnt tr m bb) \<and> length names \<le> 63 \<and>
     (\<forall>k < length names. cstring tr m (bootblock_dentry bb (of_nat k)) (names ! k))"

lemma name_match:
  assumes "cstring tr m s1 xs" "cstring tr m s2 ys"
  shows "of_nat (length xs) = (of_nat (length ys) :: u32) \<and>
      strncmp tr m s1 s2 (of_nat (length ys)) = 0 \<longleftrightarrow> xs = ys"
proof -
  have "length xs < 4294967296" "length ys < 4294967296" "0 \<notin> set xs" "0 \<notin> set ys"
    using assms by (auto simp: cstring_def)
  then show ?thesis
    by (auto simp: strncmp_cstrings [OF assms] of_nat_eq_iff_u32 unat_of_nat_u32 strncmp_list_0)
qed

lemma dir_names_cnt:
  assumes "dir_names tr m bb names"
  shows "sint (dir_entries_cnt tr m bb) = int (length names)"
  using assms sint_small_u32 [of "length names"] by (auto simp: dir_names_def)

lemma read_dentry_loop_eq:
  assumes "dir_names tr m bb names" "cstring tr m fname xs" "k \<le> length names"
  shows "read_dentry_loop tr bb m fname dentry (int k) (bootblock_dentry bb (of_nat k)) =
    (case find (\<lambda>i. names ! i = xs) [k..<length names] of None \<Rightarrow> Some (-1, m)
     | Some i \<Rightarrow> Some (0, memcpy tr m dentry (bootblock_dentry bb (of_nat i)) 64))"
  using dir_names_cnt [OF assms(1)] assms(3)
proof (induction "length names - k" arbitrary: k)
  case 0
  then show ?case by (subst read_dentry_loop.simps) simp
  next
  case (Suc n)
  then have k: "k < length names" by simp
  then have c: "cstring tr m (bootblock_dentry bb (of_nat k)) (names ! k)"
    using assms(1) by (simp add: dir_names_def)
  have nxt: "bootblock_dentry bb (of_nat (Suc k)) = bootblock_dentry bb (of_nat k) + 64"
    by (simp add: bootblock_dentry_def)
  have IH: "read_dentry_loop tr bb m fname dentry (int (Suc k)) (bootblock_dentry bb (of_nat (Suc k))) =
    (case find (\<lambda>i. names ! i = xs) [Suc k..<length names] of None \<Rightarrow> Some (-1, m)
     | Some i \<Rightarrow> Some (0, memcpy tr m dentry (bootblock_dentry bb (of_nat i)) 64))"
    using Suc k by (intro Suc.hyps) auto
  show ?case
  proof (cases "names ! k = xs")
    case True
    then show ?thesis
      using k Suc.prems(1) strlen_cstring [OF assms(2)] strlen_cstring [OF c] name_match [OF assms(2) c]
      by (subst read_dentry_loop.simps) (simp add: upt_conv_Cons)
  next
    case False
    then have "\<not> (of_nat (length xs) = (of_nat (length (names ! k)) :: u32) \<and>
        strncmp tr m fname (bootblock_dentry bb (of_nat k)) (of_nat (length (names ! k))) = 0)"
      using name_match [OF assms(2) c] by metis
    with False IH k Suc.prems(1) nxt show ?thesis
      using strlen_cstring [OF assms(2)] strlen_cstring [OF c]
      by (subst read_dentry_loop.simps) (auto simp add: upt_conv_Cons add.commute)
  qed
qed

lemma read_dentry_by_name_eq:
  assumes "dir_names tr m bb names" "cstring tr m fname xs"
  shows "read_dentry_by_name tr bb m fname dentry =
    (case find (\<lambda>i. names ! i = xs) [0..<length names] of None \<Rightarrow> Some (-1, m)
     | Some i \<Rightarrow> Some (0, memcpy tr m dentry (bootblock_dentry bb (of_nat i)) 64))"
  using read_dentry_loop_eq [OF assms, of 0 dentry] by (simp add: read_dentry_by_name_def)

section \<open>Listing the directory\<close>

context address_space
begin

lemma cstring_store_disjoint:
  assumes "cstring tr m s bs" "rng s (Suc (length bs)) \<subseteq> mapped" "rng a (length ys) \<subseteq> mapped"
    and "rng a (length ys) \<inter> rng s (Suc (length bs)) = {}" "length ys \<le> 4294967296"
  shows "cstring tr (store_bytes tr m a ys) s bs"
proof -
  have len: "length bs < 4294967296" using assms(1) by (simp add: cstring_def)
  have sub: "rng s (length bs) \<subseteq> rng s (Suc (length bs))" by (rule rng_mono) simp
  have "load_bytes tr (store_bytes tr m a ys) s (length bs) = load_bytes tr m s (length bs)"
    using assms sub len by (intro load_store_disjoint) auto
  moreover have "s + of_nat (length bs) \<in> rng s (Suc (length bs))" using len by (intro rng_offset) auto
  then have "ld8 tr (store_bytes tr m a ys) (s + of_nat (length bs)) = ld8 tr m (s + of_nat (length bs))"
    using assms by (intro ld8_store_outside) auto
  ultimately show ?thesis using assms(1) by (simp add: cstring_def)
qed

lemma read_directory_entry_loop_eq:
  assumes nm: "cstring tr m dentry nm" "rng dentry (Suc (length nm)) \<subseteq> mapped"
    and data: "data = take (unat len) nm" "rng buf (length data) \<subseteq> mapped"
      "rng buf (length data) \<inter> rng dentry (Suc (length nm)) = {}"
    and i: "i \<le> length nm"
  shows "read_directory_entry_loop tr dentry buf len (of_nat i)
      (of_nat (min i (length data)), of_nat (min i (length data)), store_bytes tr m buf (take i data)) =
    Some (of_nat (length data), of_nat (length data), store_bytes tr m buf data)"
  using i
proof (induction "length nm - i" arbitrary: i)
  case 0
  have nl: "length nm < 4294967296" using nm(1) by (simp add: cstring_def)
  have c: "cstring tr (store_bytes tr m buf data) dentry nm"
    using nm data nl by (intro cstring_store_disjoint) auto
  have "i = length nm" "length data \<le> length nm" using 0 by (simp_all add: data)
  then show ?case
    using strlen_cstring [OF c] by (subst read_directory_entry_loop.simps) (simp add: min_absorb2)
next
  case (Suc n)
  let ?m = "store_bytes tr m buf (take i data)"
  have nl: "length nm < 4294967296" using nm(1) by (simp add: cstring_def)
  have i: "i < length nm" using Suc by linarith
  have ld: "length data = min (unat len) (length nm)" by (simp add: data(1) min.commute)
  have "rng buf (length (take i data)) \<subseteq> rng buf (length data)" by (rule rng_mono) simp
  then have c: "cstring tr ?m dentry nm"
    using nm data(2,3) nl ld by (intro cstring_store_disjoint) auto
  have lt: "(of_nat i :: u32) < of_nat (length nm)"
    using i nl by (simp add: word_less_nat_alt unat_of_nat_u32)
  have IH: "read_directory_entry_loop tr dentry buf len (of_nat (Suc i))
      (of_nat (min (Suc i) (length data)), of_nat (min (Suc i) (length data)),
       store_bytes tr m buf (take (Suc i) data)) =
    Some (of_nat (length data), of_nat (length data), store_bytes tr m buf data)"
    using Suc i by (intro Suc.hyps) auto
  show ?case
  proof (cases "i < unat len")
    case True
    then have k: "i < length data" using i ld by simp
    then have "data ! i = nm ! i" by (simp add: data(1))
    then have "ld8 tr ?m (dentry + of_nat i) = data ! i"
      using cstring_nth [OF c, of i] i by (simp add: nth_append)
    moreover have "of_nat i < len" using True by (simp add: of_nat_less_u32)
    ultimately show ?thesis
      using IH k lt strlen_cstring [OF c]
      by (subst read_directory_entry_loop.simps) (simp add: store_bytes_take_Suc add.commute)
  next
    case False
    then have k: "length data = unat len" "length data \<le> i" using i ld by simp_all
    then show ?thesis
      using IH lt strlen_cstring [OF c]
      by (subst read_directory_entry_loop.simps) (simp add: min_absorb2 add.commute)
  qed
qed

text \<open>
  Reading entry \<open>k\<close> of the directory: the name, cut to the length of the buffer, then a newline
  and a NUL behind it, which the returned count does not include.
\<close>

lemma read_directory_entry_eq:
  assumes k: "dir_names tr m bb names" "k < length names" "length (names ! k) < 64"
    and mapd: "rng (bootblock_dentry bb (of_nat k)) 64 \<subseteq> mapped" "rng dentry 64 \<subseteq> mapped"
      "rng (bootblock_dentry bb (of_nat k)) 64 \<inter> rng dentry 64 = {}"
    and data: "data = take (unat len) (names ! k)" "rng buf (length data + 2) \<subseteq> mapped"
      "rng buf (length data + 2) \<inter> rng dentry 64 = {}"
  shows "read_directory_entry tr bb m dentry (of_nat k) buf len =
    Some (of_nat (length data), store_bytes tr
      (store_bytes tr m dentry (load_bytes tr m (bootblock_dentry bb (of_nat k)) 64)) buf (data @ [10, 0]))"
proof -
  let ?d = "bootblock_dentry bb (of_nat k)" and ?nm = "names ! k"
  let ?m = "store_bytes tr m dentry (load_bytes tr m ?d 64)"
  have lt: "(of_nat k :: u32) < dir_entries_cnt tr m bb"
    using k by (simp add: dir_names_def of_nat_less_u32)
  have nm: "cstring tr m ?d ?nm" using k by (simp add: dir_names_def)
  have cp: "memcpy tr m dentry ?d 64 = ?m" using memcpy_eq [of ?d 64 dentry m] mapd by simp
  have "load_bytes tr ?m dentry 64 = load_bytes tr m ?d 64"
    using load_store_same [of dentry "load_bytes tr m ?d 64" m] mapd(2) by simp
  then have ld: "ld8 tr ?m (dentry + of_nat i) = ld8 tr m (?d + of_nat i)" if "i < 64" for i
    using that by (metis nth_load_bytes)
  have nm': "cstring tr ?m dentry ?nm"
    using nm k(3) ld unfolding cstring_def by (auto intro!: load_bytes_eqI) (metis nth_load_bytes order_less_trans)
  have sub: "rng buf (length data) \<subseteq> rng buf (length data + 2)" "rng dentry (Suc (length ?nm)) \<subseteq> rng dentry 64"
    using k(3) by (auto intro!: rng_mono)
  have "read_directory_entry_loop tr dentry buf len (of_nat 0)
      (of_nat (min 0 (length data)), of_nat (min 0 (length data)), store_bytes tr ?m buf (take 0 data)) =
    Some (of_nat (length data), of_nat (length data), store_bytes tr ?m buf data)"
    using nm' mapd data sub by (intro read_directory_entry_loop_eq) auto
  then show ?thesis
    using lt by (simp add: read_directory_entry_def read_dentry_by_index_def cp store_bytes_append Let_def
        add.assoc not_le [symmetric])
qed

end

section \<open>Sequences of reads\<close>

text \<open>
  A program that reads an open file call by call, into buffers of its choice; the bytes it
  receives are those it finds in each buffer after the call.
\<close>

fun fs_read_seq ::
  "translation \<Rightarrow> addr \<Rightarrow> (addr \<times> u32) list \<Rightarrow> fd_t \<Rightarrow> memory \<Rightarrow> bytes \<times> fd_t \<times> memory" where
  "fs_read_seq tr bb [] f m = ([], f, m)"
| "fs_read_seq tr bb ((buf, n) # cs) f m =
     (let (r, f, m) = fs_read tr bb m f buf n;
          got = load_bytes tr m buf (unat r);
          (rest, f, m) = fs_read_seq tr bb cs f m
      in (got @ rest, f, m))"

context address_space
begin

lemma fs_same_size: "fs_same tr bb m m' \<Longrightarrow> fs_size tr m' bb = fs_size tr m bb"
  by (simp add: fs_size_def fs_same_header)

lemma fs_same_wf:
  assumes "fs_wf tr m bb" "fs_same tr bb m m'"
  shows "fs_wf tr m' bb"
proof -
  have "inode_wf tr m' bb (of_nat k)" if k: "k < unat (inode_cnt tr m bb)" for k
  proof -
    have lt: "(of_nat k :: u32) < inode_cnt tr m bb" using k by (simp add: of_nat_less_u32)
    have "inode_wf tr m bb (of_nat k)" using assms(1) k by (simp add: fs_wf_def)
    then show ?thesis
      using fs_same_inode(1,2) [OF assms(2) lt] fs_same_header [OF assms(2)]
      by (simp add: inode_wf_def file_len_def)
  qed
  then show ?thesis
    using assms fs_same_size [OF assms(2)] fs_same_header [OF assms(2)] by (simp add: fs_wf_def)
qed

lemma fs_read_seq_eq:
  assumes "fs_wf tr m bb" "rng bb (fs_size tr m bb) \<subseteq> mapped" "inode_num f < inode_cnt tr m bb"
    and "\<forall>(buf, n) \<in> set cs. rng buf (unat n) \<subseteq> mapped \<and> rng bb (fs_size tr m bb) \<inter> rng buf (unat n) = {}"
    and "unat (pos f) \<le> file_len tr m bb (inode_num f)"
  shows "fst (fs_read_seq tr bb cs f m) =
    take (\<Sum>c \<leftarrow> cs. unat (snd c)) (drop (unat (pos f)) (file_bytes tr m bb (inode_num f)))"
  using assms
proof (induction cs arbitrary: f m)
  case (Cons c cs)
  obtain buf n where c: "c = (buf, n)" by fastforce
  let ?fb = "file_bytes tr m bb (inode_num f)"
  define data where "data = take (unat n) (drop (unat (pos f)) ?fb)"
  have buf: "rng buf (unat n) \<subseteq> mapped" "rng bb (fs_size tr m bb) \<inter> rng buf (unat n) = {}"
    using Cons.prems(4) c by auto
  have ln: "length data \<le> unat n" "length data \<le> file_len tr m bb (inode_num f) - unat (pos f)"
    by (simp_all add: data_def)
  have l32: "length data < 4294967296" using ln(1) unat_lt_2p32 [of n] by linarith
  let ?f = "f\<lparr>pos := pos f + of_nat (length data)\<rparr>" and ?m = "store_bytes tr m buf data"
  have r: "fs_read tr bb m f buf n = (of_nat (length data), ?f, ?m)"
    using Cons.prems(1-3) buf data_def by (rule fs_read_eq)
  have same: "fs_same tr bb m ?m" using ln(1) by (rule fs_same_store_buf [OF Cons.prems(2) buf])
  have "rng buf (length data) \<subseteq> rng buf (unat n)" using ln(1) by (rule rng_mono)
  then have got: "load_bytes tr ?m buf (length data) = data"
    using buf(1) l32 by (intro load_store_same) auto
  have le: "unat (pos f) + length data \<le> file_len tr m bb (inode_num f)" using ln(2) Cons.prems(5) by linarith
  then have "unat (pos f) + length data < 4294967296"
    by (rule le_less_trans) (simp add: file_len_def)
  then have p: "unat (pos ?f) = unat (pos f) + length data"
    using l32 by (simp add: unat_plus_if' unat_of_nat_u32)
  have fb: "file_bytes tr ?m bb (inode_num f) = ?fb"
    using fs_same_file_bytes [OF Cons.prems(1) same Cons.prems(3)] .
  have "fst (fs_read_seq tr bb cs ?f ?m) = take (\<Sum>c \<leftarrow> cs. unat (snd c))
      (drop (unat (pos ?f)) (file_bytes tr ?m bb (inode_num ?f)))"
    using Cons.prems fs_same_wf [OF Cons.prems(1) same] fs_same_size [OF same] fs_same_header [OF same]
      le p arg_cong [OF fb, of length]
    by (intro Cons.IH) auto
  then show ?case
    using r got p fb l32 by (simp add: c split_beta unat_of_nat_u32 take_then_rest [OF data_def])
qed simp

end

section \<open>Properties\<close>

text \<open>
  A small image for the examples: one directory entry \<open>hi\<close>, a regular file with inode 0, whose
  three bytes are in the only data block.
\<close>

definition sample_image :: memory where
  "sample_image = (\<lambda>a. 0)(0x10000 := 1, 0x10004 := 1, 0x10008 := 1,
     0x10040 := 104, 0x10041 := 105, 0x10060 := 2,
     0x11000 := 3, 0x12000 := 97, 0x12001 := 98, 0x12002 := 99)"

lemma sample_image_header:
  "dir_entries_cnt (\<lambda>a. a) sample_image 0x10000 = 1" "inode_cnt (\<lambda>a. a) sample_image 0x10000 = 1"
  "data_block_cnt (\<lambda>a. a) sample_image 0x10000 = 1" "fs_size (\<lambda>a. a) sample_image 0x10000 = 12288"
  by (simp_all add: dir_entries_cnt_def inode_cnt_def data_block_cnt_def fs_size_def ld32_def ld8_def
      sample_image_def word_of_bytes_def)

lemma sample_image_file:
  "file_len (\<lambda>a. a) sample_image 0x10000 0 = 3"
  "inode_data_block (\<lambda>a. a) sample_image (get_inode_ptr 0x10000 0) 0 = 0"
  "file_bytes (\<lambda>a. a) sample_image 0x10000 0 = [97, 98, 99]"
proof -
  show l: "file_len (\<lambda>a. a) sample_image 0x10000 0 = 3"
    and d: "inode_data_block (\<lambda>a. a) sample_image (get_inode_ptr 0x10000 0) 0 = 0"
    by (simp_all add: file_len_def inode_length_def inode_data_block_def get_inode_ptr_def ld32_def ld8_def
        sample_image_def word_of_bytes_def)
  show "file_bytes (\<lambda>a. a) sample_image 0x10000 0 = [97, 98, 99]"
    by (simp add: file_bytes_def l file_byte_def block_addr_def sample_image_header d upt_rec numeral_3_eq_3)
      (simp add: sample_image_def ld8_def)
qed

lemma sample_image_wf: "fs_wf (\<lambda>a. a) sample_image 0x10000"
proof -
  have k: "k * 4096 < 3 \<longleftrightarrow> k = 0" for k :: nat by (cases k) auto
  then show ?thesis
    by (auto simp: fs_wf_def sample_image_header inode_wf_def sample_image_file)
qed

text \<open>
  C7. \<open>read_data\<close> on a well-formed image reads the file: it returns how many of the requested
  bytes lie before the end of the file, leaves exactly those bytes of the file in the buffer, in
  order and across block boundaries, and writes nothing else.
\<close>

theorem read_data_correct:
  assumes "inj_on tr mapped" "fs_wf tr m bb" "rng bb (fs_size tr m bb) \<subseteq> mapped"
    and "ino < inode_cnt tr m bb" "rng buf (unat len) \<subseteq> mapped"
    and "rng bb (fs_size tr m bb) \<inter> rng buf (unat len) = {}"
    and "data = take (unat len) (drop (unat offset) (file_bytes tr m bb ino))"
  shows "\<exists>m'. read_data tr bb m ino offset buf len = (of_nat (length data), m') \<and>
    load_bytes tr m' buf (length data) = data \<and>
    (\<forall>p. p \<notin> tr ` rng buf (length data) \<longrightarrow> m' p = m p)"
proof -
  have as: "address_space tr mapped" using assms(1) by (rule address_space.intro)
  have ld: "length data \<le> unat len" by (simp add: assms(7))
  then have "rng buf (length data) \<subseteq> mapped" using assms(5) rng_mono by blast
  moreover have "length data \<le> 4294967296" using ld unat_lt_2p32 [of len] by linarith
  ultimately show ?thesis
    using address_space.read_data_eq [OF as assms(2-7)] load_store_frame [OF as, of buf data m] by blast
qed

theorem read_data_correct_witness:
  "\<exists>m'. read_data (\<lambda>a. a) 0x10000 sample_image 0 1 0x20000 8 = (2, m') \<and>
     load_bytes (\<lambda>a. a) m' 0x20000 2 = [98, 99]"
  using read_data_correct [of "\<lambda>a. a" UNIV sample_image "0x10000" 0 "0x20000" 8 "[98, 99]" 1]
    rng_disjoint(1) [of "0x10000" 12288 "0x20000" 8] sample_image_wf
  by (simp add: sample_image_header sample_image_file load_bytes_numeral) blast

text \<open>
  C29. Sequential reads: whatever buffer sizes a program uses, the bytes it receives call after
  call are the consecutive bytes of the file from the starting position, cut at its end.
\<close>

theorem fs_read_sequence:
  assumes "inj_on tr mapped" "fs_wf tr m bb" "rng bb (fs_size tr m bb) \<subseteq> mapped"
    and "inode_num f < inode_cnt tr m bb"
    and "\<forall>(buf, n) \<in> set cs. rng buf (unat n) \<subseteq> mapped \<and> rng bb (fs_size tr m bb) \<inter> rng buf (unat n) = {}"
    and "unat (pos f) \<le> file_len tr m bb (inode_num f)"
  shows "fst (fs_read_seq tr bb cs f m) =
    take (\<Sum>c \<leftarrow> cs. unat (snd c)) (drop (unat (pos f)) (file_bytes tr m bb (inode_num f)))"
  using address_space.fs_read_seq_eq [OF address_space.intro [OF assms(1)] assms(2-6)] .

theorem fs_read_sequence_witness:
  "fst (fs_read_seq (\<lambda>a. a) 0x10000 [(0x20000, 2), (0x20000, 2), (0x20000, 2)]
     \<lparr>fops = Some fs_fops, inode = 0x11000, inode_num = 0, pos = 0, flags = 1\<rparr> sample_image) = [97, 98, 99]"
  using fs_read_sequence [of "\<lambda>a. a" UNIV sample_image "0x10000"
      "\<lparr>fops = Some fs_fops, inode = 0x11000, inode_num = 0, pos = 0, flags = 1\<rparr>"
      "[(0x20000, 2), (0x20000, 2), (0x20000, 2)]"]
    rng_disjoint(1) [of "0x10000" 12288 "0x20000" 2] sample_image_wf
  by (simp add: sample_image_header sample_image_file)

text \<open>
  \<open>load\<close> copies an executable: the bytes at the load address are those of the whole file.
\<close>

theorem load_copies_file:
  assumes "inj_on tr mapped" "fs_wf tr m bb" "rng bb (fs_size tr m bb) \<subseteq> mapped"
    and "d \<noteq> 0" "mem \<noteq> 0" "dentry_inode tr m d = ino" "ino < inode_cnt tr m bb"
    and "rng mem (file_len tr m bb ino) \<subseteq> mapped"
    and "rng bb (fs_size tr m bb) \<inter> rng mem (file_len tr m bb ino) = {}"
  shows "fst (load tr bb m d mem) = 0 \<and>
    load_bytes tr (snd (load tr bb m d mem)) mem (file_len tr m bb ino) = file_bytes tr m bb ino \<and>
    (\<forall>p. p \<notin> tr ` rng mem (file_len tr m bb ino) \<longrightarrow> snd (load tr bb m d mem) p = m p)"
proof -
  have as: "address_space tr mapped" using assms(1) by (rule address_space.intro)
  show ?thesis
    unfolding address_space.load_eq [OF as assms(2-9)]
    using load_store_frame [OF as, of mem "file_bytes tr m bb ino" m] assms(8)
    by (simp add: file_len_def less_imp_le)
qed

theorem load_copies_file_witness:
  "load_bytes (\<lambda>a. a) (snd (load (\<lambda>a. a) 0x10000 sample_image 0x10040 0x8048000)) 0x8048000 3 = [97, 98, 99]"
proof -
  have "dentry_inode (\<lambda>a. a) sample_image 0x10040 = 0"
    by (simp add: dentry_inode_def ld32_def ld8_def sample_image_def word_of_bytes_def)
  then show ?thesis
    using load_copies_file [of "\<lambda>a. a" UNIV sample_image "0x10000" "0x10040" "0x8048000" 0]
      rng_disjoint(1) [of "0x10000" 12288 "0x8048000" 3] sample_image_wf
    by (simp add: sample_image_header sample_image_file)
qed

text \<open>
  C8. \<open>read_dentry_by_name\<close> finds a file by name exactly if the directory has an entry with that
  name, and then delivers the 64 bytes of the first one; otherwise it returns -1 and the memory is
  unchanged.
\<close>

theorem read_dentry_by_name_correct:
  assumes "inj_on tr mapped" "dir_names tr m bb names" "cstring tr m fname xs"
    and "\<forall>k < length names. rng (bootblock_dentry bb (of_nat k)) 64 \<subseteq> mapped \<and>
      rng (bootblock_dentry bb (of_nat k)) 64 \<inter> rng dentry 64 = {}"
    and "rng dentry 64 \<subseteq> mapped"
  shows "(xs \<notin> set names \<longrightarrow> read_dentry_by_name tr bb m fname dentry = Some (-1, m)) \<and>
    (xs \<in> set names \<longrightarrow> (\<exists>k m'. k < length names \<and> names ! k = xs \<and> (\<forall>j < k. names ! j \<noteq> xs) \<and>
      read_dentry_by_name tr bb m fname dentry = Some (0, m') \<and>
      load_bytes tr m' dentry 64 = load_bytes tr m (bootblock_dentry bb (of_nat k)) 64))"
proof -
  have as: "address_space tr mapped" using assms(1) by (rule address_space.intro)
  note eq = read_dentry_by_name_eq [OF assms(2,3), of dentry]
  show ?thesis
  proof (cases "find (\<lambda>i. names ! i = xs) [0..<length names]")
    case None
    then have "xs \<notin> set names" by (auto simp: find_None_iff in_set_conv_nth)
    with None eq show ?thesis by simp
  next
    case (Some k)
    then have k: "k < length names" "names ! k = xs" "\<forall>j < k. names ! j \<noteq> xs"
      by (auto simp: find_Some_iff)
    let ?d = "bootblock_dentry bb (of_nat k)"
    have "memcpy tr m dentry ?d 64 = store_bytes tr m dentry (load_bytes tr m ?d 64)"
      using address_space.memcpy_eq [OF as, of ?d 64 dentry m] assms(4,5) k(1) by simp
    then have "load_bytes tr (memcpy tr m dentry ?d 64) dentry 64 = load_bytes tr m ?d 64"
      using load_store_frame [OF as, of dentry "load_bytes tr m ?d 64" m] assms(5) by simp
    with eq Some k nth_mem [OF k(1)] show ?thesis by auto
  qed
qed

theorem read_dentry_by_name_correct_witness:
  "\<exists>m'. read_dentry_by_name (\<lambda>a. a) 0x10000 (sample_image(0x30000 := 104, 0x30001 := 105)) 0x30000 0x20000 =
     Some (0, m')"
proof -
  let ?m = "sample_image(0x30000 := 104, 0x30001 := 105)"
  have c: "cstring (\<lambda>a. a) ?m 0x30000 [104, 105]" "cstring (\<lambda>a. a) ?m 0x10040 [104, 105]"
    "dir_entries_cnt (\<lambda>a. a) ?m 0x10000 = 1"
    by (simp_all add: cstring_def ld8_def sample_image_def dir_entries_cnt_def ld32_def word_of_bytes_def)
  then have "dir_names (\<lambda>a. a) ?m 0x10000 [[104, 105]]"
    by (simp add: dir_names_def bootblock_dentry_def)
  from read_dentry_by_name_correct [OF _ this c(1), of UNIV "0x20000"]
  show ?thesis using rng_disjoint(1) [of "0x10040" 64 "0x20000" 64]
    by (simp add: bootblock_dentry_def) blast
qed

end
