(* ===== verification/I8259.thy ===== *)
theory I8259
  imports Prelude
begin

text \<open>
  Port input and output, and the interrupt controller code of
  \<^verbatim>\<open>student-distrib/i8259.c\<close>. The hardware behind the ports is a parameter: a state
  of any type \<open>'h\<close> with an \<open>inb\<close> that reads a port (and may change the device) and an \<open>outb\<close>
  that writes one. What the code relies on is stated as a predicate on the two functions
  (\<open>pic_masks\<close>) that follows the 8259A data sheet: the data port of an initialised controller
  reads and writes its interrupt mask.
\<close>

section \<open>Ports\<close>

type_synonym 'h inb = "u16 \<Rightarrow> 'h \<Rightarrow> u8 \<times> 'h"
type_synonym 'h outb = "u8 \<Rightarrow> u16 \<Rightarrow> 'h \<Rightarrow> 'h"

text \<open>A sequence of \<open>outb(data, port)\<close> statements.\<close>

definition outbs :: "'h outb \<Rightarrow> (u8 \<times> u16) list \<Rightarrow> 'h \<Rightarrow> 'h" where
  "outbs outb ds h = fold (\<lambda>(d, p). outb d p) ds h"

section \<open>The interrupt controller\<close>

abbreviation (input) MASTER_8259_PORT :: u16 where "MASTER_8259_PORT \<equiv> 0x20"
abbreviation (input) SLAVE_8259_PORT :: u16 where "SLAVE_8259_PORT \<equiv> 0xA0"
abbreviation (input) MASTER_8259_PORT_DATA :: u16 where "MASTER_8259_PORT_DATA \<equiv> 0x21"
abbreviation (input) SLAVE_8259_PORT_DATA :: u16 where "SLAVE_8259_PORT_DATA \<equiv> 0xA1"
abbreviation (input) EOI :: u32 where "EOI \<equiv> 0x60"
abbreviation (input) SLAVE_IRQ :: u32 where "SLAVE_IRQ \<equiv> 2"
abbreviation (input) IRQ_PER_PIC :: u32 where "IRQ_PER_PIC \<equiv> 8"

text \<open>The values \<open>inb(port) & ~(1 << irq_num)\<close> and \<open>inb(port) | (1 << irq_num)\<close>, cut to a byte.\<close>

definition clear_irq_bit :: "u8 \<Rightarrow> u32 \<Rightarrow> u8" where
  "clear_irq_bit v irq_num = ucast (ucast v AND NOT (push_bit (unat irq_num) (1 :: u32)))"

definition set_irq_bit :: "u8 \<Rightarrow> u32 \<Rightarrow> u8" where
  "set_irq_bit v irq_num = ucast (ucast v OR push_bit (unat irq_num) (1 :: u32))"

text \<open>\<open>i8259_init\<close> returns the new \<open>master_mask\<close> and \<open>slave_mask\<close> with the hardware.\<close>

definition i8259_init :: "'h outb \<Rightarrow> 'h \<Rightarrow> u8 \<times> u8 \<times> 'h" where
  "i8259_init outb h =
     (let master_mask = 0xFF; slave_mask = 0xFF
      in (master_mask, slave_mask,
          outbs outb
            [(0x11, MASTER_8259_PORT), (0x11, SLAVE_8259_PORT),
             (0x20, MASTER_8259_PORT_DATA), (0x28, SLAVE_8259_PORT_DATA),
             (0x04, MASTER_8259_PORT_DATA), (0x02, SLAVE_8259_PORT_DATA),
             (0x01, MASTER_8259_PORT_DATA), (0x01, SLAVE_8259_PORT_DATA),
             (master_mask, MASTER_8259_PORT_DATA), (slave_mask, SLAVE_8259_PORT_DATA)] h))"

definition enable_irq :: "'h inb \<Rightarrow> 'h outb \<Rightarrow> u32 \<Rightarrow> 'h \<Rightarrow> 'h" where
  "enable_irq inb outb irq_num h =
     (if irq_num < IRQ_PER_PIC then
        let (v, h) = inb MASTER_8259_PORT_DATA h
        in outb (clear_irq_bit v irq_num) MASTER_8259_PORT_DATA h
      else
        let irq_num = irq_num - IRQ_PER_PIC;
            (v, h) = inb SLAVE_8259_PORT_DATA h;
            h = outb (clear_irq_bit v irq_num) SLAVE_8259_PORT_DATA h;
            (v, h) = inb MASTER_8259_PORT_DATA h
        in outb (clear_irq_bit v SLAVE_IRQ) MASTER_8259_PORT_DATA h)"

definition disable_irq :: "'h inb \<Rightarrow> 'h outb \<Rightarrow> u32 \<Rightarrow> 'h \<Rightarrow> 'h" where
  "disable_irq inb outb irq_num h =
     (if irq_num < IRQ_PER_PIC then
        let (v, h) = inb MASTER_8259_PORT_DATA h
        in outb (set_irq_bit v irq_num) MASTER_8259_PORT_DATA h
      else
        let irq_num = irq_num - IRQ_PER_PIC;
            (v, h) = inb SLAVE_8259_PORT_DATA h;
            h = outb (set_irq_bit v irq_num) SLAVE_8259_PORT_DATA h;
            (v, h) = inb MASTER_8259_PORT_DATA h
        in outb (set_irq_bit v SLAVE_IRQ) MASTER_8259_PORT_DATA h)"

definition send_eoi :: "'h outb \<Rightarrow> u32 \<Rightarrow> 'h \<Rightarrow> 'h" where
  "send_eoi outb irq_num h =
     (if irq_num < IRQ_PER_PIC then outb (ucast (EOI OR irq_num)) MASTER_8259_PORT h
      else
        let irq_num = irq_num - IRQ_PER_PIC;
            h = outb (ucast (EOI OR irq_num)) SLAVE_8259_PORT h
        in outb (ucast (EOI OR SLAVE_IRQ)) MASTER_8259_PORT h)"

section \<open>What the controller promises\<close>

definition pic_masks :: "'h inb \<Rightarrow> 'h outb \<Rightarrow> ('h \<Rightarrow> u8 \<times> u8) \<Rightarrow> bool" where
  "pic_masks inb outb masks \<longleftrightarrow>
     (\<forall>h. inb MASTER_8259_PORT_DATA h = (fst (masks h), h)) \<and>
     (\<forall>h. inb SLAVE_8259_PORT_DATA h = (snd (masks h), h)) \<and>
     (\<forall>h d. masks (outb d MASTER_8259_PORT_DATA h) = (d, snd (masks h))) \<and>
     (\<forall>h d. masks (outb d SLAVE_8259_PORT_DATA h) = (fst (masks h), d))"

text \<open>Line \<open>n\<close> of the cascaded pair is masked by bit \<open>n\<close> of the master or bit \<open>n - 8\<close> of the slave.\<close>

definition irq_masked :: "u8 \<times> u8 \<Rightarrow> nat \<Rightarrow> bool" where
  "irq_masked mk n = (if n < 8 then bit (fst mk) n else bit (snd mk) (n - 8))"

lemma bit_clear_irq: "n < 8 \<Longrightarrow> bit (clear_irq_bit v k) n \<longleftrightarrow> bit v n \<and> n \<noteq> unat k"
  by (auto simp: clear_irq_bit_def bit_simps bit_1_iff)

lemma bit_set_irq: "n < 8 \<Longrightarrow> bit (set_irq_bit v k) n \<longleftrightarrow> bit v n \<or> n = unat k"
  by (auto simp: set_irq_bit_def bit_simps bit_1_iff)

lemma unat_minus8: "n < 16 \<Longrightarrow> 8 \<le> n \<Longrightarrow> unat (of_nat n - 8 :: u32) = n - 8"
  by (simp add: unat_sub_if' unat_of_nat_u32)

section \<open>Properties\<close>

text \<open>
  \<open>enable_irq\<close> unmasks exactly the requested line and, for a line of the slave, the cascade
  line 2; every other line keeps its mask.
\<close>

theorem enable_irq_unmasks:
  assumes "pic_masks inb outb masks" "n < 16" "k < 16"
  shows "irq_masked (masks (enable_irq inb outb (of_nat n) h)) k \<longleftrightarrow>
    irq_masked (masks h) k \<and> k \<noteq> n \<and> \<not> (8 \<le> n \<and> k = 2)"
proof -
  have lt: "(of_nat n :: u32) < 8 \<longleftrightarrow> n < 8" using assms(2) by (simp add: word_less_nat_alt unat_of_nat_u32)
  have un: "unat (of_nat n :: u32) = n" using assms(2) by (simp add: unat_of_nat_u32)
  show ?thesis
    using assms un unat_minus8 [of n]
    by (cases "n < 8"; cases "k < 8")
      (auto simp: enable_irq_def lt pic_masks_def irq_masked_def bit_clear_irq Let_def)
qed

theorem enable_irq_unmasks_witness:
  "\<not> irq_masked (enable_irq (\<lambda>p (m, s). (if p = 0x21 then m else s, (m, s)))
       (\<lambda>d p (m, s). if p = 0x21 then (d, s) else if p = 0xA1 then (m, d) else (m, s)) 8 (0xFF, 0xFF)) 2"
proof -
  let ?inb = "\<lambda>p (m, s). (if p = 0x21 then m else s, (m, s)) :: u8 \<times> u8 \<times> u8"
  let ?outb = "\<lambda>d p (m, s). if p = 0x21 then (d, s) else if p = 0xA1 then (m, d) else (m, s) :: u8 \<times> u8"
  have "pic_masks ?inb ?outb (\<lambda>h. h)" by (auto simp: pic_masks_def)
  from enable_irq_unmasks [OF this, of 8 2 "(0xFF, 0xFF)"] show ?thesis by simp
qed

text \<open>
  \<open>disable_irq\<close> masks the requested line and, for a line of the slave, the cascade line, and
  leaves the others alone; so disabling a slave line also silences the rest of the slave.
\<close>

theorem disable_irq_masks:
  assumes "pic_masks inb outb masks" "n < 16" "k < 16"
  shows "irq_masked (masks (disable_irq inb outb (of_nat n) h)) k \<longleftrightarrow>
    irq_masked (masks h) k \<or> k = n \<or> 8 \<le> n \<and> k = 2"
proof -
  have lt: "(of_nat n :: u32) < 8 \<longleftrightarrow> n < 8" using assms(2) by (simp add: word_less_nat_alt unat_of_nat_u32)
  have un: "unat (of_nat n :: u32) = n" using assms(2) by (simp add: unat_of_nat_u32)
  show ?thesis
    using assms un unat_minus8 [of n]
    by (cases "n < 8"; cases "k < 8")
      (auto simp: disable_irq_def lt pic_masks_def irq_masked_def bit_set_irq Let_def)
qed

theorem disable_irq_masks_witness:
  "irq_masked (disable_irq (\<lambda>p (m, s). (if p = 0x21 then m else s, (m, s)))
       (\<lambda>d p (m, s). if p = 0x21 then (d, s) else if p = 0xA1 then (m, d) else (m, s)) 8 (0, 0)) 2"
proof -
  let ?inb = "\<lambda>p (m, s). (if p = 0x21 then m else s, (m, s)) :: u8 \<times> u8 \<times> u8"
  let ?outb = "\<lambda>d p (m, s). if p = 0x21 then (d, s) else if p = 0xA1 then (m, d) else (m, s) :: u8 \<times> u8"
  have "pic_masks ?inb ?outb (\<lambda>h. h)" by (auto simp: pic_masks_def)
  from disable_irq_masks [OF this, of 8 2 "(0, 0)"] show ?thesis by simp
qed

end
