(* ===== verification/Isr.thy ===== *)
theory Isr
  imports Prelude
begin

text \<open>
  The interrupt descriptor table: the gate setters of \<^verbatim>\<open>student-distrib/idt_set.c\<close>,
  \<open>isrs_install\<close> and \<open>add_irq\<close> of \<^verbatim>\<open>isr.c\<close>. The table is a list of 256 descriptors
  with the fields of \<open>idt_desc_t\<close>; the addresses of the assembly entry points are parameters.
\<close>

section \<open>Gates\<close>

record idt_desc_t =
  offset_15_00 :: u16
  seg_selector :: u16
  reserved4 :: u8
  reserved3 :: bool
  reserved2 :: bool
  reserved1 :: bool
  size_bit :: bool
  reserved0 :: bool
  dpl :: "2 word"
  present :: bool
  offset_31_16 :: u16

abbreviation (input) KERNEL_CS :: u16 where "KERNEL_CS \<equiv> 0x10"
abbreviation (input) NUM_IRQS :: u32 where "NUM_IRQS \<equiv> 16"

type_synonym idt = "idt_desc_t list"

definition SET_IDT_ENTRY :: "u32 \<Rightarrow> idt_desc_t \<Rightarrow> idt_desc_t" where
  "SET_IDT_ENTRY handler str =
     str\<lparr>offset_31_16 := ucast (drop_bit 16 (handler AND 0xFFFF0000)),
         offset_15_00 := ucast (handler AND 0xFFFF)\<rparr>"

definition set_int_gate :: "nat \<Rightarrow> u32 \<Rightarrow> idt \<Rightarrow> idt" where
  "set_int_gate n addr t =
     t[n := (SET_IDT_ENTRY addr (t ! n))
          \<lparr>seg_selector := KERNEL_CS, reserved0 := False, reserved1 := True, reserved2 := True,
           reserved3 := False, size_bit := True, dpl := 0, present := True\<rparr>]"

definition set_sys_gate :: "nat \<Rightarrow> u32 \<Rightarrow> idt \<Rightarrow> idt" where
  "set_sys_gate n addr t =
     t[n := (SET_IDT_ENTRY addr (t ! n))
          \<lparr>seg_selector := KERNEL_CS, reserved0 := False, reserved1 := True, reserved2 := True,
           reserved3 := True, size_bit := True, dpl := 3, present := True\<rparr>]"

definition set_sys_int_gate :: "nat \<Rightarrow> u32 \<Rightarrow> idt \<Rightarrow> idt" where
  "set_sys_int_gate n addr t =
     t[n := (SET_IDT_ENTRY addr (t ! n))
          \<lparr>seg_selector := KERNEL_CS, reserved0 := False, reserved1 := True, reserved2 := True,
           reserved3 := True, size_bit := True, dpl := 3, present := True\<rparr>]"

definition set_trap_gate :: "nat \<Rightarrow> u32 \<Rightarrow> idt \<Rightarrow> idt" where
  "set_trap_gate n addr t =
     t[n := (SET_IDT_ENTRY addr (t ! n))
          \<lparr>seg_selector := KERNEL_CS, reserved0 := False, reserved1 := True, reserved2 := True,
           reserved3 := False, size_bit := True, dpl := 0, present := True\<rparr>]"

definition set_task_gate :: "nat \<Rightarrow> u32 \<Rightarrow> idt \<Rightarrow> idt" where
  "set_task_gate n gdt t =
     t[n := (SET_IDT_ENTRY 0 (t ! n))
          \<lparr>seg_selector := ucast (gdt AND 0xFFFF), reserved0 := False, reserved1 := False,
           reserved2 := True, reserved3 := True, dpl := 3, present := True\<rparr>]"

section \<open>Installation\<close>

text \<open>The entry points of \<^verbatim>\<open>isr_asm.S\<close> and the default handler.\<close>

record entry_points =
  isr_entry :: "nat \<Rightarrow> u32"
  irq_entry :: "nat \<Rightarrow> u32"
  handle_syscall_entry :: u32
  irq_handler_default_entry :: u32

definition isrs_install :: "entry_points \<Rightarrow> idt \<times> u32 list \<Rightarrow> idt \<times> u32 list" where
  "isrs_install ep = (\<lambda>(t, irq_table).
     let t = fold (\<lambda>n. set_trap_gate n (isr_entry ep n)) [0, 1] t;
         t = set_int_gate 2 (isr_entry ep 2) t;
         t = set_sys_int_gate 3 (isr_entry ep 3) t;
         t = fold (\<lambda>n. set_sys_gate n (isr_entry ep n)) [4, 5] t;
         t = fold (\<lambda>n. set_trap_gate n (isr_entry ep n)) [6..<14] t;
         t = set_int_gate 14 (isr_entry ep 14) t;
         t = fold (\<lambda>n. set_trap_gate n (isr_entry ep n)) [15..<32] t;
         t = set_sys_gate 0x80 (handle_syscall_entry ep) t;
         t = fold (\<lambda>n. set_int_gate n (irq_entry ep (n - 32))) [32..<48] t;
         irq_table = fold (\<lambda>i q. q[i := irq_handler_default_entry ep]) [0..<16] irq_table
     in (t, irq_table))"

definition add_irq :: "u32 \<Rightarrow> u32 \<Rightarrow> u32 list \<Rightarrow> u32 list" where
  "add_irq irq handler_addr irq_table =
     (if irq < 0 \<or> irq \<ge> NUM_IRQS then irq_table else irq_table[unat irq := handler_addr])"

section \<open>Lemmas\<close>

definition handler_of :: "idt_desc_t \<Rightarrow> u32" where
  "handler_of d = push_bit 16 (ucast (offset_31_16 d)) OR ucast (offset_15_00 d)"

text \<open>The two halves of an entry hold the handler address.\<close>

lemma handler_of_SET [simp]: "handler_of (SET_IDT_ENTRY a d) = a"
proof -
  have m: "(0xFFFF :: u32) = mask 16" "(0xFFFF0000 :: u32) = NOT (mask 16)"
    by (simp_all add: mask_eq_exp_minus_1 not_eq_complement)
  show ?thesis
    unfolding handler_of_def SET_IDT_ENTRY_def m
    by (rule bit_word_eqI) (auto simp: bit_simps)
qed

text \<open>A gate as the processor reads it: handler, privilege level, trap or interrupt gate.\<close>

definition gate :: "idt_desc_t \<Rightarrow> (u32 \<times> nat \<times> bool) option" where
  "gate d =
     (if present d \<and> reserved2 d \<and> reserved1 d \<and> size_bit d \<and> \<not> reserved0 d \<and> seg_selector d = KERNEL_CS
      then Some (handler_of d, unat (dpl d), reserved3 d) else None)"

lemma handler_of_fields [simp]:
  "handler_of (d\<lparr>seg_selector := s\<rparr>) = handler_of d" "handler_of (d\<lparr>dpl := l\<rparr>) = handler_of d"
  "handler_of (d\<lparr>reserved0 := b\<rparr>) = handler_of d" "handler_of (d\<lparr>reserved1 := b\<rparr>) = handler_of d"
  "handler_of (d\<lparr>reserved2 := b\<rparr>) = handler_of d" "handler_of (d\<lparr>reserved3 := b\<rparr>) = handler_of d"
  "handler_of (d\<lparr>size_bit := b\<rparr>) = handler_of d" "handler_of (d\<lparr>present := b\<rparr>) = handler_of d"
  by (simp_all add: handler_of_def)

lemma gate_set [simp]:
  "n < length t \<Longrightarrow> gate (set_int_gate n a t ! k) = (if k = n then Some (a, 0, False) else gate (t ! k))"
  "n < length t \<Longrightarrow> gate (set_trap_gate n a t ! k) = (if k = n then Some (a, 0, False) else gate (t ! k))"
  "n < length t \<Longrightarrow> gate (set_sys_gate n a t ! k) = (if k = n then Some (a, 3, True) else gate (t ! k))"
  "n < length t \<Longrightarrow> gate (set_sys_int_gate n a t ! k) = (if k = n then Some (a, 3, True) else gate (t ! k))"
  by (auto simp: set_int_gate_def set_trap_gate_def set_sys_gate_def set_sys_int_gate_def gate_def
      nth_list_update)

lemma length_set_gate [simp]:
  "length (set_int_gate n a t) = length t" "length (set_trap_gate n a t) = length t"
  "length (set_sys_gate n a t) = length t" "length (set_sys_int_gate n a t) = length t"
  by (simp_all add: set_int_gate_def set_trap_gate_def set_sys_gate_def set_sys_int_gate_def)

lemma length_fold_gate [simp]:
  "length (fold (\<lambda>n. set_int_gate n (f n)) ns t) = length t"
  "length (fold (\<lambda>n. set_trap_gate n (f n)) ns t) = length t"
  "length (fold (\<lambda>n. set_sys_gate n (f n)) ns t) = length t"
  by (induction ns arbitrary: t) simp_all

lemma gate_fold [simp]:
  "b \<le> length t \<Longrightarrow> gate (fold (\<lambda>n. set_int_gate n (f n)) [a..<b] t ! k) =
     (if a \<le> k \<and> k < b then Some (f k, 0, False) else gate (t ! k))"
  "b \<le> length t \<Longrightarrow> gate (fold (\<lambda>n. set_trap_gate n (f n)) [a..<b] t ! k) =
     (if a \<le> k \<and> k < b then Some (f k, 0, False) else gate (t ! k))"
  by (induction b) auto

lemma isrs_install_gate:
  assumes "length t = 256" "k < 256"
  shows "gate (fst (isrs_install ep (t, q)) ! k) =
    (if k < 32 then Some (isr_entry ep k, if k \<in> {3, 4, 5} then 3 else 0, k \<in> {3, 4, 5})
     else if k < 48 then Some (irq_entry ep (k - 32), 0, False)
     else if k = 0x80 then Some (handle_syscall_entry ep, 3, True) else gate (t ! k))"
proof (cases "k < 6")
  case True
  then have "k = 0 \<or> k = 1 \<or> k = 2 \<or> k = 3 \<or> k = 4 \<or> k = 5" by auto
  with assms(1) show ?thesis by (auto simp: isrs_install_def Let_def simp del: upt_rec_numeral)
next
  case False
  with assms show ?thesis by (auto simp: isrs_install_def Let_def simp del: upt_rec_numeral)
qed

section \<open>Properties\<close>

text \<open>
  After \<open>isrs_install\<close> every exception vector 0 to 31, every interrupt vector 32 to 47 and the
  system call vector 0x80 is a present 32-bit gate to its own entry point in the kernel's code
  segment; user programs may raise exactly the vectors 3, 4, 5 and 0x80; every IRQ is routed to the
  default handler; and the other vectors are unchanged.
\<close>

theorem isrs_install_correct:
  assumes "length t = 256" "length q = 16" "isrs_install ep (t, q) = (t', q')"
  shows "(\<forall>k < 32. \<exists>trap. gate (t' ! k) = Some (isr_entry ep k, if k \<in> {3, 4, 5} then 3 else 0, trap)) \<and>
    (\<forall>k < 16. gate (t' ! (32 + k)) = Some (irq_entry ep k, 0, False)) \<and>
    gate (t' ! 0x80) = Some (handle_syscall_entry ep, 3, True) \<and>
    (\<forall>k < 256. 48 \<le> k \<longrightarrow> k \<noteq> 0x80 \<longrightarrow> gate (t' ! k) = gate (t ! k)) \<and>
    q' = replicate 16 (irq_handler_default_entry ep)"
proof -
  have t': "t' = fst (isrs_install ep (t, q))" and q': "q' = snd (isrs_install ep (t, q))"
    using assms(3) by simp_all
  have "q' = replicate 16 (irq_handler_default_entry ep)"
    unfolding q' using assms(2) by (simp add: isrs_install_def Let_def fold_update_const del: upt_rec_numeral)
  then show ?thesis unfolding t' by (simp add: isrs_install_gate [OF assms(1)])
qed

definition blank_gate :: idt_desc_t where
  "blank_gate = \<lparr>offset_15_00 = 0, seg_selector = 0, reserved4 = 0, reserved3 = False, reserved2 = False,
     reserved1 = False, size_bit = False, reserved0 = False, dpl = 0, present = False, offset_31_16 = 0\<rparr>"

theorem isrs_install_correct_witness:
  "gate (fst (isrs_install \<lparr>isr_entry = of_nat, irq_entry = (\<lambda>n. 0x1000 + of_nat n),
      handle_syscall_entry = 0x12345678, irq_handler_default_entry = 7\<rparr> (replicate 256 blank_gate, replicate 16 0)) ! 0x80) =
   Some (0x12345678, 3, True)"
  using isrs_install_correct [of "replicate 256 blank_gate" "replicate 16 0" "\<lparr>isr_entry = of_nat,
      irq_entry = (\<lambda>n. 0x1000 + of_nat n), handle_syscall_entry = 0x12345678, irq_handler_default_entry = 7\<rparr>",
      OF _ _ prod.collapse [symmetric]]
  by simp

end
