(* ===== verification/Rtc.thy ===== *)
theory Rtc
  imports I8259 Isr Process Memory
begin

text \<open>
  The real-time clock driver, \<^verbatim>\<open>student-distrib/devices/rtc.c\<close>, which gives every
  process a virtual clock: the hardware runs at the highest rate any process asked for, and each
  process waits for \<open>max_count\<close> interrupts. The \<open>int32_t\<close> fields are words read with \<open>sint\<close>.
  The RTC registers behind the ports are a parameter, as for the interrupt controller.

  \<open>rtc_read\<close> spins until the interrupt handler has counted its field down; it is split at the
  loop into \<open>rtc_read_start\<close> and the test \<open>rtc_read_done\<close> that \<open>rtc_handler_main\<close> steps make
  true.
\<close>

section \<open>State\<close>

abbreviation (input) RTC_REG_PORT :: u16 where "RTC_REG_PORT \<equiv> 0x70"
abbreviation (input) RW_CMOS_PORT :: u16 where "RW_CMOS_PORT \<equiv> 0x71"
abbreviation (input) NMI_DISABLE :: u8 where "NMI_DISABLE \<equiv> 0x80"
abbreviation (input) REG_A :: u8 where "REG_A \<equiv> 0xA"
abbreviation (input) REG_B :: u8 where "REG_B \<equiv> 0xB"
abbreviation (input) REG_C :: u8 where "REG_C \<equiv> 0xC"
abbreviation (input) INT_FLAG :: u8 where "INT_FLAG \<equiv> 0x40"
abbreviation (input) RATE_DEFAULT :: u8 where "RATE_DEFAULT \<equiv> 0xF"
abbreviation (input) RATE_MIN :: u32 where "RATE_MIN \<equiv> 2"
abbreviation (input) RATE_MAX :: u32 where "RATE_MAX \<equiv> 1024"
abbreviation (input) RTC_ABS_MAX :: u32 where "RTC_ABS_MAX \<equiv> 32768"
abbreviation (input) RTC_IRQ_NUM :: u32 where "RTC_IRQ_NUM \<equiv> 8"

record rtc_process =
  rate :: u32
  curr_count :: u32
  max_count :: u32

record rtc_state =
  rtc_rate :: u32
  rtc_opens :: u32
  rtc_procs :: "rtc_process list"

text \<open>C's division of \<open>int32_t\<close>.\<close>

definition sdiv32 :: "u32 \<Rightarrow> u32 \<Rightarrow> u32" where
  "sdiv32 a b = of_int (sint a sdiv sint b)"

section \<open>Operations\<close>

definition rtc_init ::
  "u32 \<Rightarrow> u32 list \<times> ptable \<times> rtc_state \<Rightarrow> u32 list \<times> ptable \<times> rtc_state" where
  "rtc_init handler = (\<lambda>(irq_table, pt, s).
     (add_irq RTC_IRQ_NUM handler irq_table,
      snd (add_device RTC_FTYPE rtc_fops pt),
      s\<lparr>rtc_procs := fold (\<lambda>i ps. ps[i := (ps ! i)\<lparr>rate := RATE_MIN\<rparr>]) [0..<6] (rtc_procs s)\<rparr>))"

definition rtc_handler_main :: "'h inb \<Rightarrow> 'h outb \<Rightarrow> rtc_state \<times> 'h \<Rightarrow> rtc_state \<times> 'h" where
  "rtc_handler_main inb outb = (\<lambda>(s, h).
     let h = send_eoi outb RTC_IRQ_NUM h;
         h = outb REG_C RTC_REG_PORT h;
         (_, h) = inb RW_CMOS_PORT h
     in (s\<lparr>rtc_procs := fold (\<lambda>i ps. ps[i := (ps ! i)\<lparr>curr_count := curr_count (ps ! i) - 1\<rparr>])
             [0..<6] (rtc_procs s)\<rparr>, h))"

definition rtc_open :: "'h inb \<Rightarrow> 'h outb \<Rightarrow> rtc_state \<times> 'h \<Rightarrow> u32 \<times> rtc_state \<times> 'h" where
  "rtc_open inb outb = (\<lambda>(s, h).
     let (s, h) =
           (if rtc_opens s = 0 then
              let h = outb (NMI_DISABLE OR REG_B) RTC_REG_PORT h;
                  (curr, h) = inb RW_CMOS_PORT h;
                  h = outb (NMI_DISABLE OR REG_B) RTC_REG_PORT h;
                  h = outb (curr OR INT_FLAG) RW_CMOS_PORT h;
                  h = outb (NMI_DISABLE OR REG_A) RTC_REG_PORT h;
                  (curr, h) = inb RW_CMOS_PORT h;
                  h = outb (NMI_DISABLE OR REG_A) RTC_REG_PORT h;
                  h = outb ((curr AND 0xF0) OR RATE_DEFAULT) RW_CMOS_PORT h;
                  s = s\<lparr>rtc_rate := RATE_MIN\<rparr>;
                  h = enable_irq inb outb RTC_IRQ_NUM h
              in (s, h)
            else (s, h))
     in (0, s\<lparr>rtc_opens := rtc_opens s + 1\<rparr>, h))"

definition rtc_read_start :: "u32 \<Rightarrow> rtc_state \<Rightarrow> rtc_state" where
  "rtc_read_start pn s =
     (let i = unat (pn - 1); p = rtc_procs s ! i
      in s\<lparr>rtc_procs := (rtc_procs s)[i := p\<lparr>curr_count := max_count p\<rparr>]\<rparr>)"

definition rtc_read_done :: "u32 \<Rightarrow> rtc_state \<Rightarrow> bool" where
  "rtc_read_done pn s \<longleftrightarrow> \<not> sint (curr_count (rtc_procs s ! unat (pn - 1))) > 0"

text \<open>
  The loop of \<open>set_rate\<close> that computes the rate selector; \<open>>>\<close> on a negative \<open>int32_t\<close> keeps
  the sign, so that the loop does not end for one.
\<close>

partial_function (option) set_rate_loop :: "int \<Rightarrow> u8 \<Rightarrow> u8 option" where
  "set_rate_loop ratefactor rs =
     (let ratefactor = ratefactor div 2
      in if ratefactor \<noteq> 0 then set_rate_loop ratefactor (rs + 1) else Some rs)"

definition set_rate :: "'h inb \<Rightarrow> 'h outb \<Rightarrow> u32 \<Rightarrow> 'h \<Rightarrow> 'h option" where
  "set_rate inb outb r h =
     (case set_rate_loop (sint (sdiv32 RTC_ABS_MAX r)) 0 of None \<Rightarrow> None
      | Some rs \<Rightarrow>
          let rs = rs + 1;
              h = outb (NMI_DISABLE OR REG_A) RTC_REG_PORT h;
              (curr, h) = inb RW_CMOS_PORT h;
              h = outb (NMI_DISABLE OR REG_A) RTC_REG_PORT h
          in Some (outb ((curr AND 0xF0) OR rs) RW_CMOS_PORT h))"

definition update_rtc_processes :: "rtc_state \<Rightarrow> rtc_state" where
  "update_rtc_processes s =
     s\<lparr>rtc_procs := fold (\<lambda>i ps. ps[i := (ps ! i)\<lparr>max_count := sdiv32 (rtc_rate s) (rate (ps ! i))\<rparr>])
         [0..<6] (rtc_procs s)\<rparr>"

definition rtc_write ::
  "'h inb \<Rightarrow> 'h outb \<Rightarrow> translation \<Rightarrow> memory \<Rightarrow> u32 \<Rightarrow> addr \<Rightarrow> rtc_state \<times> 'h \<Rightarrow>
   (u32 \<times> rtc_state \<times> 'h) option" where
  "rtc_write inb outb tr m pn buf = (\<lambda>(s, h).
     if buf = 0 then Some (-1, s, h)
     else
       let r = ld32 tr m buf
       in if r = 0 \<or> sint r > 1024 then Some (-1, s, h)
          else if r AND (r - 1) \<noteq> 0 then Some (-1, s, h)
          else
            let i = unat (pn - 1);
                s = s\<lparr>rtc_procs := (rtc_procs s)[i := (rtc_procs s ! i)
                        \<lparr>rate := r, max_count := sdiv32 (rtc_rate s) r\<rparr>]\<rparr>
            in if sint r > sint (rtc_rate s) then
                 let s = s\<lparr>rtc_rate := r\<rparr>
                 in case set_rate inb outb r h of None \<Rightarrow> None
                    | Some h \<Rightarrow> Some (1, update_rtc_processes s, h)
               else Some (1, s, h))"

definition rtc_close :: "'h inb \<Rightarrow> 'h outb \<Rightarrow> u32 \<Rightarrow> rtc_state \<times> 'h \<Rightarrow> u32 \<times> rtc_state \<times> 'h" where
  "rtc_close inb outb pn = (\<lambda>(s, h).
     let i = unat (pn - 1);
         s = s\<lparr>rtc_procs := (rtc_procs s)[i := (rtc_procs s ! i)\<lparr>rate := RATE_MIN\<rparr>]\<rparr>;
         s = s\<lparr>rtc_opens := rtc_opens s - 1\<rparr>
     in if rtc_opens s = 0 then
          let h = disable_irq inb outb RTC_IRQ_NUM h;
              h = outb (NMI_DISABLE OR REG_B) RTC_REG_PORT h;
              (curr, h) = inb RW_CMOS_PORT h;
              h = outb (NMI_DISABLE OR REG_B) RTC_REG_PORT h;
              h = outb (curr AND NOT INT_FLAG) RW_CMOS_PORT h
          in (0, s, h)
        else
          let s = s\<lparr>rtc_rate := fold (\<lambda>i r. if sint (rate (rtc_procs s ! i)) > sint r
                      then rate (rtc_procs s ! i) else r) [0..<6] RATE_MIN\<rparr>
          in (0, update_rtc_processes s, h))"

section \<open>Invariant\<close>

text \<open>
  Every rate is a power of two between 1 and 1024, the hardware runs at the highest of them (and
  at 2 at least), and every process that has a count of interrupts to wait for has the right one.
\<close>

definition pow2_rate :: "u32 \<Rightarrow> bool" where
  "pow2_rate r \<longleftrightarrow> (\<exists>k \<le> 10. r = 2 ^ k)"

definition rtc_inv :: "rtc_state \<Rightarrow> bool" where
  "rtc_inv s \<longleftrightarrow> length (rtc_procs s) = 6 \<and> pow2_rate (rtc_rate s) \<and> 2 \<le> rtc_rate s \<and>
     (\<forall>p \<in> set (rtc_procs s). pow2_rate (rate p) \<and> rate p \<le> rtc_rate s)"

definition rtc_exact :: "rtc_state \<Rightarrow> bool" where
  "rtc_exact s \<longleftrightarrow> (\<forall>p \<in> set (rtc_procs s). unat (max_count p) * unat (rate p) = unat (rtc_rate s))"

section \<open>Powers of two\<close>

lemma odd_part: "0 < n \<Longrightarrow> \<exists>k m. n = 2 ^ k * (2 * m + 1)" for n :: nat
proof (induction n rule: less_induct)
  case (less n)
  show ?case
  proof (cases "even n")
    case True
    then obtain h where h: "n = 2 * h" by auto
    with less obtain k m where "h = 2 ^ k * (2 * m + 1)" by force
    with h have "n = 2 ^ Suc k * (2 * m + 1)" by simp
    then show ?thesis by blast
  next
    case False
    then show ?thesis by (metis oddE mult_1 power_0)
  qed
qed

lemma and_pred_pow2:
  fixes n :: nat
  assumes "0 < n"
  shows "n AND (n - 1) = 0 \<longleftrightarrow> (\<exists>k. n = 2 ^ k)"
proof
  assume z: "n AND (n - 1) = 0"
  obtain k m where n: "n = 2 ^ k * (2 * m + 1)" using odd_part [OF assms] by blast
  have dv: "r < 2 ^ Suc k \<Longrightarrow> (m * 2 ^ Suc k + r) div 2 ^ Suc k = m" for r
    by (simp del: power_Suc)
  have n1: "n = m * 2 ^ Suc k + 2 ^ k" by (simp add: n algebra_simps)
  then have n2: "n - 1 = m * 2 ^ Suc k + (2 ^ k - 1)" by simp
  have "drop_bit (Suc k) n = m" "drop_bit (Suc k) (n - 1) = m"
    unfolding drop_bit_eq_div by (simp only: n1, rule dv, simp) (simp only: n2, rule dv, simp add: less_imp_diff_less)
  then have "drop_bit (Suc k) (n AND (n - 1)) = m" unfolding drop_bit_and by simp
  then have "m = 0" unfolding z by simp
  then have "n = 2 ^ k" using n by simp
  then show "\<exists>k. n = 2 ^ k" ..
next
  assume "\<exists>k. n = 2 ^ k"
  then obtain k where k: "n = 2 ^ k" ..
  have "\<not> bit (n AND (n - 1)) j" for j
  proof -
    have "n - 1 = mask k" by (simp add: k mask_eq_exp_minus_1)
    then show ?thesis by (auto simp: k bit_and_iff bit_mask_iff bit_exp_iff)
  qed
  then show "n AND (n - 1) = 0" by (intro bit_eqI) simp
qed

lemma pow2_test_u32:
  fixes r :: u32
  assumes "r \<noteq> 0"
  shows "r AND (r - 1) = 0 \<longleftrightarrow> (\<exists>k < 32. r = 2 ^ k)"
proof -
  have "r AND (r - 1) = 0 \<longleftrightarrow> unat (r AND (r - 1)) = 0" by (simp add: unat_eq_0)
  also have "\<dots> \<longleftrightarrow> unat r AND (unat r - 1) = 0"
    using assms by (simp add: unsigned_and_eq unat_minus_one)
  also have "\<dots> \<longleftrightarrow> (\<exists>k. unat r = 2 ^ k)" using assms by (intro and_pred_pow2) (simp add: unat_gt_0)
  also have "\<dots> \<longleftrightarrow> (\<exists>k < 32. r = 2 ^ k)"
  proof
    assume "\<exists>k. unat r = 2 ^ k"
    then obtain k where k: "unat r = 2 ^ k" ..
    then have "(2 :: nat) ^ k < 2 ^ 32" using unat_lt_2p32 [of r] by simp
    then have "k < 32" by (rule power_less_imp_less_exp [rotated]) simp
    moreover have "r = 2 ^ k" using arg_cong [OF k, of "of_nat :: nat \<Rightarrow> u32"] by simp
    ultimately show "\<exists>k < 32. r = 2 ^ k" by blast
  next
    assume "\<exists>k < 32. r = 2 ^ k"
    then obtain k where k: "k < 32" "r = 2 ^ k" by blast
    then have "unat r = 2 ^ k" by (simp add: unat_pow2_u32)
    then show "\<exists>k. unat r = 2 ^ k" by blast
  qed
  finally show ?thesis .
qed

lemma sdiv32_pow2:
  assumes "j \<le> k" "k < 31"
  shows "sdiv32 (2 ^ k) (2 ^ j) = 2 ^ (k - j)"
proof -
  have "(2 :: int) ^ k div 2 ^ j = 2 ^ (k - j)" using assms(1) by (simp add: power_diff)
  then show ?thesis using assms by (simp add: sdiv32_def sint_pow2_u32 sdiv_nonneg)
qed

section \<open>Operations and the invariant\<close>

lemma update_rtc_processes_eq:
  assumes "length (rtc_procs s) = 6"
  shows "update_rtc_processes s = s\<lparr>rtc_procs := map (\<lambda>p. p\<lparr>max_count := sdiv32 (rtc_rate s) (rate p)\<rparr>) (rtc_procs s)\<rparr>"
  using fold_update_map [OF assms, of "\<lambda>p. p\<lparr>max_count := sdiv32 (rtc_rate s) (rate p)\<rparr>"]
  by (simp add: update_rtc_processes_def del: upt_rec_numeral)

lemma exact_count:
  assumes "pow2_rate r" "pow2_rate q" "r \<le> q"
  shows "unat (sdiv32 q r) * unat r = unat q"
proof -
  obtain j k where "r = 2 ^ j" "j \<le> 10" "q = 2 ^ k" "k \<le> 10" using assms(1,2) by (auto simp: pow2_rate_def)
  with assms(3) show ?thesis by (simp add: pow2_le_u32 sdiv32_pow2 unat_pow2_u32 power_add [symmetric])
qed

lemma update_exact:
  assumes "rtc_inv s"
  shows "rtc_inv (update_rtc_processes s)" "rtc_exact (update_rtc_processes s)"
  using assms by (auto simp: rtc_inv_def rtc_exact_def update_rtc_processes_eq exact_count)

lemma set_rate_loop_pow2:
  "set_rate_loop (2 ^ j) rs = Some (rs + of_nat j)"
proof (induction j arbitrary: rs)
  case 0
  then show ?case by (subst set_rate_loop.simps) simp
next
  case (Suc j)
  then show ?case by (subst set_rate_loop.simps) (simp add: Let_def algebra_simps)
qed

lemma set_rate_eq:
  assumes "k \<le> 15"
  shows "set_rate inb outb (2 ^ k) h =
    (let h = outb (NMI_DISABLE OR REG_A) RTC_REG_PORT h;
         (curr, h) = inb RW_CMOS_PORT h;
         h = outb (NMI_DISABLE OR REG_A) RTC_REG_PORT h
     in Some (outb ((curr AND 0xF0) OR of_nat (16 - k)) RW_CMOS_PORT h))"
proof -
  have "sdiv32 RTC_ABS_MAX (2 ^ k) = 2 ^ (15 - k)" using sdiv32_pow2 [OF assms] by simp
  then have "sint (sdiv32 RTC_ABS_MAX (2 ^ k)) = 2 ^ (15 - k)" by (simp add: sint_pow2_u32)
  moreover have "of_nat (15 - k) + 1 = (of_nat (16 - k) :: u8)"
    using assms by (simp add: Suc_diff_le [symmetric] flip: of_nat_Suc)
  ultimately show ?thesis by (simp add: set_rate_def set_rate_loop_pow2 add.commute)
qed

lemma pn_index: "1 \<le> pn \<Longrightarrow> pn \<le> 6 \<Longrightarrow> unat (of_nat pn - 1 :: u32) = pn - 1"
  by (rule sint_pid(2))

lemma rtc_write_accept:
  assumes "buf \<noteq> 0" "ld32 tr m buf = 2 ^ k" "k \<le> 10" "pn \<in> {1..6}"
  shows "rtc_write inb outb tr m (of_nat pn) buf (s, h) =
    (let s' = s\<lparr>rtc_procs := (rtc_procs s)[pn - 1 := (rtc_procs s ! (pn - 1))
                \<lparr>rate := 2 ^ k, max_count := sdiv32 (rtc_rate s) (2 ^ k)\<rparr>]\<rparr>
     in if sint (2 ^ k :: u32) > sint (rtc_rate s)
        then map_option (\<lambda>h. (1, update_rtc_processes (s'\<lparr>rtc_rate := 2 ^ k\<rparr>), h)) (set_rate inb outb (2 ^ k) h)
        else Some (1, s', h))"
proof -
  have nz: "(2 ^ k :: u32) \<noteq> 0" using assms(3) by (simp add: word_unat_eq_iff unat_pow2_u32)
  have "k < 32" using assms(3) by simp
  then have a: "(2 ^ k :: u32) AND (2 ^ k - 1) = 0" unfolding pow2_test_u32 [OF nz] by blast
  have "(2 :: int) ^ k \<le> 2 ^ 10" using assms(3) by (intro power_increasing) auto
  then have "\<not> sint (2 ^ k :: u32) > 1024" using assms(3) by (simp add: sint_pow2_u32)
  with assms nz a pn_index [of pn] show ?thesis
    by (auto simp: rtc_write_def Let_def split: option.split)
qed

lemma rtc_inv_write:
  assumes "rtc_inv s" "k \<le> 10" "pn \<in> {1..6}" "2 ^ k \<le> r" "pow2_rate r" "rtc_rate s \<le> r"
  shows "rtc_inv (s\<lparr>rtc_procs := (rtc_procs s)[pn - 1 := (rtc_procs s ! (pn - 1))
      \<lparr>rate := 2 ^ k, max_count := c\<rparr>], rtc_rate := r\<rparr>)"
proof -
  have p: "pow2_rate (2 ^ k)" using assms(2) by (auto simp: pow2_rate_def)
  have "2 \<le> r" using assms(1,6) by (auto simp: rtc_inv_def intro: order_trans)
  then show ?thesis
    using assms p by (auto simp: rtc_inv_def dest!: set_update_subset_insert [THEN subsetD] intro: order_trans)
qed

lemma rtc_handler_eq:
  assumes "length (rtc_procs s) = 6"
  shows "fst (rtc_handler_main inb outb (s, h)) =
    s\<lparr>rtc_procs := map (\<lambda>p. p\<lparr>curr_count := curr_count p - 1\<rparr>) (rtc_procs s)\<rparr>"
  using fold_update_map [OF assms, of "\<lambda>p. p\<lparr>curr_count := curr_count p - 1\<rparr>"]
  by (simp add: rtc_handler_main_def split_beta Let_def del: upt_rec_numeral)

text \<open>\<open>n\<close> interrupts after a read began.\<close>

fun rtc_ticks :: "'h inb \<Rightarrow> 'h outb \<Rightarrow> nat \<Rightarrow> rtc_state \<times> 'h \<Rightarrow> rtc_state \<times> 'h" where
  "rtc_ticks inb outb 0 st = st"
| "rtc_ticks inb outb (Suc n) st = rtc_handler_main inb outb (rtc_ticks inb outb n st)"

lemma rtc_ticks_eq:
  assumes "length (rtc_procs s) = 6"
  shows "fst (rtc_ticks inb outb n (s, h)) =
    s\<lparr>rtc_procs := map (\<lambda>p. p\<lparr>curr_count := curr_count p - of_nat n\<rparr>) (rtc_procs s)\<rparr>"
proof (induction n)
  case (Suc n)
  obtain s' h' where r: "rtc_ticks inb outb n (s, h) = (s', h')" by fastforce
  with Suc have s': "s' = s\<lparr>rtc_procs := map (\<lambda>p. p\<lparr>curr_count := curr_count p - of_nat n\<rparr>) (rtc_procs s)\<rparr>" by simp
  then have "length (rtc_procs s') = 6" using assms by simp
  then show ?case by (simp add: r rtc_handler_eq) (simp add: s' comp_def algebra_simps)
qed simp

section \<open>The hardware\<close>

text \<open>
  The register interface of the MC146818 clock: port 0x70 selects a register (its top bit masks
  the NMI), port 0x71 reads and writes the selected one; registers A and B have no side effect on
  reading.
\<close>

definition cmos_regs :: "'h inb \<Rightarrow> 'h outb \<Rightarrow> ('h \<Rightarrow> u8) \<Rightarrow> ('h \<Rightarrow> u8 \<Rightarrow> u8) \<Rightarrow> bool" where
  "cmos_regs inb outb sel reg \<longleftrightarrow>
     (\<forall>v h. sel (outb v RTC_REG_PORT h) = v AND 0x7F \<and> reg (outb v RTC_REG_PORT h) = reg h) \<and>
     (\<forall>h. sel h \<in> {REG_A, REG_B} \<longrightarrow> fst (inb RW_CMOS_PORT h) = reg h (sel h) \<and>
        reg (snd (inb RW_CMOS_PORT h)) = reg h \<and> sel (snd (inb RW_CMOS_PORT h)) = sel h) \<and>
     (\<forall>v h. sel (outb v RW_CMOS_PORT h) = sel h \<and> reg (outb v RW_CMOS_PORT h) = (reg h)(sel h := v))"

text \<open>The interrupt frequency that the rate selector in the low half of register A stands for.\<close>

definition rtc_frequency :: "u8 \<Rightarrow> nat" where
  "rtc_frequency a = 32768 div 2 ^ (unat (a AND 0xF) - 1)"

text \<open>
  \<open>set_rate\<close> returns for every rate from 2 to 1024 that is a power of two, and leaves register A
  with a selector for exactly that frequency, the upper half of register A and every other
  register unchanged.
\<close>

theorem set_rate_frequency:
  assumes "cmos_regs inb outb sel reg" "1 \<le> k" "k \<le> 10"
  shows "\<exists>h'. set_rate inb outb (2 ^ k) h = Some h' \<and> rtc_frequency (reg h' REG_A) = 2 ^ k \<and>
    reg h' REG_A AND 0xF0 = reg h REG_A AND 0xF0 \<and> (\<forall>i. i \<noteq> REG_A \<longrightarrow> reg h' i = reg h i)"
proof -
  let ?h1 = "outb (NMI_DISABLE OR REG_A) RTC_REG_PORT h"
  let ?h2 = "outb (NMI_DISABLE OR REG_A) RTC_REG_PORT (snd (inb RW_CMOS_PORT ?h1))"
  let ?v = "(reg h REG_A AND 0xF0) OR (of_nat (16 - k) :: u8)"
  have s1: "sel ?h1 = REG_A" "reg ?h1 = reg h" using assms(1) by (simp_all add: cmos_regs_def)
  then have i: "fst (inb RW_CMOS_PORT ?h1) = reg h REG_A" "reg (snd (inb RW_CMOS_PORT ?h1)) = reg h"
    using assms(1) by (auto simp: cmos_regs_def)
  have s2: "sel ?h2 = REG_A" "reg ?h2 = reg h" using assms(1) i by (simp_all add: cmos_regs_def)
  have r: "set_rate inb outb (2 ^ k) h = Some (outb ?v RW_CMOS_PORT ?h2)"
    using set_rate_eq [of k inb outb h] assms(3) i by (simp add: Let_def split_beta)
  have reg: "reg (outb ?v RW_CMOS_PORT ?h2) = (reg h)(REG_A := ?v)" using assms(1) s2 by (simp add: cmos_regs_def)
  have k: "k \<in> {1, 2, 3, 4, 5, 6, 7, 8, 9, 10}" using assms(2,3) by simp presburger
  then have lo: "?v AND 0xF = of_nat (16 - k)" "?v AND 0xF0 = reg h REG_A AND 0xF0"
    by (auto simp: bit.conj_disj_distrib2 and.assoc)
  moreover have "32768 div 2 ^ (unat (of_nat (16 - k) :: u8) - 1) = (2 :: nat) ^ k" using k by auto
  ultimately show ?thesis using r reg by (simp add: rtc_frequency_def)
qed

text \<open>A clock with these registers, for the examples: the selected register and the contents of all.\<close>

definition cmos_inb :: "(u8 \<times> (u8 \<Rightarrow> u8)) inb" where
  "cmos_inb p = (\<lambda>(s, r). (if p = RW_CMOS_PORT then r s else 0, (s, r)))"

definition cmos_outb :: "(u8 \<times> (u8 \<Rightarrow> u8)) outb" where
  "cmos_outb d p = (\<lambda>(s, r). if p = RTC_REG_PORT then (d AND 0x7F, r) else if p = RW_CMOS_PORT then (s, r(s := d)) else (s, r))"

lemma cmos_sample: "cmos_regs cmos_inb cmos_outb fst snd"
  by (auto simp: cmos_regs_def cmos_inb_def cmos_outb_def)

theorem set_rate_frequency_witness:
  "\<exists>h'. set_rate cmos_inb cmos_outb (2 ^ 5) (0, \<lambda>i. 0x26) = Some h' \<and> rtc_frequency (snd h' REG_A) = 32"
  using set_rate_frequency [OF cmos_sample, of 5 "(0, \<lambda>i. 0x26)"] by auto

section \<open>Writing a rate\<close>

lemma rtc_write_effect:
  assumes "rtc_inv s" "pn \<in> {1..6}" "buf \<noteq> 0" "ld32 tr m buf = 2 ^ k" "k \<le> 10"
  shows "\<exists>s' h'. rtc_write inb outb tr m (of_nat pn) buf (s, h) = Some (1, s', h') \<and> rtc_inv s' \<and>
    rtc_rate s' = max (rtc_rate s) (2 ^ k) \<and>
    (if rtc_rate s < 2 ^ k then set_rate inb outb (2 ^ k) h = Some h' else h' = h) \<and>
    rate (rtc_procs s' ! (pn - 1)) = 2 ^ k \<and> max_count (rtc_procs s' ! (pn - 1)) = sdiv32 (rtc_rate s') (2 ^ k) \<and>
    (\<forall>j < 6. j \<noteq> pn - 1 \<longrightarrow> rate (rtc_procs s' ! j) = rate (rtc_procs s ! j)) \<and>
    (rtc_exact s \<longrightarrow> rtc_exact s')"
proof -
  let ?s = "s\<lparr>rtc_procs := (rtc_procs s)[pn - 1 := (rtc_procs s ! (pn - 1))
      \<lparr>rate := 2 ^ k, max_count := sdiv32 (rtc_rate s) (2 ^ k)\<rparr>]\<rparr>"
  have len: "length (rtc_procs s) = 6" and i: "pn - 1 < 6" using assms(1,2) by (auto simp: rtc_inv_def)
  obtain a where a: "rtc_rate s = 2 ^ a" "a \<le> 10" using assms(1) by (auto simp: rtc_inv_def pow2_rate_def)
  have pk: "pow2_rate (2 ^ k)" using assms(5) by (auto simp: pow2_rate_def)
  have gt: "sint (2 ^ k :: u32) > sint (rtc_rate s) \<longleftrightarrow> a < k"
    using a assms(5) by (simp add: sint_pow2_u32 power_strict_increasing_iff)
  show ?thesis
  proof (cases "a < k")
    case True
    then have lt: "rtc_rate s \<le> 2 ^ k" "rtc_rate s < 2 ^ k" using a assms(5) by (simp_all add: pow2_le_u32 not_le [symmetric])
    then have inv: "rtc_inv (?s\<lparr>rtc_rate := 2 ^ k\<rparr>)" (is "rtc_inv ?t")
      using rtc_inv_write [OF assms(1,5,2) order_refl pk] by simp
    note u = update_exact [OF inv]
    obtain h' where h': "set_rate inb outb (2 ^ k) h = Some h'"
      using set_rate_eq [of k inb outb h] assms(5) by (auto simp: Let_def split: prod.splits)
    have w: "rtc_write inb outb tr m (of_nat pn) buf (s, h) = Some (1, update_rtc_processes ?t, h')"
      using rtc_write_accept [OF assms(3,4,5,2), of inb outb s h] True gt h' by (simp add: Let_def)
    show ?thesis
      using w u len i lt h' by (auto simp: update_rtc_processes_eq nth_list_update max_def)
  next
    case False
    then have le: "2 ^ k \<le> rtc_rate s" using a assms(5) by (simp add: pow2_le_u32)
    have w: "rtc_write inb outb tr m (of_nat pn) buf (s, h) = Some (1, ?s, h)"
      using rtc_write_accept [OF assms(3,4,5,2), of inb outb s h] False gt by (simp add: Let_def)
    have pa: "pow2_rate (rtc_rate s)" using assms(1) by (simp add: rtc_inv_def)
    have "?s\<lparr>rtc_rate := rtc_rate s\<rparr> = ?s" by simp
    then have "rtc_inv ?s"
      using rtc_inv_write [OF assms(1,5,2) le pa order_refl, of "sdiv32 (rtc_rate s) (2 ^ k)"] by simp
    moreover have c: "unat (sdiv32 (rtc_rate s) (2 ^ k)) * unat (2 ^ k :: u32) = unat (rtc_rate s)" using exact_count [OF pk pa le] .
    then have "rtc_exact s \<Longrightarrow> rtc_exact ?s"
      by (auto simp: rtc_exact_def dest!: set_update_subset_insert [THEN subsetD])
    ultimately show ?thesis using w len i le by (auto simp: nth_list_update max_def not_less)
  qed
qed

section \<open>Properties\<close>

text \<open>
  C18. Writing a power of two from 1 to 1024 to the RTC succeeds (the result is not -1) and keeps
  the invariant. The hardware rate is the maximum of the old rate and the new one, so it is never
  lowered, and it is the frequency that register A of the clock selects, if it was before. The
  caller's rate is set, its count makes the virtual rate exact (count times rate is the hardware
  rate), nobody else's rate changes, and if all counts were exact before they are exact after.
\<close>

theorem rtc_write_correct:
  assumes "rtc_inv s" "pn \<in> {1..6}" "buf \<noteq> 0" "ld32 tr m buf = 2 ^ k" "k \<le> 10"
    and "cmos_regs inb outb sel reg" "rtc_frequency (reg h REG_A) = unat (rtc_rate s)"
  shows "\<exists>r s' h'. rtc_write inb outb tr m (of_nat pn) buf (s, h) = Some (r, s', h') \<and> r \<noteq> -1 \<and> rtc_inv s' \<and>
    rtc_rate s' = max (rtc_rate s) (2 ^ k) \<and> rtc_frequency (reg h' REG_A) = unat (rtc_rate s') \<and>
    rate (rtc_procs s' ! (pn - 1)) = 2 ^ k \<and> unat (max_count (rtc_procs s' ! (pn - 1))) * 2 ^ k = unat (rtc_rate s') \<and>
    (\<forall>j < 6. j \<noteq> pn - 1 \<longrightarrow> rate (rtc_procs s' ! j) = rate (rtc_procs s ! j)) \<and>
    (rtc_exact s \<longrightarrow> rtc_exact s')"
proof -
  obtain s' h' where w: "rtc_write inb outb tr m (of_nat pn) buf (s, h) = Some (1, s', h')" "rtc_inv s'"
    "rtc_rate s' = max (rtc_rate s) (2 ^ k)" "if rtc_rate s < 2 ^ k then set_rate inb outb (2 ^ k) h = Some h' else h' = h"
    "rate (rtc_procs s' ! (pn - 1)) = 2 ^ k" "max_count (rtc_procs s' ! (pn - 1)) = sdiv32 (rtc_rate s') (2 ^ k)"
    "\<forall>j < 6. j \<noteq> pn - 1 \<longrightarrow> rate (rtc_procs s' ! j) = rate (rtc_procs s ! j)" "rtc_exact s \<longrightarrow> rtc_exact s'"
    using rtc_write_effect [OF assms(1-5), of inb outb h] by blast
  have "rtc_frequency (reg h' REG_A) = unat (rtc_rate s')"
  proof (cases "rtc_rate s < 2 ^ k")
    case True
    have "1 \<le> k" using True assms(1) by (cases k) (auto simp: rtc_inv_def)
    then obtain h2 where "set_rate inb outb (2 ^ k) h = Some h2" "rtc_frequency (reg h2 REG_A) = 2 ^ k"
      using set_rate_frequency [OF assms(6) _ assms(5), of h] by blast
    then show ?thesis using True w(3,4) assms(5) by (simp add: max_absorb2 unat_pow2_u32)
  next
    case False
    then show ?thesis using w(3,4) assms(7) by (simp add: max_absorb1)
  qed
  moreover have "unat (max_count (rtc_procs s' ! (pn - 1))) * 2 ^ k = unat (rtc_rate s')"
  proof -
    have "pow2_rate (2 ^ k)" "pow2_rate (rtc_rate s')" using assms(5) w(2) by (auto simp: pow2_rate_def rtc_inv_def)
    from exact_count [OF this] show ?thesis using w(3,6) assms(5) by (simp add: unat_pow2_u32)
  qed
  ultimately show ?thesis using w by (intro exI [of _ 1]) auto
qed

definition rtc_fresh :: rtc_state where
  "rtc_fresh = \<lparr>rtc_rate = 2, rtc_opens = 1, rtc_procs =
     (let p = \<lparr>rate = 2, curr_count = 0, max_count = 0\<rparr> in [p, p, p, p, p, p])\<rparr>"

lemma rtc_fresh_inv: "rtc_inv rtc_fresh"
proof -
  have "pow2_rate 2" unfolding pow2_rate_def by (rule exI [of _ 1]) simp
  then show ?thesis by (simp add: rtc_inv_def rtc_fresh_def Let_def)
qed

theorem rtc_write_correct_witness:
  "\<exists>r s' h'. rtc_write cmos_inb cmos_outb (\<lambda>a. a) ((\<lambda>a. 0)(0x11 := 4)) 3 0x10 (rtc_fresh, 0, \<lambda>i. 0x2F) = Some (r, s', h') \<and>
     r \<noteq> -1 \<and> rate (rtc_procs s' ! 2) = 1024 \<and> rtc_rate s' = 1024 \<and> rtc_frequency (snd h' REG_A) = 1024"
proof -
  have l: "ld32 (\<lambda>a. a) ((\<lambda>a. 0)(0x11 := 4)) 0x10 = 2 ^ 10" by (simp add: ld32_def ld8_def word_of_bytes_def)
  have f: "rtc_frequency (snd (0 :: u8, \<lambda>i. 0x2F) REG_A) = unat (rtc_rate rtc_fresh)" by (simp add: rtc_frequency_def rtc_fresh_def)
  have r: "rtc_rate rtc_fresh = 2" by (simp add: rtc_fresh_def)
  from rtc_write_correct [OF rtc_fresh_inv _ _ l _ cmos_sample f, of 3] r
  show ?thesis by (auto simp: max_def)
qed

text \<open>
  What \<open>rtc_write\<close> accepts: it returns 1 exactly for a non-null buffer that holds a power of
  two from 1 to 1024 or the value 0x80000000 (the most negative \<open>int32_t\<close>, which passes both
  tests), and otherwise returns -1 and changes nothing.
\<close>

theorem rtc_write_accepts:
  assumes "r = ld32 tr m buf"
  shows "if buf \<noteq> 0 \<and> (pow2_rate r \<or> r = 0x80000000) then
      (\<forall>res. rtc_write inb outb tr m pn buf (s, h) = Some res \<longrightarrow> fst res = 1)
    else rtc_write inb outb tr m pn buf (s, h) = Some (-1, s, h)"
proof -
  have iff: "\<not> (r = 0 \<or> sint r > 1024) \<and> \<not> r AND (r - 1) \<noteq> 0 \<longleftrightarrow> pow2_rate r \<or> r = 0x80000000" (is "?L = ?R")
  proof
    assume l: ?L
    then obtain k where k: "k < 32" "r = 2 ^ k" using pow2_test_u32 [of r] by blast
    show ?R
    proof (cases "k = 31")
      case False
      then have "(2 :: int) ^ k \<le> 2 ^ 10" using l k by (simp add: sint_pow2_u32)
      then have "k \<le> 10" by (rule power_le_imp_le_exp [rotated]) simp
      with k show ?thesis by (auto simp: pow2_rate_def)
    qed (simp add: k)
  next
    assume ?R
    then have "\<exists>k. (k \<le> 10 \<or> k = 31) \<and> r = 2 ^ k" by (auto simp: pow2_rate_def intro: exI [of _ 31])
    then obtain k where k: "k \<le> 10 \<or> k = 31" "r = 2 ^ k" by blast
    have nz: "r \<noteq> 0" using k by (auto simp: word_unat_eq_iff unat_pow2_u32)
    have "k < 32" using k(1) by auto
    then have "r AND (r - 1) = 0" unfolding pow2_test_u32 [OF nz] using k(2) by blast
    moreover have "\<not> sint r > 1024"
    proof (cases "k = 31")
      case False
      then have "(2 :: int) ^ k \<le> 2 ^ 10" using k(1) by (intro power_increasing) auto
      then show ?thesis using k False by (simp add: sint_pow2_u32)
    qed (simp add: k)
    ultimately show ?L using nz by simp
  qed
  then show ?thesis
    by (auto simp: rtc_write_def assms [symmetric] Let_def split: option.splits)
qed

theorem rtc_write_accepts_witness:
  "rtc_write (\<lambda>p h. (0, h)) (\<lambda>d p h. h) (\<lambda>a. a) ((\<lambda>a. 0)(0x10 := 3)) 1 0x10 (rtc_fresh, ()) = Some (-1, rtc_fresh, ())"
proof -
  have l: "ld32 (\<lambda>a. a) ((\<lambda>a. 0)(0x10 := 3)) 0x10 = 3" by (simp add: ld32_def ld8_def word_of_bytes_def)
  have "\<not> pow2_rate 3"
  proof
    assume "pow2_rate 3"
    then obtain k where k: "k \<le> 10" "(3 :: u32) = 2 ^ k" by (auto simp: pow2_rate_def)
    have "unat (3 :: u32) = unat ((2 :: u32) ^ k)" by (rule arg_cong [OF k(2)])
    then have "3 = (2 :: nat) ^ k" using k(1) by (simp add: unat_pow2_u32)
    then show False by (cases k) (auto dest: arg_cong [where f = even])
  qed
  with rtc_write_accepts [OF l [symmetric], of "\<lambda>p h. (0, h)" "\<lambda>d p h. h" 1 rtc_fresh "()"] show ?thesis by simp
qed

text \<open>A read by a process whose count is \<open>n\<close> is done after \<open>n\<close> interrupts and not before.\<close>

lemma rtc_read_count:
  assumes "length (rtc_procs s) = 6" "pn \<in> {1..6}" "max_count (rtc_procs s ! (pn - 1)) = of_nat n"
    and "n < 2147483648" "j \<le> n"
  shows "rtc_read_done (of_nat pn) (fst (rtc_ticks inb outb j (rtc_read_start (of_nat pn) s, h))) \<longleftrightarrow> j = n"
proof -
  have i: "unat (of_nat pn - 1 :: u32) = pn - 1" "pn - 1 < 6" using assms(2) pn_index [of pn] by auto
  let ?s = "rtc_read_start (of_nat pn) s"
  have len: "length (rtc_procs ?s) = 6" using assms(1) by (simp add: rtc_read_start_def Let_def)
  have "curr_count (rtc_procs (fst (rtc_ticks inb outb j (?s, h))) ! (pn - 1)) = of_nat n - of_nat j"
    using assms(1,3) i by (simp add: rtc_ticks_eq [OF len]) (simp add: rtc_read_start_def Let_def)
  also have "\<dots> = of_nat (n - j)" using assms(5) by simp
  finally show ?thesis
    using assms(4,5) i sint_small_u32 [of "n - j"] by (auto simp: rtc_read_done_def)
qed

text \<open>
  C19. The virtual clock: after a process has written the rate \<open>2 ^ k\<close>, its read of the RTC returns
  after exactly one period of that rate: with the hardware at \<open>rtc_rate\<close> interrupts a second it is
  done after \<open>n = rtc_rate / 2 ^ k\<close> interrupts, one at least, and after no fewer.
\<close>

theorem rtc_read_waits:
  assumes "rtc_inv s" "pn \<in> {1..6}" "buf \<noteq> 0" "ld32 tr m buf = 2 ^ k" "k \<le> 10"
    and "rtc_write inb outb tr m (of_nat pn) buf (s, h) = Some (r, s', h')"
    and "n = unat (rtc_rate s') div 2 ^ k" "j \<le> n"
  shows "1 \<le> n \<and> n * 2 ^ k = unat (rtc_rate s') \<and>
    (rtc_read_done (of_nat pn) (fst (rtc_ticks inb outb j (rtc_read_start (of_nat pn) s', h'))) \<longleftrightarrow> j = n)"
proof -
  have w: "rtc_inv s'" "rtc_rate s' = max (rtc_rate s) (2 ^ k)" "max_count (rtc_procs s' ! (pn - 1)) = sdiv32 (rtc_rate s') (2 ^ k)"
    using rtc_write_effect [OF assms(1-5), of inb outb h] assms(6) by auto
  obtain a where a: "rtc_rate s' = 2 ^ a" "a \<le> 10" using w(1) by (auto simp: rtc_inv_def pow2_rate_def)
  have "2 ^ k \<le> rtc_rate s'" using w(2) by simp
  then have ka: "k \<le> a" using a assms(5) by (simp add: pow2_le_u32)
  have n: "n = 2 ^ (a - k)" using assms(7) a ka by (simp add: unat_pow2_u32 power_diff)
  have mc: "max_count (rtc_procs s' ! (pn - 1)) = of_nat n" using w(3) a ka n by (simp add: sdiv32_pow2)
  have "n * 2 ^ k = unat (rtc_rate s')" using a ka by (simp add: n unat_pow2_u32 power_add [symmetric])
  moreover have "(2 :: nat) ^ (a - k) \<le> 2 ^ 10" using a(2) by (intro power_increasing) auto
  then have "n < 2147483648" by (simp add: n)
  ultimately show ?thesis
    using rtc_read_count [OF _ assms(2) mc _ assms(8), of inb outb h'] w(1) n by (simp add: rtc_inv_def)
qed

theorem rtc_read_waits_witness:
  "\<exists>r s' h'. rtc_write cmos_inb cmos_outb (\<lambda>a. a) ((\<lambda>a. 0)(0x10 := 4)) 1 0x10 (rtc_fresh\<lparr>rtc_rate := 16\<rparr>, 0, \<lambda>i. 0x2C) =
       Some (r, s', h') \<and>
     \<not> rtc_read_done 1 (fst (rtc_ticks cmos_inb cmos_outb 3 (rtc_read_start 1 s', h'))) \<and>
     rtc_read_done 1 (fst (rtc_ticks cmos_inb cmos_outb 4 (rtc_read_start 1 s', h')))"
proof -
  let ?s = "rtc_fresh\<lparr>rtc_rate := 16\<rparr>" and ?h = "(0 :: u8, \<lambda>i :: u8. 0x2C :: u8)"
  have l: "ld32 (\<lambda>a. a) ((\<lambda>a. 0)(0x10 := 4)) 0x10 = 2 ^ 2" by (simp add: ld32_def ld8_def word_of_bytes_def)
  have p: "pow2_rate 2" "pow2_rate 16" unfolding pow2_rate_def by (rule exI [of _ 1], simp) (rule exI [of _ 4], simp)
  then have i: "rtc_inv ?s" by (simp add: rtc_inv_def rtc_fresh_def Let_def)
  have one: "1 \<in> {1..6 :: nat}" "(0x10 :: addr) \<noteq> 0" "2 \<le> (10 :: nat)" by simp_all
  obtain s' h' where w: "rtc_write cmos_inb cmos_outb (\<lambda>a. a) ((\<lambda>a. 0)(0x10 := 4)) (of_nat 1) 0x10 (?s, ?h) = Some (1, s', h')"
    "rtc_rate s' = max (rtc_rate ?s) (2 ^ 2)"
    using rtc_write_effect [OF i one(1,2) l one(3), of cmos_inb cmos_outb ?h] by blast
  have n: "4 = unat (rtc_rate s') div 2 ^ 2" unfolding w(2) by (simp add: max_def)
  note r = rtc_read_waits [OF i one(1,2) l one(3) w(1) n]
  show ?thesis
  proof (intro exI conjI)
    show "rtc_write cmos_inb cmos_outb (\<lambda>a. a) ((\<lambda>a. 0)(0x10 := 4)) 1 0x10 (?s, ?h) = Some (1, s', h')" using w(1) by simp
    show "\<not> rtc_read_done 1 (fst (rtc_ticks cmos_inb cmos_outb 3 (rtc_read_start 1 s', h')))" using r [of 3] by simp
    show "rtc_read_done 1 (fst (rtc_ticks cmos_inb cmos_outb 4 (rtc_read_start 1 s', h')))" using r [of 4] by simp
  qed
qed

text \<open>
  A stale count: the driver does not recompute the counts when the clock is opened again. A
  process opens the RTC, asks for 1024 Hz and closes it; if then another process opens the RTC, the
  hardware runs at 2 Hz, its own rate is 2 Hz, and yet its first read waits for 512 interrupts
  instead of one.
\<close>

theorem rtc_stale_count:
  "\<exists>s. (case rtc_open (\<lambda>p h. (0, h)) (\<lambda>d p h. h) (rtc_fresh\<lparr>rtc_opens := 0\<rparr>, 0 :: nat) of (_, s, h) \<Rightarrow>
       case rtc_write (\<lambda>p h. (0, h)) (\<lambda>d p h. h) (\<lambda>a. a) ((\<lambda>a. 0)(0x11 := 4)) 1 0x10 (s, h) of
         None \<Rightarrow> None
       | Some (_, s, h) \<Rightarrow>
           (case rtc_close (\<lambda>p h. (0, h)) (\<lambda>d p h. h) 1 (s, h) of (_, s, h) \<Rightarrow>
              Some (rtc_open (\<lambda>p h. (0, h)) (\<lambda>d p h. h) (s, h)))) = Some (0, s, 0) \<and>
     rtc_rate s = 2 \<and> rate (rtc_procs s ! 1) = 2 \<and> max_count (rtc_procs s ! 1) = 512"
proof -
  have l: "ld32 (\<lambda>a. a) ((\<lambda>a. 0)(0x11 := 4)) 0x10 = 2 ^ 10" by (simp add: ld32_def ld8_def word_of_bytes_def)
  let ?p = "\<lambda>r c. \<lparr>rate = r, curr_count = 0, max_count = c\<rparr> :: rtc_process"
  let ?s1 = "\<lparr>rtc_rate = 2, rtc_opens = 1, rtc_procs = [?p 2 0, ?p 2 0, ?p 2 0, ?p 2 0, ?p 2 0, ?p 2 0]\<rparr> :: rtc_state"
  have "sdiv32 (2 ^ 10) (2 ^ 1) = 2 ^ (10 - 1)" "sdiv32 (2 ^ 10) (2 ^ 10) = 2 ^ (10 - 10)"
    by (rule sdiv32_pow2; simp)+
  then have d: "sdiv32 1024 2 = 512" "sdiv32 1024 1024 = 1" by simp_all
  have "set_rate (\<lambda>p h. (0, h)) (\<lambda>d p h. h) (2 ^ 10) (0 :: nat) = Some 0"
    using set_rate_eq [of 10 "\<lambda>p h. (0, h)" "\<lambda>d p h. h" "0 :: nat"] by simp
  then have w: "rtc_write (\<lambda>p h. (0, h)) (\<lambda>d p h. h) (\<lambda>a. a) ((\<lambda>a. 0)(0x11 := 4)) 1 0x10 (?s1, 0 :: nat) =
      Some (1, \<lparr>rtc_rate = 1024, rtc_opens = 1, rtc_procs = [?p 1024 1, ?p 2 512, ?p 2 512, ?p 2 512, ?p 2 512, ?p 2 512]\<rparr>, 0)"
    using rtc_write_accept [OF _ l, of 1 "\<lambda>p h. (0, h)" "\<lambda>d p h. h" ?s1 "0 :: nat"]
    by (simp add: Let_def update_rtc_processes_eq d)
  show ?thesis
    by (simp add: rtc_open_def rtc_fresh_def w rtc_close_def Let_def enable_irq_def disable_irq_def)
qed

end
