(* ===== verification/Console.thy ===== *)
theory Console
  imports Lib_String
begin

text \<open>
  The text-mode screen code of \<^verbatim>\<open>student-distrib/lib.c\<close>: clearing, scrolling,
  \<open>putc\<close> and \<open>backspace_fnc\<close> on a screen that lives in video memory (one byte of character
  and one byte of attribute per cell), and the VGA start and cursor registers.

  \<open>screen_t\<close> of \<^verbatim>\<open>lib.h\<close> is a record; the static variables \<open>screen_x\<close>,
  \<open>screen_y\<close> and \<open>video_mem\<close> that \<open>clear\<close>, \<open>vert_scroll\<close> and \<open>putc\<close> use are one more value
  of the same record. C's \<open>int\<close> coordinates are \<open>int\<close> (they stay between \<open>-1\<close> and \<open>80\<close>) and
  \<open>/\<close> and \<open>%\<close> truncate (\<open>sdiv\<close>, \<open>smod\<close>).

  The abstract screen at the end of the theory is a list of 2000 characters with a cursor; the
  refinement lemmas show that the byte-level code implements it and touches nothing outside the
  4000 bytes of the screen.
\<close>

section \<open>The screen\<close>

abbreviation (input) NUM_COLS :: int where "NUM_COLS \<equiv> 80"
abbreviation (input) NUM_ROWS :: int where "NUM_ROWS \<equiv> 25"
abbreviation (input) ATTRIB :: u8 where "ATTRIB \<equiv> 7"
abbreviation (input) VIDEO :: addr where "VIDEO \<equiv> 0xB8000"
abbreviation (input) VGA_BASE :: u16 where "VGA_BASE \<equiv> 0x3D4"

record screen_t =
  scr_x :: int
  scr_y :: int
  scr_mem :: addr

text \<open>
  The pair of assignments that every routine makes for cell \<open>i\<close>: the character at
  \<open>video_mem + (i << 1)\<close>, \<open>ATTRIB\<close> behind it.
\<close>

definition put_cell :: "translation \<Rightarrow> addr \<Rightarrow> int \<Rightarrow> u8 \<Rightarrow> memory \<Rightarrow> memory" where
  "put_cell tr vm i c m =
     st8 tr (st8 tr m (vm + of_int (2 * i)) c) (vm + of_int (2 * i) + 1) ATTRIB"

definition get_cell :: "translation \<Rightarrow> addr \<Rightarrow> int \<Rightarrow> memory \<Rightarrow> u8" where
  "get_cell tr vm i m = ld8 tr m (vm + of_int (2 * i))"

definition clear :: "translation \<Rightarrow> screen_t \<times> memory \<Rightarrow> screen_t \<times> memory" where
  "clear tr = (\<lambda>(con, m).
     let m = fold (\<lambda>i m. put_cell tr (scr_mem con) i 32 m) [0..NUM_ROWS * NUM_COLS - 1] m
     in (con\<lparr>scr_x := 0, scr_y := 0\<rparr>, m))"

definition clear_terminal :: "translation \<Rightarrow> screen_t \<times> memory \<Rightarrow> screen_t \<times> memory" where
  "clear_terminal tr = (\<lambda>(scr, m).
     let m = fold (\<lambda>i m. put_cell tr (scr_mem scr) i 32 m) [0..NUM_ROWS * NUM_COLS - 1] m
     in (scr\<lparr>scr_x := 0, scr_y := 0\<rparr>, m))"

definition vert_scroll :: "translation \<Rightarrow> screen_t \<Rightarrow> memory \<Rightarrow> memory" where
  "vert_scroll tr con m =
     (let m = fold (\<lambda>i m. put_cell tr (scr_mem con) i
                (get_cell tr (scr_mem con) (i + NUM_COLS) m) m) [0..(NUM_ROWS - 1) * NUM_COLS - 1] m
      in fold (\<lambda>i m. put_cell tr (scr_mem con) i 32 m)
           [(NUM_ROWS - 1) * NUM_COLS..NUM_ROWS * NUM_COLS - 1] m)"

definition vert_scroll_in_terminal :: "translation \<Rightarrow> screen_t \<Rightarrow> memory \<Rightarrow> memory" where
  "vert_scroll_in_terminal tr scr m =
     (let m = fold (\<lambda>i m. put_cell tr (scr_mem scr) i
                (get_cell tr (scr_mem scr) (i + NUM_COLS) m) m) [0..(NUM_ROWS - 1) * NUM_COLS - 1] m
      in fold (\<lambda>i m. put_cell tr (scr_mem scr) i 32 m)
           [(NUM_ROWS - 1) * NUM_COLS..NUM_ROWS * NUM_COLS - 1] m)"

definition putc :: "translation \<Rightarrow> u8 \<Rightarrow> screen_t \<times> memory \<Rightarrow> screen_t \<times> memory" where
  "putc tr c = (\<lambda>(con, m).
     if c = 10 \<or> c = 13 then
       let con = con\<lparr>scr_y := scr_y con + 1, scr_x := 0\<rparr>
       in if scr_y con > NUM_ROWS - 1
          then (con\<lparr>scr_y := NUM_ROWS - 1\<rparr>, vert_scroll tr con m)
          else (con, m)
     else
       let m = put_cell tr (scr_mem con) (NUM_COLS * scr_y con + scr_x con) c m;
           con = con\<lparr>scr_x := scr_x con + 1\<rparr>;
           increment_y = (if scr_x con > NUM_COLS - 1 then 1 else 0);
           con = con\<lparr>scr_x := scr_x con smod NUM_COLS\<rparr>;
           new_y = scr_y con + increment_y + scr_x con sdiv NUM_COLS
       in if new_y > NUM_ROWS - 1
          then (con\<lparr>scr_y := NUM_ROWS - 1\<rparr>, vert_scroll tr con m)
          else (con\<lparr>scr_y := new_y smod NUM_ROWS\<rparr>, m))"

definition putc_in_terminal :: "translation \<Rightarrow> u8 \<Rightarrow> screen_t \<times> memory \<Rightarrow> screen_t \<times> memory" where
  "putc_in_terminal tr c = (\<lambda>(scr, m).
     if c = 10 \<or> c = 13 then
       let scr = scr\<lparr>scr_y := scr_y scr + 1, scr_x := 0\<rparr>
       in if scr_y scr > NUM_ROWS - 1
          then (scr\<lparr>scr_y := NUM_ROWS - 1\<rparr>, vert_scroll_in_terminal tr scr m)
          else (scr, m)
     else
       let m = put_cell tr (scr_mem scr) (NUM_COLS * scr_y scr + scr_x scr) c m;
           scr = scr\<lparr>scr_x := scr_x scr + 1\<rparr>;
           increment_y = (if scr_x scr > NUM_COLS - 1 then 1 else 0);
           scr = scr\<lparr>scr_x := scr_x scr smod NUM_COLS\<rparr>;
           new_y = scr_y scr + increment_y + scr_x scr sdiv NUM_COLS
       in if new_y > NUM_ROWS - 1
          then (scr\<lparr>scr_y := NUM_ROWS - 1\<rparr>, vert_scroll_in_terminal tr scr m)
          else (scr\<lparr>scr_y := new_y smod NUM_ROWS\<rparr>, m))"

definition backspace_fnc :: "translation \<Rightarrow> screen_t \<times> memory \<Rightarrow> screen_t \<times> memory" where
  "backspace_fnc tr = (\<lambda>(scr, m).
     if scr_x scr = 0 then
       let (scr, m) = putc_in_terminal tr 32 (scr\<lparr>scr_x := NUM_COLS - 1, scr_y := scr_y scr - 1\<rparr>, m)
       in (scr\<lparr>scr_x := NUM_COLS - 1, scr_y := scr_y scr - 1\<rparr>, m)
     else
       let (scr, m) = putc_in_terminal tr 32 (scr\<lparr>scr_x := scr_x scr - 1\<rparr>, m)
       in (scr\<lparr>scr_x := scr_x scr - 1\<rparr>, m))"

partial_function (option) puts_loop ::
  "translation \<Rightarrow> addr \<Rightarrow> u32 \<Rightarrow> screen_t \<times> memory \<Rightarrow> (u32 \<times> screen_t \<times> memory) option" where
  "puts_loop tr s index st =
     (if ld8 tr (snd st) (s + index) \<noteq> 0
      then puts_loop tr s (index + 1) (putc tr (ld8 tr (snd st) (s + index)) st)
      else Some (index, st))"

definition puts ::
  "translation \<Rightarrow> addr \<Rightarrow> screen_t \<times> memory \<Rightarrow> (u32 \<times> screen_t \<times> memory) option" where
  "puts tr s st = puts_loop tr s 0 st"

text \<open>The accessors of the static variables.\<close>

definition get_screen_x :: "screen_t \<Rightarrow> int" where
  "get_screen_x con = scr_x con"

definition get_screen_y :: "screen_t \<Rightarrow> int" where
  "get_screen_y con = scr_y con"

definition get_video_mem :: "screen_t \<Rightarrow> addr" where
  "get_video_mem con = scr_mem con"

definition set_screen_x :: "int \<Rightarrow> screen_t \<Rightarrow> screen_t" where
  "set_screen_x x con = con\<lparr>scr_x := x\<rparr>"

definition set_screen_y :: "int \<Rightarrow> screen_t \<Rightarrow> screen_t" where
  "set_screen_y y con = con\<lparr>scr_y := y\<rparr>"

definition set_video_mem :: "addr \<Rightarrow> screen_t \<Rightarrow> screen_t" where
  "set_video_mem vm con = con\<lparr>scr_mem := vm\<rparr>"

text \<open>Port output is returned as the list of the \<open>(data, port)\<close> pairs in program order.\<close>

definition set_vga_start :: "u32 \<Rightarrow> (u8 \<times> u16) list" where
  "set_vga_start addr =
     (let addr = drop_bit 1 addr
      in [(0x0D, VGA_BASE), (ucast (addr AND 0xFF), VGA_BASE + 1),
          (0x0C, VGA_BASE), (ucast (drop_bit 8 addr AND 0xFF), VGA_BASE + 1)])"

definition move_cursor :: "u32 \<Rightarrow> screen_t \<Rightarrow> u32 \<Rightarrow> (u8 \<times> u16) list" where
  "move_cursor term_num scr term_mem_length =
     (let position = ucast (of_int (scr_y scr * NUM_COLS + scr_x scr) +
                       drop_bit 1 (term_num * term_mem_length)) :: u16
      in [(0x0F, VGA_BASE), (ucast (position AND 0xFF), VGA_BASE + 1),
          (0x0E, VGA_BASE), (ucast (drop_bit 8 position AND 0xFF), VGA_BASE + 1)])"

definition test_interrupts :: "translation \<Rightarrow> screen_t \<Rightarrow> memory \<Rightarrow> memory" where
  "test_interrupts tr con m =
     fold (\<lambda>i m. st8 tr m (scr_mem con + of_int (2 * i)) (get_cell tr (scr_mem con) i m + 1))
       [0..NUM_ROWS * NUM_COLS - 1] m"

section \<open>The two copies of the code agree\<close>

text \<open>
  \<open>lib.c\<close> holds each routine twice, on its static variables and on a \<open>screen_t\<close>. The copies are
  the same function, so that one set of lemmas serves both.
\<close>

lemma vert_scroll_eq: "vert_scroll = vert_scroll_in_terminal"
  by (intro ext) (simp add: vert_scroll_def vert_scroll_in_terminal_def)

lemma clear_eq: "clear = clear_terminal"
  by (intro ext) (simp add: clear_def clear_terminal_def)

lemma putc_eq: "putc = putc_in_terminal"
  unfolding putc_def putc_in_terminal_def vert_scroll_eq ..

section \<open>The abstract screen\<close>

text \<open>2000 characters in row-major order and a cursor.\<close>

record ascreen =
  a_cells :: bytes
  a_x :: nat
  a_y :: nat

definition a_newline :: "ascreen \<Rightarrow> ascreen" where
  "a_newline s =
     (if a_y s = 24 then s\<lparr>a_cells := drop 80 (a_cells s) @ replicate 80 32, a_x := 0\<rparr>
      else s\<lparr>a_x := 0, a_y := a_y s + 1\<rparr>)"

definition a_putc :: "u8 \<Rightarrow> ascreen \<Rightarrow> ascreen" where
  "a_putc c s =
     (if c = 10 \<or> c = 13 then a_newline s
      else let s = s\<lparr>a_cells := (a_cells s)[80 * a_y s + a_x s := c]\<rparr>
           in if a_x s = 79 then a_newline s else s\<lparr>a_x := a_x s + 1\<rparr>)"

definition a_backspace :: "ascreen \<Rightarrow> ascreen" where
  "a_backspace s =
     (let i = 80 * a_y s + a_x s - 1
      in s\<lparr>a_cells := (a_cells s)[i := 32], a_x := i mod 80, a_y := i div 80\<rparr>)"

definition a_clear :: "ascreen \<Rightarrow> ascreen" where
  "a_clear s = s\<lparr>a_cells := replicate 2000 32, a_x := 0, a_y := 0\<rparr>"

definition cells :: "translation \<Rightarrow> memory \<Rightarrow> addr \<Rightarrow> nat \<Rightarrow> bytes" where
  "cells tr m vm n = map (\<lambda>i. get_cell tr vm (int i) m) [0..<n]"

definition screen_abs :: "translation \<Rightarrow> screen_t \<times> memory \<Rightarrow> ascreen" where
  "screen_abs tr = (\<lambda>(scr, m).
     \<lparr>a_cells = cells tr m (scr_mem scr) 2000, a_x = nat (scr_x scr), a_y = nat (scr_y scr)\<rparr>)"

definition screen_wf :: "screen_t \<Rightarrow> bool" where
  "screen_wf scr \<longleftrightarrow> 0 \<le> scr_x scr \<and> scr_x scr < 80 \<and> 0 \<le> scr_y scr \<and> scr_y scr < 25"

section \<open>The cursor stays on the screen\<close>

lemma putc_wf [wf_intros]: "screen_wf scr \<Longrightarrow> screen_wf (fst (putc_in_terminal tr c (scr, m)))"
  by (auto simp: screen_wf_def putc_in_terminal_def Let_def smod_nonneg sdiv_nonneg)

lemma putc_mem [simp]: "scr_mem (fst (putc_in_terminal tr c (scr, m))) = scr_mem scr"
  by (simp add: putc_in_terminal_def Let_def)

section \<open>Cells in memory\<close>

lemma length_cells [simp]: "length (cells tr m vm n) = n"
  by (simp add: cells_def)

lemma nth_cells [simp]: "i < n \<Longrightarrow> cells tr m vm n ! i = get_cell tr vm (int i) m"
  by (simp add: cells_def)

lemma cell_in_rng:
  assumes "0 \<le> i" "i < 2000"
  shows "vm + of_int (2 * i) \<in> rng vm 4000" "vm + of_int (2 * i) + 1 \<in> rng vm 4000"
proof -
  have "vm + of_int (2 * i) + 1 - vm = (of_int (2 * i + 1) :: u32)" by simp
  then show "vm + of_int (2 * i) \<in> rng vm 4000" "vm + of_int (2 * i) + 1 \<in> rng vm 4000"
    using assms by (simp_all add: rng_def unat_of_int_u32 nat_less_iff del: of_int_mult of_int_add)
qed

lemma put_cell_frame:
  assumes "p \<notin> tr ` rng vm 4000" "0 \<le> i" "i < 2000"
  shows "put_cell tr vm i c m p = m p"
  using assms(1) cell_in_rng [OF assms(2,3), of vm]
  by (auto simp: put_cell_def st8_def simp del: of_int_mult)

lemma fold_put_cell_frame:
  assumes "p \<notin> tr ` rng vm 4000" "\<forall>i \<in> set is. 0 \<le> i \<and> i < 2000"
  shows "fold (\<lambda>i m. put_cell tr vm i (f i m) m) is m p = m p"
  using assms by (induction "is" arbitrary: m) (auto simp: put_cell_frame)

lemma scroll_frame:
  assumes "p \<notin> tr ` rng (scr_mem scr) 4000"
  shows "vert_scroll_in_terminal tr scr m p = m p"
  unfolding vert_scroll_in_terminal_def Let_def
  using assms by (subst fold_put_cell_frame; auto simp: fold_put_cell_frame)+

context address_space
begin

lemma get_put_cell:
  assumes "rng vm 4000 \<subseteq> mapped" "0 \<le> i" "i < 2000" "0 \<le> j" "j < 2000"
  shows "get_cell tr vm j (put_cell tr vm i c m) = (if i = j then c else get_cell tr vm j m)"
proof -
  have "vm + of_int (2 * j) = vm + of_int (2 * i) \<longleftrightarrow> i = j"
    using of_int_eq_iff_u32 [of "2 * j" "2 * i"] assms by auto
  moreover have "vm + of_int (2 * j) \<noteq> vm + of_int (2 * i) + 1"
  proof
    assume "vm + of_int (2 * j) = vm + of_int (2 * i) + (1 :: u32)"
    then have "(of_int (2 * j) :: u32) = of_int (2 * i + 1)" by simp
    then have "2 * j = 2 * i + 1" using assms by (subst (asm) of_int_eq_iff_u32) auto
    then show False by presburger
  qed
  ultimately show ?thesis
    using assms(1) cell_in_rng [OF assms(2,3), of vm] cell_in_rng [OF assms(4,5), of vm]
    by (simp add: get_cell_def put_cell_def subset_iff del: of_int_mult)
qed

lemma cells_put_cell:
  assumes "rng vm 4000 \<subseteq> mapped" "i < 2000" "n \<le> 2000"
  shows "cells tr (put_cell tr vm (int i) c m) vm n = (cells tr m vm n)[i := c]"
  using assms by (intro nth_equalityI) (auto simp: get_put_cell nth_list_update)

text \<open>The loops over a range of cells, by induction on the number of iterations.\<close>

lemma upto_snoc_nat: "[int a..int (Suc k) - 1] = (if a \<le> k then [int a..int k - 1] @ [int k] else [])"
  by (simp add: upto_rec2)

lemma cells_fill:
  assumes "rng vm 4000 \<subseteq> mapped" "a \<le> b" "b \<le> 2000"
  shows "cells tr (fold (\<lambda>i m. put_cell tr vm i c m) [int a..int b - 1] m) vm 2000 =
    take a (cells tr m vm 2000) @ replicate (b - a) c @ drop b (cells tr m vm 2000)"
  using assms(2,3)
proof (induction b)
  case (Suc b)
  show ?case
  proof (cases "a = Suc b")
    case False
    let ?cs = "cells tr m vm 2000" and ?f = "\<lambda>i m. put_cell tr vm i c m"
    have ab: "a \<le> b" "b < 2000" using Suc.prems False by auto
    have "cells tr (fold ?f [int a..int (Suc b) - 1] m) vm 2000 =
        (cells tr (fold ?f [int a..int b - 1] m) vm 2000)[b := c]"
      using assms(1) ab by (simp only: upto_snoc_nat if_True fold_append comp_def) (simp add: cells_put_cell)
    also have "\<dots> = (take a ?cs @ replicate (b - a) c @ drop b ?cs)[b := c]"
      using Suc.IH ab by simp
    also have "\<dots> = take a ?cs @ replicate (Suc b - a) c @ drop (Suc b) ?cs"
      using ab by (intro nth_equalityI) (auto simp: nth_list_update nth_append)
    finally show ?thesis .
  qed simp
qed simp

lemma cells_shift:
  assumes "rng vm 4000 \<subseteq> mapped" "k \<le> 1920"
  shows "cells tr (fold (\<lambda>i m. put_cell tr vm i (get_cell tr vm (i + 80) m) m) [0..int k - 1] m) vm 2000 =
    take k (drop 80 (cells tr m vm 2000)) @ drop k (cells tr m vm 2000)"
  using assms(2)
proof (induction k)
  case (Suc k)
  let ?cs = "cells tr m vm 2000"
  let ?m = "fold (\<lambda>i m. put_cell tr vm i (get_cell tr vm (i + 80) m) m) [0..int k - 1] m"
  have k: "k < 1920" using Suc.prems by simp
  have IH: "cells tr ?m vm 2000 = take k (drop 80 ?cs) @ drop k ?cs" using Suc by simp
  have "get_cell tr vm (int k + 80) ?m = cells tr ?m vm 2000 ! (k + 80)"
    using k nth_cells [of "k + 80" 2000 tr ?m vm] by simp
  also have "\<dots> = ?cs ! (k + 80)" unfolding IH using k by (simp add: nth_append del: nth_cells)
  finally have g: "get_cell tr vm (int k + 80) ?m = ?cs ! (k + 80)" .
  have "cells tr (fold (\<lambda>i m. put_cell tr vm i (get_cell tr vm (i + 80) m) m) [0..int (Suc k) - 1] m) vm 2000 =
      (cells tr ?m vm 2000)[k := ?cs ! (k + 80)]"
    using assms(1) k g upto_snoc_nat [of 0 k] by (simp add: cells_put_cell)
  also have "\<dots> = take (Suc k) (drop 80 ?cs) @ drop (Suc k) ?cs"
    unfolding IH using k by (intro nth_equalityI) (auto simp: nth_list_update nth_append less_Suc_eq add.commute)
  finally show ?case .
qed simp

lemma cells_scroll:
  assumes "rng (scr_mem scr) 4000 \<subseteq> mapped" "vm = scr_mem scr"
  shows "cells tr (vert_scroll_in_terminal tr scr m) vm 2000 =
    drop 80 (cells tr m vm 2000) @ replicate 80 32"
proof -
  let ?vm = "scr_mem scr" and ?cs = "cells tr m (scr_mem scr) 2000"
  let ?m = "fold (\<lambda>i m. put_cell tr ?vm i (get_cell tr ?vm (i + 80) m) m) [0..1919] m"
  have shift: "cells tr ?m ?vm 2000 = drop 80 ?cs @ drop 1920 ?cs"
    using cells_shift [OF assms(1), of 1920 m] by simp
  have "cells tr (fold (\<lambda>i m. put_cell tr ?vm i 32 m) [1920..1999] ?m) ?vm 2000 =
      take 1920 (cells tr ?m ?vm 2000) @ replicate 80 32 @ drop 2000 (cells tr ?m ?vm 2000)"
    using cells_fill [OF assms(1), of 1920 2000 32 ?m] by simp
  then show ?thesis unfolding vert_scroll_in_terminal_def by (simp add: shift assms(2))
qed

section \<open>Refinement of the abstract screen\<close>

lemma clear_refines:
  assumes "rng (scr_mem scr) 4000 \<subseteq> mapped"
  shows "screen_abs tr (clear_terminal tr (scr, m)) = a_clear (screen_abs tr (scr, m))"
  using cells_fill [OF assms, of 0 2000 32 m]
  by (simp add: screen_abs_def clear_terminal_def a_clear_def Let_def)

lemma putc_refines:
  assumes "rng (scr_mem scr) 4000 \<subseteq> mapped" "screen_wf scr"
  shows "screen_abs tr (putc_in_terminal tr c (scr, m)) = a_putc c (screen_abs tr (scr, m))"
proof (cases "c = 10 \<or> c = 13")
  case True
  with assms show ?thesis
    by (auto simp: putc_in_terminal_def a_putc_def a_newline_def screen_abs_def screen_wf_def
        Let_def cells_scroll)
next
  case False
  define i where "i = nat (80 * scr_y scr + scr_x scr)"
  have i: "80 * scr_y scr + scr_x scr = int i" "i < 2000" "i = 80 * nat (scr_y scr) + nat (scr_x scr)"
    using assms(2) by (auto simp: i_def screen_wf_def nat_add_distrib nat_mult_distrib)
  have put: "cells tr (put_cell tr (scr_mem scr) (80 * scr_y scr + scr_x scr) c m) (scr_mem scr) 2000 =
      (cells tr m (scr_mem scr) 2000)[80 * nat (scr_y scr) + nat (scr_x scr) := c]"
    unfolding i(1) i(3) [symmetric] using assms(1) i(2) by (intro cells_put_cell) auto
  have x: "scr_x scr = 79 \<or> (0 \<le> scr_x scr \<and> scr_x scr < 79)" and y: "0 \<le> scr_y scr" "scr_y scr < 25"
    using assms(2) by (auto simp: screen_wf_def)
  from x show ?thesis
  proof
    assume x: "scr_x scr = 79"
    have "scr_y scr < 24 \<Longrightarrow> (scr_y scr + 1) smod 25 = scr_y scr + 1"
      using y(1) by (simp add: smod_nonneg)
    then show ?thesis
      using False assms(1) put x y
      by (auto simp: putc_in_terminal_def a_putc_def a_newline_def screen_abs_def
          Let_def cells_scroll smod_nonneg sdiv_nonneg)
  next
    assume x: "0 \<le> scr_x scr \<and> scr_x scr < 79"
    then show ?thesis
      using False put y
      by (auto simp: putc_in_terminal_def a_putc_def screen_abs_def
          Let_def smod_nonneg sdiv_nonneg nat_add_distrib)
  qed
qed

text \<open>
  Erasing a character undoes the cursor movement of printing one, also across a line end. The
  cursor must not stand in the top left corner: there the code would write in front of the screen.
\<close>

lemma backspace_refines:
  assumes "rng (scr_mem scr) 4000 \<subseteq> mapped" "screen_wf scr" "scr_x scr \<noteq> 0 \<or> scr_y scr \<noteq> 0"
  shows "screen_abs tr (backspace_fnc tr (scr, m)) = a_backspace (screen_abs tr (scr, m))"
proof -
  let ?scr = "if scr_x scr = 0 then scr\<lparr>scr_x := 79, scr_y := scr_y scr - 1\<rparr> else scr\<lparr>scr_x := scr_x scr - 1\<rparr>"
  define x y where "x = nat (scr_x scr)" and "y = nat (scr_y scr)"
  have xy: "scr_x scr = int x" "scr_y scr = int y" "x < 80" "y < 25" "x \<noteq> 0 \<or> y \<noteq> 0"
    using assms(2,3) by (auto simp: x_def y_def screen_wf_def)
  have wf: "screen_wf ?scr" using xy by (auto simp: screen_wf_def)
  have put: "screen_abs tr (putc_in_terminal tr 32 (?scr, m)) = a_putc 32 (screen_abs tr (?scr, m))"
    using assms(1) wf by (intro putc_refines) auto
  obtain scr' m' where r: "putc_in_terminal tr 32 (?scr, m) = (scr', m')" by fastforce
  have wf': "screen_wf scr'" "scr_mem scr' = scr_mem scr"
    using r wf putc_wf [of ?scr tr 32 m] putc_mem [of tr 32 ?scr m] by auto
  show ?thesis
  proof (cases "x = 0")
    case True
    then have bs: "backspace_fnc tr (scr, m) = (scr'\<lparr>scr_x := 79, scr_y := scr_y scr' - 1\<rparr>, m')"
      using r xy by (simp add: backspace_fnc_def)
    obtain z where z: "y = Suc z" "z < 24" using True xy by (cases y) auto
    have i: "80 * nat (1 + int z) - Suc 0 = 80 * z + 79" "(80 * z + 79) mod 80 = 79" "(80 * z + 79) div 80 = z"
      by (auto simp: nat_add_distrib)
    have scr: "?scr = scr\<lparr>scr_x := 79, scr_y := int z\<rparr>" using True xy z by simp
    have "screen_abs tr (scr', m') = \<lparr>a_cells = (cells tr m (scr_mem scr) 2000)[80 * z + 79 := 32],
        a_x = 0, a_y = Suc z\<rparr>"
      using put z(2) unfolding r unfolding scr screen_abs_def a_putc_def a_newline_def by (simp add: Let_def)
    then have "cells tr m' (scr_mem scr) 2000 = (cells tr m (scr_mem scr) 2000)[80 * z + 79 := 32]"
      "nat (scr_y scr') = Suc z"
      using wf' by (auto simp: screen_abs_def)
    then show ?thesis
      unfolding bs using wf' True xy z i by (simp add: screen_abs_def a_backspace_def Let_def nat_diff_distrib')
  next
    case False
    then have bs: "backspace_fnc tr (scr, m) = (scr'\<lparr>scr_x := scr_x scr' - 1\<rparr>, m')"
      using r xy by (simp add: backspace_fnc_def)
    obtain z where z: "x = Suc z" "z < 79" using False xy by (cases x) auto
    have i: "80 * y + nat (1 + int z) - Suc 0 = 80 * y + z" "(80 * y + z) mod 80 = z" "(80 * y + z) div 80 = y"
      using z by (auto simp: nat_add_distrib)
    have scr: "?scr = scr\<lparr>scr_x := int z\<rparr>" using False xy z by simp
    have "screen_abs tr (scr', m') = \<lparr>a_cells = (cells tr m (scr_mem scr) 2000)[80 * y + z := 32],
        a_x = Suc z, a_y = y\<rparr>"
      using put z(2) unfolding r unfolding scr screen_abs_def a_putc_def by (simp add: xy Let_def)
    then have "cells tr m' (scr_mem scr) 2000 = (cells tr m (scr_mem scr) 2000)[80 * y + z := 32]"
      "nat (scr_y scr') = y" "nat (scr_x scr') = Suc z"
      using wf' by (auto simp: screen_abs_def)
    then show ?thesis
      unfolding bs using wf' xy z i by (simp add: screen_abs_def a_backspace_def Let_def nat_diff_distrib')
  qed
qed

end

lemma putc_frame:
  assumes "screen_wf scr" "p \<notin> tr ` rng (scr_mem scr) 4000"
  shows "snd (putc_in_terminal tr c (scr, m)) p = m p"
proof -
  have "0 \<le> 80 * scr_y scr + scr_x scr" "80 * scr_y scr + scr_x scr < 2000"
    using assms(1) by (auto simp: screen_wf_def)
  then show ?thesis
    using assms(2) by (auto simp: putc_in_terminal_def Let_def scroll_frame put_cell_frame)
qed

section \<open>Strings on the screen\<close>

context address_space
begin

text \<open>A string that does not overlap the screen is unchanged by printing.\<close>

lemma ld8_putc:
  assumes "rng (scr_mem scr) 4000 \<subseteq> mapped" "screen_wf scr"
    and "x \<in> mapped" "x \<notin> rng (scr_mem scr) 4000"
  shows "ld8 tr (snd (putc_in_terminal tr c (scr, m))) x = ld8 tr m x"
proof -
  have "tr x \<notin> tr ` rng (scr_mem scr) 4000" using assms tr_inj by (auto dest: inj_onD)
  then show ?thesis using putc_frame [OF assms(2)] by (simp add: ld8_def)
qed

lemma puts_loop_eq:
  assumes "rng (scr_mem scr) 4000 \<subseteq> mapped" "screen_wf scr"
    and "rng s (Suc (length bs)) \<subseteq> mapped" "rng (scr_mem scr) 4000 \<inter> rng s (Suc (length bs)) = {}"
    and "i \<le> length bs" "length bs < 4294967296"
    and "\<And>j. j \<le> length bs \<Longrightarrow> ld8 tr m (s + of_nat j) = (bs @ [0]) ! j" "0 \<notin> set bs"
  shows "\<exists>st. puts_loop tr s (of_nat i) (scr, m) = Some (of_nat (length bs), st) \<and>
    screen_abs tr st = fold a_putc (drop i bs) (screen_abs tr (scr, m)) \<and>
    screen_wf (fst st) \<and> scr_mem (fst st) = scr_mem scr \<and>
    (\<forall>x. x \<in> mapped \<longrightarrow> x \<notin> rng (scr_mem scr) 4000 \<longrightarrow> ld8 tr (snd st) x = ld8 tr m x)"
  using assms
proof (induction "length bs - i" arbitrary: i scr m)
  case 0
  then have "i = length bs" by simp
  with 0 show ?case by (subst puts_loop.simps) simp
next
  case (Suc n)
  then have i: "i < length bs" by linarith
  obtain scr' m' where p: "putc_in_terminal tr (bs ! i) (scr, m) = (scr', m')" by fastforce
  have wf': "screen_wf scr'" "scr_mem scr' = scr_mem scr"
    using p putc_wf [OF Suc.prems(2), of tr "bs ! i" m] putc_mem [of tr "bs ! i" scr m] by auto
  have c: "ld8 tr m (s + of_nat i) = bs ! i" using Suc.prems(7) [of i] i by (simp add: nth_append)
  then have nz: "ld8 tr m (s + of_nat i) \<noteq> 0" using Suc.prems(8) i by (metis nth_mem)
  have keep: "ld8 tr m' (s + of_nat j) = (bs @ [0]) ! j" if "j \<le> length bs" for j
  proof -
    have "s + of_nat j \<in> rng s (Suc (length bs))" using that Suc.prems(6) by (intro rng_offset) auto
    then show ?thesis
      using ld8_putc [OF Suc.prems(1,2), of "s + of_nat j" "bs ! i" m] Suc.prems(3,4,7) that p by auto
  qed
  have "\<exists>st. puts_loop tr s (of_nat (Suc i)) (scr', m') = Some (of_nat (length bs), st) \<and>
      screen_abs tr st = fold a_putc (drop (Suc i) bs) (screen_abs tr (scr', m')) \<and>
      screen_wf (fst st) \<and> scr_mem (fst st) = scr_mem scr' \<and>
      (\<forall>x. x \<in> mapped \<longrightarrow> x \<notin> rng (scr_mem scr') 4000 \<longrightarrow> ld8 tr (snd st) x = ld8 tr m' x)"
    using Suc.hyps(2) Suc.prems i keep wf' by (intro Suc.hyps(1)) auto
  moreover have "drop i bs = bs ! i # drop (Suc i) bs" using i by (rule Cons_nth_drop_Suc [symmetric])
  moreover have "screen_abs tr (scr', m') = a_putc (bs ! i) (screen_abs tr (scr, m))"
    using putc_refines [OF Suc.prems(1,2), of "bs ! i" m] p by simp
  moreover have "ld8 tr m' x = ld8 tr m x" if "x \<in> mapped" "x \<notin> rng (scr_mem scr) 4000" for x
    using ld8_putc [OF Suc.prems(1,2) that, of "bs ! i" m] p by simp
  ultimately show ?case
    using nz c p wf'(2) by (subst puts_loop.simps) (simp add: putc_eq add.commute)
qed

end

section \<open>Properties\<close>

text \<open>
  C9. Refinement: \<open>putc_in_terminal\<close> on the bytes of video memory does to the abstract screen
  what printing a character means (write, advance, wrap, scroll on the last line), keeps the
  cursor on the screen, and changes no physical byte outside the 4000 bytes of the screen.
\<close>

theorem putc_refinement:
  assumes "inj_on tr mapped" "rng (scr_mem scr) 4000 \<subseteq> mapped" "screen_wf scr"
  shows "screen_abs tr (putc_in_terminal tr c (scr, m)) = a_putc c (screen_abs tr (scr, m)) \<and>
    screen_wf (fst (putc_in_terminal tr c (scr, m))) \<and>
    (\<forall>p. p \<notin> tr ` rng (scr_mem scr) 4000 \<longrightarrow> snd (putc_in_terminal tr c (scr, m)) p = m p)"
  using address_space.putc_refines [OF address_space.intro [OF assms(1)] assms(2,3)]
    putc_wf [OF assms(3)] putc_frame [OF assms(3)] by blast

theorem putc_refinement_witness:
  "screen_abs (\<lambda>a. a) (putc_in_terminal (\<lambda>a. a) 10 (\<lparr>scr_x = 5, scr_y = 24, scr_mem = VIDEO\<rparr>, \<lambda>a. 65)) =
     a_putc 10 (screen_abs (\<lambda>a. a) (\<lparr>scr_x = 5, scr_y = 24, scr_mem = VIDEO\<rparr>, \<lambda>a. 65))"
  using putc_refinement [of "\<lambda>a. a" UNIV "\<lparr>scr_x = 5, scr_y = 24, scr_mem = VIDEO\<rparr>" 10 "\<lambda>a. 65"]
  by (simp add: screen_wf_def)

text \<open>
  Refinement: \<open>backspace_fnc\<close> erases the cell before the cursor and moves the cursor there,
  also from the first column to the end of the line above.
\<close>

theorem backspace_refinement:
  assumes "inj_on tr mapped" "rng (scr_mem scr) 4000 \<subseteq> mapped" "screen_wf scr"
    and "scr_x scr \<noteq> 0 \<or> scr_y scr \<noteq> 0"
  shows "screen_abs tr (backspace_fnc tr (scr, m)) = a_backspace (screen_abs tr (scr, m))"
  using address_space.backspace_refines [OF address_space.intro [OF assms(1)] assms(2-4)] .

theorem backspace_refinement_witness:
  "screen_abs (\<lambda>a. a) (backspace_fnc (\<lambda>a. a) (\<lparr>scr_x = 0, scr_y = 3, scr_mem = VIDEO\<rparr>, \<lambda>a. 65)) =
     a_backspace (screen_abs (\<lambda>a. a) (\<lparr>scr_x = 0, scr_y = 3, scr_mem = VIDEO\<rparr>, \<lambda>a. 65))"
  using backspace_refinement [of "\<lambda>a. a" UNIV "\<lparr>scr_x = 0, scr_y = 3, scr_mem = VIDEO\<rparr>" "\<lambda>a. 65"]
  by (simp add: screen_wf_def)

text \<open>
  \<open>puts\<close> returns for every NUL-terminated string outside the screen, with the length of the
  string, and has printed exactly its characters in order.
\<close>

theorem puts_prints:
  assumes "inj_on tr mapped" "rng (scr_mem con) 4000 \<subseteq> mapped" "screen_wf con"
    and "cstring tr m s bs" "rng s (Suc (length bs)) \<subseteq> mapped"
    and "rng (scr_mem con) 4000 \<inter> rng s (Suc (length bs)) = {}"
  shows "\<exists>st. puts tr s (con, m) = Some (of_nat (length bs), st) \<and>
    screen_abs tr st = fold a_putc bs (screen_abs tr (con, m)) \<and> screen_wf (fst st)"
  using address_space.puts_loop_eq [OF address_space.intro [OF assms(1)] assms(2,3,5,6), of 0 m]
    assms(4) cstring_nth [OF assms(4)]
  by (auto simp: puts_def cstring_def)

theorem puts_prints_witness:
  "\<exists>st. puts (\<lambda>a. a) 0x10 (\<lparr>scr_x = 79, scr_y = 24, scr_mem = VIDEO\<rparr>, (\<lambda>a. 0)(0x10 := 72, 0x11 := 105)) =
     Some (2, st) \<and> screen_wf (fst st)"
proof -
  have "cstring (\<lambda>a. a) ((\<lambda>a. 0)(0x10 := 72, 0x11 := 105)) 0x10 [72, 105]"
    by (simp add: cstring_def ld8_def)
  from puts_prints [OF _ _ _ this, of UNIV "\<lparr>scr_x = 79, scr_y = 24, scr_mem = VIDEO\<rparr>"]
  show ?thesis using rng_disjoint(2) [of "0x10" 3 VIDEO 4000] by (auto simp: screen_wf_def numeral_3_eq_3)
qed

end
