(* ===== verification/Virtualmem.thy ===== *)
theory Virtualmem
  imports Console Process
begin

text \<open>
  Paging, \<^verbatim>\<open>student-distrib/virtualmem.c\<close>: the construction of page directories and
  page tables, and what they mean to the processor. The tables are lists of 1024 entries; where
  the linker puts them is a parameter (\<open>layout\<close>), of which only alignment and distinctness
  matter. The two-level walk at the end of the definitions is the documented behaviour of the
  x86 paging unit with 4 MB pages enabled; it has no counterpart in the source and is what the
  properties are stated against.
\<close>

section \<open>Tables\<close>

abbreviation (input) TABLE_SIZE :: nat where "TABLE_SIZE \<equiv> 1024"
abbreviation (input) PAGE_SIZE :: u32 where "PAGE_SIZE \<equiv> 4096"
abbreviation (input) FLAG_P :: u32 where "FLAG_P \<equiv> 0x1"
abbreviation (input) FLAG_WE :: u32 where "FLAG_WE \<equiv> 0x2"
abbreviation (input) FLAG_U :: u32 where "FLAG_U \<equiv> 0x4"
abbreviation (input) FLAG_PS :: u32 where "FLAG_PS \<equiv> 0x80"
abbreviation (input) KERNEL_LOC :: addr where "KERNEL_LOC \<equiv> 0x400000"
abbreviation (input) PROG_VIDMEM_ADDR :: addr where "PROG_VIDMEM_ADDR \<equiv> 0x8400000"
abbreviation (input) PROG_VM_START :: addr where "PROG_VM_START \<equiv> 0x8000000"
abbreviation (input) SPACE_4MB :: u32 where "SPACE_4MB \<equiv> 0x400000"

type_synonym table = "u32 list"

record layout =
  pt_vidmem_at :: addr
  pt_user_vidmem_at :: addr

record paging =
  pd_first :: table
  pds :: "table list"
  pt_vidmem :: "table list"
  pt_user_vidmem :: "table list"
  cr0 :: u32
  cr3 :: pd_ptr
  cr4 :: u32

text \<open>The addresses \<open>(uint32_t) pt_vidmem[i]\<close> and \<open>(uint32_t) pt_user_vidmem[i]\<close>.\<close>

definition pt_row :: "layout \<Rightarrow> u32 \<Rightarrow> addr" where
  "pt_row lay i = pt_vidmem_at lay + i * PAGE_SIZE"

definition pt_user_row :: "layout \<Rightarrow> u32 \<Rightarrow> addr" where
  "pt_user_row lay i = pt_user_vidmem_at lay + i * PAGE_SIZE"

definition set_pde :: "table \<Rightarrow> addr \<Rightarrow> addr \<Rightarrow> u32 \<Rightarrow> table" where
  "set_pde dir virtual_addr physical_addr fl =
     (let physical_addr = (if fl AND FLAG_PS \<noteq> 0 then physical_addr AND 0xFFC00000
                           else physical_addr AND 0xFFFFF000)
      in dir[unat (drop_bit 22 virtual_addr) := physical_addr OR fl])"

definition set_pde_flags :: "table \<Rightarrow> addr \<Rightarrow> u32 \<Rightarrow> table" where
  "set_pde_flags dir virtual_addr fl =
     (let i = unat (drop_bit 22 virtual_addr) in dir[i := (dir ! i) OR fl])"

definition unset_pde_flags :: "table \<Rightarrow> addr \<Rightarrow> u32 \<Rightarrow> table" where
  "unset_pde_flags dir virtual_addr fl =
     (let i = unat (drop_bit 22 virtual_addr) in dir[i := (dir ! i) AND NOT fl])"

definition pd_init :: "layout \<Rightarrow> table \<Rightarrow> u32 \<Rightarrow> table" where
  "pd_init lay dir tn =
     (let dir = fold (\<lambda>i dir. dir[i := 0]) [0..<TABLE_SIZE] dir;
          dir = dir[0 := pt_row lay tn OR FLAG_WE OR FLAG_P];
          dir = dir[unat (drop_bit 22 PROG_VIDMEM_ADDR) := pt_user_row lay tn OR FLAG_WE OR FLAG_U]
      in set_pde dir KERNEL_LOC KERNEL_LOC (FLAG_P OR FLAG_WE OR FLAG_PS))"

definition set_pd :: "pd_ptr option \<Rightarrow> paging \<Rightarrow> paging" where
  "set_pd p s = s\<lparr>cr3 := (case p of None \<Rightarrow> pd_first_ptr | Some q \<Rightarrow> q)\<rparr>"

text \<open>The index of the table entry for an address, \<open>a >> PTE_IDX_OFFS & PTE_IDX_MASK\<close>.\<close>

definition pte_idx :: "addr \<Rightarrow> nat" where
  "pte_idx a = unat (drop_bit 12 a AND 0x3FF)"

definition init_pt_vidmem :: "u32 \<Rightarrow> table \<Rightarrow> table" where
  "init_pt_vidmem i pt =
     fold (\<lambda>j pt. pt[pte_idx (VIDEO + (of_nat j + 1) * PAGE_SIZE) :=
              (VIDEO + of_nat j * PAGE_SIZE) OR FLAG_WE OR FLAG_P]) [0..<3]
       (pt[pte_idx VIDEO := (VIDEO + i * PAGE_SIZE) OR FLAG_WE OR FLAG_P])"

definition init_pt_user_vidmem :: "u32 \<Rightarrow> table \<Rightarrow> table" where
  "init_pt_user_vidmem i pt =
     pt[pte_idx PROG_VIDMEM_ADDR := (VIDEO + i * PAGE_SIZE) OR FLAG_WE OR FLAG_U OR FLAG_P]"

definition virtualmem_init :: "layout \<Rightarrow> paging \<Rightarrow> paging" where
  "virtualmem_init lay s =
     (let s = s\<lparr>pd_first := pd_init lay (pd_first s) 0\<rparr>;
          s = fold (\<lambda>i s. s
                \<lparr>pt_vidmem := (pt_vidmem s)[i := fold (\<lambda>j pt. pt[j := 0]) [0..<TABLE_SIZE] (pt_vidmem s ! i)],
                 pt_user_vidmem := (pt_user_vidmem s)[i :=
                   fold (\<lambda>j pt. pt[j := 0]) [0..<TABLE_SIZE] (pt_user_vidmem s ! i)]\<rparr>) [0..<3] s;
          s = fold (\<lambda>i s. s
                \<lparr>pt_vidmem := (pt_vidmem s)[i := init_pt_vidmem (of_nat i) (pt_vidmem s ! i)],
                 pt_user_vidmem := (pt_user_vidmem s)[i :=
                   init_pt_user_vidmem (of_nat i) (pt_user_vidmem s ! i)]\<rparr>) [0..<3] s;
          s = set_pd (Some pd_first_ptr) s
      in s\<lparr>cr4 := cr4 s OR 0x10, cr0 := cr0 s OR 0x80000000\<rparr>)"

section \<open>The page walk\<close>

text \<open>
  Address, user access and write access of the page a virtual address is in, or \<open>None\<close> for a
  page fault. While paging is off (bit 31 of \<open>cr0\<close>) an address stands for itself. A directory
  entry with the page-size bit is a page of 4 MB when bit 4 of \<open>cr4\<close> is set; any other refers to
  the table at its address.
\<close>

definition pd_of :: "paging \<Rightarrow> pd_ptr \<Rightarrow> table" where
  "pd_of s p = (case p of pd_first_ptr \<Rightarrow> pd_first s | pd_row i \<Rightarrow> pds s ! i)"

definition table_at :: "layout \<Rightarrow> paging \<Rightarrow> addr \<Rightarrow> table option" where
  "table_at lay s a =
     (case find (\<lambda>i. a = pt_row lay (of_nat i)) [0, 1, 2] of
        Some i \<Rightarrow> Some (pt_vidmem s ! i)
      | None \<Rightarrow>
         (case find (\<lambda>i. a = pt_user_row lay (of_nat i)) [0, 1, 2] of
            Some i \<Rightarrow> Some (pt_user_vidmem s ! i)
          | None \<Rightarrow> None))"

definition walk :: "layout \<Rightarrow> paging \<Rightarrow> table \<Rightarrow> addr \<Rightarrow> (addr \<times> bool \<times> bool) option" where
  "walk lay s dir va =
     (if \<not> bit (cr0 s) 31 then Some (va, True, True)
      else let pde = dir ! unat (drop_bit 22 va)
      in if \<not> bit pde 0 then None
         else if bit (cr4 s) 4 \<and> bit pde 7
         then Some (push_bit 22 (drop_bit 22 pde) + take_bit 22 va, bit pde 2, bit pde 1)
         else case table_at lay s (push_bit 12 (drop_bit 12 pde)) of
                None \<Rightarrow> None
              | Some pt \<Rightarrow>
                  let pte = pt ! pte_idx va
                  in if \<not> bit pte 0 then None
                     else Some (push_bit 12 (drop_bit 12 pte) + take_bit 12 va,
                            bit pde 2 \<and> bit pte 2, bit pde 1 \<and> bit pte 1))"

text \<open>Accesses of the kernel need a present page only; those of a user program a user page.\<close>

definition kernel_tr :: "layout \<Rightarrow> paging \<Rightarrow> table \<Rightarrow> addr \<Rightarrow> addr option" where
  "kernel_tr lay s dir va = map_option fst (walk lay s dir va)"

definition user_tr :: "layout \<Rightarrow> paging \<Rightarrow> table \<Rightarrow> addr \<Rightarrow> addr option" where
  "user_tr lay s dir va =
     (case walk lay s dir va of Some (p, u, w) \<Rightarrow> if u then Some p else None | None \<Rightarrow> None)"

text \<open>The directory that \<open>execute\<close> builds for a process.\<close>

definition process_pd :: "layout \<Rightarrow> table \<Rightarrow> u32 \<Rightarrow> u32 \<Rightarrow> table" where
  "process_pd lay dir p tn =
     set_pde (pd_init lay dir tn) PROG_VM_START (KERNEL_MEM_END + (p - 1) * SPACE_4MB)
       (FLAG_PS OR FLAG_U OR FLAG_WE OR FLAG_P)"

section \<open>The contents of the tables\<close>

lemma length_pd_init [simp]: "length dir = 1024 \<Longrightarrow> length (pd_init lay dir t) = 1024"
  by (simp add: pd_init_def set_pde_def fold_update_const)

lemma pd_init_nth:
  assumes "length dir = 1024" "i < 1024"
  shows "pd_init lay dir t ! i =
    (if i = 0 then pt_row lay t OR 3 else if i = 1 then 0x400083
     else if i = 33 then pt_user_row lay t OR 6 else 0)"
  using assms by (simp add: pd_init_def set_pde_def fold_update_const Let_def nth_list_update or.assoc)

lemma process_pd_nth:
  assumes "length dir = 1024" "i < 1024"
  shows "process_pd lay dir p t ! i =
    (if i = 32 then ((KERNEL_MEM_END + (p - 1) * SPACE_4MB) AND 0xFFC00000) OR 0x87
     else pd_init lay dir t ! i)"
  using assms by (simp add: process_pd_def set_pde_def Let_def nth_list_update)

section \<open>Alignment\<close>

lemma bit_push_drop: "n < 32 \<Longrightarrow> bit (push_bit k (drop_bit k (w :: u32))) n \<longleftrightarrow> k \<le> n \<and> bit w n"
  by (auto simp: bit_push_bit_iff bit_drop_bit_eq)

lemma aligned_or:
  fixes a f :: u32
  assumes "take_bit 12 a = 0" "drop_bit 12 f = 0"
  shows "push_bit 12 (drop_bit 12 (a OR f)) = a" "n < 12 \<Longrightarrow> bit (a OR f) n = bit f n"
proof -
  have a: "\<not> bit a k" if "k < 12" for k
    using arg_cong [OF assms(1), of "\<lambda>w. bit w k"] that by (simp add: bit_simps)
  have f: "\<not> bit f k" if "12 \<le> k" for k
    using arg_cong [OF assms(2), of "\<lambda>w. bit w (k - 12)"] that by (simp add: bit_simps)
  have k: "12 \<le> k \<and> bit a k \<or> 12 \<le> k \<and> bit f k \<longleftrightarrow> bit a k" for k using a [of k] f [of k] by (cases "k < 12") auto
  show "push_bit 12 (drop_bit 12 (a OR f)) = a"
    by (rule bit_word_eqI) (simp add: bit_push_drop bit_or_iff k)
  show "n < 12 \<Longrightarrow> bit (a OR f) n = bit f n" using a by (simp add: bit_simps)
qed

lemma take_bit_page:
  fixes a i :: u32
  assumes "take_bit 12 a = 0"
  shows "take_bit 12 (a + i * 4096) = 0"
proof -
  have "a = push_bit 12 (drop_bit 12 a)" using bits_ident [of 12 a] assms by simp
  moreover have "i * 4096 = push_bit 12 i" by (simp add: push_bit_eq_mult)
  ultimately have "a + i * 4096 = push_bit 12 (drop_bit 12 a + i)" by (simp add: push_bit_add)
  then show ?thesis by (simp add: take_bit_push_bit)
qed

definition layout_ok :: "layout \<Rightarrow> bool" where
  "layout_ok lay \<longleftrightarrow> take_bit 12 (pt_vidmem_at lay) = 0 \<and> take_bit 12 (pt_user_vidmem_at lay) = 0 \<and>
     distinct [pt_row lay 0, pt_row lay 1, pt_row lay 2,
       pt_user_row lay 0, pt_user_row lay 1, pt_user_row lay 2]"

definition paging_on :: "paging \<Rightarrow> bool" where
  "paging_on s \<longleftrightarrow> bit (cr0 s) 31 \<and> bit (cr4 s) 4"

definition tables_ok :: "paging \<Rightarrow> bool" where
  "tables_ok s \<longleftrightarrow> paging_on s \<and> (\<forall>t < 3. \<forall>k < 1024.
     pt_vidmem s ! t ! k = (if k = 0xB8 then (VIDEO + of_nat t * PAGE_SIZE) OR 3
       else if k \<in> {0xB9..0xBB} then (VIDEO + of_nat (k - 0xB9) * PAGE_SIZE) OR 3 else 0) \<and>
     pt_user_vidmem s ! t ! k = (if k = 0 then (VIDEO + of_nat t * PAGE_SIZE) OR 7 else 0))"

definition paging_shape :: "paging \<Rightarrow> bool" where
  "paging_shape s \<longleftrightarrow> length (pd_first s) = 1024 \<and> length (pds s) = 6 \<and> (\<forall>d \<in> set (pds s). length d = 1024) \<and>
     length (pt_vidmem s) = 3 \<and> (\<forall>d \<in> set (pt_vidmem s). length d = 1024) \<and>
     length (pt_user_vidmem s) = 3 \<and> (\<forall>d \<in> set (pt_user_vidmem s). length d = 1024)"

lemma lt3: "t < 3 \<longleftrightarrow> t = 0 \<or> t = 1 \<or> t = (2 :: nat)" by auto

lemma pte_idx_vid:
  "pte_idx VIDEO = 0xB8" "pte_idx (VIDEO + 4096) = 0xB9" "pte_idx (VIDEO + 8192) = 0xBA"
  "pte_idx (VIDEO + 12288) = 0xBB" "pte_idx PROG_VIDMEM_ADDR = 0"
  by (simp_all add: pte_idx_def)

lemma init_pt_vidmem_nth:
  assumes "length pt = 1024" "k < 1024"
  shows "init_pt_vidmem i pt ! k = (if k = 0xB8 then (VIDEO + i * PAGE_SIZE) OR 3
    else if k \<in> {0xB9..0xBB} then (VIDEO + of_nat (k - 0xB9) * PAGE_SIZE) OR 3 else pt ! k)"
proof -
  have "k \<in> {0xB9..0xBB} \<longleftrightarrow> k = 0xB9 \<or> k = 0xBA \<or> k = 0xBB" by auto
  then show ?thesis
    using assms pte_idx_vid
    by (auto simp: init_pt_vidmem_def upt_rec numeral_3_eq_3 or.assoc nth_list_update)
qed

lemma length_init_pt_vidmem [simp]: "length (init_pt_vidmem i pt) = length pt"
  by (simp add: init_pt_vidmem_def upt_rec [of _ "Suc (Suc (Suc 0))"] numeral_3_eq_3)

lemma tables_ok_on: "tables_ok s \<Longrightarrow> paging_on s"
  by (simp add: tables_ok_def)

lemma tables_ok_init:
  assumes "paging_on s" and "pt_vidmem s = map (\<lambda>i. init_pt_vidmem i (replicate 1024 0)) [0, 1, 2]"
    and "pt_user_vidmem s = map (\<lambda>i. init_pt_user_vidmem i (replicate 1024 0)) [0, 1, 2]"
  shows "tables_ok s"
  unfolding tables_ok_def assms(2,3)
  by (auto simp: assms(1) lt3 init_pt_vidmem_nth init_pt_user_vidmem_def pte_idx_vid nth_list_update or.assoc)

lemma virtualmem_init_rows:
  assumes "paging_shape s"
  shows "pt_vidmem (virtualmem_init lay s) = map (\<lambda>i. init_pt_vidmem i (replicate 1024 0)) [0, 1, 2]"
    "pt_user_vidmem (virtualmem_init lay s) = map (\<lambda>i. init_pt_user_vidmem i (replicate 1024 0)) [0, 1, 2]"
    "pd_first (virtualmem_init lay s) = pd_init lay (pd_first s) 0" "pds (virtualmem_init lay s) = pds s"
proof -
  obtain a b c where v: "pt_vidmem s = [a, b, c]" "length a = 1024" "length b = 1024" "length c = 1024"
    using assms by (auto simp: paging_shape_def length_Suc_conv numeral_3_eq_3)
  obtain d e f where u: "pt_user_vidmem s = [d, e, f]" "length d = 1024" "length e = 1024" "length f = 1024"
    using assms by (auto simp: paging_shape_def length_Suc_conv numeral_3_eq_3)
  show "pt_vidmem (virtualmem_init lay s) = map (\<lambda>i. init_pt_vidmem i (replicate 1024 0)) [0, 1, 2]"
    "pt_user_vidmem (virtualmem_init lay s) = map (\<lambda>i. init_pt_user_vidmem i (replicate 1024 0)) [0, 1, 2]"
    "pd_first (virtualmem_init lay s) = pd_init lay (pd_first s) 0" "pds (virtualmem_init lay s) = pds s"
    using v u by (simp_all add: virtualmem_init_def set_pd_def Let_def upt_rec [of _ "Suc (Suc (Suc 0))"]
        numeral_3_eq_3 fold_update_const)
qed

lemma virtualmem_init_on: "paging_on (virtualmem_init lay s)"
proof -
  have "cr4 (virtualmem_init lay s) = cr4 s OR 0x10" "cr0 (virtualmem_init lay s) = cr0 s OR 0x80000000"
    by (simp_all add: virtualmem_init_def set_pd_def Let_def upt_rec [of _ "Suc (Suc (Suc 0))"] numeral_3_eq_3)
  moreover have "bit (0x80000000 :: u32) 31" "bit (0x10 :: u32) 4" by simp_all
  ultimately show ?thesis by (simp only: paging_on_def bit_or_iff simp_thms)
qed

lemma virtualmem_init_tables: "paging_shape s \<Longrightarrow> tables_ok (virtualmem_init lay s)"
  by (rule tables_ok_init [OF virtualmem_init_on]) (simp_all only: virtualmem_init_rows)

lemma virtualmem_init_shape:
  assumes "paging_shape s"
  shows "paging_shape (virtualmem_init lay s)"
  using assms unfolding paging_shape_def virtualmem_init_rows [OF assms]
  by (simp add: init_pt_user_vidmem_def)

section \<open>The walk through a process directory\<close>

lemma table_at_rows:
  assumes "layout_ok lay" "t < 3"
  shows "table_at lay s (pt_row lay (of_nat t)) = Some (pt_vidmem s ! t)"
    "table_at lay s (pt_user_row lay (of_nat t)) = Some (pt_user_vidmem s ! t)"
  using assms by (auto simp: lt3 layout_ok_def table_at_def)

lemma row_aligned:
  assumes "layout_ok lay"
  shows "take_bit 12 (pt_row lay t) = 0" "take_bit 12 (pt_user_row lay t) = 0"
  using assms by (simp_all add: layout_ok_def pt_row_def pt_user_row_def take_bit_page)

lemma pde_idx_less: "unat (drop_bit 22 (va :: u32)) < 1024"
proof -
  have "unat (drop_bit 22 va) = unat va div 2 ^ 22" by (simp add: drop_bit_eq_div unat_div)
  also have "\<dots> < 1024" using unat_lt_2p32 [of va] by (simp add: less_mult_imp_div_less)
  finally show ?thesis .
qed

lemma pte_idx_less: "pte_idx va < 1024"
proof -
  have "drop_bit 12 va AND 0x3FF \<le> (0x3FF :: u32)" by (rule word_and_le1)
  then have "unat (drop_bit 12 va AND 0x3FF) \<le> unat (0x3FF :: u32)" by (simp only: word_le_nat_alt)
  then show ?thesis by (simp add: pte_idx_def)
qed

text \<open>The page of an address, and its offset in the page.\<close>

lemma take_bit_less_u32: "n < 32 \<Longrightarrow> unat (take_bit n (va :: u32)) < 2 ^ n"
  by (simp add: unsigned_take_bit_eq)

lemma page_iff:
  fixes va b :: u32
  assumes "take_bit n b = 0" "n < 32"
  shows "va \<in> rng b (2 ^ n) \<longleftrightarrow> drop_bit n va = drop_bit n b"
    "drop_bit n va = drop_bit n b \<Longrightarrow> va - b = take_bit n va"
proof -
  have b: "b = push_bit n (drop_bit n b)" using bits_ident [of n b] assms(1) by simp
  show off: "va - b = take_bit n va" if "drop_bit n va = drop_bit n b"
  proof -
    have "va = b + take_bit n va" using bits_ident [of n va] that b by metis
    then show ?thesis by (metis add_diff_cancel_left')
  qed
  show "va \<in> rng b (2 ^ n) \<longleftrightarrow> drop_bit n va = drop_bit n b"
  proof
    assume "va \<in> rng b (2 ^ n)"
    then have u: "unat (va - b) < 2 ^ n" by (simp add: rng_def)
    define d where "d = va - b"
    have d: "take_bit n d = d"
      using u unfolding d_def by (intro word_unat_eq_iff [THEN iffD2]) (simp add: unsigned_take_bit_eq take_bit_nat_eq_self)
    have dn: "\<not> bit d k" if "n \<le> k" for k
      using arg_cong [OF d, of "\<lambda>w. bit w k"] that by (auto simp: bit_simps)
    have bn: "\<not> bit b k" if "k < n" for k
      using arg_cong [OF assms(1), of "\<lambda>w. bit w k"] that by (auto simp: bit_simps)
    have "\<not> (bit b k \<and> bit d k)" for k using dn bn by (cases "k < n") auto
    then have "b AND d = 0" by (intro bit_word_eqI) (simp add: bit_simps)
    then have "va = b OR d" using disjunctive_add_eq_or [of b d] by (simp add: d_def)
    then show "drop_bit n va = drop_bit n b"
      using dn by (intro bit_word_eqI) (simp add: bit_simps)
  next
    assume "drop_bit n va = drop_bit n b"
    then show "va \<in> rng b (2 ^ n)" using off take_bit_less_u32 [OF assms(2), of va] by (simp add: rng_def)
  qed
qed

lemma large_page:
  fixes va b :: u32
  assumes "take_bit 22 b = 0"
  shows "va \<in> rng b 4194304 \<longleftrightarrow> drop_bit 22 va = drop_bit 22 b"
    "drop_bit 22 va = drop_bit 22 b \<Longrightarrow> take_bit 22 va = va - b"
  using page_iff [OF assms, of va] by auto

lemma small_page:
  fixes va b :: u32
  assumes "take_bit 12 b = 0"
  shows "va \<in> rng b 4096 \<longleftrightarrow> drop_bit 12 va = drop_bit 12 b"
    "drop_bit 12 va = drop_bit 12 b \<Longrightarrow> take_bit 12 va = va - b"
  using page_iff [OF assms, of va] by auto

definition map_vidmap :: "bool \<Rightarrow> table \<Rightarrow> table" where
  "map_vidmap v dir = (if v then set_pde_flags dir PROG_VIDMEM_ADDR FLAG_P else dir)"

lemma map_vidmap_nth:
  assumes "length dir = 1024"
  shows "map_vidmap v dir ! i = (if v \<and> i = 33 then (dir ! 33) OR 1 else dir ! i)"
  using assms by (auto simp: map_vidmap_def set_pde_flags_def Let_def nth_list_update)

lemma length_process_pd [simp]: "length dir = 1024 \<Longrightarrow> length (process_pd lay dir p t) = 1024"
  by (simp add: process_pd_def set_pde_def Let_def)

lemma walk_user_page:
  assumes "length dir = 1024" "p \<in> {1..6}" "drop_bit 22 va = 32" "paging_on s"
  shows "walk lay s (map_vidmap v (process_pd lay dir (of_nat p) t)) va =
    Some (KERNEL_MEM_END + (of_nat p - 1) * SPACE_4MB + (va - PROG_VM_START), True, True)"
proof -
  have off: "take_bit 22 va = va - PROG_VM_START" using assms(3) by (intro large_page(2)) simp_all
  have "p \<in> {1, 2, 3, 4, 5, 6}" using assms(2) by auto
  then show ?thesis
    using assms(1,3,4) by (auto simp: walk_def paging_on_def map_vidmap_nth process_pd_nth off Let_def)
qed

lemma walk_kernel_page:
  assumes "length dir = 1024" "drop_bit 22 va = 1" "paging_on s"
  shows "walk lay s (map_vidmap v (process_pd lay dir p t)) va = Some (va, False, True)"
proof -
  have off: "take_bit 22 va = va - KERNEL_LOC" using assms(2) by (intro large_page(2)) simp_all
  show ?thesis
    using assms by (simp add: walk_def paging_on_def map_vidmap_nth process_pd_nth pd_init_nth off Let_def)
qed

lemma walk_low_page:
  assumes "layout_ok lay" "length dir = 1024" "t < 3" "drop_bit 22 va = 0" "paging_on s"
  shows "walk lay s (map_vidmap v (process_pd lay dir p (of_nat t))) va =
    (let pte = pt_vidmem s ! t ! pte_idx va
     in if bit pte 0 then Some (push_bit 12 (drop_bit 12 pte) + take_bit 12 va, False, bit pte 1) else None)"
  using assms aligned_or [OF row_aligned(1) [OF assms(1), of "of_nat t"], of 3]
  by (simp add: walk_def paging_on_def map_vidmap_nth process_pd_nth pd_init_nth table_at_rows Let_def)

lemma walk_vidmap_page:
  assumes "layout_ok lay" "length dir = 1024" "t < 3" "drop_bit 22 va = 33" "paging_on s"
  shows "walk lay s (map_vidmap v (process_pd lay dir p (of_nat t))) va =
    (let pte = pt_user_vidmem s ! t ! pte_idx va
     in if v \<and> bit pte 0
        then Some (push_bit 12 (drop_bit 12 pte) + take_bit 12 va, bit pte 2, bit pte 1) else None)"
  using assms aligned_or [OF row_aligned(2) [OF assms(1), of "of_nat t"], of 7]
    aligned_or [OF row_aligned(2) [OF assms(1), of "of_nat t"], of 6]
  by (simp add: walk_def paging_on_def map_vidmap_nth process_pd_nth pd_init_nth table_at_rows Let_def or.assoc)

lemma walk_none:
  assumes "length dir = 1024" "drop_bit 22 va \<notin> {0, 1, 32, 33}" "paging_on s"
  shows "walk lay s (map_vidmap v (process_pd lay dir p t)) va = None"
proof -
  have "unat (drop_bit 22 va) \<notin> {0, 1, 32, 33}" using assms(2) by (simp add: word_unat_eq_iff)
  then show ?thesis
    using assms(1,3) pde_idx_less [of va] by (auto simp: walk_def paging_on_def map_vidmap_nth process_pd_nth pd_init_nth Let_def)
qed

lemma small_page_idx:
  fixes va b :: u32
  assumes "take_bit 12 b = 0"
  shows "va \<in> rng b 4096 \<longleftrightarrow> drop_bit 22 va = drop_bit 22 b \<and> pte_idx va = pte_idx b"
proof -
  have m: "(0x3FF :: u32) = mask 10" by (simp add: mask_eq_exp_minus_1)
  have idx: "pte_idx va = pte_idx b \<longleftrightarrow> take_bit 10 (drop_bit 12 va) = take_bit 10 (drop_bit 12 b)"
    unfolding pte_idx_def m take_bit_eq_mask [symmetric] by (simp add: word_unat_eq_iff)
  have d: "drop_bit 22 w = drop_bit 10 (drop_bit 12 w)" for w :: u32 by simp
  have "x = y \<longleftrightarrow> drop_bit 10 x = drop_bit 10 y \<and> take_bit 10 x = take_bit 10 y" for x y :: u32
    by (metis bits_ident)
  then show ?thesis using small_page(1) [OF assms, of va] idx d by metis
qed

lemma user_view:
  assumes "layout_ok lay" "tables_ok s" "length dir = 1024" "p \<in> {1..6}" "t < 3"
  shows "user_tr lay s (map_vidmap v (process_pd lay dir (of_nat p) (of_nat t))) va =
    (if va \<in> rng PROG_VM_START 4194304
     then Some (KERNEL_MEM_END + (of_nat p - 1) * SPACE_4MB + (va - PROG_VM_START))
     else if v \<and> va \<in> rng PROG_VIDMEM_ADDR 4096
     then Some (VIDEO + of_nat t * PAGE_SIZE + (va - PROG_VIDMEM_ADDR)) else None)"
proof -
  let ?i = "drop_bit 22 va"
  have on: "paging_on s" using assms(2) by (rule tables_ok_on)
  have um: "va \<in> rng PROG_VM_START 4194304 \<longleftrightarrow> ?i = 32" using large_page(1) [of PROG_VM_START va] by simp
  have vm: "va \<in> rng PROG_VIDMEM_ADDR 4096 \<longleftrightarrow> ?i = 33 \<and> pte_idx va = 0"
    using small_page_idx [of PROG_VIDMEM_ADDR va] by (simp add: pte_idx_vid)
  consider "?i = 32" | "?i = 33" | "?i = 0" | "?i = 1" | "?i \<notin> {0, 1, 32, 33}" by blast
  then show ?thesis
  proof cases
    case 2
    have a: "take_bit 12 (VIDEO + of_nat t * PAGE_SIZE) = 0" by (rule take_bit_page) simp
    have pte: "pt_user_vidmem s ! t ! pte_idx va = (if pte_idx va = 0 then (VIDEO + of_nat t * PAGE_SIZE) OR 7 else 0)"
      using assms(2,5) pte_idx_less [of va] by (simp add: tables_ok_def)
    have off: "pte_idx va = 0 \<Longrightarrow> take_bit 12 va = va - PROG_VIDMEM_ADDR"
      using vm 2 small_page [of PROG_VIDMEM_ADDR va] by simp
    show ?thesis
      unfolding user_tr_def um vm walk_vidmap_page [OF assms(1,3,5) 2 on] pte
      using 2 off aligned_or [OF a, of 7] by (simp add: Let_def bit_1_iff)
  next
    case 3
    then show ?thesis using um vm assms on by (simp add: user_tr_def walk_low_page Let_def)
  qed (use um vm assms on in \<open>simp_all add: user_tr_def walk_user_page walk_kernel_page walk_none\<close>)
qed

section \<open>The address space of the kernel\<close>

text \<open>
  While a process of terminal \<open>t\<close> runs, the kernel sees its own 4 MB, the program's 4 MB, and the
  screens of the three terminals: each terminal's page at \<open>VIDEO + (j + 1) * PAGE_SIZE\<close>, and at
  \<open>VIDEO\<close> the page of \<open>t\<close> once more.
\<close>

definition proc_tr :: "layout \<Rightarrow> paging \<Rightarrow> table \<Rightarrow> translation" where
  "proc_tr lay s dir va = (case kernel_tr lay s dir va of Some x \<Rightarrow> x | None \<Rightarrow> va)"

definition kernel_space :: "addr set" where
  "kernel_space = rng KERNEL_LOC 4194304 \<union> rng PROG_VM_START 4194304 \<union> rng (VIDEO + PAGE_SIZE) 12288"

lemma video_view:
  assumes "layout_ok lay" "tables_ok s" "length dir = 1024" "t < 3"
  shows "va \<in> rng VIDEO 4096 \<Longrightarrow>
      kernel_tr lay s (map_vidmap v (process_pd lay dir p (of_nat t))) va = Some (va + of_nat t * PAGE_SIZE)"
    and "j < 3 \<Longrightarrow> va \<in> rng (VIDEO + (of_nat j + 1) * PAGE_SIZE) 4096 \<Longrightarrow>
      kernel_tr lay s (map_vidmap v (process_pd lay dir p (of_nat t))) va = Some (va - PAGE_SIZE)"
proof -
  have w: "kernel_tr lay s (map_vidmap v (process_pd lay dir p (of_nat t))) va = Some (c + (va - b))"
    if b: "va \<in> rng b 4096" "take_bit 12 b = 0" "drop_bit 22 b = 0"
      and c: "pt_vidmem s ! t ! pte_idx b = c OR 3" "take_bit 12 c = 0" for b c
  proof -
    have i: "drop_bit 22 va = 0" "pte_idx va = pte_idx b" using small_page_idx [OF b(2), of va] b by simp_all
    have off: "take_bit 12 va = va - b" using small_page [OF b(2), of va] b(1) by simp
    show ?thesis
      unfolding kernel_tr_def walk_low_page [OF assms(1,3,4) i(1) tables_ok_on [OF assms(2)]] i(2) c(1) off
      using aligned_or [OF c(2), of 3] by (simp add: Let_def bit_1_iff)
  qed
  show "kernel_tr lay s (map_vidmap v (process_pd lay dir p (of_nat t))) va = Some (va + of_nat t * PAGE_SIZE)"
    if "va \<in> rng VIDEO 4096"
  proof -
    have "pt_vidmem s ! t ! pte_idx VIDEO = (VIDEO + of_nat t * PAGE_SIZE) OR 3"
      using assms(2,4) by (simp add: tables_ok_def pte_idx_vid)
    moreover have "take_bit 12 (VIDEO + of_nat t * PAGE_SIZE) = 0" by (rule take_bit_page) simp
    ultimately have "kernel_tr lay s (map_vidmap v (process_pd lay dir p (of_nat t))) va =
        Some (VIDEO + of_nat t * PAGE_SIZE + (va - VIDEO))"
      using that by (intro w) simp_all
    then show ?thesis by simp
  qed
  show "kernel_tr lay s (map_vidmap v (process_pd lay dir p (of_nat t))) va = Some (va - PAGE_SIZE)"
    if j: "j < 3" and r: "va \<in> rng (VIDEO + (of_nat j + 1) * PAGE_SIZE) 4096"
  proof -
    let ?b = "VIDEO + (of_nat j + 1) * PAGE_SIZE"
    have p: "pte_idx ?b = 0xB9 + j" "drop_bit 22 ?b = 0" using j by (auto simp: lt3 pte_idx_def)
    then have "pt_vidmem s ! t ! pte_idx ?b = (VIDEO + of_nat j * PAGE_SIZE) OR 3"
      using assms(2,4) j by (simp add: tables_ok_def)
    moreover have "take_bit 12 ?b = 0" "take_bit 12 (VIDEO + of_nat j * PAGE_SIZE) = 0"
      by (rule take_bit_page; simp)+
    ultimately have "kernel_tr lay s (map_vidmap v (process_pd lay dir p (of_nat t))) va =
        Some (VIDEO + of_nat j * PAGE_SIZE + (va - ?b))"
      using r p(2) by (intro w)
    moreover have "VIDEO + of_nat j * PAGE_SIZE + (va - ?b) = va - PAGE_SIZE" by (simp add: distrib_right)
    ultimately show ?thesis by (simp only:)
  qed
qed

lemma video_pages: "rng (VIDEO + PAGE_SIZE) 12288 \<subseteq> (\<Union>j < 3. rng (VIDEO + (of_nat j + 1) * PAGE_SIZE) 4096)"
  using rng_split [of 4096 "VIDEO + PAGE_SIZE" 8192] rng_split [of 4096 "VIDEO + 2 * PAGE_SIZE" 4096]
  by (auto simp: lessThan_Suc numeral_3_eq_3 subset_iff)

lemma proc_tr_view:
  fixes v :: bool
  assumes "layout_ok lay" "tables_ok s" "length dir = 1024" "p \<in> {1..6}" "t < 3"
  defines "tr \<equiv> proc_tr lay s (map_vidmap v (process_pd lay dir (of_nat p) (of_nat t)))"
  shows "va \<in> rng KERNEL_LOC 4194304 \<Longrightarrow> tr va = va"
    and "va \<in> rng PROG_VM_START 4194304 \<Longrightarrow>
      tr va = va + (KERNEL_MEM_END + (of_nat p - 1) * SPACE_4MB - PROG_VM_START)"
    and "va \<in> rng (VIDEO + PAGE_SIZE) 12288 \<Longrightarrow> tr va = va + (- PAGE_SIZE)"
proof -
  show "tr va = va" if "va \<in> rng KERNEL_LOC 4194304"
  proof -
    have "drop_bit 22 va = 1" using that large_page(1) [of KERNEL_LOC va] by simp
    with assms(3) tables_ok_on [OF assms(2)] show ?thesis by (simp add: tr_def proc_tr_def kernel_tr_def walk_kernel_page)
  qed
  show "tr va = va + (KERNEL_MEM_END + (of_nat p - 1) * SPACE_4MB - PROG_VM_START)"
    if "va \<in> rng PROG_VM_START 4194304"
  proof -
    have "drop_bit 22 va = 32" using that large_page(1) [of PROG_VM_START va] by simp
    then have "tr va = KERNEL_MEM_END + (of_nat p - 1) * SPACE_4MB + (va - PROG_VM_START)"
      using assms(3,4) tables_ok_on [OF assms(2)] by (simp add: tr_def proc_tr_def kernel_tr_def walk_user_page)
    also have "\<dots> = va + (KERNEL_MEM_END + (of_nat p - 1) * SPACE_4MB - PROG_VM_START)"
      by (simp only: algebra_simps)
    finally show ?thesis .
  qed
  show "tr va = va + (- PAGE_SIZE)" if va: "va \<in> rng (VIDEO + PAGE_SIZE) 12288"
  proof -
    obtain j where "j < 3" "va \<in> rng (VIDEO + (of_nat j + 1) * PAGE_SIZE) 4096" using va video_pages by blast
    then show ?thesis using video_view(2) [OF assms(1-3,5)] by (simp add: tr_def proc_tr_def)
  qed
qed

lemma inj_on_shift: "(\<And>x. x \<in> A \<Longrightarrow> f x = x + (c :: u32)) \<Longrightarrow> inj_on f A"
  by (auto simp: inj_on_def)

lemma image_shift: "(\<And>x. x \<in> rng a n \<Longrightarrow> f x = x + c) \<Longrightarrow> f ` rng a n \<subseteq> rng (a + c) n"
  using rng_shift by auto

lemma proc_address_space:
  assumes "layout_ok lay" "tables_ok s" "length dir = 1024" "p \<in> {1..6}" "t < 3"
  shows "address_space (proc_tr lay s (map_vidmap v (process_pd lay dir (of_nat p) (of_nat t)))) kernel_space"
proof
  let ?tr = "proc_tr lay s (map_vidmap v (process_pd lay dir (of_nat p) (of_nat t)))"
  let ?K = "rng KERNEL_LOC 4194304" and ?U = "rng PROG_VM_START 4194304" and ?V = "rng (VIDEO + PAGE_SIZE) 12288"
  let ?u = "KERNEL_MEM_END + (of_nat p - 1) * SPACE_4MB"
  note view = proc_tr_view [OF assms, of _ v]
  have K: "?tr ` ?K \<subseteq> rng KERNEL_LOC 4194304" using image_shift [of KERNEL_LOC 4194304 ?tr 0] view(1) by simp
  have U: "?tr ` ?U \<subseteq> rng ?u 4194304"
    using image_shift [of PROG_VM_START 4194304 ?tr "?u - PROG_VM_START"] view(2) by simp
  have V: "?tr ` ?V \<subseteq> rng VIDEO 12288"
    using image_shift [of "VIDEO + PAGE_SIZE" 12288 ?tr "- PAGE_SIZE"] view(3) by simp
  have "p \<in> {1, 2, 3, 4, 5, 6}" using assms(4) by auto
  then have "rng KERNEL_LOC 4194304 \<inter> rng ?u 4194304 = {}" "rng VIDEO 12288 \<inter> rng ?u 4194304 = {}"
    "rng VIDEO 12288 \<inter> rng KERNEL_LOC 4194304 = {}"
    by (auto intro!: rng_disjoint(1))
  moreover have "inj_on ?tr ?K" using view(1) by (intro inj_on_shift [of _ _ 0]) simp
  moreover have "inj_on ?tr ?U" by (rule inj_on_shift) (rule view(2))
  moreover have "inj_on ?tr ?V" by (rule inj_on_shift) (rule view(3))
  ultimately show "inj_on ?tr kernel_space"
    unfolding kernel_space_def inj_on_Un using K U V by blast
qed

section \<open>Properties\<close>

text \<open>A layout and cleared tables for the examples.\<close>

definition sample_layout :: layout where
  "sample_layout = \<lparr>pt_vidmem_at = 0x440000, pt_user_vidmem_at = 0x443000\<rparr>"

definition cleared_paging :: paging where
  "cleared_paging = \<lparr>pd_first = replicate 1024 0, pds = replicate 6 (replicate 1024 0),
     pt_vidmem = replicate 3 (replicate 1024 0), pt_user_vidmem = replicate 3 (replicate 1024 0),
     cr0 = 0x11, cr3 = pd_first_ptr, cr4 = 0\<rparr>"

text \<open>Every page present, at the address it has, as an example of a directory that is loaded.\<close>

definition flat_pd :: table where
  "flat_pd = map (\<lambda>i. push_bit 22 (of_nat i) OR 0x87) [0..<1024]"

definition flat_paging :: paging where
  "flat_paging = cleared_paging\<lparr>pd_first := flat_pd, pds := replicate 6 flat_pd, cr0 := 0x80000011, cr4 := 0x10\<rparr>"

lemma walk_flat: "paging_on s \<Longrightarrow> walk lay s flat_pd va = Some (va, True, True)"
proof -
  assume on: "paging_on s"
  have "flat_pd ! unat (drop_bit 22 va) = push_bit 22 (drop_bit 22 va) OR 0x87"
    using pde_idx_less [of va] by (simp add: flat_pd_def)
  moreover have "push_bit 22 (drop_bit 22 (push_bit 22 (drop_bit 22 va) OR 0x87)) = push_bit 22 (drop_bit 22 va)"
    by (rule bit_word_eqI) (auto simp: bit_simps)
  ultimately show ?thesis using on bits_ident [of 22 va] by (simp add: walk_def paging_on_def Let_def bit_simps)
qed

lemma flat_tr: "paging_on s \<Longrightarrow> proc_tr lay s flat_pd = (\<lambda>a. a)"
  by (intro ext) (simp add: proc_tr_def kernel_tr_def walk_flat)

lemma flat_paging_on: "paging_on flat_paging"
  by (simp add: paging_on_def flat_paging_def)

lemma flat_paging_shape: "paging_shape flat_paging"
  by (simp add: paging_shape_def flat_paging_def cleared_paging_def flat_pd_def)

lemma sample_layout_ok: "layout_ok sample_layout"
  by (simp add: layout_ok_def sample_layout_def pt_row_def pt_user_row_def)

lemma cleared_paging_shape: "paging_shape cleared_paging"
  by (simp add: paging_shape_def cleared_paging_def)

lemma sample_tables_ok: "tables_ok (virtualmem_init sample_layout cleared_paging)"
  using cleared_paging_shape by (rule virtualmem_init_tables)

text \<open>
  \<open>virtualmem_init\<close> sets up paging: the terminal page tables get their documented contents,
  the kernel's 4 MB are mapped to themselves, \<open>VIDEO\<close> to the first terminal's page, and paging
  and 4 MB pages are switched on with \<open>pd_first\<close> loaded.
\<close>

theorem virtualmem_init_correct:
  assumes "layout_ok lay" "paging_shape s" "s' = virtualmem_init lay s"
  shows "tables_ok s' \<and> cr3 s' = pd_first_ptr \<and> bit (cr0 s') 31 \<and> bit (cr4 s') 4 \<and>
    (\<forall>va \<in> rng KERNEL_LOC 4194304. walk lay s' (pd_of s' (cr3 s')) va = Some (va, False, True)) \<and>
    (\<forall>va \<in> rng VIDEO 4096. walk lay s' (pd_of s' (cr3 s')) va = Some (va, False, True))"
proof -
  have t: "tables_ok s'" unfolding assms(3) using assms(2) by (rule virtualmem_init_tables)
  have on: "paging_on s'" using t by (rule tables_ok_on)
  have len: "length (pd_first s) = 1024" using assms(2) by (simp add: paging_shape_def)
  have c: "cr3 s' = pd_first_ptr" "pd_first s' = pd_init lay (pd_first s) 0"
    by (simp_all add: assms(3) virtualmem_init_def set_pd_def Let_def upt_rec [of _ "Suc (Suc (Suc 0))"]
        numeral_3_eq_3)
  have dir: "pd_of s' (cr3 s') = pd_init lay (pd_first s) 0" by (simp add: pd_of_def c)
  have k: "walk lay s' (pd_init lay (pd_first s) 0) va = Some (va, False, True)"
    if "va \<in> rng KERNEL_LOC 4194304" for va
  proof -
    have "drop_bit 22 va = 1" "take_bit 22 va = va - KERNEL_LOC"
      using that large_page [of KERNEL_LOC va] by simp_all
    then show ?thesis using len on by (simp add: walk_def paging_on_def pd_init_nth Let_def)
  qed
  have v: "walk lay s' (pd_init lay (pd_first s) 0) va = Some (va, False, True)"
    if "va \<in> rng VIDEO 4096" for va
  proof -
    have "drop_bit 22 va = 0" "take_bit 12 va = va - VIDEO" "pte_idx va = 0xB8"
      using that small_page [of VIDEO va] small_page_idx [of VIDEO va] by (simp_all add: pte_idx_vid)
    moreover have "pt_vidmem s' ! 0 ! 0xB8 = VIDEO OR 3" using t by (simp add: tables_ok_def)
    ultimately show ?thesis
      using len aligned_or [OF row_aligned(1) [OF assms(1), of 0], of 3] table_at_rows(1) [OF assms(1), of 0 s']
      using on by (simp add: walk_def paging_on_def pd_init_nth Let_def)
  qed
  show ?thesis using t c(1) k v on unfolding dir paging_on_def by blast
qed

theorem virtualmem_init_correct_witness:
  "tables_ok (virtualmem_init sample_layout cleared_paging) \<and>
   cr3 (virtualmem_init sample_layout cleared_paging) = pd_first_ptr"
  using virtualmem_init_correct [OF sample_layout_ok cleared_paging_shape refl] by blast

text \<open>
  C14. What a user program can reach: with the directory that \<open>execute\<close> builds for process \<open>p\<close> on
  terminal \<open>t\<close>, user accesses succeed exactly on the 4 MB at \<open>PROG_VM_START\<close>, which is the
  physical block number \<open>p\<close> above the kernel, and, after \<open>vidmap\<close>, on the one page at
  \<open>PROG_VIDMEM_ADDR\<close>, which is the screen of terminal \<open>t\<close>.
\<close>

theorem user_view_exact:
  assumes "layout_ok lay" "tables_ok s" "length dir = 1024" "p \<in> {1..6}" "t < 3"
  shows "user_tr lay s (process_pd lay dir (of_nat p) (of_nat t)) va =
    (if va \<in> rng PROG_VM_START 4194304
     then Some (KERNEL_MEM_END + (of_nat p - 1) * SPACE_4MB + (va - PROG_VM_START)) else None) \<and>
    user_tr lay s (set_pde_flags (process_pd lay dir (of_nat p) (of_nat t)) PROG_VIDMEM_ADDR FLAG_P) va =
    (if va \<in> rng PROG_VM_START 4194304
     then Some (KERNEL_MEM_END + (of_nat p - 1) * SPACE_4MB + (va - PROG_VM_START))
     else if va \<in> rng PROG_VIDMEM_ADDR 4096
     then Some (VIDEO + of_nat t * PAGE_SIZE + (va - PROG_VIDMEM_ADDR)) else None)"
  using user_view [OF assms, of False va] user_view [OF assms, of True va] by (simp add: map_vidmap_def)

theorem user_view_exact_witness:
  "user_tr sample_layout (virtualmem_init sample_layout cleared_paging)
     (process_pd sample_layout (replicate 1024 0) 2 1) 0x8048000 = Some 0xC48000 \<and>
   user_tr sample_layout (virtualmem_init sample_layout cleared_paging)
     (set_pde_flags (process_pd sample_layout (replicate 1024 0) 2 1) PROG_VIDMEM_ADDR FLAG_P) 0x8400002 =
     Some 0xB9002"
  using user_view_exact [OF sample_layout_ok sample_tables_ok, of "replicate 1024 0" 2 1]
  by (simp add: rng_def)

text \<open>
  C13. Isolation. A physical byte that a user access of process \<open>p\<close> on terminal \<open>t\<close> reaches lies in
  the block of \<open>p\<close> or, after \<open>vidmap\<close>, in the screen of \<open>t\<close>; it never lies in the kernel's 4 MB. Another
  process \<open>q\<close> reaches the same byte only when it is a byte of the screen, both have called \<open>vidmap\<close>
  and both run on the same terminal.
\<close>

theorem process_isolation:
  assumes "layout_ok lay" "tables_ok s" "length dir = 1024" "p \<in> {1..6}" "t < 3"
    and "user_tr lay s (map_vidmap v (process_pd lay dir (of_nat p) (of_nat t))) va = Some x"
  shows "(x \<in> rng (KERNEL_MEM_END + (of_nat p - 1) * SPACE_4MB) 4194304 \<or> v \<and> x \<in> rng (VIDEO + of_nat t * PAGE_SIZE) 4096) \<and>
    x \<notin> rng KERNEL_LOC 4194304 \<and>
    (q \<in> {1..6} \<longrightarrow> p \<noteq> q \<longrightarrow> t' < 3 \<longrightarrow> length dir' = 1024 \<longrightarrow>
      user_tr lay s (map_vidmap v' (process_pd lay dir' (of_nat q) (of_nat t'))) va' = Some x \<longrightarrow>
      v \<and> v' \<and> x \<in> rng VIDEO 12288 \<and> t = t')"
proof -
  let ?b = "\<lambda>p. KERNEL_MEM_END + (of_nat p - 1) * SPACE_4MB :: u32"
  let ?s = "\<lambda>t. VIDEO + of_nat t * PAGE_SIZE :: u32"
  have reach: "x \<in> rng (?b p) 4194304 \<or> v \<and> x \<in> rng (?s t) 4096"
    if "user_tr lay s (map_vidmap v (process_pd lay dir (of_nat p) (of_nat t))) va = Some x"
      "length dir = 1024" "p \<in> {1..6}" "t < 3" for v dir va and p t :: nat
    using that user_view [OF assms(1,2) that(2-4), of v va]
      rng_shift [of va PROG_VM_START 4194304 "?b p - PROG_VM_START"]
      rng_shift [of va PROG_VIDMEM_ADDR 4096 "?s t - PROG_VIDMEM_ADDR"]
    by (auto split: if_splits simp: algebra_simps)
  note x = reach [OF assms(6,3-5)]
  have p: "p \<in> {1, 2, 3, 4, 5, 6}" "t \<in> {0, 1, 2}" using assms(4,5) by auto
  have bk: "rng KERNEL_LOC 4194304 \<inter> rng (?b p) 4194304 = {}" "rng (?s t) 4096 \<inter> rng KERNEL_LOC 4194304 = {}"
    using p by (auto intro!: rng_disjoint(1))
  have bb: "rng (?b p) 4194304 \<inter> rng (?b q) 4194304 = {}" if "q \<in> {1, 2, 3, 4, 5, 6}" "p \<noteq> q"
  proof (cases "p < q")
    case True
    then show ?thesis using p that by (auto intro!: rng_disjoint(1))
  next
    case False
    then show ?thesis using p that by (auto intro!: rng_disjoint(2))
  qed
  have sb: "rng (?s a) 4096 \<inter> rng (?b r) 4194304 = {}" if "a \<in> {0, 1, 2}" "r \<in> {1, 2, 3, 4, 5, 6}" for a r
    using that by (auto intro!: rng_disjoint(1))
  have ss: "rng (?s t) 4096 \<inter> rng (?s t') 4096 = {}" if "t \<noteq> t'" "t' \<in> {0, 1, 2}"
  proof (cases "t < t'")
    case True
    then show ?thesis using p that by (auto intro!: rng_disjoint(1))
  next
    case False
    then show ?thesis using p that by (auto intro!: rng_disjoint(2))
  qed
  have sub: "rng (?s t) 4096 \<subseteq> rng VIDEO 12288"
    using rng_sub [of "t * 4096" 4096 12288 VIDEO] p by auto
  have "v \<and> v' \<and> x \<in> rng VIDEO 12288 \<and> t = t'"
    if q: "q \<in> {1..6}" "p \<noteq> q" "t' < 3" "length dir' = 1024"
      and u: "user_tr lay s (map_vidmap v' (process_pd lay dir' (of_nat q) (of_nat t'))) va' = Some x"
  proof -
    have q': "q \<in> {1, 2, 3, 4, 5, 6}" "t' \<in> {0, 1, 2}" using q by auto
    note y = reach [OF u q(4,1,3)]
    have xs: "v \<and> x \<in> rng (?s t) 4096" using x y bb [OF q'(1) q(2)] sb [OF q'(2) p(1)] by blast
    then have "v' \<and> x \<in> rng (?s t') 4096" using y sb [OF p(2) q'(1)] by blast
    then show ?thesis using xs ss [OF _ q'(2)] sub by blast
  qed
  then show ?thesis using x bk by blast
qed

theorem process_isolation_witness:
  "user_tr sample_layout (virtualmem_init sample_layout cleared_paging)
     (map_vidmap True (process_pd sample_layout (replicate 1024 0) 1 2)) 0x8400010 = Some 0xBA010 \<and>
   0xBA010 \<in> rng VIDEO 12288 \<and> 0xBA010 \<notin> rng KERNEL_LOC 4194304"
proof -
  let ?s = "virtualmem_init sample_layout cleared_paging" and ?d = "replicate 1024 0 :: table"
  have u: "user_tr sample_layout ?s (map_vidmap True (process_pd sample_layout ?d (of_nat p) (of_nat 2))) 0x8400010 =
      Some 0xBA010" if "p \<in> {1..6}" for p
    using user_view [OF sample_layout_ok sample_tables_ok _ that, of ?d 2 True "0x8400010"] by (simp add: rng_def)
  show ?thesis
    using process_isolation [OF sample_layout_ok sample_tables_ok _ _ _ u [of 1], of 2 2 ?d True "0x8400010"] u [of 1] u [of 2] by simp
qed

text \<open>
  Inside the kernel, while any process runs, the kernel's own memory, the program's memory
  and the three terminal screens are mapped injectively: different addresses are different bytes.
  This is what the memory routines and the screen code rely on.
\<close>

theorem kernel_mapping_injective:
  assumes "layout_ok lay" "tables_ok s" "length dir = 1024" "p \<in> {1..6}" "t < 3"
  shows "inj_on (proc_tr lay s (map_vidmap v (process_pd lay dir (of_nat p) (of_nat t)))) kernel_space"
  using proc_address_space [OF assms] by (simp add: address_space_def)

theorem kernel_mapping_injective_witness:
  "inj_on (proc_tr sample_layout (virtualmem_init sample_layout cleared_paging)
     (map_vidmap False (process_pd sample_layout (replicate 1024 0) 3 0))) kernel_space"
  using kernel_mapping_injective [OF sample_layout_ok sample_tables_ok, of "replicate 1024 0" 3 0 False] by simp

text \<open>
  Screen routing: whichever process runs, \<open>VIDEO\<close> leads to the page of the terminal it
  belongs to and \<open>VIDEO + (j + 1) * PAGE_SIZE\<close> to the page of terminal \<open>j\<close>, so that a background
  program never writes to another terminal's screen and the keyboard echo reaches the right one.
\<close>

theorem screen_routing:
  assumes "layout_ok lay" "tables_ok s" "length dir = 1024" "p \<in> {1..6}" "t < 3" "j < 3" "unat off < 4096"
  defines "d \<equiv> process_pd lay dir (of_nat p) (of_nat t)"
  shows "kernel_tr lay s d (VIDEO + off) = Some (VIDEO + of_nat t * PAGE_SIZE + off) \<and>
    kernel_tr lay s d (VIDEO + (of_nat j + 1) * PAGE_SIZE + off) = Some (VIDEO + of_nat j * PAGE_SIZE + off)"
proof -
  have "VIDEO + off \<in> rng VIDEO 4096" using assms(7) by (simp add: rng_def)
  moreover have "VIDEO + (of_nat j + 1) * PAGE_SIZE + off \<in> rng (VIDEO + (of_nat j + 1) * PAGE_SIZE) 4096"
    using assms(7) by (simp add: rng_def)
  ultimately have "kernel_tr lay s d (VIDEO + off) = Some (VIDEO + off + of_nat t * PAGE_SIZE)"
    "kernel_tr lay s d (VIDEO + (of_nat j + 1) * PAGE_SIZE + off) =
      Some (VIDEO + (of_nat j + 1) * PAGE_SIZE + off - PAGE_SIZE)"
    using video_view(1) [OF assms(1-3,5), of _ False "of_nat p"]
      video_view(2) [OF assms(1-3,5,6), of _ False "of_nat p"]
    by (simp_all only: d_def map_vidmap_def if_False)
  moreover have "VIDEO + (of_nat j + 1) * PAGE_SIZE + off - PAGE_SIZE = VIDEO + of_nat j * PAGE_SIZE + off"
    by (simp add: distrib_right)
  ultimately show ?thesis by (simp only: ac_simps simp_thms)
qed

theorem screen_routing_witness:
  "kernel_tr sample_layout (virtualmem_init sample_layout cleared_paging)
     (process_pd sample_layout (replicate 1024 0) 3 2) (VIDEO + 0x10) = Some 0xBA010"
  using screen_routing [OF sample_layout_ok sample_tables_ok, of "replicate 1024 0" 3 2 1 "0x10"] by simp

end
