(* ===== verification/Terminal.thy ===== *)
theory Terminal
  imports Virtualmem I8259 Isr
begin

text \<open>
  Terminals and keyboard, \<^verbatim>\<open>student-distrib/devices/keyboard.c\<close>: the three terminals
  with their line buffers and screens, the keyboard interrupt handler, reading and writing a
  terminal, and switching terminals.

  The flags that hold 0 or 1 are \<open>bool\<close>. A line buffer is a list of 128 bytes, so that \<open>memcpy\<close>,
  \<open>memmove\<close> and \<open>memset\<close> on it are operations on lists; an access outside the 128 bytes is the
  error value \<open>None\<close>. Scan codes above the 83 entries of \<open>kybd_keys\<close> make the handler read behind
  the table; what it finds there is the parameter \<open>oob\<close>.

  \<open>terminal_read\<close> spins until the interrupt handler sees Enter. It is split at the loop into
  \<open>terminal_read_start\<close> and \<open>terminal_read_finish\<close>, which the reader runs once \<open>hit_enter\<close> is set.
\<close>

section \<open>State\<close>

abbreviation (input) LINE_BUF_MAX :: nat where "LINE_BUF_MAX \<equiv> 128"
abbreviation (input) KEY_RETURN :: u16 where "KEY_RETURN \<equiv> 13"
abbreviation (input) KEY_BACKSPACE :: u16 where "KEY_BACKSPACE \<equiv> 8"
abbreviation (input) KEY_UNKNOWN :: u16 where "KEY_UNKNOWN \<equiv> 0"
abbreviation (input) KEY_ESCAPE :: u16 where "KEY_ESCAPE \<equiv> 0x1001"
abbreviation (input) KEY_F1 :: u16 where "KEY_F1 \<equiv> 0x1201"
abbreviation (input) KEY_F2 :: u16 where "KEY_F2 \<equiv> 0x1202"
abbreviation (input) KEY_F3 :: u16 where "KEY_F3 \<equiv> 0x1203"
abbreviation (input) KEY_TAB :: u16 where "KEY_TAB \<equiv> 0x4000"
abbreviation (input) KEY_CAPSLOCK :: u16 where "KEY_CAPSLOCK \<equiv> 0x4001"
abbreviation (input) KEY_LSHIFT :: u16 where "KEY_LSHIFT \<equiv> 0x4002"
abbreviation (input) KEY_LCTRL :: u16 where "KEY_LCTRL \<equiv> 0x4003"
abbreviation (input) KEY_LALT :: u16 where "KEY_LALT \<equiv> 0x4004"
abbreviation (input) KEY_RSHIFT :: u16 where "KEY_RSHIFT \<equiv> 0x4006"
abbreviation (input) KEY_RCTRL :: u16 where "KEY_RCTRL \<equiv> 0x4007"
abbreviation (input) KEY_RALT :: u16 where "KEY_RALT \<equiv> 0x4008"
abbreviation (input) KEYBOARD_IRQ_NUM :: u32 where "KEYBOARD_IRQ_NUM \<equiv> 1"

record terminal_t =
  screen :: screen_t
  line_buf :: bytes
  buf_count :: u16
  input_len :: u32
  hit_enter :: bool
  reading :: bool

record kbd_state =
  terminals :: "terminal_t list"
  r_shift_key :: bool
  l_shift_key :: bool
  r_ctrl_key :: bool
  l_ctrl_key :: bool
  r_alt_key :: bool
  l_alt_key :: bool
  caps_lock :: bool
  current_terminal :: u32

text \<open>The character of a key, as the 16-bit code that the table holds.\<close>

definition key_chr :: "char \<Rightarrow> u16" where
  "key_chr c = of_char c"

definition kybd_keys :: "u16 list" where
  "kybd_keys =
     [KEY_UNKNOWN, KEY_ESCAPE] @ map key_chr ''1234567890-='' @ [KEY_BACKSPACE, KEY_TAB] @
     map key_chr ''qwertyuiop[]'' @ [KEY_RETURN, KEY_LCTRL] @
     map key_chr ''asdfghjkl;'' @ [39] @ map key_chr ''`'' @ [KEY_LSHIFT, 92] @
     map key_chr ''zxcvbnm,./'' @ [KEY_RSHIFT] @ map key_chr ''*'' @ [KEY_RALT] @ map key_chr '' '' @
     [KEY_CAPSLOCK, KEY_F1, KEY_F2, KEY_F3, 0x1204, 0x1205, 0x1206, 0x1207, 0x1208, 0x1209, 0x120A,
      0x300F, 0x4010, 0x400C] @ map key_chr ''8'' @ [0x400E] @ map key_chr ''230.'' @
     [KEY_UNKNOWN, KEY_UNKNOWN, KEY_UNKNOWN, 0x120B, 0x120B]"

definition key_of :: "(nat \<Rightarrow> u16) \<Rightarrow> u8 \<Rightarrow> u16" where
  "key_of oob scancode =
     (if unat scancode < length kybd_keys then kybd_keys ! unat scancode else oob (unat scancode))"

section \<open>Terminal operations\<close>

definition terminal_open :: "addr \<Rightarrow> u32" where
  "terminal_open filename = 0"

definition terminal_close :: "u32 \<Rightarrow> u32" where
  "terminal_close fd = 0"

definition upd_term :: "nat \<Rightarrow> (terminal_t \<Rightarrow> terminal_t) \<Rightarrow> kbd_state \<Rightarrow> kbd_state" where
  "upd_term t f k = k\<lparr>terminals := (terminals k)[t := f (terminals k ! t)]\<rparr>"

text \<open>The part of \<open>terminal_read\<close> before the loop; the returned value is \<open>Some (-1)\<close> for an early return.\<close>

definition terminal_read_start :: "nat \<Rightarrow> addr \<Rightarrow> kbd_state \<Rightarrow> u32 option \<times> kbd_state" where
  "terminal_read_start t buf k =
     (if buf = 0 then (Some (-1), k)
      else (None, upd_term t (\<lambda>tm. tm\<lparr>reading := True, hit_enter := False\<rparr>) k))"

text \<open>
  The part behind the loop. \<open>nbytes\<close> is an \<open>int32_t\<close>; a negative one makes \<open>memcpy\<close> run over the
  line buffer.
\<close>

definition terminal_read_finish ::
  "translation \<Rightarrow> memory \<Rightarrow> nat \<Rightarrow> addr \<Rightarrow> int \<Rightarrow> kbd_state \<Rightarrow> (int \<times> memory \<times> kbd_state) option" where
  "terminal_read_finish tr m t buf nbytes k =
     (let tm = terminals k ! t;
          nbytes = (if nbytes > int LINE_BUF_MAX then int LINE_BUF_MAX else nbytes);
          count = uint (buf_count tm);
          diff = count - nbytes;
          chars_read = (if nbytes > count then count else nbytes);
          diff = (if diff < 0 then 0 else diff)
      in if nbytes < 0 \<or> diff + nbytes > int LINE_BUF_MAX then None
         else
           let n = nat nbytes; d = nat diff;
               m = store_bytes tr m buf (take n (line_buf tm));
               lb = take d (drop n (line_buf tm)) @ drop d (line_buf tm);
               lb = take d lb @ replicate n 0 @ drop (d + n) lb
           in Some (chars_read, m, upd_term t (\<lambda>tm. tm\<lparr>line_buf := lb, buf_count := of_nat d,
                reading := False, hit_enter := False\<rparr>) k))"

fun putc_seq :: "translation \<Rightarrow> bytes \<Rightarrow> screen_t \<times> memory \<Rightarrow> screen_t \<times> memory" where
  "putc_seq tr [] st = st"
| "putc_seq tr (c # cs) st = putc_seq tr cs (putc_in_terminal tr c st)"

text \<open>
  \<open>terminal_write\<close>: the loop reads byte \<open>i\<close> of the buffer when it prints it. The cursor moves if
  the terminal is the visible one.
\<close>

fun terminal_write_loop :: "translation \<Rightarrow> addr \<Rightarrow> nat \<Rightarrow> screen_t \<times> memory \<Rightarrow> screen_t \<times> memory" where
  "terminal_write_loop tr buf 0 st = st"
| "terminal_write_loop tr buf (Suc n) st =
     terminal_write_loop tr (buf + 1) n (putc_in_terminal tr (ld8 tr (snd st) buf) st)"

definition terminal_write ::
  "'h outb \<Rightarrow> translation \<Rightarrow> nat \<Rightarrow> addr \<Rightarrow> int \<Rightarrow> kbd_state \<times> memory \<times> 'h \<Rightarrow> int \<times> kbd_state \<times> memory \<times> 'h" where
  "terminal_write outb tr t buf nbytes = (\<lambda>(k, m, h).
     if buf = 0 then (-1, k, m, h)
     else
       let (scr, m) = terminal_write_loop tr buf (nat nbytes) (screen (terminals k ! t), m);
           k = upd_term t (\<lambda>tm. tm\<lparr>screen := scr\<rparr>) k;
           h = (if of_nat t = current_terminal k then outbs outb (move_cursor (of_nat t) scr PAGE_SIZE) h else h)
       in (nbytes, k, m, h))"

section \<open>The keyboard\<close>

text \<open>
  A screen routine of the foreground terminal: \<open>video_mem\<close> is moved to the page at which every
  page table maps that terminal's screen, and moved back afterwards.
\<close>

definition on_screen ::
  "u32 \<Rightarrow> (screen_t \<times> memory \<Rightarrow> screen_t \<times> memory) \<Rightarrow> screen_t \<times> memory \<Rightarrow> screen_t \<times> memory" where
  "on_screen cur f = (\<lambda>(scr, m).
     let scr = scr\<lparr>scr_mem := scr_mem scr + PAGE_SIZE * (cur + 1)\<rparr>;
         (scr, m) = f (scr, m)
     in (scr\<lparr>scr_mem := scr_mem scr - PAGE_SIZE * (cur + 1)\<rparr>, m))"

definition update ::
  "'h outb \<Rightarrow> translation \<Rightarrow> u16 \<Rightarrow> kbd_state \<times> memory \<times> 'h \<Rightarrow> (kbd_state \<times> memory \<times> 'h) option" where
  "update outb tr key = (\<lambda>(k, m, h).
     let cur = current_terminal k; tm = terminals k ! unat cur
     in if key = KEY_RETURN then
          let (scr, m) = on_screen cur (putc_in_terminal tr (ucast key)) (screen tm, m);
              h = outbs outb (move_cursor cur scr PAGE_SIZE) h
          in if unat (buf_count tm) \<ge> LINE_BUF_MAX then None
             else
               let tm = tm\<lparr>screen := scr, line_buf := (line_buf tm)[unat (buf_count tm) := 10],
                          buf_count := buf_count tm + 1, hit_enter := True, input_len := 0\<rparr>;
                   tm = (if \<not> reading tm then tm\<lparr>line_buf := replicate LINE_BUF_MAX 0, buf_count := 0\<rparr> else tm)
               in Some (upd_term (unat cur) (\<lambda>_. tm) k, m, h)
        else if key = KEY_BACKSPACE then
          if input_len tm \<noteq> 0 then
            let (scr, m) = on_screen cur (backspace_fnc tr) (screen tm, m);
                h = outbs outb (move_cursor cur scr PAGE_SIZE) h;
                tm = tm\<lparr>screen := scr, buf_count := buf_count tm - 1, input_len := input_len tm - 1\<rparr>
            in if unat (buf_count tm) \<ge> LINE_BUF_MAX then None
               else Some (upd_term (unat cur) (\<lambda>_. tm\<lparr>line_buf := (line_buf tm)[unat (buf_count tm) := 0]\<rparr>) k, m, h)
          else Some (k, m, h)
        else if unat (buf_count tm) < LINE_BUF_MAX - 1 - 1 then
          let (scr, m) = on_screen cur (putc_in_terminal tr (ucast key)) (screen tm, m);
              h = outbs outb (move_cursor cur scr PAGE_SIZE) h;
              tm = tm\<lparr>screen := scr, line_buf := (line_buf tm)[unat (buf_count tm) := ucast key],
                     buf_count := buf_count tm + 1, input_len := input_len tm + 1\<rparr>
          in Some (upd_term (unat cur) (\<lambda>_. tm) k, m, h)
        else Some (k, m, h))"

text \<open>The translation of a key under the modifiers: capital letters and the second symbols.\<close>

definition shift_key :: "u16 \<Rightarrow> u16" where
  "shift_key key =
     (if key = key_chr CHR ''0'' then key_chr CHR '')''
      else if key = key_chr CHR ''1'' then key_chr CHR ''!''
      else if key = key_chr CHR ''2'' then key_chr CHR ''@''
      else if key = key_chr CHR ''3'' then key_chr CHR ''#''
      else if key = key_chr CHR ''4'' then key_chr CHR ''$''
      else if key = key_chr CHR ''5'' then key_chr CHR ''%''
      else if key = key_chr CHR ''6'' then key_chr CHR ''^''
      else if key = key_chr CHR ''7'' then key_chr CHR ''&''
      else if key = key_chr CHR ''8'' then key_chr CHR ''*''
      else if key = key_chr CHR ''9'' then key_chr CHR ''(''
      else if key = key_chr CHR '','' then key_chr CHR ''<''
      else if key = key_chr CHR ''.'' then key_chr CHR ''>''
      else if key = key_chr CHR ''/'' then key_chr CHR ''?''
      else if key = key_chr CHR '';'' then key_chr CHR '':''
      else if key = 39 then 34
      else if key = key_chr CHR ''['' then key_chr CHR ''{''
      else if key = key_chr CHR '']'' then key_chr CHR ''}''
      else if key = key_chr CHR ''`'' then key_chr CHR ''~''
      else if key = key_chr CHR ''-'' then key_chr CHR ''_''
      else if key = key_chr CHR ''='' then key_chr CHR ''+''
      else if key = 92 then key_chr CHR ''|''
      else key)"

definition translate_key :: "bool \<Rightarrow> bool \<Rightarrow> bool \<Rightarrow> bool \<Rightarrow> u16 \<Rightarrow> u16" where
  "translate_key caps shift alt ctrl key =
     (if (caps \<noteq> shift) \<and> (\<not> alt \<and> \<not> ctrl) \<and> key \<ge> key_chr CHR ''a'' \<and> key \<le> key_chr CHR ''z''
      then key - (key_chr CHR ''a'' - key_chr CHR ''A'')
      else if shift \<and> \<not> ctrl \<and> \<not> alt then shift_key key
      else key)"

definition printable :: "u16 \<Rightarrow> bool" where
  "printable key \<longleftrightarrow> key \<ge> key_chr CHR '' '' \<and> key \<le> key_chr CHR ''~''"

section \<open>Switching terminals\<close>

text \<open>
  \<open>start_terminal\<close> either returns or, when no process runs on the current terminal (at boot),
  enters the loop that executes the shell. \<open>next_execute\<close> of \<^verbatim>\<open>pit.c\<close> is the pointer
  that \<open>schedule_for_execution\<close> sets, 0 for \<open>NULL\<close>; \<open>shell\<close> is the address of the local string.
\<close>

datatype start_result = St_return u32 | St_execute_loop

definition schedule_for_execution :: "addr \<Rightarrow> addr \<Rightarrow> addr" where
  "schedule_for_execution command next_execute = command"

definition start_terminal ::
  "'h outb \<Rightarrow> addr \<Rightarrow> ptable \<Rightarrow> u32 \<Rightarrow> kbd_state \<times> addr \<times> 'h \<Rightarrow> start_result \<times> kbd_state \<times> addr \<times> 'h" where
  "start_terminal outb shell pt tn = (\<lambda>(k, nx, h).
     if tn < 0 \<or> tn \<ge> MAX_TERMINALS then (St_return (-1), k, nx, h)
     else if tn = current_terminal k then (St_return (-1), k, nx, h)
     else
       let curr_active_process = get_active_process (current_terminal k) pt;
           next_active_process = get_active_process tn pt
       in if \<not> free_procs pt \<and> next_active_process = -1 then (St_return (-1), k, nx, h)
          else
            let h = outbs outb (set_vga_start (tn * PAGE_SIZE)) h;
                h = outbs outb (move_cursor tn (screen (terminals k ! unat tn)) PAGE_SIZE) h;
                k = k\<lparr>current_terminal := tn\<rparr>
            in if next_active_process = -1 then
                 if curr_active_process \<noteq> -1 then (St_return 0, k, schedule_for_execution shell nx, h)
                 else (St_execute_loop, k, nx, h)
               else (St_return 0, k, nx, h))"

definition set_curr_active_process :: "kbd_state \<Rightarrow> u32 \<Rightarrow> ptable \<Rightarrow> ptable" where
  "set_curr_active_process k p pt = snd (set_active_process (current_terminal k) p pt)"

definition get_curr_active_process :: "kbd_state \<Rightarrow> ptable \<Rightarrow> u32" where
  "get_curr_active_process k pt = get_active_process (current_terminal k) pt"

definition curr_terminal_running_process :: "kbd_state \<Rightarrow> ptable \<Rightarrow> bool" where
  "curr_terminal_running_process k pt \<longleftrightarrow> get_active_process (current_terminal k) pt \<noteq> -1"

definition get_current_terminal :: "kbd_state \<Rightarrow> u32" where
  "get_current_terminal k = current_terminal k"

definition get_terminal :: "u32 \<Rightarrow> kbd_state \<Rightarrow> terminal_t" where
  "get_terminal tn k = terminals k ! unat tn"

definition kybd_init ::
  "'h inb \<Rightarrow> 'h outb \<Rightarrow> u32 \<Rightarrow> addr \<Rightarrow> u32 list \<times> ptable \<times> kbd_state \<times> 'h \<Rightarrow> u32 list \<times> ptable \<times> kbd_state \<times> 'h" where
  "kybd_init inb outb handler video_mem = (\<lambda>(irq_table, pt, k, h).
     let irq_table = add_irq KEYBOARD_IRQ_NUM handler irq_table;
         h = enable_irq inb outb KEYBOARD_IRQ_NUM h;
         k = fold (\<lambda>i k. upd_term i (\<lambda>tm. tm\<lparr>line_buf := replicate LINE_BUF_MAX 0, buf_count := 0, reading := False,
                screen := \<lparr>scr_x = 0, scr_y = 0, scr_mem = video_mem\<rparr>\<rparr>) k) [0..<3] k
     in (irq_table, snd (add_device TERM_FTYPE term_fops pt), k, h))"

section \<open>The interrupt handler\<close>

definition release_key :: "u16 \<Rightarrow> kbd_state \<Rightarrow> kbd_state" where
  "release_key key k =
     (if key = KEY_RSHIFT then k\<lparr>r_shift_key := False\<rparr>
      else if key = KEY_LSHIFT then k\<lparr>l_shift_key := False\<rparr>
      else if key = KEY_LCTRL then k\<lparr>r_ctrl_key := False\<rparr>
      else if key = KEY_RCTRL then k\<lparr>l_ctrl_key := False\<rparr>
      else if key = KEY_LALT then k\<lparr>l_alt_key := False\<rparr>
      else if key = KEY_RALT then k\<lparr>r_alt_key := False\<rparr>
      else k)"

definition redraw ::
  "'h outb \<Rightarrow> translation \<Rightarrow> kbd_state \<times> memory \<times> 'h \<Rightarrow> (kbd_state \<times> memory \<times> 'h) option" where
  "redraw outb tr = (\<lambda>(k, m, h).
     let cur = current_terminal k; tm = terminals k ! unat cur
     in if unat (buf_count tm) > LINE_BUF_MAX then None
        else
          let (scr, m) = on_screen cur
                (\<lambda>st. putc_seq tr (take (unat (buf_count tm)) (line_buf tm)) (clear_terminal tr st)) (screen tm, m)
          in Some (upd_term (unat cur) (\<lambda>tm. tm\<lparr>screen := scr\<rparr>) k, m, outbs outb (move_cursor cur scr PAGE_SIZE) h))"

definition press_key ::
  "'h outb \<Rightarrow> addr \<Rightarrow> translation \<Rightarrow> ptable \<Rightarrow> u8 \<Rightarrow> u16 \<Rightarrow> kbd_state \<times> addr \<times> memory \<times> 'h \<Rightarrow>
   (start_result \<times> kbd_state \<times> addr \<times> memory \<times> 'h) option" where
  "press_key outb shell tr pt scancode key = (\<lambda>(k, nx, m, h).
     let shift = l_shift_key k \<or> r_shift_key k;
         alt = l_alt_key k \<or> r_alt_key k;
         ctrl = l_ctrl_key k \<or> r_ctrl_key k;
         eoi = send_eoi outb KEYBOARD_IRQ_NUM;
         switch = (\<lambda>tn. let (r, k, nx, h) = start_terminal outb shell pt tn (k, nx, eoi h)
                        in Some (r, k, nx, m, h));
         done = (\<lambda>r. case r of None \<Rightarrow> None | Some (k, m, h) \<Rightarrow> Some (St_return 0, k, nx, m, eoi h))
     in if key = KEY_CAPSLOCK then done (Some (k\<lparr>caps_lock := \<not> caps_lock k\<rparr>, m, h))
        else if key = KEY_RSHIFT then done (Some (k\<lparr>r_shift_key := True\<rparr>, m, h))
        else if key = KEY_LSHIFT then done (Some (k\<lparr>l_shift_key := True\<rparr>, m, h))
        else if key = KEY_LCTRL then done (Some (k\<lparr>r_ctrl_key := True\<rparr>, m, h))
        else if key = KEY_RCTRL then done (Some (k\<lparr>l_ctrl_key := True\<rparr>, m, h))
        else if key = KEY_LALT then done (Some (k\<lparr>l_alt_key := True\<rparr>, m, h))
        else if key = KEY_RALT then done (Some (k\<lparr>r_alt_key := True\<rparr>, m, h))
        else if \<not> shift \<and> ctrl \<and> key = key_chr CHR ''l'' then done (redraw outb tr (k, m, h))
        else if \<not> ctrl \<and> \<not> shift \<and> alt \<and> key = KEY_F1 then switch 0
        else if \<not> ctrl \<and> \<not> shift \<and> alt \<and> key = KEY_F2 then switch 1
        else if \<not> ctrl \<and> \<not> shift \<and> alt \<and> key = KEY_F3 then switch 2
        else if scancode > 0x3A then done (Some (k, m, h))
        else
          let key = translate_key (caps_lock k) shift alt ctrl key
          in if printable key \<or> key = KEY_BACKSPACE \<or> key = KEY_RETURN
             then done (update outb tr key (k, m, h))
             else done (Some (k, m, h)))"

definition keyboard_handler_main ::
  "'h inb \<Rightarrow> 'h outb \<Rightarrow> (nat \<Rightarrow> u16) \<Rightarrow> addr \<Rightarrow> translation \<Rightarrow> ptable \<Rightarrow> kbd_state \<times> addr \<times> memory \<times> 'h \<Rightarrow>
   (start_result \<times> kbd_state \<times> addr \<times> memory \<times> 'h) option" where
  "keyboard_handler_main inb outb oob shell tr pt = (\<lambda>(k, nx, m, h).
     let (status, h) = inb 0x64 h
     in if status AND 1 \<noteq> 0 then
          let (scancode, h) = inb 0x60 h
          in if scancode AND 0x80 \<noteq> 0
             then Some (St_return 0, release_key (key_of oob (scancode - 0x80)) k, nx, m,
                        send_eoi outb KEYBOARD_IRQ_NUM h)
             else press_key outb shell tr pt scancode (key_of oob scancode) (k, nx, m, h)
        else Some (St_return 0, k, nx, m, send_eoi outb KEYBOARD_IRQ_NUM h))"

section \<open>The line editor\<close>

text \<open>
  What the user has typed on a terminal: the first \<open>buf_count\<close> bytes of the line buffer, of which
  the last \<open>input_len\<close> can still be erased. The abstract editor holds the finished text in front
  and the current input behind it.
\<close>

record editor =
  ed_text :: bytes
  ed_input :: bytes

definition term_ok :: "terminal_t \<Rightarrow> bool" where
  "term_ok tm \<longleftrightarrow> length (line_buf tm) = LINE_BUF_MAX \<and> unat (input_len tm) \<le> unat (buf_count tm) \<and>
     unat (buf_count tm) \<le> LINE_BUF_MAX"

definition editor_of :: "terminal_t \<Rightarrow> editor" where
  "editor_of tm =
     (let n = unat (buf_count tm); i = unat (input_len tm)
      in \<lparr>ed_text = take (n - i) (line_buf tm), ed_input = drop (n - i) (take n (line_buf tm))\<rparr>)"

definition ed_len :: "editor \<Rightarrow> nat" where
  "ed_len e = length (ed_text e) + length (ed_input e)"

definition ed_key :: "u16 \<Rightarrow> bool \<Rightarrow> editor \<Rightarrow> editor" where
  "ed_key key rd e =
     (if key = KEY_RETURN then
        if rd then \<lparr>ed_text = ed_text e @ ed_input e @ [10], ed_input = []\<rparr> else \<lparr>ed_text = [], ed_input = []\<rparr>
      else if key = KEY_BACKSPACE then e\<lparr>ed_input := butlast (ed_input e)\<rparr>
      else if ed_len e < 126 then e\<lparr>ed_input := ed_input e @ [ucast key]\<rparr> else e)"

lemma unat_add1_u16: "unat (x :: u16) < 65535 \<Longrightarrow> unat (x + 1) = Suc (unat x)"
  by (simp add: unat_plus_if')

lemma unat_sub1_u16: "x \<noteq> 0 \<Longrightarrow> unat (x - 1 :: u16) = unat x - 1"
  by (simp add: unat_minus_one)

lemma ed_len_editor_of:
  "term_ok tm \<Longrightarrow> ed_len (editor_of tm) = unat (buf_count tm)"
  by (auto simp: ed_len_def editor_of_def term_ok_def Let_def min_def)

lemma take_update_beyond: "n \<le> i \<Longrightarrow> take n (xs[i := x]) = take n xs"
  by (simp add: take_update_cancel)

text \<open>The effect of one key on the terminal, with the screen \<open>scr\<close> that echoing the key leaves.\<close>

definition line_update :: "screen_t \<Rightarrow> u16 \<Rightarrow> terminal_t \<Rightarrow> terminal_t" where
  "line_update scr key tm =
     (let n = unat (buf_count tm)
      in if key = KEY_RETURN then
           let tm = tm\<lparr>screen := scr, line_buf := (line_buf tm)[n := 10], buf_count := buf_count tm + 1, hit_enter := True, input_len := 0\<rparr>
           in if reading tm then tm else tm\<lparr>line_buf := replicate LINE_BUF_MAX 0, buf_count := 0\<rparr>
         else if key = KEY_BACKSPACE then
           if input_len tm \<noteq> 0
           then tm\<lparr>screen := scr, buf_count := buf_count tm - 1, input_len := input_len tm - 1, line_buf := (line_buf tm)[n - 1 := 0]\<rparr>
           else tm
         else if n < 126 then tm\<lparr>screen := scr, line_buf := (line_buf tm)[n := ucast key], buf_count := buf_count tm + 1,
           input_len := input_len tm + 1\<rparr>
         else tm)"

lemma line_update_refines:
  assumes "term_ok tm" "key = KEY_RETURN \<Longrightarrow> unat (buf_count tm) < 128"
  shows "term_ok (line_update scr key tm) \<and> editor_of (line_update scr key tm) = ed_key key (reading tm) (editor_of tm)"
proof -
  let ?n = "unat (buf_count tm)" and ?i = "unat (input_len tm)" and ?lb = "line_buf tm"
  have ok: "length ?lb = 128" "?i \<le> ?n" "?n \<le> 128" using assms(1) by (auto simp: term_ok_def)
  consider "key = KEY_RETURN" | "key = KEY_BACKSPACE" | "key \<noteq> KEY_RETURN" "key \<noteq> KEY_BACKSPACE" by blast
  then show ?thesis
  proof cases
    case 1
    then have n: "?n < 128" using assms(2) by simp
    then have "unat (buf_count tm + 1) = Suc ?n" by (intro unat_add1_u16) simp
    moreover have "take (?n - ?i) ?lb @ drop (?n - ?i) (take ?n ?lb) = take ?n ?lb"
      using ok by (metis append_take_drop_id diff_le_self min.absorb1 take_take)
    ultimately show ?thesis
      using 1 n ok by (auto simp: line_update_def term_ok_def editor_of_def ed_key_def Let_def
          take_Suc_conv_app_nth)
  next
    case 2
    show ?thesis
    proof (cases "?i = 0")
      case True
      then have "input_len tm = 0" by (simp add: unat_eq_0)
      with 2 True assms(1) show ?thesis
        by (simp add: line_update_def ed_key_def editor_of_def Let_def)
    next
      case False
      then have nz: "input_len tm \<noteq> 0" "buf_count tm \<noteq> 0" using ok(2) by auto
      then have u: "unat (buf_count tm - 1) = ?n - 1" "unat (input_len tm - 1) = ?i - 1"
        by (simp_all add: unat_minus_one)
      have "?n - 1 - (?i - 1) = ?n - ?i" using False ok(2) by simp
      moreover have "drop (?n - ?i) (take (?n - 1) ?lb) = butlast (drop (?n - ?i) (take ?n ?lb))"
        using False ok by (simp add: butlast_drop butlast_take)
      moreover have "take (?n - ?i) (?lb[?n - 1 := 0]) = take (?n - ?i) ?lb"
        using False ok by (intro take_update_beyond) simp
      moreover have "take (?n - 1) (?lb[?n - 1 := 0]) = take (?n - 1) ?lb" by (simp add: take_update_beyond)
      moreover have "?i - 1 \<le> ?n - 1 \<and> ?n - 1 \<le> 128" using ok by linarith
      ultimately show ?thesis
        using 2 nz u ok by (simp add: line_update_def term_ok_def editor_of_def ed_key_def Let_def)
    qed
  next
    case 3
    show ?thesis
    proof (cases "?n < 126")
      case True
      then have u: "unat (buf_count tm + 1) = Suc ?n" by (intro unat_add1_u16) simp
      have "?i < 126" using True ok(2) by simp
      then have v: "unat (input_len tm + 1) = Suc ?i" by (simp add: unat_plus_if')
      have "take (Suc ?n) (?lb[?n := ucast key]) = take ?n ?lb @ [ucast key]"
        using True ok by (simp add: take_Suc_conv_app_nth)
      then show ?thesis
        using 3 True ok u v ed_len_editor_of [OF assms(1)]
        by (simp add: line_update_def term_ok_def editor_of_def ed_key_def Let_def take_update_beyond)
    next
      case False
      with 3 assms(1) show ?thesis
        using ed_len_editor_of [OF assms(1)] by (simp add: line_update_def ed_key_def)
    qed
  qed
qed

text \<open>\<open>update\<close> is that effect on the foreground terminal, and never fails on a terminal in order.\<close>

lemma update_eq:
  assumes "term_ok (terminals k ! unat (current_terminal k))"
    and "key = KEY_RETURN \<Longrightarrow> unat (buf_count (terminals k ! unat (current_terminal k))) < 128"
  shows "\<exists>scr m' h'. update outb tr key (k, m, h) =
    Some (upd_term (unat (current_terminal k)) (line_update scr key) k, m', h')"
proof -
  let ?tm = "terminals k ! unat (current_terminal k)"
  have ok: "unat (input_len ?tm) \<le> unat (buf_count ?tm)" "unat (buf_count ?tm) \<le> 128"
    using assms(1) by (auto simp: term_ok_def)
  have bs: "unat (buf_count ?tm - 1) = unat (buf_count ?tm) - 1" if "input_len ?tm \<noteq> 0"
  proof -
    have "unat (input_len ?tm) \<noteq> 0" using that by (simp add: unat_eq_0)
    then have "buf_count ?tm \<noteq> 0" using ok(1) by auto
    then show ?thesis by (rule unat_sub1_u16)
  qed
  have same: "upd_term (unat (current_terminal k)) (\<lambda>tm. tm) k = k"
    by (simp add: upd_term_def)
  consider "key = KEY_RETURN" | "key = KEY_BACKSPACE" | "key \<noteq> KEY_RETURN" "key \<noteq> KEY_BACKSPACE" by blast
  then show ?thesis
  proof cases
    case 1
    obtain scr m' where "on_screen (current_terminal k) (putc_in_terminal tr (ucast key)) (screen ?tm, m) = (scr, m')"
      by fastforce
    with 1 assms(2) show ?thesis
      by (intro exI [of _ scr] exI [of _ m']) (simp add: update_def line_update_def upd_term_def Let_def)
  next
    case 2
    obtain scr m' where o: "on_screen (current_terminal k) (backspace_fnc tr) (screen ?tm, m) = (scr, m')" by fastforce
    show ?thesis
    proof (cases "input_len ?tm = 0")
      case True
      with 2 same show ?thesis
        by (intro exI [of _ "screen ?tm"] exI [of _ m] exI [of _ h]) (simp add: update_def line_update_def upd_term_def Let_def)
    next
      case False
      then have "unat (buf_count ?tm) - 1 < 128" using ok(2) by simp
      with 2 False o bs show ?thesis
        by (intro exI [of _ scr] exI [of _ m']) (simp add: update_def line_update_def upd_term_def Let_def)
    qed
  next
    case 3
    obtain scr m' where o: "on_screen (current_terminal k) (putc_in_terminal tr (ucast key)) (screen ?tm, m) = (scr, m')"
      by fastforce
    show ?thesis
    proof (cases "unat (buf_count ?tm) < 126")
      case True
      with 3 o show ?thesis
        by (intro exI [of _ scr] exI [of _ m']) (simp add: update_def line_update_def upd_term_def Let_def)
    next
      case False
      with 3 same show ?thesis
        by (intro exI [of _ "screen ?tm"] exI [of _ m] exI [of _ h]) (simp add: update_def line_update_def upd_term_def Let_def)
    qed
  qed
qed


lemma upd_term_simps [simp]:
  "current_terminal (upd_term t f k) = current_terminal k"
  "length (terminals (upd_term t f k)) = length (terminals k)"
  "t < length (terminals k) \<Longrightarrow> terminals (upd_term t f k) ! t = f (terminals k ! t)"
  "t' \<noteq> t \<Longrightarrow> terminals (upd_term t f k) ! t' = terminals k ! t'"
  by (simp_all add: upd_term_def)

lemma reading_line_update [simp]: "reading (line_update scr key tm) = reading tm"
  by (simp add: line_update_def Let_def)

text \<open>The keys of a line before Enter, one after another.\<close>

fun type_keys ::
  "'h outb \<Rightarrow> translation \<Rightarrow> u16 list \<Rightarrow> kbd_state \<times> memory \<times> 'h \<Rightarrow> (kbd_state \<times> memory \<times> 'h) option" where
  "type_keys outb tr [] st = Some st"
| "type_keys outb tr (key # keys) st =
     (case update outb tr key st of None \<Rightarrow> None | Some st \<Rightarrow> type_keys outb tr keys st)"

lemma type_keys_append:
  "type_keys outb tr (xs @ ys) st =
     (case type_keys outb tr xs st of None \<Rightarrow> None | Some st \<Rightarrow> type_keys outb tr ys st)"
  by (induction xs arbitrary: st) (auto split: option.split)

text \<open>The line that a sequence of keys leaves: backspaces erase, and text beyond 126 characters is dropped.\<close>

definition edit_line :: "u16 list \<Rightarrow> bytes" where
  "edit_line keys =
     fold (\<lambda>key s. if key = KEY_BACKSPACE then butlast s
                   else if length s < 126 then s @ [ucast key] else s) keys []"

lemma length_edit_line_le: "length (edit_line keys) \<le> 126"
proof -
  have "length s \<le> 126 \<Longrightarrow> length (fold (\<lambda>key s. if key = KEY_BACKSPACE then butlast s
      else if length s < 126 then s @ [ucast key] else s) keys s) \<le> 126" for s :: bytes
    by (induction keys arbitrary: s) (auto simp: Suc_le_eq)
  then show ?thesis by (simp add: edit_line_def)
qed

text \<open>Every key is handled, and the abstract editors step with the terminals.\<close>

lemma type_keys_refines:
  assumes "term_ok (terminals k ! unat (current_terminal k))" "KEY_RETURN \<notin> set keys"
    and "unat (current_terminal k) < length (terminals k)"
  shows "\<exists>k' m' h'. type_keys outb tr keys (k, m, h) = Some (k', m', h') \<and>
    current_terminal k' = current_terminal k \<and> length (terminals k') = length (terminals k) \<and>
    term_ok (terminals k' ! unat (current_terminal k)) \<and>
    reading (terminals k' ! unat (current_terminal k)) = reading (terminals k ! unat (current_terminal k)) \<and>
    editor_of (terminals k' ! unat (current_terminal k)) =
      fold (\<lambda>key e. ed_key key (reading (terminals k ! unat (current_terminal k))) e) keys
        (editor_of (terminals k ! unat (current_terminal k)))"
  using assms
proof (induction keys arbitrary: k m h)
  case (Cons key keys)
  let ?t = "unat (current_terminal k)"
  obtain scr m1 h1 where u: "update outb tr key (k, m, h) = Some (upd_term ?t (line_update scr key) k, m1, h1)"
    using update_eq [of k key outb tr m h] Cons.prems by auto
  let ?k = "upd_term ?t (line_update scr key) k"
  have r: "term_ok (terminals ?k ! ?t)" "reading (terminals ?k ! ?t) = reading (terminals k ! ?t)"
    "editor_of (terminals ?k ! ?t) = ed_key key (reading (terminals k ! ?t)) (editor_of (terminals k ! ?t))"
    using line_update_refines [of "terminals k ! ?t" key scr] Cons.prems by auto
  show ?case
    using Cons.IH [of ?k m1 h1] Cons.prems r u by simp
qed simp

lemma fold_ed_key:
  assumes "ed_text e = []" "KEY_RETURN \<notin> set keys"
  shows "fold (\<lambda>key e. ed_key key rd e) keys e =
    \<lparr>ed_text = [], ed_input = fold (\<lambda>key s. if key = KEY_BACKSPACE then butlast s
       else if length s < 126 then s @ [ucast key] else s) keys (ed_input e)\<rparr>"
  using assms
proof (induction keys arbitrary: e)
  case (Cons key keys)
  then have "ed_text (ed_key key rd e) = []" by (simp add: ed_key_def)
  with Cons show ?case by (auto simp: ed_key_def ed_len_def)
qed simp

section \<open>Properties\<close>

lemma terminal_read_finish_eq:
  assumes "term_ok (terminals k ! t)" "0 \<le> nbytes"
    and "n = (if 128 < nbytes then 128 else nat nbytes)" "c = unat (buf_count (terminals k ! t))"
  shows "terminal_read_finish tr m t buf nbytes k =
    Some (int (min n c), store_bytes tr m buf (take n (line_buf (terminals k ! t))),
      upd_term t (\<lambda>tm. tm\<lparr>line_buf := drop n (take c (line_buf tm)) @ replicate n 0 @ drop (c - n + n) (line_buf tm),
        buf_count := of_nat (c - n), reading := False, hit_enter := False\<rparr>) k)"
proof -
  let ?tm = "terminals k ! t"
  have ok: "length (line_buf ?tm) = 128" "c \<le> 128" using assms by (auto simp: term_ok_def)
  have c: "uint (buf_count ?tm) = int c" using assms(4) by simp
  have n: "(if nbytes > int 128 then int 128 else nbytes) = int n" "n \<le> 128" using assms(2,3) by auto
  have d: "(if int c - int n < 0 then 0 else int c - int n) = int (c - n)" by auto
  have r: "(if int n > int c then int c else int n) = int (min n c)" by auto
  have b: "\<not> (int n < 0 \<or> int (c - n) + int n > int 128)" using ok n by auto
  have l: "take (c - n) (take (c - n) (drop n (line_buf ?tm)) @ drop (c - n) (line_buf ?tm)) =
      drop n (take c (line_buf ?tm))" using ok by (auto simp: drop_take)
  have x: "drop (c - n + n) (take (c - n) (drop n (line_buf ?tm)) @ drop (c - n) (line_buf ?tm)) =
      drop (c - n + n) (line_buf ?tm)" using ok by (cases "n \<le> c") auto
  show ?thesis
    unfolding terminal_read_finish_def Let_def c n(1) d r using b l x
    by (auto simp: upd_term_def)
qed

text \<open>
  C15. Line editing. One key given to \<^const>\<open>update\<close> never fails on a foreground terminal whose line
  buffer is in order (the Enter key needs one free byte), changes no other terminal, keeps the
  buffer in order, and is the step of the abstract editor: Enter finishes the line, or throws it
  away when nobody reads; Backspace erases the last character of the current input and never one
  of a finished line; another key is appended up to 126 characters.
\<close>

theorem update_edits_line:
  assumes "term_ok (terminals k ! unat (current_terminal k))"
    and "unat (current_terminal k) < length (terminals k)"
    and "key = KEY_RETURN \<Longrightarrow> unat (buf_count (terminals k ! unat (current_terminal k))) < 128"
  shows "\<exists>k' m' h'. update outb tr key (k, m, h) = Some (k', m', h') \<and>
    current_terminal k' = current_terminal k \<and>
    (\<forall>t. t \<noteq> unat (current_terminal k) \<longrightarrow> terminals k' ! t = terminals k ! t) \<and>
    term_ok (terminals k' ! unat (current_terminal k)) \<and>
    editor_of (terminals k' ! unat (current_terminal k)) =
      ed_key key (reading (terminals k ! unat (current_terminal k)))
        (editor_of (terminals k ! unat (current_terminal k)))"
proof -
  obtain scr m' h' where "update outb tr key (k, m, h) =
      Some (upd_term (unat (current_terminal k)) (line_update scr key) k, m', h')"
    using update_eq [of k key outb tr m h] assms by auto
  with line_update_refines [of "terminals k ! unat (current_terminal k)" key scr] assms show ?thesis by simp
qed

text \<open>A terminal on which the word \<open>hi\<close> has been typed, and the keyboard with it in the foreground.\<close>

definition demo_term :: terminal_t where
  "demo_term = \<lparr>screen = \<lparr>scr_x = 2, scr_y = 0, scr_mem = 0xB8000\<rparr>,
     line_buf = [104, 105] @ replicate 126 0, buf_count = 2, input_len = 2, hit_enter = False, reading = True\<rparr>"

definition demo_kbd :: kbd_state where
  "demo_kbd = \<lparr>terminals = [demo_term, demo_term, demo_term], r_shift_key = False, l_shift_key = False,
     r_ctrl_key = False, l_ctrl_key = False, r_alt_key = False, l_alt_key = False, caps_lock = False,
     current_terminal = 0\<rparr>"

lemma demo_kbd_simps [simp]:
  "terminals demo_kbd ! 0 = demo_term" "length (terminals demo_kbd) = 3" "current_terminal demo_kbd = 0"
  by (simp_all add: demo_kbd_def)

lemma demo_term_ok [simp]: "term_ok demo_term"
  by (simp add: demo_term_def term_ok_def)

theorem update_edits_line_witness:
  "\<exists>k' m' h'. update (\<lambda>v a h. h + 1) (\<lambda>a. a) KEY_BACKSPACE (demo_kbd, \<lambda>_. 0, 0 :: nat) = Some (k', m', h') \<and>
     editor_of (terminals k' ! 0) = \<lparr>ed_text = [], ed_input = [104]\<rparr>"
proof -
  have "editor_of demo_term = \<lparr>ed_text = [], ed_input = [104, 105]\<rparr>"
    by (simp add: demo_term_def editor_of_def)
  then show ?thesis
    using update_edits_line [of demo_kbd KEY_BACKSPACE "\<lambda>v a h. h + 1" "\<lambda>a. a" "\<lambda>_. 0" "0 :: nat"]
    by (auto simp: ed_key_def)
qed

lemma type_line:
  assumes "term_ok (terminals k ! t)" "t = unat (current_terminal k)" "t < length (terminals k)"
    and "reading (terminals k ! t)" "buf_count (terminals k ! t) = 0" "KEY_RETURN \<notin> set keys"
  shows "\<exists>k1 m1 h1. type_keys outb tr (keys @ [KEY_RETURN]) (k, m, h) = Some (k1, m1, h1) \<and>
    t < length (terminals k1) \<and> term_ok (terminals k1 ! t) \<and> hit_enter (terminals k1 ! t) \<and>
    unat (buf_count (terminals k1 ! t)) = Suc (length (edit_line keys)) \<and>
    take (Suc (length (edit_line keys))) (line_buf (terminals k1 ! t)) = edit_line keys @ [10]"
proof -
  let ?l = "edit_line keys"
  obtain k0 m0 h0 where k0: "type_keys outb tr keys (k, m, h) = Some (k0, m0, h0)"
    "current_terminal k0 = current_terminal k" "length (terminals k0) = length (terminals k)"
    "term_ok (terminals k0 ! t)" "reading (terminals k0 ! t)"
    "editor_of (terminals k0 ! t) = fold (\<lambda>key e. ed_key key True e) keys (editor_of (terminals k ! t))"
    using type_keys_refines [of k keys outb tr m h] assms by auto
  have "editor_of (terminals k ! t) = \<lparr>ed_text = [], ed_input = []\<rparr>"
    using assms(5) by (simp add: editor_of_def)
  then have e0: "editor_of (terminals k0 ! t) = \<lparr>ed_text = [], ed_input = ?l\<rparr>"
    using k0(6) assms(6) by (simp add: fold_ed_key edit_line_def)
  then have c0: "unat (buf_count (terminals k0 ! t)) = length ?l"
    using ed_len_editor_of [OF k0(4)] by (simp add: ed_len_def)
  then have lt: "unat (buf_count (terminals k0 ! t)) < 128" using length_edit_line_le [of keys] by simp
  then obtain scr m1 h1 where k1: "update outb tr KEY_RETURN (k0, m0, h0) =
      Some (upd_term t (line_update scr KEY_RETURN) k0, m1, h1)"
    using update_eq [of k0 KEY_RETURN outb tr m0 h0] assms(2) k0 by auto
  let ?tm = "line_update scr KEY_RETURN (terminals k0 ! t)"
  have r: "term_ok ?tm" "editor_of ?tm = \<lparr>ed_text = ?l @ [10], ed_input = []\<rparr>"
    using line_update_refines [OF k0(4), of KEY_RETURN scr] lt k0(5) e0 by (simp_all add: ed_key_def)
  have he: "hit_enter ?tm" "input_len ?tm = 0" using k0(5) by (simp_all add: line_update_def)
  have c: "unat (buf_count ?tm) = Suc (length ?l)"
    using ed_len_editor_of [OF r(1)] r(2) by (simp add: ed_len_def)
  have "take (Suc (length ?l)) (line_buf ?tm) = ?l @ [10]"
    using r(2) he c by (simp add: editor_of_def)
  with k0 k1 r(1) he c assms(3) show ?thesis by (simp add: type_keys_append)
qed

text \<open>
  C16. A typed line is what the program reads. On an empty foreground terminal whose process is
  reading, any sequence of keys followed by Enter is handled without failure and releases the
  reader, and the rest of \<^verbatim>\<open>terminal_read\<close> then returns the length of the edited line
  with its newline, has put exactly that line into the caller's buffer, and leaves the terminal
  empty and no longer reading.
\<close>

theorem typed_line_is_read:
  assumes "inj_on tr mapped" "rng buf (nat nbytes) \<subseteq> mapped"
    and "term_ok (terminals k ! t)" "t = unat (current_terminal k)" "t < length (terminals k)"
    and "reading (terminals k ! t)" "buf_count (terminals k ! t) = 0" "KEY_RETURN \<notin> set keys"
    and "int (length (edit_line keys)) < nbytes" "nbytes \<le> 128"
  shows "\<exists>k1 m1 h1 m2 k2. type_keys outb tr (keys @ [KEY_RETURN]) (k, m, h) = Some (k1, m1, h1) \<and>
    hit_enter (terminals k1 ! t) \<and>
    terminal_read_finish tr m1 t buf nbytes k1 = Some (int (length (edit_line keys @ [10])), m2, k2) \<and>
    load_bytes tr m2 buf (length (edit_line keys @ [10])) = edit_line keys @ [10] \<and>
    buf_count (terminals k2 ! t) = 0 \<and> \<not> reading (terminals k2 ! t)"
proof -
  let ?l = "edit_line keys" and ?n = "nat nbytes"
  obtain k1 m1 h1 where k1: "type_keys outb tr (keys @ [KEY_RETURN]) (k, m, h) = Some (k1, m1, h1)"
    "t < length (terminals k1)" "term_ok (terminals k1 ! t)" "hit_enter (terminals k1 ! t)"
    "unat (buf_count (terminals k1 ! t)) = Suc (length ?l)"
    "take (Suc (length ?l)) (line_buf (terminals k1 ! t)) = ?l @ [10]"
    using type_line [OF assms(3-8), of outb tr m h] by blast
  let ?tm = "terminals k1 ! t"
  let ?s = "store_bytes tr m1 buf (take ?n (line_buf ?tm))"
  have n: "Suc (length ?l) \<le> ?n" "?n \<le> 128" using assms(9,10) by linarith+
  have "load_bytes tr ?s buf ?n = take ?n (line_buf ?tm)"
    using address_space.load_store_same [OF address_space.intro [OF assms(1)], of buf "take ?n (line_buf ?tm)" m1]
      assms(2) n k1(3) by (simp add: term_ok_def)
  then have "take (Suc (length ?l)) (load_bytes tr ?s buf ?n) = ?l @ [10]"
    using k1(6) n by (simp add: min_def)
  then have ld: "load_bytes tr ?s buf (Suc (length ?l)) = ?l @ [10]"
    using n by (simp add: take_load_bytes)
  have "terminal_read_finish tr m1 t buf nbytes k1 = Some (int (Suc (length ?l)), ?s,
      upd_term t (\<lambda>tm. tm\<lparr>line_buf := drop ?n (take (Suc (length ?l)) (line_buf tm)) @ replicate ?n 0 @
        drop (Suc (length ?l) - ?n + ?n) (line_buf tm),
        buf_count := of_nat (Suc (length ?l) - ?n), reading := False, hit_enter := False\<rparr>) k1)"
    using terminal_read_finish_eq [of k1 t nbytes ?n "Suc (length ?l)" tr m1 buf] k1(3,5) n assms(9,10)
    by (simp add: min_def)
  with k1 ld n show ?thesis by auto
qed

definition empty_kbd :: kbd_state where
  "empty_kbd = upd_term 0 (\<lambda>tm. tm\<lparr>line_buf := replicate 128 0, buf_count := 0, input_len := 0\<rparr>) demo_kbd"

lemma empty_kbd_simps [simp]:
  "current_terminal empty_kbd = 0" "length (terminals empty_kbd) = 3"
  "term_ok (terminals empty_kbd ! 0)" "reading (terminals empty_kbd ! 0)" "buf_count (terminals empty_kbd ! 0) = 0"
  by (simp_all add: empty_kbd_def term_ok_def demo_term_def)

theorem typed_line_is_read_witness:
  "\<exists>k1 m1 h1 m2 k2. type_keys (\<lambda>v a h. h + 1) (\<lambda>a. a) [108, 116, 8, 115, KEY_RETURN] (empty_kbd, \<lambda>_. 0, 0 :: nat) =
       Some (k1, m1, h1) \<and>
     terminal_read_finish (\<lambda>a. a) m1 0 0x8000000 128 k1 = Some (3, m2, k2) \<and>
     load_bytes (\<lambda>a. a) m2 0x8000000 3 = [108, 115, 10]"
proof -
  have e: "edit_line [108, 116, 8, 115] = [108, 115]" by (simp add: edit_line_def)
  then show ?thesis
    using typed_line_is_read [of "\<lambda>a. a" UNIV "0x8000000" 128 empty_kbd 0 "[108, 116, 8, 115]"
        "\<lambda>v a h. h + 1" "\<lambda>_. 0" "0 :: nat"]
    by (auto simp: numeral_3_eq_3)
qed

text \<open>
  Reading part of what was typed. For a count from 0 up, \<^verbatim>\<open>terminal_read\<close> takes at
  most 128 bytes from the front of the typed text, writes only the caller's buffer, and what it
  does not take stays typed, in order, at the front of the line buffer.
\<close>

theorem terminal_read_keeps_rest:
  assumes "term_ok (terminals k ! t)" "t < length (terminals k)" "0 \<le> nbytes" "nbytes \<le> 128"
  shows "\<exists>m' k'. terminal_read_finish tr m t buf nbytes k =
      Some (int (min (nat nbytes) (unat (buf_count (terminals k ! t)))), m', k') \<and>
    (\<forall>p. p \<notin> tr ` rng buf (nat nbytes) \<longrightarrow> m' p = m p) \<and>
    length (line_buf (terminals k' ! t)) = 128 \<and>
    take (unat (buf_count (terminals k' ! t))) (line_buf (terminals k' ! t)) =
      drop (nat nbytes) (take (unat (buf_count (terminals k ! t))) (line_buf (terminals k ! t)))"
proof -
  let ?n = "nat nbytes" and ?c = "unat (buf_count (terminals k ! t))" and ?lb = "line_buf (terminals k ! t)"
  have ok: "length ?lb = 128" "?c \<le> 128" "?n \<le> 128" using assms by (auto simp: term_ok_def)
  have e: "terminal_read_finish tr m t buf nbytes k = Some (int (min ?n ?c), store_bytes tr m buf (take ?n ?lb),
      upd_term t (\<lambda>tm. tm\<lparr>line_buf := drop ?n (take ?c (line_buf tm)) @ replicate ?n 0 @ drop (?c - ?n + ?n) (line_buf tm),
        buf_count := of_nat (?c - ?n), reading := False, hit_enter := False\<rparr>) k)"
    by (rule terminal_read_finish_eq) (use assms in auto)
  have u: "unat (of_nat (?c - ?n) :: u16) = ?c - ?n"
    using ok by (simp add: unat_of_nat take_bit_nat_eq_self)
  have m: "p \<notin> tr ` rng buf ?n \<Longrightarrow> store_bytes tr m buf (take ?n ?lb) p = m p" for p
    using ok by (intro store_bytes_frame) simp_all
  show ?thesis unfolding e using assms(2) ok u m by auto
qed

theorem terminal_read_keeps_rest_witness:
  "\<exists>m' k'. terminal_read_finish (\<lambda>a. a) (\<lambda>_. 7) 0 0x100 1 demo_kbd = Some (1, m', k') \<and> m' 0x101 = 7 \<and>
     take (unat (buf_count (terminals k' ! 0))) (line_buf (terminals k' ! 0)) = [105]"
proof -
  have "(0x101 :: addr) \<notin> rng 0x100 1" by (simp add: rng_def)
  moreover have "buf_count demo_term = 2" "drop 1 (take 2 (line_buf demo_term)) = [105]"
    by (simp_all add: demo_term_def)
  ultimately show ?thesis
    using terminal_read_keeps_rest [of demo_kbd 0 1 "\<lambda>a. a" "\<lambda>_. 7" "0x100"] by auto
qed

text \<open>
  C17. Reading resets the buffer but not the number of erasable characters. When a read takes all
  the text while characters of an unfinished input are among it, the next Backspace decrements
  the empty buffer's count to 65535 and stores behind the line buffer, which is the failure
  value of the model.
\<close>

theorem backspace_after_read_overruns:
  assumes "term_ok (terminals k ! t)" "t = unat (current_terminal k)" "t < length (terminals k)"
    and "input_len (terminals k ! t) \<noteq> 0"
    and "int (unat (buf_count (terminals k ! t))) \<le> nbytes"
  shows "\<exists>r m' k'. terminal_read_finish tr m t buf nbytes k = Some (r, m', k') \<and>
    update outb tr KEY_BACKSPACE (k', m', h) = None"
proof -
  let ?n = "if 128 < nbytes then 128 else nat nbytes" and ?c = "unat (buf_count (terminals k ! t))"
  have "?c \<le> 128" using assms(1) by (simp add: term_ok_def)
  moreover have "?c \<le> nat nbytes" using assms(5) by linarith
  ultimately have "?c - ?n = 0" by simp
  moreover have nn: "0 \<le> nbytes" using assms(5) by linarith
  moreover have "terminal_read_finish tr m t buf nbytes k = Some (int (min ?n ?c), store_bytes tr m buf (take ?n (line_buf (terminals k ! t))),
      upd_term t (\<lambda>tm. tm\<lparr>line_buf := drop ?n (take ?c (line_buf tm)) @ replicate ?n 0 @ drop (?c - ?n + ?n) (line_buf tm),
        buf_count := of_nat (?c - ?n), reading := False, hit_enter := False\<rparr>) k)"
    by (rule terminal_read_finish_eq) (use assms(1) nn in auto)
  moreover have "unat (- 1 :: u16) = 65535" by (simp add: unsigned_minus_1_eq_mask mask_eq_exp_minus_1)
  ultimately show ?thesis
    using assms(2-4) by (auto simp: update_def Let_def split: prod.split)
qed

theorem backspace_after_read_overruns_witness:
  "\<exists>r m' k'. terminal_read_finish (\<lambda>a. a) (\<lambda>_. 0) 0 0x8000000 128 demo_kbd = Some (r, m', k') \<and>
     update (\<lambda>v a h. h + 1) (\<lambda>a. a) KEY_BACKSPACE (k', m', 0 :: nat) = None"
  using backspace_after_read_overruns [of demo_kbd 0 128 "\<lambda>a. a" "\<lambda>_. 0" "0x8000000" "\<lambda>v a h. h + 1" "0 :: nat"]
  by (simp add: demo_term_def [THEN arg_cong [of _ _ input_len]] demo_term_def [THEN arg_cong [of _ _ buf_count]])

end
