(* ===== verification/Kernel.thy ===== *)
theory Kernel
  imports Fs Rtc Terminal
begin

text \<open>
  The state of the kernel and the file operations tables.

  \<open>kernel\<close> collects the state of the components as the system calls and the scheduler see it: the
  device hardware, physical memory, the process table, the paging structures, the process control
  blocks by their addresses, the keyboard and clock drivers, and the registers that the code
  reads and writes by inline assembly. \<open>machine\<close> holds what does not change while the kernel
  runs: the port operations, the addresses of the page tables and of the literal \<open>"shell"\<close>.

  Process control blocks live at the bottom of the kernel stacks (\<open>pcb_of_kernel_stack\<close> of theory
  \<open>Process\<close>). They, the process table, the page tables and the drivers' static data are records
  beside the byte memory, so a store through a pointer into one of them is not a change of the
  record: the code does not check the pointers of a program, and what is said of these records
  holds for the calls whose pointers are in the caller's own page (\<open>prog_page\<close>). The addresses of local arrays of a
  system call are the compiler's choice and come as the argument \<open>frame\<close>, together with the
  contents of locals that the code copies without having set them.

  A result \<open>None\<close> is a call through a \<open>NULL\<close> pointer, an access outside an array of the control
  block, or a loop that does not end.
\<close>

section \<open>State\<close>

record 'h machine =
  m_inb :: "'h inb"
  m_outb :: "'h outb"
  m_lay :: layout
  m_shell :: addr

record frame =
  fr_command_buf :: addr
  fr_args :: addr
  fr_buf :: addr
  fr_dentry :: addr
  fr_uninit :: "nat \<Rightarrow> u32"

record 'h kernel =
  hw :: 'h
  mem :: memory
  ptab :: ptable
  pg :: paging
  pcbs :: "addr \<Rightarrow> pcb_t"
  kbd :: kbd_state
  rtc :: rtc_state
  bootblock :: addr
  next_execute :: addr
  pit_rate :: u16
  tss_esp0 :: u32
  tss_ss0 :: u16
  r_esp :: u32
  r_ebp :: u32

text \<open>
  The translation that is in force: the identity until \<open>virtualmem_init\<close> switches paging on, the
  walk through the loaded page directory from then on. An access to a page that is absent raises
  a page fault, which is outside of this function (it has the address itself there); theory
  \<open>Virtualmem\<close> says which pages are present.
\<close>

definition cur_tr :: "'h machine \<Rightarrow> 'h kernel \<Rightarrow> translation" where
  "cur_tr mc k = proc_tr (m_lay mc) (pg k) (pd_of (pg k) (cr3 (pg k)))"

definition cur_pcb_at :: "'h kernel \<Rightarrow> addr" where
  "cur_pcb_at k = pcb_of_esp (r_esp k)"

definition cur_pcb :: "'h kernel \<Rightarrow> pcb_t" where
  "cur_pcb k = pcbs k (cur_pcb_at k)"

definition upd_pcb :: "addr \<Rightarrow> (pcb_t \<Rightarrow> pcb_t) \<Rightarrow> 'h kernel \<Rightarrow> 'h kernel" where
  "upd_pcb a f k = k\<lparr>pcbs := (pcbs k)(a := f (pcbs k a))\<rparr>"

definition upd_fd :: "nat \<Rightarrow> (fd_t \<Rightarrow> fd_t) \<Rightarrow> 'h kernel \<Rightarrow> 'h kernel" where
  "upd_fd i f k = upd_pcb (cur_pcb_at k) (\<lambda>p. p\<lparr>files := (files p)[i := f (files p ! i)]\<rparr>) k"

lemma upd_pcb_simps [simp]:
  "hw (upd_pcb a f k) = hw k" "mem (upd_pcb a f k) = mem k" "ptab (upd_pcb a f k) = ptab k"
  "pg (upd_pcb a f k) = pg k" "kbd (upd_pcb a f k) = kbd k" "rtc (upd_pcb a f k) = rtc k"
  "bootblock (upd_pcb a f k) = bootblock k" "next_execute (upd_pcb a f k) = next_execute k"
  "tss_esp0 (upd_pcb a f k) = tss_esp0 k" "r_esp (upd_pcb a f k) = r_esp k" "r_ebp (upd_pcb a f k) = r_ebp k"
  "pcbs (upd_pcb a f k) = (pcbs k)(a := f (pcbs k a))"
  by (simp_all add: upd_pcb_def)

lemma upd_fd_simps [simp]:
  "hw (upd_fd i f k) = hw k" "mem (upd_fd i f k) = mem k" "ptab (upd_fd i f k) = ptab k"
  "pg (upd_fd i f k) = pg k" "kbd (upd_fd i f k) = kbd k" "rtc (upd_fd i f k) = rtc k"
  "bootblock (upd_fd i f k) = bootblock k" "next_execute (upd_fd i f k) = next_execute k"
  "tss_esp0 (upd_fd i f k) = tss_esp0 k" "r_esp (upd_fd i f k) = r_esp k" "r_ebp (upd_fd i f k) = r_ebp k"
  "cur_pcb_at (upd_fd i f k) = cur_pcb_at k"
  "cur_pcb (upd_fd i f k) = (cur_pcb k)\<lparr>files := (files (cur_pcb k))[i := f (files (cur_pcb k) ! i)]\<rparr>"
  by (simp_all add: upd_fd_def cur_pcb_def cur_pcb_at_def)

lemma cur_pcb_updates [simp]:
  "cur_pcb (k\<lparr>mem := m\<rparr>) = cur_pcb k" "cur_pcb (k\<lparr>hw := h\<rparr>) = cur_pcb k" "cur_pcb (k\<lparr>rtc := s\<rparr>) = cur_pcb k"
  "cur_pcb (k\<lparr>kbd := kb\<rparr>) = cur_pcb k" "cur_pcb (k\<lparr>ptab := pt\<rparr>) = cur_pcb k" "cur_pcb (k\<lparr>pg := g\<rparr>) = cur_pcb k"
  "cur_pcb_at (k\<lparr>mem := m\<rparr>) = cur_pcb_at k" "cur_pcb_at (k\<lparr>hw := h\<rparr>) = cur_pcb_at k"
  "cur_pcb_at (k\<lparr>rtc := s\<rparr>) = cur_pcb_at k" "cur_pcb_at (k\<lparr>kbd := kb\<rparr>) = cur_pcb_at k"
  "cur_pcb_at (k\<lparr>ptab := pt\<rparr>) = cur_pcb_at k" "cur_pcb_at (k\<lparr>pg := g\<rparr>) = cur_pcb_at k"
  by (simp_all add: cur_pcb_def cur_pcb_at_def)

lemma cur_tr_flat:
  assumes "paging_on (pg k)" "pd_of (pg k) (cr3 (pg k)) = flat_pd"
  shows "cur_tr mc k = (\<lambda>a. a)"
  using flat_tr [OF assms(1), of "m_lay mc"] by (simp add: cur_tr_def assms(2))

lemma cur_tr_cong: "pg k' = pg k \<Longrightarrow> cur_tr mc k' = cur_tr mc k"
  by (simp add: cur_tr_def)

section \<open>File operations\<close>

text \<open>
  The calls through a table of file operations. \<open>terminal_read\<close> and \<open>rtc_read\<close> wait for an
  interrupt; \<open>fops_read\<close> is the part of a read before the wait and says whether it blocks, and
  \<open>fops_read_resume\<close> is the part behind it, which runs once the interrupt handler has set the
  condition the loop waits for.
\<close>

datatype read_result = Read_ret u32 | Read_blocked

definition fops_open :: "'h machine \<Rightarrow> fops_t \<Rightarrow> addr \<Rightarrow> 'h kernel \<Rightarrow> u32 \<times> 'h kernel" where
  "fops_open mc f filename k =
     (case f of
        rtc_fops \<Rightarrow> (let (r, s, h) = rtc_open (m_inb mc) (m_outb mc) (rtc k, hw k) in (r, k\<lparr>rtc := s, hw := h\<rparr>))
      | term_fops \<Rightarrow> (terminal_open filename, k)
      | fs_fops \<Rightarrow> (fs_open filename, k)
      | dir_fops \<Rightarrow> (fs_open filename, k))"

definition fops_close :: "'h machine \<Rightarrow> fops_t \<Rightarrow> u32 \<Rightarrow> 'h kernel \<Rightarrow> u32 \<times> 'h kernel" where
  "fops_close mc f fd k =
     (case f of
        rtc_fops \<Rightarrow> (let (r, s, h) = rtc_close (m_inb mc) (m_outb mc) (pid (cur_pcb k)) (rtc k, hw k)
                      in (r, k\<lparr>rtc := s, hw := h\<rparr>))
      | term_fops \<Rightarrow> (terminal_close fd, k)
      | fs_fops \<Rightarrow> (fs_close fd, k)
      | dir_fops \<Rightarrow> (fs_close fd, k))"

definition fops_write ::
  "'h machine \<Rightarrow> fops_t \<Rightarrow> u32 \<Rightarrow> addr \<Rightarrow> u32 \<Rightarrow> 'h kernel \<Rightarrow> (u32 \<times> 'h kernel) option" where
  "fops_write mc f fd buf nbytes k =
     (case f of
        rtc_fops \<Rightarrow>
          (case rtc_write (m_inb mc) (m_outb mc) (cur_tr mc k) (mem k) (pid (cur_pcb k)) buf (rtc k, hw k) of
             None \<Rightarrow> None | Some (r, s, h) \<Rightarrow> Some (r, k\<lparr>rtc := s, hw := h\<rparr>))
      | term_fops \<Rightarrow>
          (let (r, kb, m, h) = terminal_write (m_outb mc) (cur_tr mc k) (unat (term_num (cur_pcb k))) buf (sint nbytes)
                 (kbd k, mem k, hw k)
           in Some (of_int r, k\<lparr>kbd := kb, mem := m, hw := h\<rparr>))
      | fs_fops \<Rightarrow> Some (fs_write fd buf nbytes, k)
      | dir_fops \<Rightarrow> Some (fs_write fd buf nbytes, k))"

definition fops_read ::
  "'h machine \<Rightarrow> addr \<Rightarrow> fops_t \<Rightarrow> nat \<Rightarrow> addr \<Rightarrow> u32 \<Rightarrow> 'h kernel \<Rightarrow> (read_result \<times> 'h kernel) option" where
  "fops_read mc dentry f fd buf nbytes k =
     (case f of
        rtc_fops \<Rightarrow> Some (Read_blocked, k\<lparr>rtc := rtc_read_start (pid (cur_pcb k)) (rtc k)\<rparr>)
      | term_fops \<Rightarrow>
          (let (r, kb) = terminal_read_start (unat (term_num (cur_pcb k))) buf (kbd k)
           in Some (case r of Some r \<Rightarrow> Read_ret r | None \<Rightarrow> Read_blocked, k\<lparr>kbd := kb\<rparr>))
      | fs_fops \<Rightarrow>
          (let (r, f, m) = fs_read (cur_tr mc k) (bootblock k) (mem k) (files (cur_pcb k) ! fd) buf nbytes
           in Some (Read_ret r, upd_fd fd (\<lambda>_. f) (k\<lparr>mem := m\<rparr>)))
      | dir_fops \<Rightarrow>
          (case dir_read (cur_tr mc k) (bootblock k) (mem k) dentry (files (cur_pcb k) ! fd) buf nbytes of
             None \<Rightarrow> None
           | Some (r, f, m) \<Rightarrow> Some (Read_ret r, upd_fd fd (\<lambda>_. f) (k\<lparr>mem := m\<rparr>))))"

definition fops_read_resume ::
  "'h machine \<Rightarrow> fops_t \<Rightarrow> addr \<Rightarrow> u32 \<Rightarrow> 'h kernel \<Rightarrow> (read_result \<times> 'h kernel) option" where
  "fops_read_resume mc f buf nbytes k =
     (case f of
        rtc_fops \<Rightarrow> Some (if rtc_read_done (pid (cur_pcb k)) (rtc k) then Read_ret 0 else Read_blocked, k)
      | term_fops \<Rightarrow>
          (let t = unat (term_num (cur_pcb k))
           in if \<not> hit_enter (terminals (kbd k) ! t) then Some (Read_blocked, k)
              else case terminal_read_finish (cur_tr mc k) (mem k) t buf (sint nbytes) (kbd k) of
                     None \<Rightarrow> None
                   | Some (r, m, kb) \<Rightarrow> Some (Read_ret (of_int r), k\<lparr>mem := m, kbd := kb\<rparr>))
      | _ \<Rightarrow> None)"

end
