(* ===== verification/Files.thy ===== *)
theory Files
  imports Kernel
begin

text \<open>
  The file system calls of \<^verbatim>\<open>student-distrib/sys_calls.c\<close>: \<open>open\<close>, \<open>close\<close>, \<open>read\<close> and
  \<open>write\<close>, over the descriptor table of the current process.
\<close>

section \<open>System calls\<close>

text \<open>File descriptors are \<open>int32_t\<close>; the checks on them are signed.\<close>

function open_fd_loop :: "nat \<Rightarrow> fd_t list \<Rightarrow> nat option" where
  "open_fd_loop i fds =
     (if i < 8 then if \<not> flags (fds ! i) \<noteq> 0 then Some i else open_fd_loop (i + 1) fds
      else None)"
  by pat_completeness auto
termination
  by (relation "measure (\<lambda>(i, fds). 8 - i)") auto

declare open_fd_loop.simps [simp del]

definition open_fill :: "addr \<Rightarrow> u32 \<Rightarrow> u32 \<Rightarrow> fops_t option \<Rightarrow> fd_t \<Rightarrow> fd_t" where
  "open_fill bb ftype ino f fd =
     (let fd = (if ftype = RTC_FTYPE \<or> ftype = DIR_FTYPE then fd\<lparr>inode := 0, inode_num := ino\<rparr>
                else if ftype = FILE_FTYPE then fd\<lparr>inode := get_inode_ptr bb ino, inode_num := ino\<rparr>
                else fd)
      in fd\<lparr>fops := f, flags := FD_LIVE\<rparr>)"

definition sys_open :: "'h machine \<Rightarrow> frame \<Rightarrow> addr \<Rightarrow> 'h kernel \<Rightarrow> (u32 \<times> 'h kernel) option" where
  "sys_open mc fr filename k =
     (case open_fd_loop 2 (files (cur_pcb k)) of
        None \<Rightarrow> Some (-1, k)
      | Some i \<Rightarrow>
         (case read_dentry_by_name (cur_tr mc k) (bootblock k) (mem k) filename (fr_dentry fr) of
            None \<Rightarrow> None
          | Some (r, m) \<Rightarrow>
              let k = k\<lparr>mem := m\<rparr>
              in if r = -1 then Some (-1, k)
                 else
                   let ftype = dentry_ftype (cur_tr mc k) m (fr_dentry fr);
                       ino = dentry_inode (cur_tr mc k) m (fr_dentry fr);
                       f = get_device_fops ftype (ptab k);
                       k = upd_fd i (open_fill (bootblock k) ftype ino f) k
                   in case f of None \<Rightarrow> None
                      | Some f \<Rightarrow> Some (of_nat i, snd (fops_open mc f filename k))))"

definition sys_close :: "'h machine \<Rightarrow> u32 \<Rightarrow> 'h kernel \<Rightarrow> (u32 \<times> 'h kernel) option" where
  "sys_close mc fd k =
     (if sint fd < 2 \<or> sint fd \<ge> FILE_ARRAY_LEN then Some (-1, k)
      else
        let file_desc = files (cur_pcb k) ! unat fd
        in if flags file_desc \<noteq> 0 then
             case fops file_desc of None \<Rightarrow> None
             | Some f \<Rightarrow>
                 let k = snd (fops_close mc f fd k)
                 in Some (0, upd_fd (unat fd) (\<lambda>d. d\<lparr>fops := None, inode := 0, pos := 0, flags := 0\<rparr>) k)
           else Some (-1, k))"

definition sys_read ::
  "'h machine \<Rightarrow> frame \<Rightarrow> u32 \<Rightarrow> addr \<Rightarrow> u32 \<Rightarrow> 'h kernel \<Rightarrow> (read_result \<times> 'h kernel) option" where
  "sys_read mc fr fd buf nbytes k =
     (if sint fd < 0 \<or> fd = 1 \<or> sint fd \<ge> FILE_ARRAY_LEN then Some (Read_ret (-1), k)
      else
        let file_desc = files (cur_pcb k) ! unat fd
        in if flags file_desc \<noteq> 0 then
             case fops file_desc of None \<Rightarrow> None
             | Some f \<Rightarrow> fops_read mc (fr_dentry fr) f (unat fd) buf nbytes k
           else Some (Read_ret (-1), k))"

definition sys_write :: "'h machine \<Rightarrow> u32 \<Rightarrow> addr \<Rightarrow> u32 \<Rightarrow> 'h kernel \<Rightarrow> (u32 \<times> 'h kernel) option" where
  "sys_write mc fd buf nbytes k =
     (if sint fd < 0 \<or> fd = 0 \<or> sint fd \<ge> FILE_ARRAY_LEN then Some (-1, k)
      else
        let file_desc = files (cur_pcb k) ! unat fd
        in if flags file_desc \<noteq> 0 then
             case fops file_desc of None \<Rightarrow> None | Some f \<Rightarrow> fops_write mc f fd buf nbytes k
           else Some (-1, k))"

section \<open>The descriptor table\<close>

text \<open>
  A table in order: eight entries; one that is not live has no operations and stands at position
  0, so that the next file opened there is read from its beginning; a live one has operations;
  entries 0 and 1 are the terminal.
\<close>

definition fd_ok :: "fd_t \<Rightarrow> bool" where
  "fd_ok d \<longleftrightarrow> (if flags d = 0 then fops d = None \<and> pos d = 0 else flags d = FD_LIVE \<and> fops d \<noteq> None)"

definition fds_ok :: "fd_t list \<Rightarrow> bool" where
  "fds_ok fds \<longleftrightarrow> length fds = 8 \<and> (\<forall>d \<in> set fds. fd_ok d) \<and>
     fops (fds ! 0) = Some term_fops \<and> fops (fds ! 1) = Some term_fops"

definition fd_live :: "fd_t list \<Rightarrow> nat \<Rightarrow> bool" where
  "fd_live fds i \<longleftrightarrow> 2 \<le> i \<and> i < 8 \<and> flags (fds ! i) \<noteq> 0"

definition fd_alloc :: "addr \<Rightarrow> u32 \<Rightarrow> u32 \<Rightarrow> fops_t \<Rightarrow> fd_t list \<Rightarrow> (nat \<times> fd_t list) option" where
  "fd_alloc bb ftype ino f fds =
     (case open_fd_loop 2 fds of None \<Rightarrow> None
      | Some i \<Rightarrow> Some (i, fds[i := open_fill bb ftype ino (Some f) (fds ! i)]))"

definition fd_reset :: "fd_t \<Rightarrow> fd_t" where
  "fd_reset d = d\<lparr>fops := None, inode := 0, pos := 0, flags := 0\<rparr>"

definition fd_release :: "nat \<Rightarrow> fd_t list \<Rightarrow> fd_t list" where
  "fd_release i fds = fds[i := fd_reset (fds ! i)]"

lemma open_fd_loop_eq: "i \<le> 8 \<Longrightarrow> open_fd_loop i fds = find (\<lambda>j. flags (fds ! j) = 0) [i..<8]"
proof (induction "8 - i" arbitrary: i)
  case 0
  then show ?case by (subst open_fd_loop.simps) simp
next
  case (Suc n)
  then have i: "i < 8" by simp
  have "open_fd_loop (Suc i) fds = find (\<lambda>j. flags (fds ! j) = 0) [Suc i..<8]"
    using Suc i by (intro Suc.hyps) auto
  with i show ?case by (subst open_fd_loop.simps) (simp add: upt_conv_Cons)
qed

lemma open_fd_loop_Some:
  assumes "open_fd_loop 2 fds = Some i"
  shows "2 \<le> i" "i < 8" "flags (fds ! i) = 0" "\<forall>j. 2 \<le> j \<and> j < i \<longrightarrow> flags (fds ! j) \<noteq> 0"
  using assms find_upt_Some [of "\<lambda>j. flags (fds ! j) = 0" 2 8 i] open_fd_loop_eq [of 2 fds]
  by (simp_all del: upt_rec_numeral)

lemma open_fd_loop_None: "open_fd_loop 2 fds = None \<longleftrightarrow> (\<forall>i. 2 \<le> i \<and> i < 8 \<longrightarrow> flags (fds ! i) \<noteq> 0)"
  using find_upt_None [of "\<lambda>j. flags (fds ! j) = 0" 2 8] open_fd_loop_eq [of 2 fds]
  by (simp del: upt_rec_numeral)

lemma fd_ok_open_fill: "fd_ok (open_fill bb ftype ino (Some f) d)"
  by (simp add: fd_ok_def open_fill_def)

lemma fd_ok_reset: "fd_ok (fd_reset d)"
  by (simp add: fd_ok_def fd_reset_def)

lemma flags_open_fill [simp]: "flags (open_fill bb ftype ino f d) = FD_LIVE"
  by (simp add: open_fill_def)

lemma flags_reset [simp]: "flags (fd_reset d) = 0"
  by (simp add: fd_reset_def)

lemma fds_ok_update:
  assumes "fds_ok fds" "fd_ok d" "2 \<le> i"
  shows "fds_ok (fds[i := d])"
  using assms set_update_subset_insert [of fds i d] by (auto simp: fds_ok_def)

interpretation fdt: slot_table fds_ok "{2..<8}" fd_live "fd_alloc bb ftype ino f" fd_release
  for bb ftype ino f
proof unfold_locales
  fix s k s' assume ok: "fds_ok s" and "fd_alloc bb ftype ino f s = Some (k, s')"
  then have k: "open_fd_loop 2 s = Some k" and s': "s' = s[k := open_fill bb ftype ino (Some f) (s ! k)]"
    by (auto simp: fd_alloc_def split: option.splits)
  note l = open_fd_loop_Some [OF k]
  have "fd_live s' = (fd_live s)(k := True)"
    using l ok by (auto simp: fun_eq_iff s' fd_live_def fds_ok_def nth_list_update)
  with l show "k \<in> {2..<8} \<and> \<not> fd_live s k \<and> fd_live s' = (fd_live s)(k := True) \<and> fds_ok s'"
    using fds_ok_update [OF ok fd_ok_open_fill l(1)] by (simp add: s' fd_live_def)
next
  fix s assume "fds_ok s"
  show "fd_alloc bb ftype ino f s = None \<longleftrightarrow> (\<forall>k \<in> {2..<8}. fd_live s k)"
    using open_fd_loop_None [of s] by (auto simp: fd_alloc_def fd_live_def split: option.split)
next
  fix s k assume ok: "fds_ok s" and k: "k \<in> {2..<8}" "fd_live s k"
  have "fd_live (fd_release k s) = (fd_live s)(k := False)"
    using ok k by (auto simp: fun_eq_iff fd_release_def fd_live_def fds_ok_def nth_list_update)
  with k show "fd_live (fd_release k s) = (fd_live s)(k := False) \<and> fds_ok (fd_release k s)"
    using fds_ok_update [OF ok fd_ok_reset, of k] by (simp add: fd_release_def)
qed

section \<open>Opening a file\<close>

lemma ld32_of_bytes:
  assumes "load_bytes tr m a n = load_bytes tr m' b n" "i + 4 \<le> n"
  shows "ld32 tr m (a + of_nat i) = ld32 tr m' (b + of_nat i)"
proof -
  have "ld8 tr m (a + of_nat j) = ld8 tr m' (b + of_nat j)" if "j < n" for j
    using that arg_cong [OF assms(1), of "\<lambda>l. l ! j"] by simp
  from this [of i] this [of "i + 1"] this [of "i + 2"] this [of "i + 3"] assms(2)
  show ?thesis by (simp add: ld32_def algebra_simps)
qed

text \<open>The parts of the kernel that opening and closing a device leave alone.\<close>

lemma fops_open_frame [simp]:
  "mem (snd (fops_open mc f filename k)) = mem k" "pg (snd (fops_open mc f filename k)) = pg k"
  "ptab (snd (fops_open mc f filename k)) = ptab k" "pcbs (snd (fops_open mc f filename k)) = pcbs k"
  "kbd (snd (fops_open mc f filename k)) = kbd k" "bootblock (snd (fops_open mc f filename k)) = bootblock k"
  "r_esp (snd (fops_open mc f filename k)) = r_esp k"
  by (auto simp: fops_open_def split: fops_t.split prod.split)

lemma fops_close_frame [simp]:
  "mem (snd (fops_close mc f fd k)) = mem k" "pg (snd (fops_close mc f fd k)) = pg k"
  "ptab (snd (fops_close mc f fd k)) = ptab k" "pcbs (snd (fops_close mc f fd k)) = pcbs k"
  "kbd (snd (fops_close mc f fd k)) = kbd k" "bootblock (snd (fops_close mc f fd k)) = bootblock k"
  "r_esp (snd (fops_close mc f fd k)) = r_esp k"
  by (auto simp: fops_close_def split: fops_t.split prod.split)

lemma cur_pcb_frame: "pcbs k' = pcbs k \<Longrightarrow> r_esp k' = r_esp k \<Longrightarrow> cur_pcb k' = cur_pcb k"
  by (simp add: cur_pcb_def cur_pcb_at_def)

text \<open>
  The directory as the calls see it: the names of the entries, and that each entry lies in mapped
  memory apart from the local \<open>dentry\<close>.
\<close>

definition dir_at :: "translation \<Rightarrow> memory \<Rightarrow> addr \<Rightarrow> addr set \<Rightarrow> addr \<Rightarrow> bytes list \<Rightarrow> bool" where
  "dir_at tr m bb mapped dentry names \<longleftrightarrow> dir_names tr m bb names \<and> rng dentry 64 \<subseteq> mapped \<and>
     (\<forall>j < length names. rng (bootblock_dentry bb (of_nat j)) 64 \<subseteq> mapped \<and>
        rng (bootblock_dentry bb (of_nat j)) 64 \<inter> rng dentry 64 = {})"

definition first_index :: "bytes \<Rightarrow> bytes list \<Rightarrow> nat option" where
  "first_index xs names = find (\<lambda>i. names ! i = xs) [0..<length names]"

lemma first_index_Some: "first_index xs names = Some j \<Longrightarrow> j < length names \<and> names ! j = xs"
  by (auto simp: first_index_def find_Some_iff)

lemma first_index_None: "first_index xs names = None \<longleftrightarrow> xs \<notin> set names"
  by (auto simp: first_index_def find_None_iff in_set_conv_nth)

context address_space
begin

lemma lookup_eq:
  assumes "dir_at tr m bb mapped dentry names" "cstring tr m fname xs"
  shows "read_dentry_by_name tr bb m fname dentry =
    (case first_index xs names of None \<Rightarrow> Some (-1, m)
     | Some j \<Rightarrow> Some (0, store_bytes tr m dentry (load_bytes tr m (bootblock_dentry bb (of_nat j)) 64)))"
proof (cases "first_index xs names")
  case None
  then show ?thesis
    using read_dentry_by_name_eq [of tr m bb names fname xs dentry] assms
    by (simp add: first_index_def dir_at_def)
next
  case (Some j)
  then have "j < length names" using first_index_Some by blast
  then have "memcpy tr m dentry (bootblock_dentry bb (of_nat j)) 64 =
      store_bytes tr m dentry (load_bytes tr m (bootblock_dentry bb (of_nat j)) 64)"
    using memcpy_eq [of "bootblock_dentry bb (of_nat j)" 64 dentry m] assms(1) by (simp add: dir_at_def)
  then show ?thesis
    using Some read_dentry_by_name_eq [of tr m bb names fname xs dentry] assms
    by (simp add: first_index_def dir_at_def)
qed

lemma dentry_fields:
  assumes "rng dentry 64 \<subseteq> mapped"
    and "m' = store_bytes tr m dentry (load_bytes tr m e 64)"
  shows "dentry_ftype tr m' dentry = dentry_ftype tr m e" "dentry_inode tr m' dentry = dentry_inode tr m e"
proof -
  have l: "load_bytes tr m' dentry 64 = load_bytes tr m e 64"
    using load_store_same [of dentry "load_bytes tr m e 64" m] assms by simp
  show "dentry_ftype tr m' dentry = dentry_ftype tr m e" "dentry_inode tr m' dentry = dentry_inode tr m e"
    using ld32_of_bytes [OF l, of 32] ld32_of_bytes [OF l, of 36] by (simp_all add: dentry_ftype_def dentry_inode_def)
qed

end

lemma sys_open_eq:
  assumes as: "address_space (cur_tr mc k) mapped"
    and dir: "dir_at (cur_tr mc k) (mem k) (bootblock k) mapped (fr_dentry fr) names"
    and name: "cstring (cur_tr mc k) (mem k) filename xs"
  shows "sys_open mc fr filename k =
    (case open_fd_loop 2 (files (cur_pcb k)) of None \<Rightarrow> Some (-1, k)
     | Some i \<Rightarrow>
        (case first_index xs names of None \<Rightarrow> Some (-1, k)
         | Some j \<Rightarrow>
             let e = bootblock_dentry (bootblock k) (of_nat j);
                 ftype = dentry_ftype (cur_tr mc k) (mem k) e;
                 ino = dentry_inode (cur_tr mc k) (mem k) e
             in case get_device_fops ftype (ptab k) of None \<Rightarrow> None
                | Some f \<Rightarrow> Some (of_nat i, snd (fops_open mc f filename
                     (upd_fd i (open_fill (bootblock k) ftype ino (Some f))
                        (k\<lparr>mem := store_bytes (cur_tr mc k) (mem k) (fr_dentry fr)
                              (load_bytes (cur_tr mc k) (mem k) e 64)\<rparr>))))))"
proof (cases "first_index xs names")
  case None
  then show ?thesis
    using address_space.lookup_eq [OF as dir name]
    by (auto simp: sys_open_def Let_def split: option.split)
next
  case (Some j)
  let ?e = "bootblock_dentry (bootblock k) (of_nat j)"
  let ?m = "store_bytes (cur_tr mc k) (mem k) (fr_dentry fr) (load_bytes (cur_tr mc k) (mem k) ?e 64)"
  have d: "rng (fr_dentry fr) 64 \<subseteq> mapped" using dir by (simp add: dir_at_def)
  have tr: "cur_tr mc (k\<lparr>mem := ?m\<rparr>) = cur_tr mc k" by (rule cur_tr_cong) simp
  note f = address_space.dentry_fields [OF as d refl, of "mem k" ?e]
  show ?thesis
    using Some address_space.lookup_eq [OF as dir name]
    by (simp add: sys_open_def Let_def tr f split: option.split)
qed

lemma sys_open_ok:
  assumes as: "address_space (cur_tr mc k) mapped" and ok: "fds_ok (files (cur_pcb k))"
    and dir: "dir_at (cur_tr mc k) (mem k) (bootblock k) mapped (fr_dentry fr) names"
    and name: "cstring (cur_tr mc k) (mem k) filename xs"
    and i: "2 \<le> i" "i < 8" "\<not> fd_live (files (cur_pcb k)) i" "\<forall>l. 2 \<le> l \<and> l < i \<longrightarrow> fd_live (files (cur_pcb k)) l"
    and j: "first_index xs names = Some j" and e: "e = bootblock_dentry (bootblock k) (of_nat j)"
    and f: "get_device_fops (dentry_ftype (cur_tr mc k) (mem k) e) (ptab k) = Some f"
  shows "\<exists>k'. sys_open mc fr filename k = Some (of_nat i, k') \<and>
    files (cur_pcb k') = (files (cur_pcb k))[i := open_fill (bootblock k) (dentry_ftype (cur_tr mc k) (mem k) e)
      (dentry_inode (cur_tr mc k) (mem k) e) (Some f) (files (cur_pcb k) ! i)] \<and>
    fds_ok (files (cur_pcb k')) \<and> pos (files (cur_pcb k) ! i) = 0 \<and>
    mem k' = store_bytes (cur_tr mc k) (mem k) (fr_dentry fr) (load_bytes (cur_tr mc k) (mem k) e 64) \<and>
    pg k' = pg k \<and> bootblock k' = bootblock k"
proof -
  let ?fill = "open_fill (bootblock k) (dentry_ftype (cur_tr mc k) (mem k) e) (dentry_inode (cur_tr mc k) (mem k) e) (Some f)"
  let ?m = "store_bytes (cur_tr mc k) (mem k) (fr_dentry fr) (load_bytes (cur_tr mc k) (mem k) e 64)"
  let ?k = "snd (fops_open mc f filename (upd_fd i ?fill (k\<lparr>mem := ?m\<rparr>)))"
  have "open_fd_loop 2 (files (cur_pcb k)) = Some i"
    using i by (simp add: open_fd_loop_eq find_upt_Some fd_live_def del: upt_rec_numeral)
  then have o: "sys_open mc fr filename k = Some (of_nat i, ?k)"
    unfolding sys_open_eq [OF as dir name] using j e f by (simp add: Let_def)
  have "cur_pcb ?k = cur_pcb (upd_fd i ?fill (k\<lparr>mem := ?m\<rparr>))" by (rule cur_pcb_frame) simp_all
  then have fs: "files (cur_pcb ?k) = (files (cur_pcb k))[i := ?fill (files (cur_pcb k) ! i)]" by simp
  have "fd_ok (files (cur_pcb k) ! i)" using ok i by (simp add: fds_ok_def)
  then have "pos (files (cur_pcb k) ! i) = 0" using i by (simp add: fd_ok_def fd_live_def)
  moreover have "fds_ok (files (cur_pcb ?k))"
    unfolding fs using ok i by (intro fds_ok_update fd_ok_open_fill) auto
  ultimately show ?thesis using o fs by (intro exI [of _ ?k]) simp
qed

text \<open>The signed checks on a small descriptor.\<close>

lemma fd_small:
  assumes "i < 8"
  shows "unat (of_nat i :: u32) = i" "sint (of_nat i :: u32) = int i"
  using assms sint_small_u32 [of i] by (simp_all add: unat_of_nat_u32)

lemma fd_range: "\<not> (sint fd < 0 \<or> sint (fd :: u32) \<ge> 8) \<Longrightarrow> unat fd < 8 \<and> sint fd = int (unat fd)"
proof -
  assume a: "\<not> (sint fd < 0 \<or> sint fd \<ge> 8)"
  define n where "n = nat (sint fd)"
  have s: "sint fd = int n" and n: "n < 8" using a by (auto simp: n_def)
  have "of_int (sint fd) = fd" by simp
  then have "fd = of_nat n" unfolding s by simp
  then show ?thesis using n fd_small [OF n] by simp
qed

lemma fs_read_fd: "fs_read tr bb m f buf n = (r, f', m') \<Longrightarrow> fops f' = fops f \<and> flags f' = flags f"
  by (auto simp: fs_read_def split: prod.splits)

lemma dir_read_fd: "dir_read tr bb m d f buf n = Some (r, f', m') \<Longrightarrow> fops f' = fops f \<and> flags f' = flags f"
  by (auto simp: dir_read_def split: option.splits)

lemma fd_ok_same: "fd_ok d \<Longrightarrow> flags d \<noteq> 0 \<Longrightarrow> fops d' = fops d \<Longrightarrow> flags d' = flags d \<Longrightarrow> fd_ok d'"
  by (simp add: fd_ok_def)

lemma fds_ok_same:
  assumes "fds_ok fds" "i < 8" "flags (fds ! i) \<noteq> 0" "fops d' = fops (fds ! i)" "flags d' = flags (fds ! i)"
  shows "fds_ok (fds[i := d'])"
proof -
  have "fd_ok (fds ! i)" using assms(1,2) by (simp add: fds_ok_def)
  from fd_ok_same [OF this assms(3-5)] have "\<forall>d \<in> set (fds[i := d']). fd_ok d"
    using assms(1) set_update_subset_insert [of fds i d'] by (auto simp: fds_ok_def)
  then show ?thesis
    using assms by (simp add: fds_ok_def nth_list_update)
qed

text \<open>What each call does to the descriptor table.\<close>

lemma sys_open_fds:
  assumes "fds_ok (files (cur_pcb k))" "sys_open mc fr filename k = Some (r, k')"
  shows "fds_ok (files (cur_pcb k'))"
proof -
  have u: "fds_ok (files (cur_pcb (snd (fops_open mc f filename (upd_fd i (open_fill bb ftype ino (Some f)) (k\<lparr>mem := m\<rparr>))))))"
    if "open_fd_loop 2 (files (cur_pcb k)) = Some i" for i f bb ftype ino m
  proof -
    let ?k = "upd_fd i (open_fill bb ftype ino (Some f)) (k\<lparr>mem := m\<rparr>)"
    have "cur_pcb (snd (fops_open mc f filename ?k)) = cur_pcb ?k" by (rule cur_pcb_frame) simp_all
    then show ?thesis
      using fds_ok_update [OF assms(1) fd_ok_open_fill open_fd_loop_Some(1) [OF that]] by simp
  qed
  show ?thesis
    using assms u by (auto simp: sys_open_def Let_def split: option.splits if_splits prod.splits)
qed

lemma sys_close_fds:
  assumes "sys_close mc fd k = Some (r, k')"
  shows "r = -1 \<and> k' = k \<or> r = 0 \<and> unat fd \<in> {2..<8} \<and> fd_live (files (cur_pcb k)) (unat fd) \<and>
    files (cur_pcb k') = fd_release (unat fd) (files (cur_pcb k))"
proof (cases "sint fd < 2 \<or> sint fd \<ge> 8")
  case True
  with assms show ?thesis by (auto simp: sys_close_def)
next
  case False
  then have r: "unat fd < 8" "sint fd = int (unat fd)" using fd_range [of fd] by auto
  then have "2 \<le> unat fd" using False by linarith
  with r have u: "unat fd \<in> {2..<8}" by simp
  have c: "cur_pcb (snd (fops_close mc f fd k)) = cur_pcb k" for f by (rule cur_pcb_frame) simp_all
  show ?thesis
    using assms False u
    by (auto simp: sys_close_def Let_def fd_live_def fd_release_def fd_reset_def c split: if_splits option.splits)
qed

lemma sys_read_fds:
  assumes "fds_ok (files (cur_pcb k))" "sys_read mc fr fd buf n k = Some (r, k')"
  shows "fds_ok (files (cur_pcb k'))"
proof (cases "(sint fd < 0 \<or> fd = 1 \<or> sint fd \<ge> 8) \<or> flags (files (cur_pcb k) ! unat fd) = 0")
  case True
  with assms show ?thesis by (auto simp: sys_read_def Let_def split: if_splits)
next
  case False
  then have u: "unat fd < 8" "flags (files (cur_pcb k) ! unat fd) \<noteq> 0" using fd_range [of fd] by auto
  have d: "fds_ok ((files (cur_pcb k))[unat fd := d'])"
    if "fops d' = fops (files (cur_pcb k) ! unat fd) \<and> flags d' = flags (files (cur_pcb k) ! unat fd)" for d'
    using fds_ok_same [OF assms(1) u] that by blast
  from False assms(2) obtain f where "fops_read mc (fr_dentry fr) f (unat fd) buf n k = Some (r, k')"
    by (auto simp: sys_read_def Let_def split: option.splits)
  then show ?thesis
    using assms(1) d by (cases f) (auto simp: fops_read_def Let_def dest!: fs_read_fd dir_read_fd split: prod.splits option.splits)
qed

lemma sys_write_fds:
  assumes "fds_ok (files (cur_pcb k))" "sys_write mc fd buf n k = Some (r, k')"
  shows "fds_ok (files (cur_pcb k'))"
  using assms
  by (auto simp: sys_write_def Let_def fops_write_def split: if_splits option.splits fops_t.splits prod.splits)

section \<open>Properties\<close>

text \<open>A kernel before paging is set up, with an open descriptor table and the sample file system.\<close>

definition sample_fds :: "fd_t list" where
  "sample_fds =
     replicate 2 \<lparr>fops = Some term_fops, inode = 0, inode_num = 0, pos = 0, flags = 1\<rparr> @
     replicate 6 \<lparr>fops = None, inode = 0, inode_num = 0, pos = 0, flags = 0\<rparr>"

definition sample_pcb :: pcb_t where
  "sample_pcb = \<lparr>files = sample_fds, args = replicate 128 0, args_len = 0, pid = 1, parent_pcb = 0,
     ctx = \<lparr>c_esp = 0, c_eip = 0, c_esp0 = 0, c_ebp = 0\<rparr>, esp_parent = 0, ebp_parent = 0, pd = None, term_num = 0\<rparr>"

definition sample_machine :: "nat machine" where
  "sample_machine = \<lparr>m_inb = \<lambda>p h. (0, h), m_outb = \<lambda>v p h. h + 1, m_lay = sample_layout, m_shell = 0x40000\<rparr>"

definition sample_frame :: frame where
  "sample_frame = \<lparr>fr_command_buf = 0x21000, fr_args = 0x22000, fr_buf = 0x23000, fr_dentry = 0x20000, fr_uninit = \<lambda>_. 0\<rparr>"

definition sample_ptab :: ptable where
  "sample_ptab = ptable_init\<lparr>devices := [Some rtc_fops, Some dir_fops, Some fs_fops, Some term_fops, None, None]\<rparr>"

definition sample_kernel :: "nat kernel" where
  "sample_kernel = \<lparr>hw = 0, mem = sample_image, ptab = sample_ptab, pg = flat_paging, pcbs = \<lambda>_. sample_pcb,
     kbd = demo_kbd, rtc = rtc_fresh, bootblock = 0x10000, next_execute = 0, pit_rate = 0,
     tss_esp0 = 0, tss_ss0 = 0, r_esp = 0x7FBF00, r_ebp = 0\<rparr>"

lemma sample_tr: "cur_tr sample_machine sample_kernel = (\<lambda>a. a)"
  by (rule cur_tr_flat)
    (simp_all add: sample_kernel_def flat_paging_on, simp add: flat_paging_def cleared_paging_def pd_of_def)

lemma sample_fds_ok: "fds_ok sample_fds"
  by (simp add: fds_ok_def sample_fds_def fd_ok_def nth_append)

lemma sample_files [simp]: "files (cur_pcb sample_kernel) = sample_fds"
  by (simp add: cur_pcb_def sample_kernel_def sample_pcb_def)

lemma sample_kernel_simps [simp]:
  "bootblock sample_kernel = 0x10000" "mem sample_kernel = sample_image" "ptab sample_kernel = sample_ptab"
  "fr_dentry sample_frame = 0x20000"
  by (simp_all add: sample_kernel_def sample_frame_def)

lemma sample_name: "cstring (\<lambda>a. a) sample_image 0x10040 [104, 105]"
  by (simp add: cstring_def ld8_def sample_image_def)

lemma sample_dir: "dir_at (\<lambda>a. a) sample_image 0x10000 UNIV 0x20000 [[104, 105]]"
  using rng_disjoint(1) [of "0x10040" 64 "0x20000" 64] sample_name sample_image_header
  by (simp add: dir_at_def dir_names_def bootblock_dentry_def)

lemma sample_entry:
  "dentry_ftype (\<lambda>a. a) sample_image (bootblock_dentry 0x10000 0) = 2"
  "dentry_inode (\<lambda>a. a) sample_image (bootblock_dentry 0x10000 0) = 0"
  by (simp_all add: dentry_ftype_def dentry_inode_def bootblock_dentry_def ld32_def ld8_def sample_image_def
      word_of_bytes_def)

lemma sample_index: "first_index [104, 105] [[104, 105 :: u8]] = Some 0"
  by (simp add: first_index_def)

lemma sample_free: "open_fd_loop 2 sample_fds = Some 2"
  by (subst open_fd_loop.simps) (simp add: sample_fds_def nth_append)

text \<open>
  C26. Opening a file. \<open>open\<close> fails with -1 and changes nothing if all descriptors are in use or
  the directory has no entry of that name. Otherwise it returns the lowest free descriptor, which
  is then live at position 0 with the operations of the file's type and, for a regular file, its
  inode; no other descriptor and no memory but the local directory entry changes, and the table
  stays in order.
\<close>

theorem sys_open_spec:
  assumes "inj_on (cur_tr mc k) mapped" "fds_ok (files (cur_pcb k))"
    and "dir_at (cur_tr mc k) (mem k) (bootblock k) mapped (fr_dentry fr) names"
    and "cstring (cur_tr mc k) (mem k) filename xs"
  shows "((\<forall>i. 2 \<le> i \<and> i < 8 \<longrightarrow> fd_live (files (cur_pcb k)) i) \<or> xs \<notin> set names \<longrightarrow>
      sys_open mc fr filename k = Some (-1, k)) \<and>
    (\<forall>i j ftype ino f. 2 \<le> i \<and> i < 8 \<and> \<not> fd_live (files (cur_pcb k)) i \<and>
      (\<forall>l. 2 \<le> l \<and> l < i \<longrightarrow> fd_live (files (cur_pcb k)) l) \<and> first_index xs names = Some j \<and>
      ftype = dentry_ftype (cur_tr mc k) (mem k) (bootblock_dentry (bootblock k) (of_nat j)) \<and>
      ino = dentry_inode (cur_tr mc k) (mem k) (bootblock_dentry (bootblock k) (of_nat j)) \<and>
      get_device_fops ftype (ptab k) = Some f \<longrightarrow>
      (\<exists>k'. sys_open mc fr filename k = Some (of_nat i, k') \<and>
        fds_ok (files (cur_pcb k')) \<and> pos (files (cur_pcb k') ! i) = 0 \<and>
        fops (files (cur_pcb k') ! i) = Some f \<and> flags (files (cur_pcb k') ! i) = FD_LIVE \<and>
        (ftype \<in> {RTC_FTYPE, DIR_FTYPE, FILE_FTYPE} \<longrightarrow> inode_num (files (cur_pcb k') ! i) = ino) \<and>
        (\<forall>l. l \<noteq> i \<longrightarrow> files (cur_pcb k') ! l = files (cur_pcb k) ! l) \<and>
        (\<forall>p. p \<notin> cur_tr mc k ` rng (fr_dentry fr) 64 \<longrightarrow> mem k' p = mem k p)))"
    (is "?fail \<and> (\<forall>i j ftype ino f. ?cond i j ftype ino f \<longrightarrow> ?ok i j ftype ino f)")
proof (intro conjI allI impI)
  have as: "address_space (cur_tr mc k) mapped" using assms(1) by (rule address_space.intro)
  assume "(\<forall>i. 2 \<le> i \<and> i < 8 \<longrightarrow> fd_live (files (cur_pcb k)) i) \<or> xs \<notin> set names"
  then have "open_fd_loop 2 (files (cur_pcb k)) = None \<or> first_index xs names = None"
    unfolding open_fd_loop_None first_index_None fd_live_def by blast
  then show "sys_open mc fr filename k = Some (-1, k)"
    unfolding sys_open_eq [OF as assms(3,4)] by (auto split: option.split)
next
  have as: "address_space (cur_tr mc k) mapped" using assms(1) by (rule address_space.intro)
  have len: "length (files (cur_pcb k)) = 8" using assms(2) by (simp add: fds_ok_def)
  fix i j ftype ino f assume c: "?cond i j ftype ino f"
  then obtain k' where k': "sys_open mc fr filename k = Some (of_nat i, k')"
    "files (cur_pcb k') = (files (cur_pcb k))[i := open_fill (bootblock k) ftype ino (Some f) (files (cur_pcb k) ! i)]"
    "fds_ok (files (cur_pcb k'))" "pos (files (cur_pcb k) ! i) = 0"
    "mem k' = store_bytes (cur_tr mc k) (mem k) (fr_dentry fr)
       (load_bytes (cur_tr mc k) (mem k) (bootblock_dentry (bootblock k) (of_nat j)) 64)"
    using sys_open_ok [OF as assms(2-4), of i j _ f] by auto
  have "mem k' p = mem k p" if "p \<notin> cur_tr mc k ` rng (fr_dentry fr) 64" for p
    using that k'(5) by (simp add: store_bytes_frame)
  then show "?ok i j ftype ino f"
    using k' len c by (intro exI [of _ k']) (auto simp: open_fill_def Let_def)
qed

theorem sys_open_spec_witness:
  "\<exists>k'. sys_open sample_machine sample_frame 0x10040 sample_kernel = Some (2, k') \<and>
     fops (files (cur_pcb k') ! 2) = Some fs_fops"
proof -
  have "\<not> fd_live sample_fds 2" by (simp add: fd_live_def sample_fds_def nth_append)
  moreover have "get_device_fops 2 sample_ptab = Some fs_fops"
    by (simp add: get_device_fops_def sample_ptab_def)
  ultimately show ?thesis
    using sys_open_spec [of sample_machine sample_kernel UNIV sample_frame "[[104, 105]]" "0x10040" "[104, 105]"]
      sample_fds_ok sample_dir sample_name sample_entry sample_index
    by (auto simp: sample_tr)
qed

text \<open>
  C28. Open and read. After a regular file has been opened by name, a read on the returned
  descriptor delivers the first bytes of that file, as many as asked for or as there are, and
  advances the position of the descriptor by that number.
\<close>

theorem open_then_read:
  assumes "inj_on (cur_tr mc k) mapped" "fds_ok (files (cur_pcb k))"
    and "dir_at (cur_tr mc k) (mem k) (bootblock k) mapped (fr_dentry fr) names"
    and "cstring (cur_tr mc k) (mem k) filename xs"
    and "2 \<le> i" "i < 8" "\<not> fd_live (files (cur_pcb k)) i" "\<forall>l. 2 \<le> l \<and> l < i \<longrightarrow> fd_live (files (cur_pcb k)) l"
    and "first_index xs names = Some j" "e = bootblock_dentry (bootblock k) (of_nat j)"
    and "dentry_ftype (cur_tr mc k) (mem k) e = FILE_FTYPE" "get_device_fops FILE_FTYPE (ptab k) = Some fs_fops"
    and "dentry_inode (cur_tr mc k) (mem k) e < inode_cnt (cur_tr mc k) (mem k) (bootblock k)"
    and "fs_wf (cur_tr mc k) (mem k) (bootblock k)"
    and "rng (bootblock k) (fs_size (cur_tr mc k) (mem k) (bootblock k)) \<subseteq> mapped"
    and "rng (bootblock k) (fs_size (cur_tr mc k) (mem k) (bootblock k)) \<inter> rng (fr_dentry fr) 64 = {}"
    and "rng buf (unat n) \<subseteq> mapped"
    and "rng (bootblock k) (fs_size (cur_tr mc k) (mem k) (bootblock k)) \<inter> rng buf (unat n) = {}"
    and "data = take (unat n) (file_bytes (cur_tr mc k) (mem k) (bootblock k) (dentry_inode (cur_tr mc k) (mem k) e))"
  shows "\<exists>k1 k2. sys_open mc fr filename k = Some (of_nat i, k1) \<and>
    sys_read mc fr (of_nat i) buf n k1 = Some (Read_ret (of_nat (length data)), k2) \<and>
    load_bytes (cur_tr mc k) (mem k2) buf (length data) = data \<and>
    pos (files (cur_pcb k2) ! i) = of_nat (length data)"
proof -
  let ?tr = "cur_tr mc k" and ?bb = "bootblock k" and ?ino = "dentry_inode (cur_tr mc k) (mem k) e"
  have as: "address_space ?tr mapped" using assms(1) by (rule address_space.intro)
  obtain k1 where k1: "sys_open mc fr filename k = Some (of_nat i, k1)"
    "files (cur_pcb k1) = (files (cur_pcb k))[i := open_fill ?bb FILE_FTYPE ?ino (Some fs_fops) (files (cur_pcb k) ! i)]"
    "fds_ok (files (cur_pcb k1))" "pos (files (cur_pcb k) ! i) = 0"
    "mem k1 = store_bytes ?tr (mem k) (fr_dentry fr) (load_bytes ?tr (mem k) e 64)"
    "pg k1 = pg k" "bootblock k1 = bootblock k"
    using sys_open_ok [OF as assms(2-10), of fs_fops] assms(11,12) by auto
  have same: "fs_same ?tr ?bb (mem k) (mem k1)"
    unfolding k1(5) using assms(3,15,16)
    by (intro address_space.fs_same_store [OF as]) (simp_all add: dir_at_def)
  note hdr = fs_same_header [OF same] address_space.fs_same_size [OF as same]
  have tr: "cur_tr mc k1 = ?tr" using k1(6) by (rule cur_tr_cong)
  define d where "d = files (cur_pcb k1) ! i"
  have len: "length (files (cur_pcb k)) = 8" using assms(2) by (simp add: fds_ok_def)
  then have d: "fops d = Some fs_fops" "flags d = 1" "inode_num d = ?ino" "pos d = 0"
    using assms(6) k1(2,4) by (simp_all add: d_def open_fill_def)
  have rd: "fs_read ?tr ?bb (mem k1) d buf n =
      (of_nat (length data), d\<lparr>pos := pos d + of_nat (length data)\<rparr>, store_bytes ?tr (mem k1) buf data)"
    using assms(13-19) fs_same_file_bytes [OF assms(14) same assms(13)] d hdr
    by (intro address_space.fs_read_eq [OF as address_space.fs_same_wf [OF as assms(14) same]]) simp_all
  have "(of_nat i :: u32) \<noteq> 1"
    using assms(5) fd_small(1) [OF assms(6)] by (metis Suc_1 not_less_eq_eq order_refl unat_1)
  then have r: "sys_read mc fr (of_nat i) buf n k1 = Some (Read_ret (of_nat (length data)),
      upd_fd i (\<lambda>_. d\<lparr>pos := pos d + of_nat (length data)\<rparr>) (k1\<lparr>mem := store_bytes ?tr (mem k1) buf data\<rparr>))"
    using fd_small [OF assms(6)] assms(6) d rd tr k1(7)
    by (simp add: sys_read_def d_def [symmetric] fops_read_def)
  have "length data \<le> unat n" using assms(19) by simp
  moreover have "length data \<le> 4294967296" using calculation unat_lt_2p32 [of n] by linarith
  ultimately have "load_bytes ?tr (store_bytes ?tr (mem k1) buf data) buf (length data) = data"
    using assms(17) rng_mono [of "length data" "unat n" buf]
    by (intro address_space.load_store_same [OF as]) auto
  with k1(1,2) r d len assms(6) show ?thesis by simp
qed

theorem open_then_read_witness:
  "\<exists>k1 k2. sys_open sample_machine sample_frame 0x10040 sample_kernel = Some (2, k1) \<and>
     sys_read sample_machine sample_frame 2 0x24000 2 k1 = Some (Read_ret 2, k2) \<and>
     load_bytes (\<lambda>a. a) (mem k2) 0x24000 2 = [97, 98]"
proof -
  have "\<not> fd_live sample_fds 2" by (simp add: fd_live_def sample_fds_def nth_append)
  moreover have "get_device_fops 2 sample_ptab = Some fs_fops"
    by (simp add: get_device_fops_def sample_ptab_def)
  moreover have "\<forall>l. 2 \<le> l \<and> l < 2 \<longrightarrow> fd_live sample_fds l" by auto
  ultimately show ?thesis
    using open_then_read [of sample_machine sample_kernel UNIV sample_frame "[[104, 105]]" "0x10040" "[104, 105]"
        2 0 "bootblock_dentry 0x10000 0" "0x24000" 2 "[97, 98]"]
      sample_fds_ok sample_dir sample_name sample_entry sample_index sample_image_wf
      rng_disjoint(1) [of "0x10000" 12288 "0x20000" 64] rng_disjoint(1) [of "0x10000" 12288 "0x24000" 2]
    by (auto simp: sample_tr sample_image_header sample_image_file load_bytes_numeral)
qed

text \<open>
  C27. Every file call keeps the descriptor table in order; of \<open>read\<close> this is said for the buffers that
  lie, with the two bytes that a directory read stores behind its result, in the 4 MB page of the
  program. The code does not check the buffer: a pointer into the kernel's memory can reach the
  control block itself. A descriptor outside the range that the call allows, or one that is not
  live, is refused with -1 and no effect; a successful \<open>close\<close> gives exactly its descriptor back,
  reset for the next \<open>open\<close>.
\<close>

theorem file_calls_fds:
  assumes "fds_ok (files (cur_pcb k))"
  shows "(\<forall>fr filename r k'. sys_open mc fr filename k = Some (r, k') \<longrightarrow> fds_ok (files (cur_pcb k'))) \<and>
    (\<forall>fr fd buf n r k'. rng buf (unat n + 2) \<subseteq> rng PROG_VM_START 4194304 \<longrightarrow>
      sys_read mc fr fd buf n k = Some (r, k') \<longrightarrow> fds_ok (files (cur_pcb k'))) \<and>
    (\<forall>fd buf n r k'. sys_write mc fd buf n k = Some (r, k') \<longrightarrow> fds_ok (files (cur_pcb k'))) \<and>
    (\<forall>fd r k'. sys_close mc fd k = Some (r, k') \<longrightarrow> fds_ok (files (cur_pcb k')) \<and>
      (r = 0 \<longrightarrow> fd_live (files (cur_pcb k)) (unat fd) \<and>
         files (cur_pcb k') = fd_release (unat fd) (files (cur_pcb k)) \<and>
         fd_live (files (cur_pcb k')) = (fd_live (files (cur_pcb k)))(unat fd := False)) \<and>
      (r \<noteq> 0 \<longrightarrow> r = -1 \<and> k' = k)) \<and>
    (\<forall>fd fr buf n. sint fd < 0 \<or> sint fd \<ge> 8 \<or> flags (files (cur_pcb k) ! unat fd) = 0 \<longrightarrow>
      sys_read mc fr fd buf n k = Some (Read_ret (-1), k) \<and> sys_write mc fd buf n k = Some (-1, k) \<and>
      sys_close mc fd k = Some (-1, k)) \<and>
    (\<forall>fr buf n. sys_read mc fr 1 buf n k = Some (Read_ret (-1), k) \<and> sys_write mc 0 buf n k = Some (-1, k) \<and>
      sys_close mc 0 k = Some (-1, k) \<and> sys_close mc 1 k = Some (-1, k))"
proof (intro conjI)
  show "\<forall>fr filename r k'. sys_open mc fr filename k = Some (r, k') \<longrightarrow> fds_ok (files (cur_pcb k'))"
    using sys_open_fds [OF assms] by blast
  show "\<forall>fr fd buf n r k'. rng buf (unat n + 2) \<subseteq> rng PROG_VM_START 4194304 \<longrightarrow>
      sys_read mc fr fd buf n k = Some (r, k') \<longrightarrow> fds_ok (files (cur_pcb k'))"
    using sys_read_fds [OF assms] by blast
  show "\<forall>fd buf n r k'. sys_write mc fd buf n k = Some (r, k') \<longrightarrow> fds_ok (files (cur_pcb k'))"
    using sys_write_fds [OF assms] by blast
  show "\<forall>fd r k'. sys_close mc fd k = Some (r, k') \<longrightarrow> fds_ok (files (cur_pcb k')) \<and>
      (r = 0 \<longrightarrow> fd_live (files (cur_pcb k)) (unat fd) \<and>
         files (cur_pcb k') = fd_release (unat fd) (files (cur_pcb k)) \<and>
         fd_live (files (cur_pcb k')) = (fd_live (files (cur_pcb k)))(unat fd := False)) \<and>
      (r \<noteq> 0 \<longrightarrow> r = -1 \<and> k' = k)"
    using assms fdt.release [OF assms] by (auto dest!: sys_close_fds)
  show "\<forall>fd fr buf n. sint fd < 0 \<or> sint fd \<ge> 8 \<or> flags (files (cur_pcb k) ! unat fd) = 0 \<longrightarrow>
      sys_read mc fr fd buf n k = Some (Read_ret (-1), k) \<and> sys_write mc fd buf n k = Some (-1, k) \<and>
      sys_close mc fd k = Some (-1, k)"
    by (auto simp: sys_read_def sys_write_def sys_close_def Let_def)
  show "\<forall>fr buf n. sys_read mc fr 1 buf n k = Some (Read_ret (-1), k) \<and> sys_write mc 0 buf n k = Some (-1, k) \<and>
      sys_close mc 0 k = Some (-1, k) \<and> sys_close mc 1 k = Some (-1, k)"
    by (simp add: sys_read_def sys_write_def sys_close_def)
qed

theorem file_calls_fds_witness:
  "sys_read sample_machine sample_frame 5 0x24000 2 sample_kernel = Some (Read_ret (-1), sample_kernel) \<and>
   sys_write sample_machine (-3) 0x24000 2 sample_kernel = Some (-1, sample_kernel)"
proof -
  have "flags (sample_fds ! 5) = 0" by (simp add: sample_fds_def nth_append)
  with file_calls_fds [of sample_kernel sample_machine] sample_fds_ok show ?thesis by simp
qed

end
