(* ===== verification/Exec.thy ===== *)
theory Exec
  imports Files
begin

text \<open>
  Running programs, \<^verbatim>\<open>student-distrib/sys_calls.c\<close>: \<open>parse_arg\<close>, \<open>execute\<close> and \<open>halt\<close>.

  \<open>execute\<close> ends in an \<open>iret\<close> to user mode and \<open>halt\<close> in a jump to the label behind that \<open>iret\<close> in
  the \<open>execute\<close> of the parent, so neither returns to its caller in the usual way; \<open>flow\<close> says how
  a call ends. \<open>execute_return\<close> is the code behind the label.
\<close>

abbreviation (input) START_EXE_ADDR :: addr where "START_EXE_ADDR \<equiv> 0x08048000"
abbreviation (input) ELF_HEADER_LEN :: u32 where "ELF_HEADER_LEN \<equiv> 40"
abbreviation (input) ELF_MAGIC :: u32 where "ELF_MAGIC \<equiv> 0x464c457f"
abbreviation (input) ELF_ADDR_OFFS :: u32 where "ELF_ADDR_OFFS \<equiv> 24"
abbreviation (input) WORD_SIZE :: u32 where "WORD_SIZE \<equiv> 4"
abbreviation (input) KERNEL_DS :: u16 where "KERNEL_DS \<equiv> 0x18"

datatype flow =
    Ret u32
  | Enter_user (entry: u32) (user_esp: u32)
  | Resume_parent u8

section \<open>Command lines\<close>

partial_function (option) parse_token :: "translation \<Rightarrow> memory \<Rightarrow> addr \<Rightarrow> u32 \<Rightarrow> u32 option" where
  "parse_token tr m command i =
     (let c = ld8 tr m (command + i)
      in if c \<noteq> 0 \<and> c \<noteq> 32 \<and> c \<noteq> 10 then parse_token tr m command (i + 1) else Some i)"

partial_function (option) parse_spaces :: "translation \<Rightarrow> memory \<Rightarrow> addr \<Rightarrow> u32 \<Rightarrow> u32 option" where
  "parse_spaces tr m command i =
     (if ld8 tr m (command + i) = 32 then parse_spaces tr m command (i + 1) else Some i)"

text \<open>
  The copies into the two local arrays have no bound in the source. The model stores them as they are,
  so a word or an argument of 128 characters or more runs on into the memory behind the arrays; of
  what lies there the bytes of the model change, not the records of the kernel, and every property of
  \<open>execute\<close> that speaks of a started program is for command lines that fit (\<open>command_ok\<close>).
\<close>

definition parse_arg :: "translation \<Rightarrow> memory \<Rightarrow> addr \<Rightarrow> addr \<Rightarrow> addr \<Rightarrow> memory option" where
  "parse_arg tr m command command_buf arg_buf =
     (case parse_token tr m command 0 of None \<Rightarrow> None
      | Some i \<Rightarrow>
          let m = memcpy tr m command_buf command i;
              m = st8 tr m (command_buf + i) 0
          in case parse_spaces tr m command i of None \<Rightarrow> None
             | Some i \<Rightarrow> strcpy tr m arg_buf (command + i))"

section \<open>Starting a program\<close>

text \<open>The descriptor table of a new process; the inode numbers of the locals are not set.\<close>

definition init_files :: "frame \<Rightarrow> fops_t option \<Rightarrow> fd_t list" where
  "init_files fr tf =
     \<lparr>fops = tf, inode = 0, inode_num = fr_uninit fr 0, pos = 0, flags = FD_LIVE\<rparr> #
     \<lparr>fops = tf, inode = 0, inode_num = fr_uninit fr 1, pos = 0, flags = FD_LIVE\<rparr> #
     replicate 6 \<lparr>fops = None, inode = 0, inode_num = fr_uninit fr 2, pos = 0, flags = 0\<rparr>"

text \<open>
  \<open>execute\<close> from the point where the executable is known to be one and process \<open>p\<close> has been
  added, in three stages. \<open>init_pcb\<close> fills the control block up to the terminal number.
\<close>

definition init_pcb :: "frame \<Rightarrow> u32 \<Rightarrow> 'h kernel \<Rightarrow> 'h kernel" where
  "init_pcb fr p k =
     (let pcb_start = cur_pcb_at k;
          tf = get_device_fops TERM_FTYPE (ptab k);
          a = pcb_addr p;
          k = upd_pcb a (\<lambda>b. b\<lparr>files := init_files fr tf, pid := p\<rparr>) k
      in if curr_terminal_running_process (kbd k) (ptab k)
         then upd_pcb a (\<lambda>b. b\<lparr>parent_pcb := pcb_start, term_num := term_num (pcbs k pcb_start)\<rparr>) k
         else upd_pcb a (\<lambda>b. b\<lparr>parent_pcb := 0, term_num := get_current_terminal (kbd k)\<rparr>) k)"

text \<open>
  \<open>map_process\<close> fills the page directory of \<open>p\<close>, row \<open>i\<close>, by \<open>pd_init\<close> and \<open>set_pde\<close> (\<open>process_pd\<close>) and
  loads it.
\<close>

definition map_process :: "'h machine \<Rightarrow> u32 \<Rightarrow> nat \<Rightarrow> 'h kernel \<Rightarrow> 'h kernel" where
  "map_process mc p i k =
     (let g = pg k;
          g = g\<lparr>pds := (pds g)[i := process_pd (m_lay mc) (pds g ! i) p (term_num (pcbs k (pcb_addr p)))]\<rparr>
      in k\<lparr>pg := set_pd (Some (pd_row i)) g\<rparr>)"

text \<open>
  \<open>enter_process\<close> is the rest, which sees memory through that directory: the arguments, of which
  128 bytes and more would overrun the control block, the kernel stack, and the program image.
\<close>

definition enter_process :: "'h machine \<Rightarrow> frame \<Rightarrow> u32 \<Rightarrow> nat \<Rightarrow> 'h kernel \<Rightarrow> 'h kernel option" where
  "enter_process mc fr p i k =
     (let tr = cur_tr mc k; a = pcb_addr p
      in case strlen tr (mem k) (fr_args fr) of None \<Rightarrow> None
         | Some n \<Rightarrow>
             if unat n \<ge> ARGS_MAX then None
             else
               let k = upd_pcb a (\<lambda>b. b\<lparr>args_len := n,
                         args := load_bytes tr (mem k) (fr_args fr) (unat n + 1) @ drop (unat n + 1) (args b),
                         pd := Some (pd_row i),
                         ctx := (ctx b)\<lparr>c_esp0 := KERNEL_MEM_END - KERNEL_STACK_SIZE * p - WORD_SIZE\<rparr>\<rparr>) k;
                   k = k\<lparr>ptab := snd (set_active_process (term_num (pcbs k a)) p (ptab k)),
                         tss_esp0 := c_esp0 (ctx (pcbs k a)), tss_ss0 := KERNEL_DS\<rparr>;
                   k = k\<lparr>mem := snd (load tr (bootblock k) (mem k) (fr_dentry fr) START_EXE_ADDR)\<rparr>
               in Some (upd_pcb a (\<lambda>b. b\<lparr>ebp_parent := r_ebp k, esp_parent := r_esp k\<rparr>) k))"

definition start_process ::
  "'h machine \<Rightarrow> frame \<Rightarrow> u32 \<Rightarrow> 'h kernel \<Rightarrow> (flow \<times> 'h kernel) option" where
  "start_process mc fr p k =
     (let addr = ld32 (cur_tr mc k) (mem k) (fr_buf fr + ELF_ADDR_OFFS);
          vm_end = PROG_VM_START + SPACE_4MB - WORD_SIZE
      in case get_process_pd p of
           Some (pd_row i) \<Rightarrow>
             (case enter_process mc fr p i (map_process mc p i (init_pcb fr p k)) of None \<Rightarrow> None
              | Some k \<Rightarrow> Some (Enter_user addr vm_end, k))
         | _ \<Rightarrow> None)"

definition execute :: "'h machine \<Rightarrow> frame \<Rightarrow> addr \<Rightarrow> 'h kernel \<Rightarrow> (flow \<times> 'h kernel) option" where
  "execute mc fr command k =
     (let tr = cur_tr mc k
      in case parse_arg tr (mem k) command (fr_command_buf fr) (fr_args fr) of None \<Rightarrow> None
         | Some m \<Rightarrow>
            (case read_dentry_by_name tr (bootblock k) m (fr_command_buf fr) (fr_dentry fr) of None \<Rightarrow> None
             | Some (r, m) \<Rightarrow>
                 if r = -1 then Some (Ret (-1), k\<lparr>mem := m\<rparr>)
                 else
                   let (n, m) = read_data tr (bootblock k) m (dentry_inode tr m (fr_dentry fr)) 0 (fr_buf fr) ELF_HEADER_LEN
                   in if sint n < 40 then Some (Ret (-1), k\<lparr>mem := m\<rparr>)
                      else if ld32 tr m (fr_buf fr) = ELF_MAGIC then
                        let (p, pt) = add_process (ptab k)
                        in if sint p < 0 then Some (Ret (-1), k\<lparr>mem := m, ptab := pt\<rparr>)
                           else start_process mc fr p (k\<lparr>mem := m, ptab := pt\<rparr>)
                      else Some (Ret (-1), k\<lparr>mem := m\<rparr>)))"

text \<open>Behind \<open>halt_ret_label\<close>: the status goes through an \<open>int8_t\<close> into the \<open>int32_t\<close> result.\<close>

definition execute_return :: "u8 \<Rightarrow> u32" where
  "execute_return status = scast status"

text \<open>
  \<open>while(1) execute("shell")\<close> goes on until a shell starts. Without a shell that can be started it
  goes on for ever, which is the result \<open>None\<close>, as is an \<open>execute\<close> that does not come to an end; that the
  first shell is started is proved in theory \<open>Bootrun\<close>.
\<close>

partial_function (option) shell_loop :: "'h machine \<Rightarrow> frame \<Rightarrow> addr \<Rightarrow> 'h kernel \<Rightarrow> (flow \<times> 'h kernel) option" where
  "shell_loop mc fr shell k =
     (case execute mc fr shell k of None \<Rightarrow> None
      | Some (Ret r, k) \<Rightarrow> shell_loop mc fr shell k
      | Some (fl, k) \<Rightarrow> Some (fl, k))"

section \<open>Ending a program\<close>

fun halt_close :: "'h machine \<Rightarrow> nat list \<Rightarrow> 'h kernel \<Rightarrow> 'h kernel option" where
  "halt_close mc [] k = Some k"
| "halt_close mc (i # is) k =
     (let d = files (cur_pcb k) ! i
      in if flags d AND FD_LIVE \<noteq> 0 then
           case fops d of None \<Rightarrow> None | Some f \<Rightarrow> halt_close mc is (snd (fops_close mc f (of_nat i) k))
         else halt_close mc is k)"

definition halt :: "'h machine \<Rightarrow> frame \<Rightarrow> u8 \<Rightarrow> 'h kernel \<Rightarrow> (flow \<times> 'h kernel) option" where
  "halt mc fr status k =
     (let child = cur_pcb_at k;
          parent = parent_pcb (pcbs k child);
          k = k\<lparr>ptab := snd (delete_process (pid (pcbs k child)) (ptab k))\<rparr>
      in case halt_close mc [0..<8] k of None \<Rightarrow> None
         | Some k \<Rightarrow>
             if parent \<noteq> 0 then
               let k = k\<lparr>pg := set_pd (pd (pcbs k parent)) (pg k), tss_esp0 := c_esp0 (ctx (pcbs k parent)),
                         ptab := snd (set_active_process (term_num (pcbs k parent)) (pid (pcbs k parent)) (ptab k))\<rparr>
               in Some (Resume_parent status, k\<lparr>r_esp := esp_parent (pcbs k child), r_ebp := ebp_parent (pcbs k child)\<rparr>)
             else
               shell_loop mc fr (m_shell mc)
                 (k\<lparr>pg := set_pd None (pg k), ptab := snd (set_active_process (term_num (pcbs k child)) (-1) (ptab k))\<rparr>))"

section \<open>Splitting a command line\<close>

text \<open>
  The command is the text up to the first space or newline, the arguments are what follows behind
  the spaces.
\<close>

definition cmd_word :: "bytes \<Rightarrow> bytes" where
  "cmd_word xs = takeWhile (\<lambda>c. c \<noteq> 32 \<and> c \<noteq> 10) xs"

definition cmd_args :: "bytes \<Rightarrow> bytes" where
  "cmd_args xs = dropWhile (\<lambda>c. c = 32) (dropWhile (\<lambda>c. c \<noteq> 32 \<and> c \<noteq> 10) xs)"

lemma cmd_parts:
  fixes xs :: bytes
  defines "i \<equiv> length (cmd_word xs)"
  defines "j \<equiv> i + length (takeWhile (\<lambda>c. c = 32) (drop i xs))"
  shows "cmd_word xs = take i xs" "cmd_args xs = drop j xs" "i \<le> length xs" "j \<le> length xs"
proof -
  show "cmd_word xs = take i xs" unfolding i_def cmd_word_def by (rule takeWhile_eq_take)
  show le: "i \<le> length xs" by (simp add: i_def cmd_word_def length_takeWhile_le)
  have "dropWhile (\<lambda>c. c \<noteq> 32 \<and> c \<noteq> 10) xs = drop i xs"
    by (simp add: dropWhile_eq_drop i_def cmd_word_def)
  then show "cmd_args xs = drop j xs"
    by (simp add: cmd_args_def dropWhile_eq_drop j_def add.commute)
  have "length (takeWhile (\<lambda>c. c = 32) (drop i xs)) \<le> length xs - i"
    using length_takeWhile_le [of "\<lambda>c. c = 32" "drop i xs"] by simp
  then show "j \<le> length xs" using le by (simp add: j_def)
qed

lemma parse_token_eq:
  assumes "cstring tr m command xs" "i \<le> length xs"
  shows "parse_token tr m command (of_nat i) =
    Some (of_nat (i + length (takeWhile (\<lambda>c. c \<noteq> 32 \<and> c \<noteq> 10) (drop i xs))))"
  using assms(2)
proof (induction "length xs - i" arbitrary: i)
  case 0
  then show ?case
    using cstring_nth [OF assms(1), of i] by (subst parse_token.simps) (simp add: nth_append)
next
  case (Suc n)
  then have i: "i < length xs" by simp
  have IH: "parse_token tr m command (of_nat (Suc i)) =
      Some (of_nat (Suc i + length (takeWhile (\<lambda>c. c \<noteq> 32 \<and> c \<noteq> 10) (drop (Suc i) xs))))"
    using Suc i by (intro Suc.hyps) auto
  have c: "ld8 tr m (command + of_nat i) = xs ! i" "xs ! i \<noteq> 0"
    using cstring_nth [OF assms(1), of i] cstring_nz [OF assms(1) i] i by (simp_all add: nth_append)
  show ?case
    using c i IH by (subst parse_token.simps) (simp add: Cons_nth_drop_Suc [symmetric] add.commute)
qed

lemma parse_spaces_eq:
  assumes "cstring tr m command xs" "i \<le> length xs"
  shows "parse_spaces tr m command (of_nat i) =
    Some (of_nat (i + length (takeWhile (\<lambda>c. c = 32) (drop i xs))))"
  using assms(2)
proof (induction "length xs - i" arbitrary: i)
  case 0
  then show ?case
    using cstring_nth [OF assms(1), of i] by (subst parse_spaces.simps) (simp add: nth_append)
next
  case (Suc n)
  then have i: "i < length xs" by simp
  have IH: "parse_spaces tr m command (of_nat (Suc i)) =
      Some (of_nat (Suc i + length (takeWhile (\<lambda>c. c = 32) (drop (Suc i) xs))))"
    using Suc i by (intro Suc.hyps) auto
  have c: "ld8 tr m (command + of_nat i) = xs ! i"
    using cstring_nth [OF assms(1), of i] i by (simp add: nth_append)
  show ?case
    using c i IH by (subst parse_spaces.simps) (simp add: Cons_nth_drop_Suc [symmetric] add.commute)
qed

context address_space
begin

lemma parse_arg_eq:
  assumes c: "cstring tr m command xs" and mp: "rng command (Suc (length xs)) \<subseteq> mapped"
    and cb: "rng cb (Suc (length (cmd_word xs))) \<subseteq> mapped"
      "rng command (Suc (length xs)) \<inter> rng cb (Suc (length (cmd_word xs))) = {}"
    and ab: "rng ab (Suc (length (cmd_args xs))) \<subseteq> mapped"
      "rng command (Suc (length xs)) \<inter> rng ab (Suc (length (cmd_args xs))) = {}"
  shows "parse_arg tr m command cb ab =
    Some (store_bytes tr (store_bytes tr m cb (cmd_word xs @ [0])) ab (cmd_args xs @ [0]))"
proof -
  define i where "i = length (cmd_word xs)"
  define j where "j = i + length (takeWhile (\<lambda>c. c = 32) (drop i xs))"
  note p = cmd_parts [of xs, folded i_def, folded j_def]
  have len: "length xs < 4294967296" using c by (simp add: cstring_def)
  have ui: "unat (of_nat i :: u32) = i" using p(3) len by (simp add: unat_of_nat_u32)
  have t: "parse_token tr m command 0 = Some (of_nat i)"
    using parse_token_eq [OF c, of 0] by (simp add: i_def cmd_word_def)
  have "rng command i \<subseteq> rng command (Suc (length xs))" "rng cb i \<subseteq> rng cb (Suc i)"
    using p(3) by (intro rng_mono; simp)+
  then have "rng command i \<subseteq> mapped" "rng cb i \<subseteq> mapped" "rng command i \<inter> rng cb i = {}"
    using mp cb unfolding i_def by blast+
  then have "memcpy tr m cb command (of_nat i) = store_bytes tr m cb (load_bytes tr m command i)"
    using memcpy_eq [of command "of_nat i" cb m] ui by simp
  moreover have "load_bytes tr m command i = cmd_word xs"
    using c p(1,3) take_load_bytes [of i "length xs" tr m command] by (simp add: cstring_def)
  ultimately have m1: "st8 tr (memcpy tr m cb command (of_nat i)) (cb + of_nat i) 0 = store_bytes tr m cb (cmd_word xs @ [0])"
    by (simp add: store_bytes_snoc i_def)
  let ?m = "store_bytes tr m cb (cmd_word xs @ [0])"
  have c1: "cstring tr ?m command xs"
    using cb p(3) len mp by (intro cstring_store_disjoint [OF c]) (auto simp: i_def)
  have s: "parse_spaces tr ?m command (of_nat i) = Some (of_nat j)"
    using parse_spaces_eq [OF c1 p(3)] by (simp add: j_def)
  have "rng (command + of_nat j) (Suc (length (cmd_args xs))) \<subseteq> rng command (Suc (length xs))"
    using p(2,4) by (intro rng_sub) simp
  then have "strcpy tr ?m ab (command + of_nat j) = Some (store_bytes tr ?m ab (cmd_args xs @ [0]))"
    using cstring_drop [OF c1 p(4)] p(2) mp ab by (intro strcpy_eq) auto
  with t m1 s show ?thesis by (simp add: parse_arg_def Let_def)
qed

end

section \<open>The file system under stores and translations\<close>

lemma cstring_cong:
  assumes "cstring tr m s bs" "\<And>x. x \<in> rng s (Suc (length bs)) \<Longrightarrow> ld8 tr' m' x = ld8 tr m x"
  shows "cstring tr' m' s bs"
proof -
  have len: "length bs < 4294967296" using assms(1) by (simp add: cstring_def)
  have o: "ld8 tr' m' (s + of_nat i) = ld8 tr m (s + of_nat i)" if "i \<le> length bs" for i
    using that len by (intro assms(2) rng_offset) auto
  then have "load_bytes tr' m' s (length bs) = load_bytes tr m s (length bs)"
    by (intro nth_equalityI) auto
  with o assms(1) show ?thesis by (simp add: cstring_def)
qed

lemma entry_rng:
  assumes "j < 63"
  shows "rng (bootblock_dentry bb (of_nat j)) 64 \<subseteq> rng bb (fs_size tr m bb)"
  using assms by (intro rng_sub_fs [of "64 + 64 * j"]) (simp_all add: fs_size_def bootblock_dentry_def)

lemma fs_same_trans:
  assumes "fs_same tr bb m m'" "fs_same tr bb m' m''"
  shows "fs_same tr bb m m''"
proof -
  have "fs_size tr m' bb = fs_size tr m bb" by (simp add: fs_size_def fs_same_header [OF assms(1)])
  with assms show ?thesis by (simp add: fs_same_def)
qed

lemma fs_same_dir:
  assumes "fs_same tr bb m m'" "dir_names tr m bb names" "\<forall>x \<in> set names. length x < 64"
  shows "dir_names tr m' bb names"
proof -
  have "cstring tr m' (bootblock_dentry bb (of_nat j)) (names ! j)" if j: "j < length names" for j
  proof (rule cstring_cong)
    show "cstring tr m (bootblock_dentry bb (of_nat j)) (names ! j)" using assms(2) j by (simp add: dir_names_def)
    fix x assume "x \<in> rng (bootblock_dentry bb (of_nat j)) (Suc (length (names ! j)))"
    moreover have "Suc (length (names ! j)) \<le> 64" using assms(3) j nth_mem by (auto simp: Suc_le_eq)
    then have "rng (bootblock_dentry bb (of_nat j)) (Suc (length (names ! j))) \<subseteq> rng (bootblock_dentry bb (of_nat j)) 64"
      by (rule rng_mono)
    moreover have "j < 63" using assms(2) j by (simp add: dir_names_def)
    ultimately have "x \<in> rng bb (fs_size tr m bb)" using entry_rng [of j bb tr m] by blast
    then show "ld8 tr m' x = ld8 tr m x" using assms(1) by (simp add: fs_same_def)
  qed
  then show ?thesis using assms(2) fs_same_header(1) [OF assms(1)] by (simp add: dir_names_def)
qed

text \<open>
  What the code sees of the image depends on the translation only through the bytes of the image:
  two translations that agree on it show the same file system.
\<close>

lemma view:
  "ld8 tr m a = ld8 (\<lambda>a. a) (\<lambda>a. m (tr a)) a" "ld32 tr m a = ld32 (\<lambda>a. a) (\<lambda>a. m (tr a)) a"
  by (simp_all add: ld8_def ld32_def)

lemma file_byte_view: "file_byte tr m bb ino = file_byte (\<lambda>a. a) (\<lambda>a. m (tr a)) bb ino"
  by (rule ext) (simp only: file_byte_def block_addr_def inode_data_block_def inode_cnt_def view [of tr m] Let_def)

lemma fs_view:
  "inode_cnt tr m bb = inode_cnt (\<lambda>a. a) (\<lambda>a. m (tr a)) bb" "fs_size tr m bb = fs_size (\<lambda>a. a) (\<lambda>a. m (tr a)) bb"
  "file_bytes tr m bb ino = file_bytes (\<lambda>a. a) (\<lambda>a. m (tr a)) bb ino"
  "file_len tr m bb ino = file_len (\<lambda>a. a) (\<lambda>a. m (tr a)) bb ino"
  "fs_wf tr m bb = fs_wf (\<lambda>a. a) (\<lambda>a. m (tr a)) bb"
  by (simp_all only: inode_cnt_def fs_size_def data_block_cnt_def file_bytes_def file_len_def
      file_byte_view [of tr m] inode_length_def inode_data_block_def fs_wf_def inode_wf_def dir_entries_cnt_def
      view [of tr m] Let_def)

lemma fs_translate:
  assumes "fs_wf tr m bb" "\<And>x. x \<in> rng bb (fs_size tr m bb) \<Longrightarrow> tr' x = tr x"
  shows "fs_wf tr' m bb" "fs_size tr' m bb = fs_size tr m bb" "inode_cnt tr' m bb = inode_cnt tr m bb"
    "ino < inode_cnt tr m bb \<Longrightarrow> file_bytes tr' m bb ino = file_bytes tr m bb ino"
proof -
  let ?m = "\<lambda>a. m (tr a)" and ?m' = "\<lambda>a. m (tr' a)"
  have same: "fs_same (\<lambda>a. a) bb ?m ?m'"
    using assms(2) by (simp add: fs_same_def fs_view(2) [of tr] ld8_def)
  note hdr = fs_same_header [OF same]
  show "fs_wf tr' m bb"
    using flat.fs_same_wf [OF _ same] assms(1) fs_view(5) [of tr m bb] fs_view(5) [of tr' m bb] by simp
  show "fs_size tr' m bb = fs_size tr m bb"
    using flat.fs_same_size [OF same] fs_view(2) [of tr m bb] fs_view(2) [of tr' m bb] by simp
  show "inode_cnt tr' m bb = inode_cnt tr m bb"
    using hdr fs_view(1) [of tr m bb] fs_view(1) [of tr' m bb] by simp
  show "file_bytes tr' m bb ino = file_bytes tr m bb ino" if "ino < inode_cnt tr m bb"
    using fs_same_file_bytes [OF _ same, of ino] that assms(1) fs_view [of tr m bb] fs_view(3) [of tr' m bb]
    by metis
qed

section \<open>From the command line to a new process\<close>

abbreviation kernel_page :: "addr set" where
  "kernel_page \<equiv> rng KERNEL_LOC 4194304"

text \<open>
  The locals of \<open>execute\<close> lie in the kernel's page, apart from each other, from the command line
  and from the file system image.
\<close>

definition frame_ok :: "frame \<Rightarrow> addr set \<Rightarrow> bool" where
  "frame_ok fr other \<longleftrightarrow>
     rng (fr_command_buf fr) 128 \<union> rng (fr_args fr) 128 \<union> rng (fr_buf fr) 40 \<union> rng (fr_dentry fr) 64 \<subseteq> kernel_page \<and>
     rng (fr_command_buf fr) 128 \<inter> rng (fr_args fr) 128 = {} \<and>
     rng (fr_buf fr) 40 \<inter> (rng (fr_args fr) 128 \<union> rng (fr_dentry fr) 64) = {} \<and>
     rng (fr_dentry fr) 64 \<inter> rng (fr_args fr) 128 = {} \<and>
     other \<inter> (rng (fr_command_buf fr) 128 \<union> rng (fr_args fr) 128 \<union> rng (fr_buf fr) 40 \<union> rng (fr_dentry fr) 64) = {}"

text \<open>
  A command line that names an executable: the directory has an entry for its first word, whose
  file is an ELF file that fits a program's memory. The file system image is in the kernel's page.
\<close>

definition command_ok ::
  "translation \<Rightarrow> memory \<Rightarrow> addr \<Rightarrow> addr set \<Rightarrow> bytes list \<Rightarrow> addr \<Rightarrow> bytes \<Rightarrow> frame \<Rightarrow> u32 \<Rightarrow> bool" where
  "command_ok tr m bb mapped names command xs fr ino \<longleftrightarrow>
     kernel_page \<subseteq> mapped \<and> cstring tr m command xs \<and> rng command (Suc (length xs)) \<subseteq> mapped \<and> length xs < 127 \<and>
     fs_wf tr m bb \<and> dir_names tr m bb names \<and> (\<forall>x \<in> set names. length x < 64) \<and>
     rng bb (fs_size tr m bb) \<subseteq> kernel_page \<and>
     frame_ok fr (rng command (Suc (length xs)) \<union> rng bb (fs_size tr m bb)) \<and>
     (\<exists>j. first_index (cmd_word xs) names = Some j \<and> dentry_inode tr m (bootblock_dentry bb (of_nat j)) = ino) \<and>
     ino < inode_cnt tr m bb \<and> 40 \<le> file_len tr m bb ino \<and> file_len tr m bb ino \<le> 0x3B8000 \<and>
     take 4 (file_bytes tr m bb ino) = [0x7F, 0x45, 0x4C, 0x46]"

text \<open>What is in memory when the process is created.\<close>

definition kernel_stores :: "translation \<Rightarrow> memory \<Rightarrow> memory \<Rightarrow> bool" where
  "kernel_stores tr m m' \<longleftrightarrow> (\<forall>p. p \<notin> tr ` kernel_page \<longrightarrow> m' p = m p)"

lemma kernel_stores_store:
  assumes "kernel_stores tr m m'" "rng a (length bs) \<subseteq> kernel_page" "length bs \<le> 4294967296"
  shows "kernel_stores tr m (store_bytes tr m' a bs)"
  using assms store_bytes_frame [of _ tr a bs m'] by (fastforce simp: kernel_stores_def)

lemma kernel_stores_refl: "kernel_stores tr m m"
  by (simp add: kernel_stores_def)

definition exec_ready ::
  "translation \<Rightarrow> addr \<Rightarrow> memory \<Rightarrow> memory \<Rightarrow> bytes \<Rightarrow> frame \<Rightarrow> u32 \<Rightarrow> bool" where
  "exec_ready tr bb m m3 xs fr ino \<longleftrightarrow> fs_same tr bb m m3 \<and> dentry_inode tr m3 (fr_dentry fr) = ino \<and>
     cstring tr m3 (fr_args fr) (cmd_args xs) \<and> load_bytes tr m3 (fr_buf fr) 40 = take 40 (file_bytes tr m bb ino) \<and>
     kernel_stores tr m m3"

lemma cmd_lengths:
  assumes "length xs < 127"
  shows "length (cmd_word xs) < 127" "length (cmd_args xs) < 127"
  using assms length_takeWhile_le [of "\<lambda>c. c \<noteq> 32 \<and> c \<noteq> 10" xs]
    le_trans [OF length_dropWhile_le length_dropWhile_le, of "\<lambda>c. c = 32" "\<lambda>c. c \<noteq> 32 \<and> c \<noteq> 10" xs]
  by (simp_all add: cmd_word_def cmd_args_def)

lemma cmd_no_nul:
  assumes "0 \<notin> set xs"
  shows "0 \<notin> set (cmd_word xs)" "0 \<notin> set (cmd_args xs)"
  using assms set_takeWhileD [of 0 "\<lambda>c. c \<noteq> 32 \<and> c \<noteq> 10" xs]
    set_dropWhileD [of 0 "\<lambda>c. c = 32" "dropWhile (\<lambda>c. c \<noteq> 32 \<and> c \<noteq> 10) xs"]
    set_dropWhileD [of 0 "\<lambda>c. c \<noteq> 32 \<and> c \<noteq> 10" xs]
  by (auto simp: cmd_word_def cmd_args_def)

context address_space
begin

lemma exec_stores:
  assumes ok: "command_ok tr m bb mapped names command xs fr ino"
  defines "m1 \<equiv> store_bytes tr (store_bytes tr m (fr_command_buf fr) (cmd_word xs @ [0])) (fr_args fr) (cmd_args xs @ [0])"
  shows "parse_arg tr m command (fr_command_buf fr) (fr_args fr) = Some m1 \<and> fs_same tr bb m m1 \<and>
    cstring tr m1 (fr_command_buf fr) (cmd_word xs) \<and> cstring tr m1 (fr_args fr) (cmd_args xs) \<and> kernel_stores tr m m1"
proof -
  let ?cb = "fr_command_buf fr" and ?ab = "fr_args fr" and ?img = "rng bb (fs_size tr m bb)"
  let ?w = "cmd_word xs" and ?a = "cmd_args xs"
  have c: "cstring tr m command xs" and fr: "frame_ok fr (rng command (Suc (length xs)) \<union> ?img)"
    and kp: "kernel_page \<subseteq> mapped" "?img \<subseteq> kernel_page" "rng command (Suc (length xs)) \<subseteq> mapped"
    using ok by (auto simp: command_ok_def)
  have len: "length ?w < 127" "length ?a < 127" using ok cmd_lengths [of xs] by (auto simp: command_ok_def)
  have nz: "0 \<notin> set ?w" "0 \<notin> set ?a" using c cmd_no_nul [of xs] by (auto simp: cstring_def)
  have "rng ?cb (Suc (length ?w)) \<subseteq> rng ?cb 128" "rng ?ab (Suc (length ?a)) \<subseteq> rng ?ab 128"
    using len by (intro rng_mono; simp)+
  then have r: "rng ?cb (Suc (length ?w)) \<subseteq> kernel_page" "rng ?ab (Suc (length ?a)) \<subseteq> kernel_page"
    "rng ?cb (Suc (length ?w)) \<inter> rng ?ab (Suc (length ?a)) = {}"
    "rng command (Suc (length xs)) \<inter> rng ?cb (Suc (length ?w)) = {}"
    "rng command (Suc (length xs)) \<inter> rng ?ab (Suc (length ?a)) = {}"
    "?img \<inter> rng ?cb (Suc (length ?w)) = {}" "?img \<inter> rng ?ab (Suc (length ?a)) = {}"
    using fr unfolding frame_ok_def by blast+
  then have mp: "rng ?cb (Suc (length ?w)) \<subseteq> mapped" "rng ?ab (Suc (length ?a)) \<subseteq> mapped" "?img \<subseteq> mapped"
    using kp by auto
  let ?m = "store_bytes tr m ?cb (?w @ [0])"
  have s0: "fs_same tr bb m ?m" using mp r(6) len by (intro fs_same_store) auto
  have "fs_same tr bb ?m m1"
    unfolding m1_def using mp r(7) len fs_same_size [OF s0] by (intro fs_same_store) auto
  moreover have "cstring tr m1 ?ab ?a" unfolding m1_def using nz len mp by (intro cstring_store) auto
  moreover have "cstring tr m1 ?cb ?w"
    unfolding m1_def using nz len mp r(3)
    by (intro cstring_store_disjoint cstring_store) (auto simp: Int_commute)
  moreover have "parse_arg tr m command ?cb ?ab = Some m1"
    unfolding m1_def using c kp mp r by (intro parse_arg_eq) auto
  moreover have "kernel_stores tr m m1" unfolding m1_def using r(1,2) len by (intro kernel_stores_store kernel_stores_refl) auto
  ultimately show ?thesis using fs_same_trans [OF s0] by blast
qed

lemma exec_lookup:
  assumes ok: "command_ok tr m bb mapped names command xs fr ino"
    and m1: "fs_same tr bb m m1" "cstring tr m1 (fr_command_buf fr) (cmd_word xs)" "cstring tr m1 (fr_args fr) (cmd_args xs)"
      "kernel_stores tr m m1"
  shows "\<exists>m2. read_dentry_by_name tr bb m1 (fr_command_buf fr) (fr_dentry fr) = Some (0, m2) \<and>
    fs_same tr bb m m2 \<and> dentry_inode tr m2 (fr_dentry fr) = ino \<and> cstring tr m2 (fr_args fr) (cmd_args xs) \<and> kernel_stores tr m m2"
proof -
  let ?d = "fr_dentry fr" and ?img = "rng bb (fs_size tr m bb)"
  obtain j where j: "first_index (cmd_word xs) names = Some j" "dentry_inode tr m (bootblock_dentry bb (of_nat j)) = ino"
    using ok by (auto simp: command_ok_def)
  let ?e = "bootblock_dentry bb (of_nat j)"
  have dn: "dir_names tr m bb names" "\<forall>x \<in> set names. length x < 64"
    and fr: "frame_ok fr (rng command (Suc (length xs)) \<union> ?img)"
    and kp: "kernel_page \<subseteq> mapped" "?img \<subseteq> kernel_page" using ok by (auto simp: command_ok_def)
  have j63: "l < length names \<Longrightarrow> l < 63" for l using dn(1) by (simp add: dir_names_def)
  have d: "rng ?d 64 \<subseteq> mapped" "?img \<inter> rng ?d 64 = {}" using fr kp unfolding frame_ok_def by blast+
  have sz: "fs_size tr m1 bb = fs_size tr m bb" by (rule fs_same_size [OF m1(1)])
  have e: "rng (bootblock_dentry bb (of_nat l)) 64 \<subseteq> ?img" if "l < length names" for l
    using entry_rng [OF j63 [OF that]] .
  have dir: "dir_at tr m1 bb mapped ?d names"
    unfolding dir_at_def using fs_same_dir [OF m1(1) dn] d e kp by blast
  define m2 where "m2 = store_bytes tr m1 ?d (load_bytes tr m1 ?e 64)"
  have l: "read_dentry_by_name tr bb m1 (fr_command_buf fr) ?d = Some (0, m2)"
    using lookup_eq [OF dir m1(2)] j(1) by (simp add: m2_def)
  have "fs_same tr bb m1 m2" unfolding m2_def using sz d kp by (intro fs_same_store) auto
  with m1(1) have same: "fs_same tr bb m m2" by (rule fs_same_trans)
  have "rng (?e + of_nat 36) 4 \<subseteq> rng ?e 64" by (intro rng_sub) simp
  then have "rng (?e + 36) 4 \<subseteq> ?img" using e [of j] first_index_Some [OF j(1)] by simp
  then have "dentry_inode tr m1 ?e = ino" using fs_sameD [OF m1(1)] j(2) by (simp add: dentry_inode_def)
  then have ino: "dentry_inode tr m2 ?d = ino" using dentry_fields(2) [OF d(1) m2_def] by simp
  have a: "rng (fr_args fr) (Suc (length (cmd_args xs))) \<subseteq> rng (fr_args fr) 128"
    using ok cmd_lengths(2) [of xs] by (intro rng_mono) (simp add: command_ok_def)
  have "cstring tr m2 (fr_args fr) (cmd_args xs)"
    unfolding m2_def using m1(3) d(1) kp(1) fr a unfolding frame_ok_def
    by (intro cstring_store_disjoint) (simp, blast, simp, simp, blast, simp)
  moreover have "kernel_stores tr m m2"
    unfolding m2_def using fr unfolding frame_ok_def by (intro kernel_stores_store m1(4)) auto
  ultimately show ?thesis using l same ino by blast
qed

lemma exec_header:
  assumes ok: "command_ok tr m bb mapped names command xs fr ino"
    and m2: "fs_same tr bb m m2" "dentry_inode tr m2 (fr_dentry fr) = ino" "cstring tr m2 (fr_args fr) (cmd_args xs)" "kernel_stores tr m m2"
  shows "\<exists>m3. read_data tr bb m2 ino 0 (fr_buf fr) 40 = (40, m3) \<and> exec_ready tr bb m m3 xs fr ino"
proof -
  let ?b = "fr_buf fr" and ?img = "rng bb (fs_size tr m bb)"
  have wf: "fs_wf tr m bb" "ino < inode_cnt tr m bb" "40 \<le> file_len tr m bb ino"
    and fr: "frame_ok fr (rng command (Suc (length xs)) \<union> ?img)"
    and kp: "kernel_page \<subseteq> mapped" "?img \<subseteq> kernel_page" using ok by (auto simp: command_ok_def)
  have b: "rng ?b 40 \<subseteq> mapped" "?img \<inter> rng ?b 40 = {}" "rng ?b 40 \<inter> rng (fr_dentry fr) 64 = {}"
    "rng ?b 40 \<inter> rng (fr_args fr) 128 = {}" "rng (fr_dentry fr) 64 \<subseteq> mapped" "rng (fr_args fr) 128 \<subseteq> mapped"
    using fr kp unfolding frame_ok_def by blast+
  note sz = fs_same_size [OF m2(1)]
  define h where "h = take 40 (file_bytes tr m bb ino)"
  have lh: "length h = 40" using wf(3) by (simp add: h_def)
  have fb: "file_bytes tr m2 bb ino = file_bytes tr m bb ino" by (rule fs_same_file_bytes [OF wf(1) m2(1) wf(2)])
  define m3 where "m3 = store_bytes tr m2 ?b h"
  have "read_data tr bb m2 ino 0 ?b 40 = (of_nat (length h), store_bytes tr m2 ?b h)"
    using wf b kp sz fb fs_same_header(2) [OF m2(1)]
    by (intro read_data_eq [OF fs_same_wf [OF wf(1) m2(1)]]) (auto simp: h_def)
  then have rd: "read_data tr bb m2 ino 0 ?b 40 = (40, m3)" using lh by (simp add: m3_def)
  have "fs_same tr bb m2 m3" unfolding m3_def using sz b kp lh by (intro fs_same_store) auto
  with m2(1) have same: "fs_same tr bb m m3" by (rule fs_same_trans)
  have "rng (fr_dentry fr + of_nat 36) 4 \<subseteq> rng (fr_dentry fr) 64" by (intro rng_sub) simp
  then have "ld32 tr m3 (fr_dentry fr + 36) = ld32 tr m2 (fr_dentry fr + 36)"
    unfolding m3_def using b lh by (intro ld32_store_disjoint) auto
  then have ino: "dentry_inode tr m3 (fr_dentry fr) = ino" using m2(2) by (simp add: dentry_inode_def)
  have a: "rng (fr_args fr) (Suc (length (cmd_args xs))) \<subseteq> rng (fr_args fr) 128"
    using ok cmd_lengths(2) [of xs] by (intro rng_mono) (simp add: command_ok_def)
  have "cstring tr m3 (fr_args fr) (cmd_args xs)"
    unfolding m3_def using m2(3) b a lh by (intro cstring_store_disjoint) auto
  moreover have "load_bytes tr m3 ?b 40 = h"
    unfolding m3_def using load_store_same [of ?b h m2] b lh by simp
  moreover have "kernel_stores tr m m3"
    unfolding m3_def using fr lh unfolding frame_ok_def by (intro kernel_stores_store m2(4)) auto
  ultimately show ?thesis using rd same ino by (auto simp: exec_ready_def h_def)
qed

end

lemma kernel_user_disjoint: "kernel_page \<inter> rng PROG_VM_START 4194304 = {}"
  by (rule rng_disjoint(1)) simp_all

lemma ld32_load_bytes:
  assumes "load_bytes tr m a n = bs" "i + 4 \<le> n"
  shows "ld32 tr m (a + of_nat i) = word_of_bytes (bs ! i) (bs ! (i + 1)) (bs ! (i + 2)) (bs ! (i + 3))"
proof -
  have "bs ! l = ld8 tr m (a + of_nat l)" if "l < n" for l using assms(1) that by auto
  with assms(2) show ?thesis by (simp add: ld32_def algebra_simps)
qed

text \<open>The view of memory through the directory of a new process.\<close>

lemma new_view:
  assumes lay: "layout_ok lay" "tables_ok g" "paging_shape g" and q: "q \<in> {1..6}" and t: "t < 3"
    and g': "g' = g\<lparr>pds := (pds g)[q - 1 := process_pd lay (pds g ! (q - 1)) (of_nat q) (of_nat t)], cr3 := pd_row (q - 1)\<rparr>"
    and tr': "tr' = proc_tr lay g' (pd_of g' (cr3 g'))"
  shows "address_space tr' kernel_space" "\<And>x. x \<in> kernel_page \<Longrightarrow> tr' x = x"
    "\<And>x. x \<in> rng PROG_VM_START 4194304 \<Longrightarrow> tr' x = x + (KERNEL_MEM_END + (of_nat q - 1) * SPACE_4MB - PROG_VM_START)"
    "tables_ok g'" "paging_shape g'"
proof -
  let ?D = "process_pd lay (pds g ! (q - 1)) (of_nat q) (of_nat t)"
  have l: "length (pds g) = 6" "q - 1 < 6" using lay(3) q by (auto simp: paging_shape_def)
  then have m: "pds g ! (q - 1) \<in> set (pds g)" by simp
  then have len: "length (pds g ! (q - 1)) = 1024" using lay(3) by (auto simp: paging_shape_def)
  have tab: "tables_ok g'" using lay(2) by (simp add: g' tables_ok_def paging_on_def)
  then show "tables_ok g'" .
  have "set ((pds g)[q - 1 := ?D]) \<subseteq> insert ?D (set (pds g))" by (rule set_update_subset_insert)
  then have "\<forall>d \<in> set ((pds g)[q - 1 := ?D]). length d = 1024"
    using lay(3) len by (auto simp: paging_shape_def)
  then show "paging_shape g'" using lay(3) by (simp add: g' paging_shape_def)
  have "pd_of g' (cr3 g') = map_vidmap False ?D" using l by (simp add: g' pd_of_def map_vidmap_def)
  then have tr: "tr' = proc_tr lay g' (map_vidmap False ?D)" by (simp add: tr')
  show "address_space tr' kernel_space" unfolding tr using lay(1) tab len q t by (rule proc_address_space)
  show "\<And>x. x \<in> kernel_page \<Longrightarrow> tr' x = x" unfolding tr using lay(1) tab len q t by (rule proc_tr_view(1))
  show "\<And>x. x \<in> rng PROG_VM_START 4194304 \<Longrightarrow> tr' x = x + (KERNEL_MEM_END + (of_nat q - 1) * SPACE_4MB - PROG_VM_START)"
    unfolding tr using lay(1) tab len q t by (rule proc_tr_view(2))
qed

text \<open>Reading locals and loading the image through it.\<close>

lemma new_view_load:
  assumes as: "address_space tr' kernel_space"
    and id: "\<And>x. x \<in> kernel_page \<Longrightarrow> tr' x = x" "\<And>x. x \<in> kernel_page \<Longrightarrow> tr x = x"
    and arg: "cstring tr m ab bs" "rng ab (Suc (length bs)) \<subseteq> kernel_page"
    and wf: "fs_wf tr m bb" "rng bb (fs_size tr m bb) \<subseteq> kernel_page" "ino < inode_cnt tr m bb"
    and d: "dentry_inode tr m d = ino" "rng d 64 \<subseteq> kernel_page"
    and len: "file_len tr m bb ino \<le> 0x3B8000"
  shows "strlen tr' m ab = Some (of_nat (length bs))" "load_bytes tr' m ab (Suc (length bs)) = bs @ [0]"
    "load tr' bb m d START_EXE_ADDR = (0, store_bytes tr' m START_EXE_ADDR (file_bytes tr m bb ino))"
    "load_bytes tr' (store_bytes tr' m START_EXE_ADDR (file_bytes tr m bb ino)) START_EXE_ADDR (file_len tr m bb ino) =
       file_bytes tr m bb ino"
proof -
  have v: "ld8 tr' m x = ld8 tr m x" if "x \<in> kernel_page" for x using id that by (simp add: ld8_def)
  have c: "cstring tr' m ab bs" using arg v by (intro cstring_cong [OF arg(1)]) auto
  then show "strlen tr' m ab = Some (of_nat (length bs))" by (rule strlen_cstring)
  show "load_bytes tr' m ab (Suc (length bs)) = bs @ [0]"
    using cstring_nth [OF c] by (intro load_bytes_eqI) auto
  have f: "fs_wf tr' m bb" "fs_size tr' m bb = fs_size tr m bb" "inode_cnt tr' m bb = inode_cnt tr m bb"
    "file_bytes tr' m bb ino = file_bytes tr m bb ino"
    using fs_translate(1-3) [OF wf(1), of tr'] fs_translate(4) [OF wf(1), of tr' ino] id wf by (auto simp: subset_iff)
  have fl: "file_len tr' m bb ino = file_len tr m bb ino" using arg_cong [OF f(4), of length] by simp
  have "rng (d + of_nat 36) 4 \<subseteq> rng d 64" by (intro rng_sub) simp
  then have "rng (d + 36) 4 \<subseteq> kernel_page" using d(2) by simp
  moreover have "d + 36 \<in> rng (d + 36) 4" "d + 36 + 1 \<in> rng (d + 36) 4" "d + 36 + 2 \<in> rng (d + 36) 4"
    "d + 36 + 3 \<in> rng (d + 36) 4" by (simp_all add: rng_def)
  ultimately have di: "dentry_inode tr' m d = ino"
    using d(1) v by (auto simp: dentry_inode_def ld32_def subset_iff)
  have "d \<in> rng d 64" by (simp add: rng_def)
  then have "d \<in> kernel_page" using d(2) by blast
  then have d0: "d \<noteq> 0" by (auto simp: rng_def)
  have "rng (PROG_VM_START + of_nat 0x48000) (file_len tr m bb ino) \<subseteq> rng PROG_VM_START 4194304"
    using len by (intro rng_sub) simp
  then have up: "rng START_EXE_ADDR (file_len tr m bb ino) \<subseteq> rng PROG_VM_START 4194304" by simp
  then have st: "rng START_EXE_ADDR (file_len tr m bb ino) \<subseteq> kernel_space"
    "rng bb (fs_size tr m bb) \<inter> rng START_EXE_ADDR (file_len tr m bb ino) = {}" "rng bb (fs_size tr m bb) \<subseteq> kernel_space"
    using wf(2) kernel_user_disjoint unfolding kernel_space_def by blast+
  show "load tr' bb m d START_EXE_ADDR = (0, store_bytes tr' m START_EXE_ADDR (file_bytes tr m bb ino))"
    using address_space.load_eq [OF as f(1) _ d0 _ di] f fl st wf(3) by simp
  show "load_bytes tr' (store_bytes tr' m START_EXE_ADDR (file_bytes tr m bb ino)) START_EXE_ADDR (file_len tr m bb ino) =
       file_bytes tr m bb ino"
    using address_space.load_store_same [OF as, of START_EXE_ADDR "file_bytes tr m bb ino" m] st(1) len by simp
qed

text \<open>The terminal and the parent of a process that is started now.\<close>

definition exec_term :: "'h kernel \<Rightarrow> u32" where
  "exec_term k = (if curr_terminal_running_process (kbd k) (ptab k) then term_num (cur_pcb k) else current_terminal (kbd k))"

definition exec_parent :: "'h kernel \<Rightarrow> addr" where
  "exec_parent k = (if curr_terminal_running_process (kbd k) (ptab k) then cur_pcb_at k else 0)"

definition exec_paging :: "'h machine \<Rightarrow> nat \<Rightarrow> nat \<Rightarrow> paging \<Rightarrow> paging" where
  "exec_paging mc q t g =
     g\<lparr>pds := (pds g)[q - 1 := process_pd (m_lay mc) (pds g ! (q - 1)) (of_nat q) (of_nat t)], cr3 := pd_row (q - 1)\<rparr>"

text \<open>The control block that \<open>execute\<close> leaves for the new process.\<close>

definition child_ok :: "frame \<Rightarrow> 'h kernel \<Rightarrow> nat \<Rightarrow> bytes \<Rightarrow> pcb_t \<Rightarrow> bool" where
  "child_ok fr k q bs b \<longleftrightarrow>
     pid b = of_nat q \<and> parent_pcb b = exec_parent k \<and> term_num b = exec_term k \<and>
     files b = init_files fr (get_device_fops TERM_FTYPE (ptab k)) \<and>
     args_len b = of_nat (length bs) \<and> take (length bs) (args b) = bs \<and> pd b = Some (pd_row (q - 1)) \<and>
     c_esp0 (ctx b) = KERNEL_MEM_END - KERNEL_STACK_SIZE * of_nat q - WORD_SIZE \<and>
     esp_parent b = r_esp k \<and> ebp_parent b = r_ebp k"

lemma init_pcb_eq:
  "init_pcb fr p k = upd_pcb (pcb_addr p) (\<lambda>b. b\<lparr>files := init_files fr (get_device_fops TERM_FTYPE (ptab k)),
    pid := p, parent_pcb := exec_parent k, term_num := exec_term k\<rparr>) k"
  by (auto simp: init_pcb_def Let_def upd_pcb_def exec_term_def exec_parent_def cur_pcb_def get_current_terminal_def
      split: if_splits)

lemma start_process_eq:
  assumes lay: "layout_ok (m_lay mc)" "tables_ok (pg k)" "paging_shape (pg k)" and q: "q \<in> {1..6}"
    and t: "exec_term k = of_nat t" "t < 3"
    and id: "\<And>x. x \<in> kernel_page \<Longrightarrow> cur_tr mc k x = x"
    and arg: "cstring (cur_tr mc k) (mem k) (fr_args fr) bs" "rng (fr_args fr) (Suc (length bs)) \<subseteq> kernel_page" "length bs < 128"
    and wf: "fs_wf (cur_tr mc k) (mem k) (bootblock k)"
      "rng (bootblock k) (fs_size (cur_tr mc k) (mem k) (bootblock k)) \<subseteq> kernel_page"
      "ino < inode_cnt (cur_tr mc k) (mem k) (bootblock k)"
    and d: "dentry_inode (cur_tr mc k) (mem k) (fr_dentry fr) = ino" "rng (fr_dentry fr) 64 \<subseteq> kernel_page"
    and len: "file_len (cur_tr mc k) (mem k) (bootblock k) ino \<le> 0x3B8000"
    and tr': "tr' = proc_tr (m_lay mc) (exec_paging mc q t (pg k))
       (pd_of (exec_paging mc q t (pg k)) (pd_row (q - 1)))"
  shows "\<exists>k'. start_process mc fr (of_nat q) k =
      Some (Enter_user (ld32 (cur_tr mc k) (mem k) (fr_buf fr + 24)) 0x83FFFFC, k') \<and>
    pg k' = exec_paging mc q t (pg k) \<and> cur_tr mc k' = tr' \<and>
    mem k' = store_bytes tr' (mem k) START_EXE_ADDR (file_bytes (cur_tr mc k) (mem k) (bootblock k) ino) \<and>
    ptab k' = snd (set_active_process (of_nat t) (of_nat q) (ptab k)) \<and>
    tss_esp0 k' = KERNEL_MEM_END - KERNEL_STACK_SIZE * of_nat q - WORD_SIZE \<and>
    (\<forall>x. x \<noteq> pcb_addr (of_nat q) \<longrightarrow> pcbs k' x = pcbs k x) \<and> child_ok fr k q bs (pcbs k' (pcb_addr (of_nat q))) \<and>
    kbd k' = kbd k \<and> rtc k' = rtc k \<and> hw k' = hw k \<and> bootblock k' = bootblock k \<and> r_esp k' = r_esp k \<and> r_ebp k' = r_ebp k \<and>
    (length (args (pcbs k (pcb_addr (of_nat q)))) = 128 \<longrightarrow> length (args (pcbs k' (pcb_addr (of_nat q)))) = 128)"
proof -
  let ?g = "exec_paging mc q t (pg k)" and ?a = "pcb_addr (of_nat q)" and ?i = "q - 1"
  have g: "?g = (pg k)\<lparr>pds := (pds (pg k))[?i := process_pd (m_lay mc) (pds (pg k) ! ?i) (of_nat q) (of_nat t)], cr3 := pd_row ?i\<rparr>"
    by (simp add: exec_paging_def)
  have trd: "tr' = proc_tr (m_lay mc) ?g (pd_of ?g (cr3 ?g))" unfolding tr' by (simp add: exec_paging_def)
  note nv = new_view [OF lay q t(2) g trd]
  note ld = new_view_load [OF nv(1,2) id arg(1,2) wf d len]
  define k1 where "k1 = init_pcb fr (of_nat q) k"
  have k1: "k1 = upd_pcb ?a (\<lambda>b. b\<lparr>files := init_files fr (get_device_fops TERM_FTYPE (ptab k)), pid := of_nat q,
      parent_pcb := exec_parent k, term_num := of_nat t\<rparr>) k"
    unfolding k1_def t(1) [symmetric] by (rule init_pcb_eq)
  define k2 where "k2 = map_process mc (of_nat q) ?i k1"
  have k2: "k2 = k1\<lparr>pg := ?g\<rparr>" by (simp add: k2_def map_process_def k1 set_pd_def g Let_def)
  have tr2: "cur_tr mc k2 = tr'" by (simp add: cur_tr_def k2 trd)
  have gp: "get_process_pd (of_nat q) = Some (pd_row ?i)"
    using q sint_pid [of q] by (auto simp: get_process_pd_def Let_def)
  have n: "unat (of_nat (length bs) :: u32) = length bs" using arg(3) by (simp add: unat_of_nat_u32)
  have f2: "mem k2 = mem k" "bootblock k2 = bootblock k" "ptab k2 = ptab k" "kbd k2 = kbd k" "rtc k2 = rtc k" "hw k2 = hw k"
    "r_esp k2 = r_esp k" "r_ebp k2 = r_ebp k" "pg k2 = ?g" "pcbs k2 = pcbs k1" by (simp_all add: k2 k1)
  have "\<exists>k'. enter_process mc fr (of_nat q) ?i k2 = Some k' \<and> pg k' = ?g \<and>
    mem k' = store_bytes tr' (mem k) START_EXE_ADDR (file_bytes (cur_tr mc k) (mem k) (bootblock k) ino) \<and>
    ptab k' = snd (set_active_process (of_nat t) (of_nat q) (ptab k)) \<and>
    tss_esp0 k' = KERNEL_MEM_END - KERNEL_STACK_SIZE * of_nat q - WORD_SIZE \<and>
    (\<forall>x. x \<noteq> ?a \<longrightarrow> pcbs k' x = pcbs k x) \<and> child_ok fr k q bs (pcbs k' ?a) \<and>
    kbd k' = kbd k \<and> rtc k' = rtc k \<and> hw k' = hw k \<and> bootblock k' = bootblock k \<and> r_esp k' = r_esp k \<and> r_ebp k' = r_ebp k \<and>
    (length (args (pcbs k ?a)) = 128 \<longrightarrow> length (args (pcbs k' ?a)) = 128)"
    using arg(3) by (simp add: enter_process_def tr2 f2 ld n Let_def k1 child_ok_def t(1) del: load_bytes.simps)
  then obtain k' where k': "enter_process mc fr (of_nat q) ?i k2 = Some k'" "pg k' = ?g"
    "mem k' = store_bytes tr' (mem k) START_EXE_ADDR (file_bytes (cur_tr mc k) (mem k) (bootblock k) ino)"
    "ptab k' = snd (set_active_process (of_nat t) (of_nat q) (ptab k))"
    "tss_esp0 k' = KERNEL_MEM_END - KERNEL_STACK_SIZE * of_nat q - WORD_SIZE"
    "\<forall>x. x \<noteq> ?a \<longrightarrow> pcbs k' x = pcbs k x" "child_ok fr k q bs (pcbs k' ?a)"
    "kbd k' = kbd k" "rtc k' = rtc k" "hw k' = hw k" "bootblock k' = bootblock k" "r_esp k' = r_esp k" "r_ebp k' = r_ebp k"
    "length (args (pcbs k ?a)) = 128 \<longrightarrow> length (args (pcbs k' ?a)) = 128"
    by blast
  moreover have "cur_tr mc k' = tr'" using k'(2) by (simp add: cur_tr_def trd)
  moreover have "start_process mc fr (of_nat q) k = Some (Enter_user (ld32 (cur_tr mc k) (mem k) (fr_buf fr + 24)) 0x83FFFFC, k')"
    using k'(1) gp by (simp add: start_process_def Let_def k2_def k1_def)
  ultimately show ?thesis by blast
qed

lemma execute_prefix:
  assumes as: "address_space (cur_tr mc k) mapped"
    and ok: "command_ok (cur_tr mc k) (mem k) (bootblock k) mapped names command xs fr ino"
  shows "\<exists>m3. exec_ready (cur_tr mc k) (bootblock k) (mem k) m3 xs fr ino \<and>
    execute mc fr command k =
      (case add_process (ptab k) of (p, pt) \<Rightarrow>
         if sint p < 0 then Some (Ret (-1), k\<lparr>mem := m3, ptab := pt\<rparr>)
         else start_process mc fr p (k\<lparr>mem := m3, ptab := pt\<rparr>))"
proof -
  let ?tr = "cur_tr mc k" and ?bb = "bootblock k" and ?f = "file_bytes (cur_tr mc k) (mem k) (bootblock k) ino"
  obtain m1 where m1: "parse_arg ?tr (mem k) command (fr_command_buf fr) (fr_args fr) = Some m1"
    "fs_same ?tr ?bb (mem k) m1" "cstring ?tr m1 (fr_command_buf fr) (cmd_word xs)" "cstring ?tr m1 (fr_args fr) (cmd_args xs)"
    "kernel_stores ?tr (mem k) m1"
    using address_space.exec_stores [OF as ok] by blast
  obtain m2 where m2: "read_dentry_by_name ?tr ?bb m1 (fr_command_buf fr) (fr_dentry fr) = Some (0, m2)"
    "fs_same ?tr ?bb (mem k) m2" "dentry_inode ?tr m2 (fr_dentry fr) = ino" "cstring ?tr m2 (fr_args fr) (cmd_args xs)"
    "kernel_stores ?tr (mem k) m2"
    using address_space.exec_lookup [OF as ok m1(2-5)] by blast
  obtain m3 where m3: "read_data ?tr ?bb m2 ino 0 (fr_buf fr) 40 = (40, m3)" "exec_ready ?tr ?bb (mem k) m3 xs fr ino"
    using address_space.exec_header [OF as ok m2(2-5)] by blast
  have f: "take 4 ?f = [0x7F, 0x45, 0x4C, 0x46]" "40 \<le> length ?f" using ok by (auto simp: command_ok_def)
  have "take 40 ?f ! i = take 4 ?f ! i" if "i < 4" for i using f(2) that by simp
  from this [of 0] this [of 1] this [of 2] this [of 3]
  have h: "take 40 ?f ! 0 = 0x7F" "take 40 ?f ! 1 = 0x45" "take 40 ?f ! 2 = 0x4C" "take 40 ?f ! 3 = 0x46"
    unfolding f(1) by simp_all
  have "ld32 ?tr m3 (fr_buf fr + of_nat 0) = word_of_bytes (take 40 ?f ! 0) (take 40 ?f ! (0 + 1)) (take 40 ?f ! (0 + 2)) (take 40 ?f ! (0 + 3))"
    using m3(2) by (intro ld32_load_bytes [of _ _ _ 40]) (simp_all add: exec_ready_def)
  also have "\<dots> = word_of_bytes 0x7F 0x45 0x4C 0x46" using h by (simp only: add_0)
  also have "\<dots> = ELF_MAGIC" by (simp add: word_of_bytes_def)
  finally have "ld32 ?tr m3 (fr_buf fr) = ELF_MAGIC" by simp
  then show ?thesis
    using m1(1) m2(1,3) m3 by (auto simp: execute_def Let_def split: prod.split)
qed

lemma add_process_lowest:
  assumes "q \<in> {1..6}" "\<not> proc_live s q" "\<forall>r \<in> {1..<q}. proc_live s r"
  shows "add_process s = (of_nat q, s\<lparr>procs := (procs s)[q - 1 := 1], proc_count := proc_count s + 1\<rparr>)"
proof -
  have "find (\<lambda>i. procs s ! i = 0) [0..<6] = Some (q - 1)"
    unfolding find_upt_Some
  proof (intro conjI allI impI)
    show "procs s ! (q - 1) = 0" using assms(1,2) by (simp add: proc_live_def)
    fix j assume "0 \<le> j \<and> j < q - 1"
    then have "Suc j \<in> {1..<q}" by simp
    then have "proc_live s (Suc j)" using assms(3) by blast
    then show "procs s ! j \<noteq> 0" by (simp add: proc_live_def)
  qed (use assms(1) in auto)
  then show ?thesis using assms(1) by (simp add: add_process_eq)
qed

lemma set_active_wf:
  assumes "ptable_wf s" "t < 3"
  shows "ptable_wf (snd (set_active_process (of_nat t) p s))"
    "proc_live (snd (set_active_process (of_nat t) p s)) = proc_live s"
    "get_active_process (of_nat t) (snd (set_active_process (of_nat t) p s)) = p"
  using assms of_nat_less_u32 [of t 3] unat_of_nat_u32 [of t]
  by (auto simp: set_active_process_def get_active_process_def ptable_wf_def proc_live_def fun_eq_iff)

text \<open>Adding a process changes neither the terminals nor the devices.\<close>

lemma child_after_add:
  fixes k :: "'h kernel"
  assumes "pt = (ptab k)\<lparr>procs := ps, proc_count := c\<rparr>"
  shows "exec_term (k\<lparr>mem := m, ptab := pt\<rparr>) = exec_term k"
    "child_ok fr (k\<lparr>mem := m, ptab := pt\<rparr>) q bs b = child_ok fr k q bs b"
proof -
  have ga: "get_active_process x pt = get_active_process x (ptab k)" "get_device_fops x pt = get_device_fops x (ptab k)" for x
    by (simp_all add: get_active_process_def get_device_fops_def assms)
  show e: "exec_term (k\<lparr>mem := m, ptab := pt\<rparr>) = exec_term k"
    by (simp add: exec_term_def curr_terminal_running_process_def ga)
  have "exec_parent (k\<lparr>mem := m, ptab := pt\<rparr>) = exec_parent k"
    by (simp add: exec_parent_def curr_terminal_running_process_def ga)
  with e show "child_ok fr (k\<lparr>mem := m, ptab := pt\<rparr>) q bs b = child_ok fr k q bs b"
    by (simp add: child_ok_def ga)
qed

lemma execute_start_eq:
  assumes as: "address_space (cur_tr mc k) mapped" and id: "\<forall>x \<in> kernel_page. cur_tr mc k x = x"
    and cok: "command_ok (cur_tr mc k) (mem k) (bootblock k) mapped names command xs fr ino"
    and lay: "layout_ok (m_lay mc)" "tables_ok (pg k)" "paging_shape (pg k)"
    and q: "q \<in> {1..6}" "\<not> proc_live (ptab k) q" "\<forall>r \<in> {1..<q}. proc_live (ptab k) r"
    and t: "exec_term k = of_nat t" "t < 3"
    and fil: "file = file_bytes (cur_tr mc k) (mem k) (bootblock k) ino"
    and pt: "pt = (ptab k)\<lparr>procs := (procs (ptab k))[q - 1 := 1], proc_count := proc_count (ptab k) + 1\<rparr>"
  shows "\<exists>k'. execute mc fr command k =
      Some (Enter_user (word_of_bytes (file ! 24) (file ! 25) (file ! 26) (file ! 27)) 0x83FFFFC, k') \<and>
    load_bytes (cur_tr mc k') (mem k') START_EXE_ADDR (length file) = file \<and>
    pg k' = exec_paging mc q t (pg k) \<and> ptab k' = snd (set_active_process (of_nat t) (of_nat q) pt) \<and>
    tss_esp0 k' = KERNEL_MEM_END - KERNEL_STACK_SIZE * of_nat q - WORD_SIZE \<and>
    (\<forall>x. x \<noteq> pcb_addr (of_nat q) \<longrightarrow> pcbs k' x = pcbs k x) \<and>
    child_ok fr k q (cmd_args xs) (pcbs k' (pcb_addr (of_nat q))) \<and> r_esp k' = r_esp k \<and> r_ebp k' = r_ebp k \<and> kbd k' = kbd k \<and>
    bootblock k' = bootblock k \<and>
    (length (args (pcbs k (pcb_addr (of_nat q)))) = 128 \<longrightarrow> length (args (pcbs k' (pcb_addr (of_nat q)))) = 128) \<and>
    (\<forall>x \<in> rng (bootblock k) (fs_size (cur_tr mc k) (mem k) (bootblock k)). ld8 (cur_tr mc k') (mem k') x = ld8 (cur_tr mc k) (mem k) x) \<and>
    (\<forall>p. p \<notin> kernel_page \<union> rng (KERNEL_MEM_END + (of_nat q - 1) * SPACE_4MB) 4194304 \<longrightarrow> mem k' p = mem k p)"
proof -
  let ?tr = "cur_tr mc k" and ?bb = "bootblock k"
  note ok = cok [unfolded command_ok_def]
  obtain m3 where m3: "exec_ready ?tr ?bb (mem k) m3 xs fr ino" and ex: "execute mc fr command k =
      (case add_process (ptab k) of (p, pt) \<Rightarrow> if sint p < 0 then Some (Ret (-1), k\<lparr>mem := m3, ptab := pt\<rparr>)
         else start_process mc fr p (k\<lparr>mem := m3, ptab := pt\<rparr>))"
    using execute_prefix [OF as cok] by blast
  have "sint (of_nat q :: u32) = int q" using q(1) sint_small_u32 [of q] by simp
  then have st: "execute mc fr command k = start_process mc fr (of_nat q) (k\<lparr>mem := m3, ptab := pt\<rparr>)"
    by (simp add: ex add_process_lowest [OF q, folded pt])
  let ?k = "k\<lparr>mem := m3, ptab := pt\<rparr>"
  have tr: "cur_tr mc ?k = ?tr" by (rule cur_tr_cong) simp
  note ca = child_after_add [OF pt]
  have same: "fs_same ?tr ?bb (mem k) m3" and hd: "load_bytes ?tr m3 (fr_buf fr) 40 = take 40 file"
    and args: "cstring ?tr m3 (fr_args fr) (cmd_args xs)" and di: "dentry_inode ?tr m3 (fr_dentry fr) = ino"
    and ks: "kernel_stores ?tr (mem k) m3"
    using m3 fil by (auto simp: exec_ready_def)
  have len: "length (cmd_args xs) < 127" using ok cmd_lengths(2) by blast
  have "rng (fr_args fr) (Suc (length (cmd_args xs))) \<subseteq> rng (fr_args fr) 128" using len by (intro rng_mono) simp
  then have fr: "rng (fr_args fr) (Suc (length (cmd_args xs))) \<subseteq> kernel_page" "rng (fr_dentry fr) 64 \<subseteq> kernel_page"
    using ok by (auto simp: frame_ok_def)
  have f3: "file_bytes ?tr m3 ?bb ino = file" using fs_same_file_bytes [OF _ same] ok fil by blast
  have fl: "file_len ?tr m3 ?bb ino = length file" "length file = file_len ?tr (mem k) ?bb ino"
    using arg_cong [OF f3, of length] fil by simp_all
  have wf3: "fs_wf ?tr m3 ?bb" "rng ?bb (fs_size ?tr m3 ?bb) \<subseteq> kernel_page" "ino < inode_cnt ?tr m3 ?bb" "length file \<le> 0x3B8000"
    using address_space.fs_same_wf [OF as _ same] address_space.fs_same_size [OF as same] fs_same_header(2) [OF same] ok fl(2)
    by auto
  have idp: "\<And>x. x \<in> kernel_page \<Longrightarrow> ?tr x = x" using id by blast
  define tr' where "tr' = proc_tr (m_lay mc) (exec_paging mc q t (pg k)) (pd_of (exec_paging mc q t (pg k)) (pd_row (q - 1)))"
  have l128: "length (cmd_args xs) < 128" using len by simp
  obtain k' where k': "start_process mc fr (of_nat q) ?k = Some (Enter_user (ld32 ?tr m3 (fr_buf fr + 24)) 0x83FFFFC, k')"
    "pg k' = exec_paging mc q t (pg k)" "cur_tr mc k' = tr'"
    "mem k' = store_bytes tr' m3 START_EXE_ADDR file"
    "ptab k' = snd (set_active_process (of_nat t) (of_nat q) pt)"
    "tss_esp0 k' = KERNEL_MEM_END - KERNEL_STACK_SIZE * of_nat q - WORD_SIZE"
    "\<forall>x. x \<noteq> pcb_addr (of_nat q) \<longrightarrow> pcbs k' x = pcbs k x" "child_ok fr k q (cmd_args xs) (pcbs k' (pcb_addr (of_nat q)))"
    "r_esp k' = r_esp k" "r_ebp k' = r_ebp k" "kbd k' = kbd k" "bootblock k' = ?bb"
    "length (args (pcbs k (pcb_addr (of_nat q)))) = 128 \<longrightarrow> length (args (pcbs k' (pcb_addr (of_nat q)))) = 128"
    using start_process_eq [of mc ?k q t fr "cmd_args xs" ino tr'] lay q(1) t idp args fr l128 wf3 di
    by (simp add: tr ca f3 fl(1) tr'_def) blast
  have g: "exec_paging mc q t (pg k) = (pg k)\<lparr>pds := (pds (pg k))[q - 1 := process_pd (m_lay mc) (pds (pg k) ! (q - 1)) (of_nat q) (of_nat t)],
      cr3 := pd_row (q - 1)\<rparr>" by (simp add: exec_paging_def)
  note nv = new_view [OF lay q(1) t(2) g, of tr']
  have trd: "tr' = proc_tr (m_lay mc) (exec_paging mc q t (pg k)) (pd_of (exec_paging mc q t (pg k)) (cr3 (exec_paging mc q t (pg k))))"
    by (simp add: tr'_def exec_paging_def)
  have "rng (PROG_VM_START + of_nat 0x48000) (length file) \<subseteq> rng PROG_VM_START 4194304" using wf3(4) by (intro rng_sub) simp
  then have up: "rng START_EXE_ADDR (length file) \<subseteq> rng PROG_VM_START 4194304" by simp
  have "tr' ` rng PROG_VM_START 4194304 \<subseteq> rng (KERNEL_MEM_END + (of_nat q - 1) * SPACE_4MB) 4194304"
    using image_shift [of PROG_VM_START 4194304 tr' "KERNEL_MEM_END + (of_nat q - 1) * SPACE_4MB - PROG_VM_START"] nv(3) [OF trd] by simp
  then have up': "tr' ` rng START_EXE_ADDR (length file) \<subseteq> rng (KERNEL_MEM_END + (of_nat q - 1) * SPACE_4MB) 4194304" using up by blast
  have frame: "mem k' p = mem k p" if "p \<notin> kernel_page \<union> rng (KERNEL_MEM_END + (of_nat q - 1) * SPACE_4MB) 4194304" for p
  proof -
    have "p \<notin> ?tr ` kernel_page" using that idp by auto
    then have "m3 p = mem k p" using ks by (simp add: kernel_stores_def)
    then show ?thesis using that up' wf3(4) store_bytes_frame [of p tr' START_EXE_ADDR "file" m3] by (auto simp: k'(4))
  qed
  have seen: "ld8 tr' (mem k') x = ld8 ?tr (mem k) x" if "x \<in> rng ?bb (fs_size ?tr (mem k) ?bb)" for x
  proof -
    have x: "x \<in> kernel_page" using that ok by blast
    then have "x \<in> kernel_space" "x \<notin> rng START_EXE_ADDR (length file)" using up kernel_user_disjoint by (auto simp: kernel_space_def)
    moreover have "rng START_EXE_ADDR (length file) \<subseteq> kernel_space" using up by (auto simp: kernel_space_def)
    ultimately have "ld8 tr' (mem k') x = ld8 tr' m3 x"
      unfolding k'(4) using address_space.ld8_store_outside [OF nv(1) [OF trd], of START_EXE_ADDR "file" x m3] wf3(4) by simp
    also have "\<dots> = ld8 ?tr m3 x" using nv(2) [OF trd x] idp [OF x] by (simp add: ld8_def)
    finally show ?thesis using that same by (simp add: fs_same_def)
  qed
  have "load_bytes tr' (mem k') START_EXE_ADDR (length file) = file"
    unfolding k'(4) using new_view_load(4) [OF nv(1,2) idp args fr(1) wf3(1-3) di fr(2)] wf3(4)
    by (simp add: f3 fl(1) tr'_def g)
  moreover have "ld32 ?tr m3 (fr_buf fr + 24) = word_of_bytes (file ! 24) (file ! 25) (file ! 26) (file ! 27)"
    using ld32_load_bytes [OF hd, of 24] ok fl(2) by simp
  ultimately show ?thesis using st k' frame seen by auto
qed

section \<open>Properties\<close>

text \<open>
  C20. Starting a program. If a command line names an executable, a process slot is free and the
  terminal is one of the three, then \<open>execute\<close> enters user mode at the entry point that the ELF
  header gives, with the stack at the end of the program's page. The new process has the lowest
  free pid, becomes the active one of its terminal, and has its own page directory, through which
  the bytes of the executable are at the load address; its control block has the terminal as
  standard input and output, the arguments of the command line and the way back to the parent. The
  process table stays well formed, and no other control block changes.
\<close>

theorem execute_starts_program:
  assumes "inj_on (cur_tr mc k) mapped" "\<forall>x \<in> kernel_page. cur_tr mc k x = x"
    and "command_ok (cur_tr mc k) (mem k) (bootblock k) mapped names command xs fr ino"
    and "layout_ok (m_lay mc)" "tables_ok (pg k)" "paging_shape (pg k)" "ptable_wf (ptab k)"
    and "q \<in> {1..6}" "\<not> proc_live (ptab k) q" "\<forall>r \<in> {1..<q}. proc_live (ptab k) r"
    and "exec_term k = of_nat t" "t < 3"
    and "file = file_bytes (cur_tr mc k) (mem k) (bootblock k) ino"
  shows "\<exists>k'. execute mc fr command k =
      Some (Enter_user (word_of_bytes (file ! 24) (file ! 25) (file ! 26) (file ! 27)) 0x83FFFFC, k') \<and>
    load_bytes (cur_tr mc k') (mem k') START_EXE_ADDR (length file) = file \<and>
    pg k' = exec_paging mc q t (pg k) \<and>
    ptable_wf (ptab k') \<and> proc_live (ptab k') = (proc_live (ptab k))(q := True) \<and>
    get_active_process (of_nat t) (ptab k') = of_nat q \<and>
    tss_esp0 k' = KERNEL_MEM_END - KERNEL_STACK_SIZE * of_nat q - WORD_SIZE \<and>
    child_ok fr k q (cmd_args xs) (pcbs k' (pcb_addr (of_nat q))) \<and>
    (\<forall>x. x \<noteq> pcb_addr (of_nat q) \<longrightarrow> pcbs k' x = pcbs k x)"
proof -
  have as: "address_space (cur_tr mc k) mapped" using assms(1) by (rule address_space.intro)
  define pt where "pt = (ptab k)\<lparr>procs := (procs (ptab k))[q - 1 := 1], proc_count := proc_count (ptab k) + 1\<rparr>"
  have "procs (ptab k) ! (q - 1) = 0" using assms(8,9) by (simp add: proc_live_def)
  moreover have "q - 1 < 6" using assms(8) by auto
  ultimately have wf: "ptable_wf pt" unfolding pt_def by (intro proc_alloc_wf [OF assms(7)])
  have live: "proc_live pt = (proc_live (ptab k))(q := True)"
    using assms(7,8) by (auto simp: pt_def proc_live_def fun_eq_iff nth_list_update ptable_wf_def)
  show ?thesis
    using execute_start_eq [OF as assms(2-6,8-13) pt_def] set_active_wf [OF wf assms(12), of "of_nat q"] live by auto
qed

text \<open>
  For the examples: an image at \<open>0x500000\<close> with one executable \<open>sh\<close> of 40 bytes, whose entry point is
  \<open>0x8048018\<close>, and the command line \<open>sh x\<close> at \<open>0x600000\<close>. The page tables are set up, and the loaded
  directory is still empty, as at boot.
\<close>

definition elf_mem :: memory where
  "elf_mem = (\<lambda>a. 0)(0x500000 := 1, 0x500004 := 1, 0x500008 := 1, 0x500040 := 115, 0x500041 := 104, 0x500060 := 2,
     0x501000 := 40, 0x502000 := 0x7F, 0x502001 := 0x45, 0x502002 := 0x4C, 0x502003 := 0x46,
     0x502018 := 0x18, 0x502019 := 0x80, 0x50201A := 0x04, 0x50201B := 0x08,
     0x600000 := 115, 0x600001 := 104, 0x600002 := 32, 0x600003 := 120)"

definition elf_frame :: frame where
  "elf_frame = \<lparr>fr_command_buf = 0x7F0000, fr_args = 0x7F0100, fr_buf = 0x7F0200, fr_dentry = 0x7F0300, fr_uninit = \<lambda>_. 0\<rparr>"

definition elf_paging :: paging where
  "elf_paging = flat_paging\<lparr>pt_vidmem := map (\<lambda>i. init_pt_vidmem i (replicate 1024 0)) [0, 1, 2],
     pt_user_vidmem := map (\<lambda>i. init_pt_user_vidmem i (replicate 1024 0)) [0, 1, 2]\<rparr>"

definition elf_kernel :: "nat kernel" where
  "elf_kernel = sample_kernel\<lparr>mem := elf_mem, bootblock := 0x500000, pg := elf_paging\<rparr>"

lemma elf_paging_ok: "tables_ok elf_paging" "paging_shape elf_paging"
proof -
  show "tables_ok elf_paging" using flat_paging_on by (intro tables_ok_init) (simp_all add: elf_paging_def paging_on_def)
  show "paging_shape elf_paging"
    using flat_paging_shape by (simp add: elf_paging_def paging_shape_def init_pt_user_vidmem_def)
qed

lemma elf_tr: "cur_tr sample_machine elf_kernel = (\<lambda>a. a)"
proof (rule cur_tr_flat)
  show "paging_on (pg elf_kernel)" using tables_ok_on [OF elf_paging_ok(1)] by (simp add: elf_kernel_def)
qed (simp add: elf_kernel_def elf_paging_def flat_paging_def cleared_paging_def pd_of_def)

lemma elf_header:
  "dir_entries_cnt (\<lambda>a. a) elf_mem 0x500000 = 1" "inode_cnt (\<lambda>a. a) elf_mem 0x500000 = 1"
  "data_block_cnt (\<lambda>a. a) elf_mem 0x500000 = 1" "fs_size (\<lambda>a. a) elf_mem 0x500000 = 12288"
  by (simp_all add: dir_entries_cnt_def inode_cnt_def data_block_cnt_def fs_size_def ld32_def ld8_def
      elf_mem_def word_of_bytes_def)

lemma elf_file:
  "file_len (\<lambda>a. a) elf_mem 0x500000 0 = 40"
  "inode_data_block (\<lambda>a. a) elf_mem (get_inode_ptr 0x500000 0) 0 = 0"
  by (simp_all add: file_len_def inode_length_def inode_data_block_def get_inode_ptr_def ld32_def ld8_def
      elf_mem_def word_of_bytes_def)

lemma elf_file_bytes:
  assumes "i < 40"
  shows "file_bytes (\<lambda>a. a) elf_mem 0x500000 0 ! i = elf_mem (0x502000 + of_nat i)"
  using assms by (simp add: file_bytes_def elf_file file_byte_def block_addr_def elf_header ld8_def)

lemma elf_bytes:
  "elf_mem 0x502000 = 0x7F" "elf_mem 0x502001 = 0x45" "elf_mem 0x502002 = 0x4C" "elf_mem 0x502003 = 0x46"
  "elf_mem 0x502018 = 0x18" "elf_mem 0x502019 = 0x80" "elf_mem 0x50201A = 0x04" "elf_mem 0x50201B = 0x08"
  by (simp_all add: elf_mem_def)

lemma elf_wf: "fs_wf (\<lambda>a. a) elf_mem 0x500000"
proof -
  have k: "k * 4096 < 40 \<longleftrightarrow> k = 0" for k :: nat by (cases k) auto
  then show ?thesis by (auto simp: fs_wf_def elf_header inode_wf_def elf_file)
qed

lemma elf_command_ok: "command_ok (\<lambda>a. a) elf_mem 0x500000 UNIV [[115, 104]] 0x600000 [115, 104, 32, 120] elf_frame 0"
proof -
  have c: "cstring (\<lambda>a. a) elf_mem 0x600000 [115, 104, 32, 120]" "cstring (\<lambda>a. a) elf_mem 0x500040 [115, 104]"
    by (simp_all add: cstring_def ld8_def elf_mem_def)
  then have d: "dir_names (\<lambda>a. a) elf_mem 0x500000 [[115, 104]]"
    by (simp add: dir_names_def elf_header bootblock_dentry_def)
  have i: "first_index (cmd_word [115, 104, 32, 120]) [[115, 104 :: u8]] = Some 0"
    by (simp add: first_index_def cmd_word_def)
  have e: "dentry_inode (\<lambda>a. a) elf_mem (bootblock_dentry 0x500000 0) = 0"
    by (simp add: dentry_inode_def bootblock_dentry_def ld32_def ld8_def elf_mem_def word_of_bytes_def)
  have img: "rng 0x500000 12288 \<subseteq> kernel_page" using rng_sub [of "0x100000" 12288 4194304 KERNEL_LOC] by simp
  have fr: "frame_ok elf_frame (rng 0x600000 5 \<union> rng 0x500000 12288)"
    using rng_sub [of "0x3F0000" 128 4194304 KERNEL_LOC] rng_sub [of "0x3F0100" 128 4194304 KERNEL_LOC]
      rng_sub [of "0x3F0200" 40 4194304 KERNEL_LOC] rng_sub [of "0x3F0300" 64 4194304 KERNEL_LOC]
    by (simp add: frame_ok_def elf_frame_def Int_Un_distrib Int_Un_distrib2 rng_disjoint)
  have m: "take 4 (file_bytes (\<lambda>a. a) elf_mem 0x500000 0) = [0x7F, 0x45, 0x4C, 0x46]"
  proof (rule nth_equalityI)
    fix i assume "i < length (take 4 (file_bytes (\<lambda>a. a) elf_mem 0x500000 0))"
    then have "i \<in> {0, 1, 2, 3}" by auto
    then show "take 4 (file_bytes (\<lambda>a. a) elf_mem 0x500000 0) ! i = [0x7F, 0x45, 0x4C, 0x46] ! i"
      by (auto simp: elf_file_bytes elf_bytes)
  qed (simp add: elf_file)
  have five: "Suc (Suc (Suc (Suc (Suc 0)))) = (5 :: nat)" by simp
  show ?thesis
    unfolding command_ok_def using c d i e img fr m elf_wf by (simp add: elf_header elf_file five)
qed

lemma elf_kernel_simps [simp]:
  "bootblock elf_kernel = 0x500000" "mem elf_kernel = elf_mem" "pg elf_kernel = elf_paging" "ptab elf_kernel = sample_ptab"
  "m_lay sample_machine = sample_layout" "kbd elf_kernel = demo_kbd"
  by (simp_all add: elf_kernel_def sample_kernel_def sample_machine_def)

lemma sample_ptab_wf: "ptable_wf sample_ptab" "\<not> proc_live sample_ptab p"
proof -
  show "ptable_wf sample_ptab" by (simp add: sample_ptab_def ptable_wf_def ptable_init_def)
  have "p - 1 \<in> {0, 1, 2, 3, 4, 5}" if "1 \<le> p" "p \<le> 6" using that by auto
  then show "\<not> proc_live sample_ptab p" by (auto simp: sample_ptab_def ptable_init_def proc_live_def)
qed

lemma elf_term: "exec_term elf_kernel = 0"
  by (simp add: exec_term_def curr_terminal_running_process_def get_active_process_def sample_ptab_def ptable_init_def)

theorem execute_starts_program_witness:
  "\<exists>k'. execute sample_machine elf_frame 0x600000 elf_kernel = Some (Enter_user 0x8048018 0x83FFFFC, k') \<and>
     proc_live (ptab k') 1 \<and> pid (pcbs k' 0x7FC000) = 1 \<and> take 1 (args (pcbs k' 0x7FC000)) = [120]"
proof -
  have "cmd_args [115, 104, 32, 120] = [120 :: u8]" by (simp add: cmd_args_def)
  moreover have "word_of_bytes 0x18 0x80 0x04 0x08 = 0x8048018" by (simp add: word_of_bytes_def)
  ultimately show ?thesis
    using execute_starts_program [of sample_machine elf_kernel UNIV "[[115, 104]]" "0x600000" "[115, 104, 32, 120]"
        elf_frame 0 1 0 "file_bytes (\<lambda>a. a) elf_mem 0x500000 0"]
      elf_command_ok sample_layout_ok elf_paging_ok sample_ptab_wf
    by (auto simp: elf_tr elf_term elf_file_bytes elf_bytes child_ok_def pcb_addr_def)
qed

text \<open>A call of \<open>execute\<close> that returns did not add a process.\<close>

lemma add_process_fails: "add_process s = (p, s') \<Longrightarrow> sint p < 0 \<Longrightarrow> p = -1 \<and> s' = s"
proof -
  assume a: "add_process s = (p, s')" "sint p < 0"
  have "sint (of_nat (Suc i) :: u32) = int (Suc i)" if "i < 6" for i using that by (intro sint_small_u32) simp
  then show ?thesis
    using a by (auto simp: add_process_eq find_upt_Some simp del: of_nat_Suc upt_rec_numeral split: option.splits)
qed

lemma start_process_not_Ret: "start_process mc fr p k \<noteq> Some (Ret r, k')"
  by (auto simp: start_process_def Let_def split: option.splits pd_ptr.splits)

lemma execute_Ret:
  assumes "execute mc fr command k = Some (Ret r, k')"
  shows "r = -1 \<and> k' = k\<lparr>mem := mem k'\<rparr>"
  using assms
  by (auto simp: execute_def Let_def start_process_not_Ret dest: add_process_fails
      split: option.splits prod.splits if_splits)

text \<open>
  C21. A refused command. In every state, when \<open>execute\<close> returns to its caller at all, it returns -1
  and has changed nothing but memory: no process is left behind and the process table, the page
  directories and the control blocks are as before. It returns for every executable when all six
  process slots are taken.
\<close>

theorem execute_refused:
  "(\<forall>r k'. execute mc fr command k = Some (Ret r, k') \<longrightarrow> r = -1 \<and> k' = k\<lparr>mem := mem k'\<rparr>) \<and>
   (inj_on (cur_tr mc k) mapped \<longrightarrow>
    command_ok (cur_tr mc k) (mem k) (bootblock k) mapped names command xs fr ino \<longrightarrow>
    (\<forall>q \<in> {1..6}. proc_live (ptab k) q) \<longrightarrow> (\<exists>k'. execute mc fr command k = Some (Ret (-1), k')))"
proof (intro conjI allI impI)
  assume assms: "inj_on (cur_tr mc k) mapped" "command_ok (cur_tr mc k) (mem k) (bootblock k) mapped names command xs fr ino"
    "\<forall>q \<in> {1..6}. proc_live (ptab k) q"
  have "\<forall>i < 6. procs (ptab k) ! i \<noteq> 0"
  proof (intro allI impI)
    fix i :: nat assume "i < 6"
    then have "proc_live (ptab k) (Suc i)" using assms(3) by simp
    then show "procs (ptab k) ! i \<noteq> 0" by (simp add: proc_live_def)
  qed
  then have "find (\<lambda>i. procs (ptab k) ! i = 0) [0..<6] = None" by (simp add: find_upt_None del: upt_rec_numeral)
  then have "add_process (ptab k) = (-1, ptab k)" by (simp add: add_process_eq del: upt_rec_numeral)
  then show "\<exists>k'. execute mc fr command k = Some (Ret (-1), k')"
    using execute_prefix [OF address_space.intro [OF assms(1)] assms(2)] by auto
qed (use execute_Ret in blast)+

theorem execute_refused_witness:
  "\<exists>k'. execute sample_machine elf_frame 0x600000 (elf_kernel\<lparr>ptab := sample_ptab\<lparr>procs := replicate 6 1\<rparr>\<rparr>) =
     Some (Ret (-1), k') \<and> procs (ptab k') = replicate 6 1"
proof -
  let ?k = "elf_kernel\<lparr>ptab := sample_ptab\<lparr>procs := replicate 6 1\<rparr>\<rparr>"
  have tr: "cur_tr sample_machine ?k = (\<lambda>a. a)" unfolding elf_tr [symmetric] by (rule cur_tr_cong) simp
  have "\<forall>q \<in> {1..6}. proc_live (ptab ?k) q" by (auto simp: proc_live_def)
  then obtain k' where k': "execute sample_machine elf_frame 0x600000 ?k = Some (Ret (-1), k')"
    using execute_refused [of sample_machine elf_frame "0x600000" ?k UNIV "[[115, 104]]" "[115, 104, 32, 120]" 0]
      elf_command_ok by (auto simp: tr)
  then have "k' = ?k\<lparr>mem := mem k'\<rparr>"
    using execute_refused [of sample_machine elf_frame "0x600000" ?k UNIV "[]" "[]" 0] by blast
  then have "procs (ptab k') = procs (ptab (?k\<lparr>mem := mem k'\<rparr>))" by (rule arg_cong)
  then show ?thesis using k' by simp
qed

section \<open>Returning to the parent\<close>

text \<open>
  Closing a file has an effect for the clock only, which counts its users. \<open>halt\<close> does not reset the
  descriptors of the control block: \<open>execute\<close> writes them anew before it is used again.
\<close>

definition open_rtcs :: "fd_t list \<Rightarrow> nat" where
  "open_rtcs fs = length (filter (\<lambda>d. flags d AND FD_LIVE \<noteq> 0 \<and> fops d = Some rtc_fops) fs)"

definition rtc_closed :: "'h machine \<Rightarrow> u32 \<Rightarrow> nat \<Rightarrow> rtc_state \<times> 'h \<Rightarrow> rtc_state \<times> 'h" where
  "rtc_closed mc p n = (snd \<circ> rtc_close (m_inb mc) (m_outb mc) p) ^^ n"

lemma rtc_closed_Suc: "rtc_closed mc p (Suc n) st = rtc_closed mc p n (snd (rtc_close (m_inb mc) (m_outb mc) p st))"
  by (simp only: rtc_closed_def funpow_Suc_right comp_apply)

lemma rtc_closed_0 [simp]: "rtc_closed mc p 0 st = st"
  by (simp add: rtc_closed_def)

lemma rtc_closed_opens: "rtc_opens (fst (rtc_closed mc p n st)) = rtc_opens (fst st) - of_nat n"
proof (induction n arbitrary: st)
  case (Suc n)
  have "rtc_opens (fst (snd (rtc_close (m_inb mc) (m_outb mc) p st))) = rtc_opens (fst st) - 1"
    by (auto simp: rtc_close_def update_rtc_processes_def Let_def split: prod.splits)
  then show ?case using Suc by (simp add: rtc_closed_Suc)
qed (simp add: rtc_closed_def)

lemma fops_close_rtc:
  "(rtc (snd (fops_close mc f fd k)), hw (snd (fops_close mc f fd k))) =
     rtc_closed mc (pid (cur_pcb k)) (if f = rtc_fops then 1 else 0) (rtc k, hw k)"
  by (cases f) (simp_all add: fops_close_def rtc_closed_def split_beta Let_def)

lemma halt_close_ok:
  assumes "fds_ok (files (cur_pcb k))" "set is \<subseteq> {0..<8}"
  shows "\<exists>k'. halt_close mc is k = Some k' \<and> mem k' = mem k \<and> pg k' = pg k \<and> ptab k' = ptab k \<and> pcbs k' = pcbs k \<and>
    kbd k' = kbd k \<and> r_esp k' = r_esp k \<and>
    (rtc k', hw k') = rtc_closed mc (pid (cur_pcb k)) (open_rtcs (map ((!) (files (cur_pcb k))) is)) (rtc k, hw k)"
  using assms
proof (induction "is" arbitrary: k)
  case (Cons i "is")
  then have i: "i < 8" by simp
  then have d: "fd_ok (files (cur_pcb k) ! i)" using Cons.prems(1) by (simp add: fds_ok_def)
  show ?case
  proof (cases "flags (files (cur_pcb k) ! i) AND FD_LIVE = 0")
    case True
    with Cons show ?thesis by (simp add: open_rtcs_def)
  next
    case False
    then have "flags (files (cur_pcb k) ! i) \<noteq> 0" by auto
    with d obtain f where f: "fops (files (cur_pcb k) ! i) = Some f" by (auto simp: fd_ok_def)
    let ?k = "snd (fops_close mc f (of_nat i) k)"
    have "cur_pcb ?k = cur_pcb k" by (rule cur_pcb_frame) simp_all
    with Cons.prems Cons.IH [of ?k] False f fops_close_rtc [of mc f "of_nat i" k] show ?thesis
      by (auto simp: open_rtcs_def rtc_closed_Suc)
  qed
qed (simp add: open_rtcs_def)

lemma halt_eq:
  assumes "fds_ok (files (cur_pcb k))" "parent_pcb (cur_pcb k) = a" "a \<noteq> 0"
  shows "\<exists>k'. halt mc fr status k = Some (Resume_parent status, k') \<and> mem k' = mem k \<and> pcbs k' = pcbs k \<and> kbd k' = kbd k \<and>
    pg k' = set_pd (pd (pcbs k a)) (pg k) \<and> tss_esp0 k' = c_esp0 (ctx (pcbs k a)) \<and>
    ptab k' = snd (set_active_process (term_num (pcbs k a)) (pid (pcbs k a)) (snd (delete_process (pid (cur_pcb k)) (ptab k)))) \<and>
    r_esp k' = esp_parent (cur_pcb k) \<and> r_ebp k' = ebp_parent (cur_pcb k) \<and>
    (rtc k', hw k') = rtc_closed mc (pid (cur_pcb k)) (open_rtcs (files (cur_pcb k))) (rtc k, hw k)"
proof -
  let ?k = "k\<lparr>ptab := snd (delete_process (pid (cur_pcb k)) (ptab k))\<rparr>"
  have "length (files (cur_pcb k)) = 8" using assms(1) by (simp add: fds_ok_def)
  then have "map ((!) (files (cur_pcb k))) [0..<8] = files (cur_pcb k)" using map_nth [of "files (cur_pcb k)"] by simp
  then obtain k1 where "halt_close mc [0..<8] ?k = Some k1" "mem k1 = mem k" "pg k1 = pg k" "ptab k1 = ptab ?k" "pcbs k1 = pcbs k"
    "kbd k1 = kbd k" "(rtc k1, hw k1) = rtc_closed mc (pid (cur_pcb k)) (open_rtcs (files (cur_pcb k))) (rtc k, hw k)"
    using halt_close_ok [of ?k "[0..<8]" mc] assms(1) by (auto simp del: upt_rec_numeral)
  with assms(2,3) show ?thesis by (simp add: halt_def Let_def cur_pcb_def del: upt_rec_numeral)
qed

text \<open>
  C22. Ending a program. \<open>halt\<close> in a process with a parent closes each of its open descriptors (the
  clock is closed once for every one that the process still has open, which takes as many users
  off its count; closing a file, a directory or the terminal has no effect), frees exactly its pid, and resumes the parent in its \<open>execute\<close> with the status: the parent's page directory,
  kernel stack and saved stack pointer are loaded, and it is the active process of its terminal
  again. Memory and control blocks are not touched and the process table stays well formed.
\<close>

theorem halt_returns_to_parent:
  assumes "fds_ok (files (cur_pcb k))" "parent_pcb (cur_pcb k) = a" "a \<noteq> 0"
    and "ptable_wf (ptab k)" "q \<in> {1..6}" "pid (cur_pcb k) = of_nat q" "proc_live (ptab k) q"
    and "term_num (pcbs k a) = of_nat t" "t < 3"
  shows "\<exists>k'. halt mc fr status k = Some (Resume_parent status, k') \<and>
    ptable_wf (ptab k') \<and> proc_live (ptab k') = (proc_live (ptab k))(q := False) \<and>
    get_active_process (of_nat t) (ptab k') = pid (pcbs k a) \<and>
    cr3 (pg k') = (case pd (pcbs k a) of Some p \<Rightarrow> p | None \<Rightarrow> pd_first_ptr) \<and> pds (pg k') = pds (pg k) \<and>
    tss_esp0 k' = c_esp0 (ctx (pcbs k a)) \<and>
    r_esp k' = esp_parent (cur_pcb k) \<and> r_ebp k' = ebp_parent (cur_pcb k) \<and> mem k' = mem k \<and> pcbs k' = pcbs k \<and>
    (rtc k', hw k') = rtc_closed mc (of_nat q) (open_rtcs (files (cur_pcb k))) (rtc k, hw k) \<and>
    rtc_opens (rtc k') = rtc_opens (rtc k) - of_nat (open_rtcs (files (cur_pcb k)))"
proof -
  let ?pt = "snd (delete_process (of_nat q) (ptab k))"
  have "proc_live (proc_release q (ptab k)) = (proc_live (ptab k))(q := False) \<and> ptable_wf (proc_release q (ptab k))"
    using assms(4,5,7) by (rule pt.release)
  then have r: "ptable_wf ?pt" "proc_live ?pt = (proc_live (ptab k))(q := False)" by (simp_all add: proc_release_def)
  note s = set_active_wf [OF r(1) assms(9), of "pid (pcbs k a)"]
  have o: "rtc_opens (rtc k') = rtc_opens (rtc k) - of_nat n" if "(rtc k', hw k') = rtc_closed mc p n (rtc k, hw k)" for k' p n
    using rtc_closed_opens [of mc p n "(rtc k, hw k)"] that by (metis fst_conv)
  show ?thesis using halt_eq [OF assms(1-3), of mc fr status] r s assms(6,8) by (auto simp: set_pd_def o)
qed

definition clock_fds :: "fd_t list" where
  "clock_fds = sample_fds[3 := \<lparr>fops = Some rtc_fops, inode = 0, inode_num = 0, pos = 0, flags = 1\<rparr>]"

definition halting_kernel :: "nat kernel" where
  "halting_kernel = sample_kernel\<lparr>ptab := sample_ptab\<lparr>procs := [1, 0, 0, 0, 0, 0], proc_count := 1\<rparr>,
     pcbs := \<lambda>_. sample_pcb\<lparr>files := clock_fds, parent_pcb := 0x7FA000, pid := 1, esp_parent := 0x7FBF00\<rparr>\<rparr>"

theorem halt_returns_to_parent_witness:
  "\<exists>k'. halt sample_machine sample_frame 7 halting_kernel = Some (Resume_parent 7, k') \<and> r_esp k' = 0x7FBF00 \<and>
     rtc_opens (rtc halting_kernel) = 1 \<and> rtc_opens (rtc k') = 0"
proof -
  have "fds_ok clock_fds" "open_rtcs clock_fds = 1"
    by (simp_all add: clock_fds_def sample_fds_def fds_ok_def fd_ok_def open_rtcs_def numeral_nat)
  moreover have "ptable_wf (ptab halting_kernel)" "proc_live (ptab halting_kernel) 1"
    by (simp_all add: halting_kernel_def ptable_wf_def sample_ptab_def ptable_init_def proc_live_def)
  moreover have "rtc_opens (rtc halting_kernel) = 1" "cur_pcb halting_kernel =
      sample_pcb\<lparr>files := clock_fds, parent_pcb := 0x7FA000, pid := 1, esp_parent := 0x7FBF00\<rparr>"
    by (simp_all add: halting_kernel_def cur_pcb_def) (simp add: sample_kernel_def rtc_fresh_def)
  ultimately show ?thesis
    using halt_returns_to_parent [of halting_kernel "0x7FA000" 1 0 sample_machine sample_frame 7]
    by (auto simp: halting_kernel_def sample_pcb_def)
qed

end
