(* ===== verification/Calls.thy ===== *)
theory Calls
  imports Exec
begin

text \<open>
  The remaining calls of \<^verbatim>\<open>student-distrib/sys_calls.c\<close>, \<open>getargs\<close>, \<open>vidmap\<close> and the two
  that are not implemented, and what \<open>execute\<close>, \<open>getargs\<close> and \<open>halt\<close> achieve together.
\<close>

section \<open>The other calls\<close>

text \<open>
  \<open>getargs\<close>: \<open>args_len\<close> is unsigned, so the comparison with \<open>nbytes\<close> is unsigned. The arguments
  are copied out of the control block by \<open>memcpy\<close>.
\<close>

definition getargs :: "'h machine \<Rightarrow> addr \<Rightarrow> u32 \<Rightarrow> 'h kernel \<Rightarrow> (u32 \<times> 'h kernel) option" where
  "getargs mc buf nbytes k =
     (let b = cur_pcb k; tr = cur_tr mc k
      in if nbytes < args_len b + 1 then Some (-1, k)
         else if unat (args_len b) > ARGS_MAX then None
         else
           let m = store_bytes tr (mem k) buf (take (unat (args_len b)) (args b));
               m = st8 tr m (buf + args_len b) 0
           in Some (0, k\<lparr>mem := m\<rparr>))"

definition vidmap :: "'h machine \<Rightarrow> addr \<Rightarrow> 'h kernel \<Rightarrow> (u32 \<times> 'h kernel) option" where
  "vidmap mc screen_start k =
     (if sint screen_start < 0x8000000 \<or> sint screen_start \<ge> 0x8400000 then Some (-1, k)
      else
        let k = k\<lparr>mem := st32 (cur_tr mc k) (mem k) screen_start PROG_VIDMEM_ADDR\<rparr>;
            g = pg k
        in (case pd (cur_pcb k) of
              None \<Rightarrow> None
            | Some (pd_row i) \<Rightarrow>
                Some (PROG_VIDMEM_ADDR,
                  k\<lparr>pg := g\<lparr>pds := (pds g)[i := set_pde_flags (pds g ! i) PROG_VIDMEM_ADDR FLAG_P]\<rparr>\<rparr>)
            | Some pd_first_ptr \<Rightarrow>
                Some (PROG_VIDMEM_ADDR,
                  k\<lparr>pg := g\<lparr>pd_first := set_pde_flags (pd_first g) PROG_VIDMEM_ADDR FLAG_P\<rparr>\<rparr>)))"

definition set_handler :: "u32 \<Rightarrow> addr \<Rightarrow> u32" where
  "set_handler signum handler_address = -1"

definition sigreturn :: u32 where
  "sigreturn = -1"

section \<open>Properties\<close>

lemma ptab_roundtrip:
  assumes "ptable_wf s" "q \<in> {1..6}" "procs s ! (q - 1) = 0" "t < 3" "get_active_process (of_nat t) s = p"
  shows "snd (set_active_process (of_nat t) p (snd (delete_process (of_nat q) (snd (set_active_process (of_nat t) (of_nat q)
    (s\<lparr>procs := (procs s)[q - 1 := 1], proc_count := proc_count s + 1\<rparr>)))))) = s"
proof -
  have t: "\<not> (3 \<le> (of_nat t :: u32))" "unat (of_nat t :: u32) = t"
    using assms(4) of_nat_less_u32 [of t 3] by (auto simp: unat_of_nat_u32)
  then have a: "active_processes s ! t = p" using assms(5) by (simp add: get_active_process_def)
  have u: "(procs s)[q - 1 := 0] = procs s" "(active_processes s)[t := p] = active_processes s"
    using assms(1,2,3) a by (metis list_update_id)+
  have "1 \<le> q" "q \<le> 6" using assms(2) by auto
  then show ?thesis
    using t u by (simp add: set_active_process_def delete_process_eq)
qed

text \<open>
  C23. Execute and halt. Let a process that is the active one of its terminal, with its own page
  directory and kernel stack loaded, execute a program, and let the program halt at once. Then the
  process table is back to what it was, the caller's page directory, kernel stack and stack
  pointers are loaded again, and the caller's control block is unchanged.
\<close>

theorem execute_halt_roundtrip:
  assumes "inj_on (cur_tr mc k) mapped" "\<forall>x \<in> kernel_page. cur_tr mc k x = x"
    and "command_ok (cur_tr mc k) (mem k) (bootblock k) mapped names command xs fr ino"
    and "layout_ok (m_lay mc)" "tables_ok (pg k)" "paging_shape (pg k)" "ptable_wf (ptab k)"
    and "q \<in> {1..6}" "\<not> proc_live (ptab k) q" "\<forall>r \<in> {1..<q}. proc_live (ptab k) r"
    and "curr_terminal_running_process (kbd k) (ptab k)"
    and "term_num (cur_pcb k) = of_nat t" "t < 3" "get_active_process (of_nat t) (ptab k) = pid (cur_pcb k)"
    and "pd (cur_pcb k) = Some (cr3 (pg k))" "c_esp0 (ctx (cur_pcb k)) = tss_esp0 k"
    and "cur_pcb_at k \<noteq> pcb_addr (of_nat q)" "cur_pcb_at k \<noteq> 0"
    and "get_device_fops TERM_FTYPE (ptab k) = Some term_fops" "pcb_of_esp e = pcb_addr (of_nat q)"
  shows "\<exists>entry k1 k2. execute mc fr command k = Some (Enter_user entry 0x83FFFFC, k1) \<and>
    halt mc fr' status (k1\<lparr>r_esp := e\<rparr>) = Some (Resume_parent status, k2) \<and>
    ptab k2 = ptab k \<and> cr3 (pg k2) = cr3 (pg k) \<and> tss_esp0 k2 = tss_esp0 k \<and>
    r_esp k2 = r_esp k \<and> r_ebp k2 = r_ebp k \<and> cur_pcb k2 = cur_pcb k"
proof -
  have as: "address_space (cur_tr mc k) mapped" using assms(1) by (rule address_space.intro)
  have tm: "exec_term k = of_nat t" "exec_parent k = cur_pcb_at k"
    using assms(11,12) by (simp_all add: exec_term_def exec_parent_def)
  let ?a = "pcb_addr (of_nat q)"
  define pt where "pt = (ptab k)\<lparr>procs := (procs (ptab k))[q - 1 := 1], proc_count := proc_count (ptab k) + 1\<rparr>"
  obtain entry k1 where k1: "execute mc fr command k = Some (Enter_user entry 0x83FFFFC, k1)"
    "ptab k1 = snd (set_active_process (of_nat t) (of_nat q) pt)"
    "\<forall>x. x \<noteq> ?a \<longrightarrow> pcbs k1 x = pcbs k x" "child_ok fr k q (cmd_args xs) (pcbs k1 ?a)"
    using execute_start_eq [OF as assms(2-6,8-10) tm(1) assms(13) refl pt_def] by blast
  let ?k1 = "k1\<lparr>r_esp := e\<rparr>"
  have at: "cur_pcb_at ?k1 = ?a" using assms(20) by (simp add: cur_pcb_at_def)
  then have child: "cur_pcb ?k1 = pcbs k1 ?a" by (simp add: cur_pcb_def)
  note c = k1(4) [unfolded child_ok_def]
  have par: "pcbs k1 (cur_pcb_at k) = cur_pcb k" using k1(3) assms(17) by (simp add: cur_pcb_def)
  have fds: "fds_ok (files (cur_pcb ?k1))"
    unfolding child using c assms(19) by (simp add: init_files_def fds_ok_def fd_ok_def)
  obtain k2 where k2: "halt mc fr' status ?k1 = Some (Resume_parent status, k2)" "pcbs k2 = pcbs k1"
    "pg k2 = set_pd (pd (cur_pcb k)) (pg k1)" "tss_esp0 k2 = tss_esp0 k"
    "ptab k2 = snd (set_active_process (of_nat t) (pid (cur_pcb k)) (snd (delete_process (of_nat q) (ptab k1))))"
    "r_esp k2 = r_esp k" "r_ebp k2 = r_ebp k"
    using halt_eq [OF fds refl, of mc fr' status] c par tm(2) assms(12,16,18) by (auto simp: child)
  have "cur_pcb_at k2 = cur_pcb_at k" using k2(6) by (simp add: cur_pcb_at_def)
  then have pcb: "cur_pcb k2 = cur_pcb k" using k2(2) par by (simp add: cur_pcb_def)
  have p: "procs (ptab k) ! (q - 1) = 0" using assms(8,9) by (simp add: proc_live_def)
  have "ptab k2 = ptab k"
    unfolding k2(5) k1(2) pt_def using assms(7,8) p assms(13,14) by (rule ptab_roundtrip)
  then show ?thesis using k1(1) k2 pcb assms(15) by (auto simp: set_pd_def)
qed

definition shell_pcb :: pcb_t where
  "shell_pcb = sample_pcb\<lparr>pid := 1, pd := Some pd_first_ptr\<rparr>"

definition shell_kernel :: "nat kernel" where
  "shell_kernel = elf_kernel\<lparr>ptab := sample_ptab\<lparr>procs := [1, 0, 0, 0, 0, 0], proc_count := 1, active_processes := [1, -1, -1]\<rparr>,
     pcbs := \<lambda>_. shell_pcb, r_esp := 0x7FDF00\<rparr>"

lemma shell_kernel_simps [simp]:
  "bootblock shell_kernel = 0x500000" "mem shell_kernel = elf_mem" "pg shell_kernel = elf_paging"
  "cur_pcb_at shell_kernel = 0x7FC000" "cur_pcb shell_kernel = shell_pcb" "tss_esp0 shell_kernel = 0"
  by (simp_all add: shell_kernel_def cur_pcb_def cur_pcb_at_def pcb_of_esp_def elf_kernel_def sample_kernel_def)

lemma shell_kernel_tr: "cur_tr sample_machine shell_kernel = (\<lambda>a. a)"
  unfolding elf_tr [symmetric] by (rule cur_tr_cong) simp

lemma shell_kernel_ptab:
  "ptable_wf (ptab shell_kernel)" "proc_live (ptab shell_kernel) 1" "\<not> proc_live (ptab shell_kernel) 2"
  "get_active_process 0 (ptab shell_kernel) = 1" "get_device_fops 3 (ptab shell_kernel) = Some term_fops"
  "curr_terminal_running_process (kbd shell_kernel) (ptab shell_kernel)"
  by (simp_all add: shell_kernel_def ptable_wf_def sample_ptab_def ptable_init_def proc_live_def get_active_process_def
      get_device_fops_def curr_terminal_running_process_def)

theorem execute_halt_roundtrip_witness:
  "\<exists>entry k1 k2. execute sample_machine elf_frame 0x600000 shell_kernel = Some (Enter_user entry 0x83FFFFC, k1) \<and>
     halt sample_machine elf_frame 3 (k1\<lparr>r_esp := 0x7FBF00\<rparr>) = Some (Resume_parent 3, k2) \<and> ptab k2 = ptab shell_kernel"
proof -
  have "\<forall>r \<in> {1..<2}. proc_live (ptab shell_kernel) r" using shell_kernel_ptab(2) by (auto simp: less_Suc_eq numeral_2_eq_2)
  moreover have "cr3 elf_paging = pd_first_ptr" by (simp add: elf_paging_def flat_paging_def cleared_paging_def)
  ultimately show ?thesis
    using execute_halt_roundtrip [of sample_machine shell_kernel UNIV "[[115, 104]]" "0x600000" "[115, 104, 32, 120]"
        elf_frame 0 2 0 "0x7FBF00" elf_frame 3]
      elf_command_ok sample_layout_ok elf_paging_ok shell_kernel_ptab
    by (auto simp: shell_kernel_tr shell_pcb_def sample_pcb_def pcb_addr_def pcb_of_esp_def)
qed

text \<open>
  C24. Arguments. In a process that \<open>execute\<close> has started, \<open>getargs\<close> with a buffer that has room for
  the arguments and a terminator puts them there as a string and returns 0; with a smaller buffer it
  returns -1 and changes nothing.
\<close>

theorem getargs_delivers:
  assumes "inj_on (cur_tr mc k) mapped" "child_ok fr k0 q bs (cur_pcb k)" "length bs < 128" "0 \<notin> set bs"
    and "rng buf (Suc (length bs)) \<subseteq> mapped"
  shows "(nbytes < of_nat (Suc (length bs)) \<longrightarrow> getargs mc buf nbytes k = Some (-1, k)) \<and>
    (of_nat (Suc (length bs)) \<le> nbytes \<longrightarrow> (\<exists>k'. getargs mc buf nbytes k = Some (0, k') \<and>
      cstring (cur_tr mc k) (mem k') buf bs \<and>
      (\<forall>p. p \<notin> cur_tr mc k ` rng buf (Suc (length bs)) \<longrightarrow> mem k' p = mem k p)))"
proof -
  have c: "args_len (cur_pcb k) = of_nat (length bs)" "take (length bs) (args (cur_pcb k)) = bs"
    using assms(2) by (auto simp: child_ok_def)
  have u: "unat (of_nat (length bs) :: u32) = length bs" using assms(3) by (simp add: unat_of_nat_u32)
  let ?m = "store_bytes (cur_tr mc k) (mem k) buf (bs @ [0])"
  have "cstring (cur_tr mc k) ?m buf bs"
    using assms(3-5) by (intro address_space.cstring_store [OF address_space.intro [OF assms(1)]]) auto
  moreover have "?m p = mem k p" if "p \<notin> cur_tr mc k ` rng buf (Suc (length bs))" for p
    using that assms(3) by (intro store_bytes_frame) auto
  moreover have "getargs mc buf nbytes k =
      (if nbytes < of_nat (Suc (length bs)) then Some (-1, k) else Some (0, k\<lparr>mem := ?m\<rparr>))"
    using c u assms(3) by (simp add: getargs_def Let_def store_bytes_snoc add.commute)
  ultimately show ?thesis by (auto simp: not_less [symmetric])
qed

theorem getargs_delivers_witness:
  "\<exists>k'. getargs sample_machine 0x8000000 5 (sample_kernel\<lparr>pcbs := \<lambda>_. sample_pcb\<lparr>pid := 1, term_num := 0,
       files := init_files sample_frame (Some term_fops), args_len := 1, args := 120 # replicate 127 0, pd := Some (pd_row 0),
       ctx := \<lparr>c_esp = 0, c_eip = 0, c_esp0 = 0x7FDFFC, c_ebp = 0\<rparr>, esp_parent := 0x7FBF00\<rparr>\<rparr>) = Some (0, k') \<and>
     cstring (\<lambda>a. a) (mem k') 0x8000000 [120]"
proof -
  let ?k = "sample_kernel\<lparr>pcbs := \<lambda>_. sample_pcb\<lparr>pid := 1, term_num := 0,
       files := init_files sample_frame (Some term_fops), args_len := 1, args := 120 # replicate 127 0, pd := Some (pd_row 0),
       ctx := \<lparr>c_esp = 0, c_eip = 0, c_esp0 = 0x7FDFFC, c_ebp = 0\<rparr>, esp_parent := 0x7FBF00\<rparr>\<rparr>"
  have tr: "cur_tr sample_machine ?k = (\<lambda>a. a)" unfolding sample_tr [symmetric] by (rule cur_tr_cong) simp
  have "child_ok sample_frame sample_kernel 1 [120] (cur_pcb ?k)"
    by (simp add: child_ok_def cur_pcb_def exec_parent_def exec_term_def curr_terminal_running_process_def get_active_process_def
        sample_ptab_def ptable_init_def get_device_fops_def sample_kernel_def sample_pcb_def)
  then show ?thesis
    using getargs_delivers [of sample_machine ?k UNIV sample_frame sample_kernel 1 "[120]" "0x8000000" 5] by (auto simp: tr)
qed

lemma user_page_signed: "sint ptr < 0x8000000 \<or> sint ptr \<ge> 0x8400000 \<longleftrightarrow> ptr \<notin> rng PROG_VM_START 4194304"
proof -
  have b: "- 2147483648 \<le> sint ptr" "sint ptr < 2147483648" using sint_greater_eq [of ptr] sint_less [of ptr] by simp_all
  have u: "uint ptr = sint ptr mod 4294967296" by (simp add: uint_sint take_bit_eq_mod)
  have "uint (ptr - PROG_VM_START) = (uint ptr - 0x8000000) mod 4294967296" by (simp add: uint_word_ariths)
  then have m: "uint (ptr - PROG_VM_START) = (sint ptr - 0x8000000) mod 4294967296" by (simp add: u mod_diff_left_eq)
  have "int (unat (ptr - PROG_VM_START)) = uint (ptr - PROG_VM_START)" by simp
  then have r: "ptr \<in> rng PROG_VM_START 4194304 \<longleftrightarrow> uint (ptr - PROG_VM_START) < 4194304"
    unfolding rng_iff by linarith
  show ?thesis
  proof (cases "sint ptr < 0x8000000")
    case True
    have "(sint ptr - 0x8000000) mod 4294967296 = (sint ptr - 0x8000000 + 4294967296) mod 4294967296"
      by (rule mod_add_self2 [symmetric])
    also have "\<dots> = sint ptr - 0x8000000 + 4294967296" using True b by (intro mod_pos_pos_trivial) auto
    finally have "(sint ptr - 0x8000000) mod 4294967296 = sint ptr - 0x8000000 + 4294967296" .
    then show ?thesis using True b r m by simp
  next
    case False
    then have "(sint ptr - 0x8000000) mod 4294967296 = sint ptr - 0x8000000" using b by (intro mod_pos_pos_trivial) auto
    then show ?thesis using False r m by (simp add: not_less)
  qed
qed

text \<open>
  C25. The video page. For a pointer into the program's page, \<open>vidmap\<close> stores the fixed address
  there, and from then on the program's accesses to the 4 KB at that address reach the screen of its
  terminal and nothing else; a pointer outside the program's page is refused with -1 and no effect.
\<close>

theorem vidmap_maps_screen:
  assumes "layout_ok (m_lay mc)" "tables_ok (pg k)" "q \<in> {1..6}" "t < 3"
    and "pd (cur_pcb k) = Some (pd_row (q - 1))" "length (pds (pg k)) = 6" "length dir = 1024"
    and "pds (pg k) ! (q - 1) = process_pd (m_lay mc) dir (of_nat q) (of_nat t)"
    and "inj_on (cur_tr mc k) mapped" "rng ptr 4 \<subseteq> mapped"
  shows "(ptr \<notin> rng PROG_VM_START 4194304 \<longrightarrow> vidmap mc ptr k = Some (-1, k)) \<and>
    (ptr \<in> rng PROG_VM_START 4194304 \<longrightarrow> (\<exists>k'. vidmap mc ptr k = Some (PROG_VIDMEM_ADDR, k') \<and>
      ld32 (cur_tr mc k) (mem k') ptr = PROG_VIDMEM_ADDR \<and>
      (\<forall>va. user_tr (m_lay mc) (pg k') (pds (pg k') ! (q - 1)) va =
        (if va \<in> rng PROG_VM_START 4194304
         then Some (KERNEL_MEM_END + (of_nat q - 1) * SPACE_4MB + (va - PROG_VM_START))
         else if va \<in> rng PROG_VIDMEM_ADDR 4096
         then Some (VIDEO + of_nat t * PAGE_SIZE + (va - PROG_VIDMEM_ADDR)) else None))))"
proof -
  let ?D = "process_pd (m_lay mc) dir (of_nat q) (of_nat t)"
  let ?m = "st32 (cur_tr mc k) (mem k) ptr PROG_VIDMEM_ADDR"
  let ?g = "(pg k)\<lparr>pds := (pds (pg k))[q - 1 := set_pde_flags (pds (pg k) ! (q - 1)) PROG_VIDMEM_ADDR FLAG_P]\<rparr>"
  have v: "vidmap mc ptr k = (if ptr \<in> rng PROG_VM_START 4194304 then Some (PROG_VIDMEM_ADDR, k\<lparr>mem := ?m, pg := ?g\<rparr>) else Some (-1, k))"
    using assms(5) by (simp add: vidmap_def user_page_signed Let_def)
  have "q - 1 < 6" using assms(3) by auto
  then have d: "pds ?g ! (q - 1) = map_vidmap True ?D" using assms(6,8) by (simp add: map_vidmap_def)
  have tab: "tables_ok ?g" using assms(2) by (simp add: tables_ok_def paging_on_def)
  have ld: "ld32 (cur_tr mc k) ?m ptr = PROG_VIDMEM_ADDR"
    using address_space.ld32_st32_same [OF address_space.intro [OF assms(9)] assms(10)] .
  note uv = user_view [OF assms(1) tab assms(7,3,4), of True, folded d]
  show ?thesis
  proof (cases "ptr \<in> rng PROG_VM_START 4194304")
    case True
    with v have "vidmap mc ptr k = Some (PROG_VIDMEM_ADDR, k\<lparr>mem := ?m, pg := ?g\<rparr>)" by simp
    with True ld uv show ?thesis by (intro conjI impI exI [of _ "k\<lparr>mem := ?m, pg := ?g\<rparr>"]) simp_all
  qed (use v in simp)
qed

definition vid_kernel :: "nat kernel" where
  "vid_kernel = shell_kernel\<lparr>pg := elf_paging\<lparr>pds := replicate 6 (process_pd sample_layout (replicate 1024 0) 1 0)\<rparr>,
     pcbs := \<lambda>_. sample_pcb\<lparr>pd := Some (pd_row 0)\<rparr>\<rparr>"

theorem vidmap_maps_screen_witness:
  "\<exists>k'. vidmap sample_machine 0x8000010 vid_kernel = Some (PROG_VIDMEM_ADDR, k') \<and>
     user_tr sample_layout (pg k') (pds (pg k') ! 0) 0x8400002 = Some 0xB8002"
proof -
  let ?g = "elf_paging\<lparr>pds := replicate 6 (process_pd sample_layout (replicate 1024 0) 1 0)\<rparr>"
  have "tables_ok ?g" using elf_paging_ok(1) by (simp add: tables_ok_def paging_on_def)
  moreover have "cur_tr sample_machine vid_kernel = (\<lambda>a. a)"
  proof (rule cur_tr_flat)
    show "paging_on (pg vid_kernel)" using tables_ok_on [OF elf_paging_ok(1)] by (simp add: vid_kernel_def paging_on_def)
  qed (simp add: vid_kernel_def elf_paging_def flat_paging_def cleared_paging_def pd_of_def)
  ultimately show ?thesis
    using vidmap_maps_screen [of sample_machine vid_kernel 1 0 "replicate 1024 0" UNIV "0x8000010"] sample_layout_ok
    by (auto simp: vid_kernel_def cur_pcb_def rng_def)
qed

end
