(* ===== verification/Pit.thy ===== *)
theory Pit
  imports Calls
begin

text \<open>
  The timer and the scheduler, \<^verbatim>\<open>student-distrib/devices/pit.c\<close>. The handler of the timer
  interrupt runs on the kernel stack of the interrupted process; it switches to the active process
  of the next terminal by loading that process's page directory and the stack pointers it saved,
  so that the rest of the handler returns into that process.
\<close>

abbreviation (input) PIT_CMD_PORT :: u16 where "PIT_CMD_PORT \<equiv> 0x40"
abbreviation (input) PIT0_DATA_PORT :: u16 where "PIT0_DATA_PORT \<equiv> 0x43"
abbreviation (input) PIT_IRQ_NUM :: u32 where "PIT_IRQ_NUM \<equiv> 0"

section \<open>The timer\<close>

definition pit_reset_count :: "'h outb \<Rightarrow> u16 \<Rightarrow> 'h \<Rightarrow> 'h" where
  "pit_reset_count outb rt h =
     outbs outb [(0x31, PIT_CMD_PORT), (ucast (rt AND 0xFF), PIT0_DATA_PORT), (ucast (drop_bit 8 rt), PIT0_DATA_PORT)] h"

definition pit_init :: "'h machine \<Rightarrow> u32 \<Rightarrow> u32 list \<times> 'h kernel \<Rightarrow> u32 list \<times> 'h kernel" where
  "pit_init mc handler = (\<lambda>(irq_table, k).
     let irq_table = add_irq PIT_IRQ_NUM handler irq_table;
         k = k\<lparr>pit_rate := of_int (1193180 div 100)\<rparr>;
         k = k\<lparr>hw := pit_reset_count (m_outb mc) (pit_rate k) (hw k)\<rparr>
     in (irq_table, k\<lparr>hw := enable_irq (m_inb mc) (m_outb mc) PIT_IRQ_NUM (hw k)\<rparr>))"

text \<open>A rate of 0 divides by zero.\<close>

definition pit_set_rate :: "u16 \<Rightarrow> 'h kernel \<Rightarrow> 'h kernel option" where
  "pit_set_rate rt k = (if rt = 0 then None else Some (k\<lparr>pit_rate := of_int (1193180 div uint rt)\<rparr>))"

text \<open>The arguments of the first \<open>outb\<close> are a value and a port, in this order.\<close>

definition pit_get_count :: "'h inb \<Rightarrow> 'h outb \<Rightarrow> 'h \<Rightarrow> u16 \<times> 'h" where
  "pit_get_count inb outb h =
     (let h = outb 0x40 0x00 h;
          (lo, h) = inb PIT0_DATA_PORT h;
          (hi, h) = inb PIT0_DATA_PORT h
      in (ucast lo OR push_bit 8 (ucast hi), h))"

section \<open>The scheduler\<close>

text \<open>The loop over the terminals behind the running one; \<open>%\<close> is C's remainder on \<open>int32_t\<close>.\<close>

function sched_loop :: "nat \<Rightarrow> u32 \<Rightarrow> u32 \<Rightarrow> ptable \<Rightarrow> u32" where
  "sched_loop i running_term next_pid pt =
     (if i \<le> 3 then
        let next_pid = get_active_process (of_int ((sint running_term + int i) smod 3)) pt
        in if next_pid \<noteq> -1 then next_pid else sched_loop (i + 1) running_term next_pid pt
      else next_pid)"
  by pat_completeness auto
termination
  by (relation "measure (\<lambda>(i, r, n, pt). 4 - i)") auto

declare sched_loop.simps [simp del]

definition schedule :: "'h machine \<Rightarrow> addr \<Rightarrow> 'h kernel \<Rightarrow> 'h kernel" where
  "schedule mc prev k =
     (let prev_pid = pid (pcbs k prev);
          next_pid = sched_loop 1 (term_num (pcbs k prev)) (-1) (ptab k);
          nxt = pcbs k (pcb_addr next_pid);
          k = k\<lparr>hw := pit_reset_count (m_outb mc) (pit_rate k) (hw k)\<rparr>
      in if prev_pid = next_pid then k
         else k\<lparr>pg := set_pd (pd nxt) (pg k), r_esp := c_esp (ctx nxt), r_ebp := c_ebp (ctx nxt), tss_esp0 := c_esp0 (ctx nxt)\<rparr>)"

text \<open>A scheduled command is not looked at: it is always the shell that is executed.\<close>

definition pit_handler_main :: "'h machine \<Rightarrow> frame \<Rightarrow> 'h kernel \<Rightarrow> (flow \<times> 'h kernel) option" where
  "pit_handler_main mc fr k =
     (let k = k\<lparr>hw := send_eoi (m_outb mc) PIT_IRQ_NUM (hw k)\<rparr>
      in if processes (ptab k) = 0 then Some (Ret 0, k\<lparr>hw := pit_reset_count (m_outb mc) (pit_rate k) (hw k)\<rparr>)
         else
           let prev = cur_pcb_at k;
               k = upd_pcb prev (\<lambda>b. b\<lparr>ctx := (ctx b)\<lparr>c_esp := r_esp k, c_ebp := r_ebp k\<rparr>\<rparr>) k
           in if next_execute k \<noteq> 0 then
                let k = k\<lparr>next_execute := 0, hw := pit_reset_count (m_outb mc) (pit_rate k) (hw k)\<rparr>
                in case execute mc fr (m_shell mc) k of None \<Rightarrow> None
                   | Some (Ret r, k) \<Rightarrow> Some (Ret 0, schedule mc prev k)
                   | Some (fl, k) \<Rightarrow> Some (fl, k)
              else Some (Ret 0, schedule mc prev k))"

section \<open>Round robin\<close>

text \<open>The next terminal behind \<open>t\<close>, in cyclic order, that has a process.\<close>

definition next_term :: "u32 list \<Rightarrow> nat \<Rightarrow> nat" where
  "next_term act t =
     (if act ! ((t + 1) mod 3) \<noteq> -1 then (t + 1) mod 3
      else if act ! ((t + 2) mod 3) \<noteq> -1 then (t + 2) mod 3 else t)"

lemma smod_3: "0 \<le> a \<Longrightarrow> a smod 3 = a mod (3 :: int)"
  by (cases "a = 0") (simp_all add: signed_modulo_int_def)

lemma active_next:
  assumes "t < 3"
  shows "get_active_process (of_int ((sint (of_nat t :: u32) + int i) smod 3)) pt = active_processes pt ! ((t + i) mod 3)"
proof -
  have s: "sint (of_nat t :: u32) = int t" using assms sint_small_u32 [of t] by simp
  have "(int t + int i) smod 3 = int ((t + i) mod 3)" by (simp add: smod_3 zmod_int)
  then have n: "(of_int ((sint (of_nat t :: u32) + int i) smod 3) :: u32) = of_nat ((t + i) mod 3)" unfolding s by simp
  have l: "(t + i) mod 3 < 3" by simp
  have u: "unat (of_nat ((t + i) mod 3) :: u32) = (t + i) mod 3" by (intro unat_of_nat_u32) (use l in linarith)
  then have "\<not> (3 \<le> (of_nat ((t + i) mod 3) :: u32))" using l by (simp add: word_le_nat_alt)
  then show ?thesis unfolding n using u by (simp add: get_active_process_def)
qed

lemma sched_loop_eq:
  assumes "t < 3"
  shows "sched_loop 1 (of_nat t) n pt = active_processes pt ! next_term (active_processes pt) t"
proof -
  let ?a = "active_processes pt"
  have t: "(t + 3) mod 3 = t" using assms by simp
  note step = sched_loop.simps [of _ "of_nat t" _ pt, unfolded active_next [OF assms] Let_def]
  have "sched_loop 4 (of_nat t) x pt = x" for x using step [of 4 x] by simp
  then have s3: "sched_loop 3 (of_nat t) x pt = ?a ! t" for x using step [of 3 x] unfolding t by simp
  have s2: "sched_loop 2 (of_nat t) x pt = (if ?a ! ((t + 2) mod 3) \<noteq> -1 then ?a ! ((t + 2) mod 3) else ?a ! t)" for x
    using step [of 2 x] s3 by simp
  have "sched_loop 1 (of_nat t) n pt =
      (if ?a ! ((t + 1) mod 3) \<noteq> -1 then ?a ! ((t + 1) mod 3) else sched_loop 2 (of_nat t) (?a ! ((t + 1) mod 3)) pt)"
    using step [of 1 n] unfolding one_add_one by simp
  then show ?thesis unfolding s2 by (simp add: next_term_def)
qed

text \<open>
  The processes that the scheduler switches between: each active process of a terminal has a
  control block that says so, and a saved stack pointer in its own kernel stack unless it is
  running.
\<close>

definition runs :: "'h kernel \<Rightarrow> nat \<Rightarrow> bool" where
  "runs k t \<longleftrightarrow> active_processes (ptab k) ! t \<noteq> -1 \<and> cur_pcb_at k = pcb_addr (active_processes (ptab k) ! t)"

definition proc_ok :: "'h kernel \<Rightarrow> nat \<Rightarrow> bool" where
  "proc_ok k t \<longleftrightarrow>
     (let p = active_processes (ptab k) ! t; b = pcbs k (pcb_addr p)
      in p = -1 \<or> unat p \<in> {1..6} \<and> pid b = p \<and> term_num b = of_nat t \<and>
         (\<not> runs k t \<longrightarrow> pcb_of_esp (c_esp (ctx b)) = pcb_addr p))"

definition sched_ok :: "'h kernel \<Rightarrow> bool" where
  "sched_ok k \<longleftrightarrow> processes (ptab k) \<noteq> 0 \<and> next_execute k = 0 \<and> (\<forall>t < 3. proc_ok k t) \<and> (\<exists>t < 3. runs k t)"

lemma pcb_addr_word_inj:
  assumes "unat p \<in> {1..6}" "unat q \<in> {1..6}" "pcb_addr p = pcb_addr q"
  shows "p = q"
  using pcb_addr_inj [of "unat p" "unat q"] assms by (auto simp: word_unat_eq_iff)

lemma of_nat_t_inj: "t < 3 \<Longrightarrow> u < 3 \<Longrightarrow> of_nat t = (of_nat u :: u32) \<longleftrightarrow> t = u"
  by (simp add: of_nat_eq_iff_u32)

text \<open>Different terminals have different active processes.\<close>

lemma active_distinct:
  assumes "sched_ok k" "t < 3" "u < 3" "active_processes (ptab k) ! t \<noteq> -1"
    and "pcb_addr (active_processes (ptab k) ! t) = pcb_addr (active_processes (ptab k) ! u)" "active_processes (ptab k) ! u \<noteq> -1"
  shows "t = u"
proof -
  have "proc_ok k t" "proc_ok k u" using assms(1-3) by (auto simp: sched_ok_def)
  then have "term_num (pcbs k (pcb_addr (active_processes (ptab k) ! t))) = of_nat t"
    "term_num (pcbs k (pcb_addr (active_processes (ptab k) ! u))) = of_nat u"
    using assms(4,6) by (simp_all add: proc_ok_def Let_def)
  then show ?thesis using assms(2,3,5) of_nat_t_inj by metis
qed

lemma next_term_active:
  assumes "t < 3" "act ! t \<noteq> -1"
  shows "next_term act t < 3" "act ! next_term act t \<noteq> -1"
  using assms by (simp_all add: next_term_def)

lemma next_term_runs:
  assumes "sched_ok k" "runs k t" "t < 3"
  shows "pid (cur_pcb k) = active_processes (ptab k) ! t" "term_num (cur_pcb k) = of_nat t"
  using assms by (auto simp: sched_ok_def proc_ok_def runs_def Let_def cur_pcb_def)

text \<open>The state that one timer interrupt leaves.\<close>

definition ticked :: "'h machine \<Rightarrow> nat \<Rightarrow> 'h kernel \<Rightarrow> 'h kernel" where
  "ticked mc u k =
     (let k = upd_pcb (cur_pcb_at k) (\<lambda>b. b\<lparr>ctx := (ctx b)\<lparr>c_esp := r_esp k, c_ebp := r_ebp k\<rparr>\<rparr>)
            (k\<lparr>hw := send_eoi (m_outb mc) PIT_IRQ_NUM (hw k)\<rparr>);
          k = k\<lparr>hw := pit_reset_count (m_outb mc) (pit_rate k) (hw k)\<rparr>;
          nxt = pcbs k (pcb_addr (active_processes (ptab k) ! u))
      in if cur_pcb_at k = pcb_addr (active_processes (ptab k) ! u) then k
         else k\<lparr>pg := set_pd (pd nxt) (pg k), r_esp := c_esp (ctx nxt), r_ebp := c_ebp (ctx nxt), tss_esp0 := c_esp0 (ctx nxt)\<rparr>)"

lemma cur_pcb_at_pcbs: "cur_pcb_at (k\<lparr>pcbs := b\<rparr>) = cur_pcb_at k"
  by (simp add: cur_pcb_at_def)

lemma pit_handler_switch:
  assumes ok: "sched_ok k" and t: "runs k t" "t < 3"
  shows "pit_handler_main mc fr k = Some (Ret 0, ticked mc (next_term (active_processes (ptab k)) t) k)"
proof -
  let ?act = "active_processes (ptab k)" and ?u = "next_term (active_processes (ptab k)) t"
  have a: "?act ! t \<noteq> -1" using t(1) by (simp add: runs_def)
  note cur = next_term_runs [OF ok t]
  note u = next_term_active [of t ?act, OF t(2) a]
  have p: "unat (?act ! t) \<in> {1..6}" "unat (?act ! ?u) \<in> {1..6}"
    using ok t(2) a u by (auto simp: sched_ok_def proc_ok_def Let_def)
  have eq: "?act ! t = ?act ! ?u \<longleftrightarrow> cur_pcb_at k = pcb_addr (?act ! ?u)"
    using t(1) pcb_addr_word_inj [OF p] by (auto simp: runs_def)
  show ?thesis
    using ok cur eq sched_loop_eq [OF t(2), of "-1" "ptab k"]
    by (simp add: pit_handler_main_def sched_ok_def schedule_def ticked_def Let_def cur_pcb_def upd_pcb_def cur_pcb_at_pcbs)
qed

lemma ticked_keeps [simp]:
  "ptab (ticked mc u k) = ptab k" "next_execute (ticked mc u k) = next_execute k" "mem (ticked mc u k) = mem k"
  "kbd (ticked mc u k) = kbd k" "rtc (ticked mc u k) = rtc k" "bootblock (ticked mc u k) = bootblock k"
  "pid (pcbs (ticked mc u k) x) = pid (pcbs k x)" "term_num (pcbs (ticked mc u k) x) = term_num (pcbs k x)"
  by (simp_all add: ticked_def Let_def upd_pcb_def)

lemma ticked_runs:
  assumes ok: "sched_ok k" and t: "runs k t" "t < 3"
    and u: "u < 3" "active_processes (ptab k) ! u \<noteq> -1"
  shows "runs (ticked mc u k) u" "sched_ok (ticked mc u k)"
proof -
  let ?act = "active_processes (ptab k)" and ?k = "ticked mc u k"
  have pu: "proc_ok k u" using ok u(1) by (simp add: sched_ok_def)
  have esp: "pcb_of_esp (c_esp (ctx (pcbs k (pcb_addr (?act ! u))))) = pcb_addr (?act ! u)"
    if "cur_pcb_at k \<noteq> pcb_addr (?act ! u)"
    using pu u(2) that by (auto simp: proc_ok_def Let_def runs_def)
  have at: "cur_pcb_at ?k = pcb_addr (?act ! u)"
    using esp by (auto simp: ticked_def Let_def cur_pcb_at_def upd_pcb_def)
  then show r: "runs ?k u" using u(2) by (simp add: runs_def)
  have "proc_ok ?k s" if s: "s < 3" for s
  proof (cases "?act ! s = -1")
    case False
    have ps: "proc_ok k s" using ok s by (simp add: sched_ok_def)
    have "pcb_of_esp (c_esp (ctx (pcbs ?k (pcb_addr (?act ! s))))) = pcb_addr (?act ! s)" if n: "\<not> runs ?k s"
    proof (cases "cur_pcb_at k = pcb_addr (?act ! s)")
      case True
      then show ?thesis by (simp add: ticked_def Let_def cur_pcb_at_def upd_pcb_def)
    next
      case 2: False
      then have "\<not> runs k s" by (simp add: runs_def)
      then have "pcb_of_esp (c_esp (ctx (pcbs k (pcb_addr (?act ! s))))) = pcb_addr (?act ! s)"
        using ps False by (simp add: proc_ok_def Let_def)
      then show ?thesis using 2 by (simp add: ticked_def Let_def cur_pcb_at_def upd_pcb_def)
    qed
    then show ?thesis using ps False by (auto simp: proc_ok_def Let_def)
  qed (simp add: proc_ok_def)
  then show "sched_ok ?k" using ok r u(1) by (auto simp: sched_ok_def)
qed

text \<open>
  A run of \<open>n\<close> timer interrupts. Between two of them the running process computes on its own
  kernel stack or in user mode, from where an interrupt enters on that stack, so the next interrupt
  finds a stack pointer with the same control block below it.
\<close>

inductive timer_run :: "'h machine \<Rightarrow> frame \<Rightarrow> nat \<Rightarrow> 'h kernel \<Rightarrow> 'h kernel \<Rightarrow> bool" for mc fr where
  start: "timer_run mc fr 0 k k"
| tick: "timer_run mc fr n k k1 \<Longrightarrow> pcb_of_esp esp = cur_pcb_at k1 \<Longrightarrow>
    pit_handler_main mc fr (k1\<lparr>r_esp := esp, r_ebp := ebp\<rparr>) = Some (fl, k2) \<Longrightarrow> timer_run mc fr (Suc n) k k2"

inductive_simps timer_run_0 [simp]: "timer_run mc fr 0 k k'"
inductive_cases timer_run_Suc: "timer_run mc fr (Suc n) k k'"

lemma sched_ok_stack:
  assumes "pcb_of_esp esp = cur_pcb_at k"
  shows "runs (k\<lparr>r_esp := esp, r_ebp := ebp\<rparr>) t \<longleftrightarrow> runs k t" "sched_ok (k\<lparr>r_esp := esp, r_ebp := ebp\<rparr>) \<longleftrightarrow> sched_ok k"
proof -
  have r: "runs (k\<lparr>r_esp := esp, r_ebp := ebp\<rparr>) t \<longleftrightarrow> runs k t" for t using assms by (simp add: runs_def cur_pcb_at_def)
  then show "runs (k\<lparr>r_esp := esp, r_ebp := ebp\<rparr>) t \<longleftrightarrow> runs k t" .
  show "sched_ok (k\<lparr>r_esp := esp, r_ebp := ebp\<rparr>) \<longleftrightarrow> sched_ok k" by (simp add: sched_ok_def proc_ok_def r Let_def)
qed

lemma ticked_context:
  assumes "sched_ok k" "runs k t" "t < 3" "s < 3" "active_processes (ptab k) ! s \<noteq> -1"
  shows "ctx (pcbs (ticked mc u k) (pcb_addr (active_processes (ptab k) ! s))) =
    (if s = t then (ctx (cur_pcb k))\<lparr>c_esp := r_esp k, c_ebp := r_ebp k\<rparr>
     else ctx (pcbs k (pcb_addr (active_processes (ptab k) ! s))))"
  using assms active_distinct [OF assms(1,4,3,5)]
  by (auto simp: ticked_def Let_def upd_pcb_def runs_def cur_pcb_def)

lemma timer_step:
  assumes ok: "sched_ok k" and t: "runs k t" "t < 3" and step: "timer_run mc fr (Suc 0) k k'"
  defines "act \<equiv> active_processes (ptab k)"
  shows "sched_ok k'" "runs k' (next_term act t)" "ptab k' = ptab k"
    "\<And>s. s < 3 \<Longrightarrow> s \<noteq> t \<Longrightarrow> act ! s \<noteq> -1 \<Longrightarrow> ctx (pcbs k' (pcb_addr (act ! s))) = ctx (pcbs k (pcb_addr (act ! s)))"
    "next_term act t \<noteq> t \<Longrightarrow> r_esp k' = c_esp (ctx (pcbs k (pcb_addr (act ! next_term act t)))) \<and>
       r_ebp k' = c_ebp (ctx (pcbs k (pcb_addr (act ! next_term act t))))"
proof -
  obtain esp ebp fl where e: "pcb_of_esp esp = cur_pcb_at k"
    "pit_handler_main mc fr (k\<lparr>r_esp := esp, r_ebp := ebp\<rparr>) = Some (fl, k')"
    using step by (auto elim!: timer_run_Suc)
  let ?k = "k\<lparr>r_esp := esp, r_ebp := ebp\<rparr>" and ?u = "next_term act t"
  note ok' = sched_ok_stack [OF e(1), of ebp, THEN iffD2]
  note ok1 = ok'(2) [OF ok] and t1 = ok'(1) [OF t(1)]
  have k': "k' = ticked mc ?u ?k" using e(2) pit_handler_switch [OF ok1 t1 t(2), of mc fr] by (simp add: act_def)
  have a: "act ! t \<noteq> -1" using t(1) by (simp add: runs_def act_def)
  note u = next_term_active [of t act, OF t(2) a]
  show "sched_ok k'" "runs k' ?u" unfolding k' using ticked_runs [OF ok1 t1 t(2) u(1)] u(2) by (simp_all add: act_def)
  show "ptab k' = ptab k" by (simp add: k')
  show "ctx (pcbs k' (pcb_addr (act ! s))) = ctx (pcbs k (pcb_addr (act ! s)))" if "s < 3" "s \<noteq> t" "act ! s \<noteq> -1" for s
    using ticked_context [OF ok1 t1 t(2) that(1), of mc ?u] that by (simp add: k' act_def)
  assume "?u \<noteq> t"
  then have "cur_pcb_at k \<noteq> pcb_addr (act ! ?u)"
    using active_distinct [OF ok t(2) u(1)] a u(2) t(1) by (auto simp: runs_def act_def)
  then show "r_esp k' = c_esp (ctx (pcbs k (pcb_addr (act ! ?u)))) \<and> r_ebp k' = c_ebp (ctx (pcbs k (pcb_addr (act ! ?u))))"
    using e(1) by (simp add: k' ticked_def Let_def cur_pcb_at_def upd_pcb_def act_def)
qed

lemma timer_step_exists:
  assumes "sched_ok k" "runs k t" "t < 3"
  shows "\<exists>k'. timer_run mc fr (Suc 0) k k'"
  using timer_run.tick [OF timer_run.start, of "r_esp k" k mc fr "r_ebp k"] pit_handler_switch [OF assms, of mc fr]
  by (auto simp: cur_pcb_at_def)

lemma timer_run_split: "timer_run mc fr (Suc n) k k2 \<longleftrightarrow> (\<exists>k1. timer_run mc fr n k k1 \<and> timer_run mc fr (Suc 0) k1 k2)"
proof
  assume "timer_run mc fr (Suc n) k k2"
  then show "\<exists>k1. timer_run mc fr n k k1 \<and> timer_run mc fr (Suc 0) k1 k2"
    by (elim timer_run_Suc) (blast intro: timer_run.tick [OF timer_run.start])
next
  assume "\<exists>k1. timer_run mc fr n k k1 \<and> timer_run mc fr (Suc 0) k1 k2"
  then obtain k1 where k1: "timer_run mc fr n k k1" "timer_run mc fr (Suc 0) k1 k2" by blast
  from k1(2) show "timer_run mc fr (Suc n) k k2"
    by (elim timer_run_Suc) (use k1(1) in \<open>auto intro: timer_run.tick\<close>)
qed

text \<open>A terminal with a process is reached after at most three steps of \<open>next_term\<close>.\<close>

lemma next_term_values:
  "next_term act 0 = (if act ! 1 \<noteq> -1 then 1 else if act ! 2 \<noteq> -1 then 2 else 0)"
  "next_term act 1 = (if act ! 2 \<noteq> -1 then 2 else if act ! 0 \<noteq> -1 then 0 else 1)"
  "next_term act 2 = (if act ! 0 \<noteq> -1 then 0 else if act ! 1 \<noteq> -1 then 1 else 2)"
  by (simp_all add: next_term_def numeral_2_eq_2)

lemma next_term_reaches:
  assumes "t < 3" "u < 3" "act ! u \<noteq> -1"
  shows "u = t \<or> u = next_term act t \<or> next_term act t \<noteq> t \<and> u = next_term act (next_term act t)"
proof -
  have "t = 0 \<or> t = 1 \<or> t = 2" "u = 0 \<or> u = 1 \<or> u = 2" using assms(1,2) by linarith+
  then show ?thesis using assms(3) by (elim disjE; simp only: next_term_values if_True if_False simp_thms split: if_splits; simp)
qed

lemma timer_reaches:
  assumes ok: "sched_ok k" and t: "runs k t" "t < 3" and u: "u < 3" "active_processes (ptab k) ! u \<noteq> -1"
  obtains n where "n \<le> 2" "\<And>k'. timer_run mc fr n k k' \<Longrightarrow> sched_ok k' \<and> runs k' u"
    "\<exists>k'. timer_run mc fr n k k'"
    "\<And>k'. u \<noteq> t \<Longrightarrow> timer_run mc fr n k k' \<Longrightarrow>
       r_esp k' = c_esp (ctx (pcbs k (pcb_addr (active_processes (ptab k) ! u)))) \<and>
       r_ebp k' = c_ebp (ctx (pcbs k (pcb_addr (active_processes (ptab k) ! u))))"
proof -
  let ?act = "active_processes (ptab k)"
  let ?v = "next_term ?act t"
  have v: "?v < 3" using next_term_active(1) [of t ?act] t by (simp add: runs_def)
  note s1 = timer_step [OF ok t, of mc fr]
  note e1 = timer_step_exists [OF ok t, of mc fr]
  from next_term_reaches [of t u ?act, OF t(2) u] consider "u = t" | "u \<noteq> t" "u = ?v"
    | "u \<noteq> t" "?v \<noteq> t" "u \<noteq> ?v" "u = next_term ?act ?v" by blast
  then show thesis
  proof cases
    case 1
    then show ?thesis using ok t by (intro that [of 0]) auto
  next
    case 2
    then show ?thesis using s1(1,2,5) e1 by (intro that [of "Suc 0"]) auto
  next
    case 3
    have s2: "sched_ok k' \<and> runs k' u \<and> r_esp k' = c_esp (ctx (pcbs k (pcb_addr (?act ! u)))) \<and>
        r_ebp k' = c_ebp (ctx (pcbs k (pcb_addr (?act ! u))))" if r: "timer_run mc fr (Suc (Suc 0)) k k'" for k'
    proof -
      obtain k1 where k1: "timer_run mc fr (Suc 0) k k1" "timer_run mc fr (Suc 0) k1 k'" using r timer_run_split by blast
      have p: "ptab k1 = ptab k" by (rule s1(3) [OF k1(1)])
      note s = timer_step [OF s1(1,2) [OF k1(1)] v k1(2), unfolded p]
      show ?thesis using s(1,2) s(5) 3 s1(4) [OF k1(1) u(1) 3(1) u(2)] by metis
    qed
    have "\<exists>k'. timer_run mc fr (Suc (Suc 0)) k k'"
    proof -
      obtain k1 where k1: "timer_run mc fr (Suc 0) k k1" using e1 by blast
      then show ?thesis using timer_step_exists [OF s1(1,2) [OF k1] v] timer_run_split by blast
    qed
    then show ?thesis using s2 by (intro that [of "Suc (Suc 0)"]) auto
  qed
qed

section \<open>Properties\<close>

text \<open>
  C30. A timer interrupt in a process of terminal \<open>t\<close> switches to the active process of the next
  terminal in cyclic order that has one: the handler saves the stack pointers of the interrupted
  process in its control block, loads the page directory and the stack pointers that the next
  process saved and its kernel stack for interrupts, and leaves memory, the process table and every
  other control block as they were; when there is no other process nothing is loaded. The state
  that the scheduler relies on is kept.
\<close>

theorem pit_handler_switches:
  assumes "sched_ok k" "t < 3" "runs k t"
  defines "act \<equiv> active_processes (ptab k)"
  defines "nxt \<equiv> pcbs k (pcb_addr (act ! next_term act t))"
  shows "\<exists>k'. pit_handler_main mc fr k = Some (Ret 0, k') \<and> sched_ok k' \<and> runs k' (next_term act t) \<and>
    ctx (pcbs k' (cur_pcb_at k)) = (ctx (cur_pcb k))\<lparr>c_esp := r_esp k, c_ebp := r_ebp k\<rparr> \<and>
    pcbs k' = (pcbs k)(cur_pcb_at k := pcbs k' (cur_pcb_at k)) \<and> mem k' = mem k \<and> ptab k' = ptab k \<and>
    (if next_term act t = t then pg k' = pg k \<and> r_esp k' = r_esp k \<and> r_ebp k' = r_ebp k \<and> tss_esp0 k' = tss_esp0 k
     else pg k' = set_pd (pd nxt) (pg k) \<and> r_esp k' = c_esp (ctx nxt) \<and> r_ebp k' = c_ebp (ctx nxt) \<and>
       tss_esp0 k' = c_esp0 (ctx nxt))"
proof -
  have a: "act ! t \<noteq> -1" "cur_pcb_at k = pcb_addr (act ! t)" using assms(3) by (simp_all add: runs_def act_def)
  note u = next_term_active [OF assms(2) a(1)]
  have eq: "cur_pcb_at k = pcb_addr (act ! next_term act t) \<longleftrightarrow> next_term act t = t"
  proof
    assume "cur_pcb_at k = pcb_addr (act ! next_term act t)"
    with a u(2) show "next_term act t = t"
      unfolding act_def by (intro active_distinct [OF assms(1,2) u(1), unfolded act_def, symmetric]) auto
  next
    assume "next_term act t = t"
    with a(2) show "cur_pcb_at k = pcb_addr (act ! next_term act t)" by (simp only:)
  qed
  let ?k = "ticked mc (next_term act t) k"
  have "pit_handler_main mc fr k = Some (Ret 0, ?k)" unfolding act_def by (rule pit_handler_switch [OF assms(1,3,2)])
  moreover have "sched_ok ?k" "runs ?k (next_term act t)"
    using ticked_runs [OF assms(1,3,2) u(1)] u(2) by (simp_all add: act_def)
  moreover have "ctx (pcbs ?k (cur_pcb_at k)) = (ctx (cur_pcb k))\<lparr>c_esp := r_esp k, c_ebp := r_ebp k\<rparr>"
    "pcbs ?k = (pcbs k)(cur_pcb_at k := pcbs ?k (cur_pcb_at k))"
    by (simp_all add: ticked_def Let_def upd_pcb_def cur_pcb_def)
  moreover have "if next_term act t = t then pg ?k = pg k \<and> r_esp ?k = r_esp k \<and> r_ebp ?k = r_ebp k \<and> tss_esp0 ?k = tss_esp0 k
     else pg ?k = set_pd (pd nxt) (pg k) \<and> r_esp ?k = c_esp (ctx nxt) \<and> r_ebp ?k = c_ebp (ctx nxt) \<and>
       tss_esp0 ?k = c_esp0 (ctx nxt)"
    using eq by (cases "next_term act t = t")
      (simp_all add: ticked_def Let_def upd_pcb_def cur_pcb_at_pcbs fun_upd_other nxt_def flip: act_def)
  ultimately show ?thesis by (intro exI [of _ ?k]) simp
qed

text \<open>Two terminals with a process each; the process of terminal 0 is running.\<close>

definition other_pcb :: pcb_t where
  "other_pcb = sample_pcb\<lparr>pid := 2, term_num := 2, pd := Some (pd_row 1),
     ctx := \<lparr>c_esp = 0x7FBE00, c_eip = 0, c_esp0 = 0x7FBFFC, c_ebp = 0x7FBE40\<rparr>\<rparr>"

definition two_kernel :: "nat kernel" where
  "two_kernel = sample_kernel\<lparr>
     ptab := sample_ptab\<lparr>procs := [1, 1, 0, 0, 0, 0], proc_count := 2, active_processes := [1, -1, 2]\<rparr>,
     pcbs := (\<lambda>_. sample_pcb)(0x7FA000 := other_pcb), r_esp := 0x7FDF00\<rparr>"

lemma two_kernel_active: "active_processes (ptab two_kernel) = [1, -1, 2]"
  by (simp add: two_kernel_def)

lemma two_kernel_runs:
  "runs two_kernel 0" "next_term (active_processes (ptab two_kernel)) 0 = 2"
  by (simp_all add: runs_def two_kernel_active cur_pcb_at_def pcb_of_esp_def pcb_addr_def next_term_values)
    (simp add: two_kernel_def)

lemma two_kernel_ok: "sched_ok two_kernel"
proof -
  have "proc_ok two_kernel t" if "t = 0 \<or> t = 1 \<or> t = 2" for t
    using that
    by (elim disjE)
      (simp_all add: proc_ok_def runs_def two_kernel_def pcb_addr_def other_pcb_def sample_pcb_def pcb_of_esp_def
        cur_pcb_at_def)
  moreover have "t = 0 \<or> t = 1 \<or> t = 2" if "t < 3" for t :: nat using that by linarith
  moreover have "runs two_kernel 0" "(0 :: nat) < 3" by (simp_all add: two_kernel_runs)
  moreover have "processes (ptab two_kernel) \<noteq> 0" "next_execute two_kernel = 0"
    by (simp_all add: two_kernel_def sample_kernel_def processes_def)
  ultimately show ?thesis unfolding sched_ok_def by blast
qed

theorem pit_handler_switches_witness:
  "\<exists>k'. pit_handler_main sample_machine sample_frame two_kernel = Some (Ret 0, k') \<and> runs k' 2 \<and> r_esp k' = 0x7FBE00 \<and>
     tss_esp0 k' = 0x7FBFFC \<and> c_esp (ctx (pcbs k' 0x7FC000)) = 0x7FDF00"
proof -
  have "cur_pcb_at two_kernel = 0x7FC000" "pcb_addr 2 = 0x7FA000" "pcbs two_kernel 0x7FA000 = other_pcb" "r_esp two_kernel = 0x7FDF00"
    by (simp_all add: cur_pcb_at_def pcb_of_esp_def pcb_addr_def two_kernel_def)
  then show ?thesis
    using pit_handler_switches [OF two_kernel_ok _ two_kernel_runs(1), of sample_machine sample_frame]
    unfolding two_kernel_runs(2) by (auto simp: two_kernel_active other_pcb_def)
qed

text \<open>
  C31. No terminal starves: while the scheduler's state is in order, a terminal with an active
  process has the processor after at most two timer interrupts, whatever the processes in between
  do on their own stacks.
\<close>

theorem no_terminal_starves:
  assumes "sched_ok k" "u < 3" "active_processes (ptab k) ! u \<noteq> -1"
  shows "\<exists>n \<le> 2. (\<exists>k'. timer_run mc fr n k k') \<and> (\<forall>k'. timer_run mc fr n k k' \<longrightarrow> runs k' u)"
proof -
  obtain t where t: "runs k t" "t < 3" using assms(1) by (auto simp: sched_ok_def)
  from timer_reaches [OF assms(1) t assms(2,3)] show ?thesis by metis
qed

theorem no_terminal_starves_witness:
  "\<exists>n k'. n < 3 \<and> timer_run sample_machine sample_frame n two_kernel k' \<and> runs k' 2"
proof -
  have "\<exists>n \<le> 2. (\<exists>k'. timer_run sample_machine sample_frame n two_kernel k') \<and>
      (\<forall>k'. timer_run sample_machine sample_frame n two_kernel k' \<longrightarrow> runs k' 2)"
    by (rule no_terminal_starves [OF two_kernel_ok]) (simp_all add: two_kernel_active)
  then obtain n k' where "n \<le> 2" "timer_run sample_machine sample_frame n two_kernel k'" "runs k' 2" by blast
  then show ?thesis by (intro exI [of _ n] exI [of _ k']) simp
qed

text \<open>
  C32. A process that the timer interrupted gets the processor back with the stack pointers it was
  interrupted with, after at most two more timer interrupts.
\<close>

theorem interrupted_process_resumes:
  assumes ok: "sched_ok k" and t: "t < 3" "runs k t" and tick: "pit_handler_main mc fr k = Some (fl, k1)"
  shows "\<exists>n \<le> 2. (\<exists>k'. timer_run mc fr n k1 k') \<and>
    (\<forall>k'. timer_run mc fr n k1 k' \<longrightarrow> runs k' t \<and> r_esp k' = r_esp k \<and> r_ebp k' = r_ebp k)"
proof -
  let ?act = "active_processes (ptab k)"
  let ?u = "next_term ?act t"
  have k1: "k1 = ticked mc ?u k" using tick pit_handler_switch [OF ok t(2,1), of mc fr] by simp
  have a: "?act ! t \<noteq> -1" using t(2) by (simp add: runs_def)
  note u = next_term_active [OF t(1) a]
  note r = ticked_runs [OF ok t(2,1) u, of mc]
  have c: "ctx (pcbs k1 (pcb_addr (?act ! t))) = (ctx (cur_pcb k))\<lparr>c_esp := r_esp k, c_ebp := r_ebp k\<rparr>"
    unfolding k1 using ticked_context [OF ok t(2,1) t(1) a] by simp
  have same: "r_esp k1 = r_esp k \<and> r_ebp k1 = r_ebp k" if "?u = t"
    using t(2) unfolding k1 that runs_def by (simp add: ticked_def Let_def cur_pcb_at_def upd_pcb_def)
  have p: "ptab k1 = ptab k" by (simp add: k1)
  show ?thesis
  proof (cases "?u = t")
    case True
    then show ?thesis using same r(1) by (intro exI [of _ 0]) (simp add: k1)
  next
    case False
    have "sched_ok k1" "runs k1 ?u" using r by (simp_all add: k1)
    from timer_reaches [OF this u(1), of t mc fr, unfolded p, OF t(1) a] obtain n where
      n: "n \<le> 2" "\<And>k'. timer_run mc fr n k1 k' \<Longrightarrow> sched_ok k' \<and> runs k' t" "\<exists>k'. timer_run mc fr n k1 k'"
      "\<And>k'. t \<noteq> ?u \<Longrightarrow> timer_run mc fr n k1 k' \<Longrightarrow>
         r_esp k' = c_esp (ctx (pcbs k1 (pcb_addr (?act ! t)))) \<and> r_ebp k' = c_ebp (ctx (pcbs k1 (pcb_addr (?act ! t))))"
      by blast
    show ?thesis
    proof (intro exI conjI allI impI)
      show "n \<le> 2" by (rule n(1))
      show "timer_run mc fr n k1 (SOME k'. timer_run mc fr n k1 k')" using n(3) by (rule someI_ex)
      fix k' assume k': "timer_run mc fr n k1 k'"
      show "runs k' t" using n(2) [OF k'] by blast
      show "r_esp k' = r_esp k" "r_ebp k' = r_ebp k" using n(4) [OF False [symmetric] k'] by (simp_all add: c)
    qed
  qed
qed

theorem interrupted_process_resumes_witness:
  "\<exists>k1 n. pit_handler_main sample_machine sample_frame two_kernel = Some (Ret 0, k1) \<and>
     (\<exists>k'. timer_run sample_machine sample_frame n k1 k' \<and> runs k' 0 \<and> r_esp k' = 0x7FDF00)"
proof -
  obtain k1 where k1: "pit_handler_main sample_machine sample_frame two_kernel = Some (Ret 0, k1)"
    using pit_handler_switch [OF two_kernel_ok two_kernel_runs(1)] by simp
  have "r_esp two_kernel = 0x7FDF00" by (simp add: two_kernel_def)
  then show ?thesis
    using k1 interrupted_process_resumes [OF two_kernel_ok _ two_kernel_runs(1) k1] by fastforce
qed

end
