(* ===== verification/Proctree.thy ===== *)
theory Proctree
  imports Prelude
begin

text \<open>
  The abstract view of the processes of the system: which of the six processes are alive, who
  started whom, on which terminal each one runs, and which process is active on each of the three
  terminals. \<open>execute\<close>, \<open>halt\<close> and the restart of a base shell are three operations on this tree;
  theory \<open>System\<close> shows that the code implements them.
\<close>

record ptree =
  t_live :: "nat set"
  t_par :: "nat \<rightharpoonup> nat"
  t_term :: "nat \<Rightarrow> nat"
  t_act :: "nat \<rightharpoonup> nat"

definition leaf :: "ptree \<Rightarrow> nat \<Rightarrow> bool" where
  "leaf T p \<longleftrightarrow> (\<forall>c \<in> t_live T. t_par T c \<noteq> Some p)"

text \<open>
  In order: processes have pids from 1 to 6 and terminals below 3; a parent is alive and on the
  same terminal as its only child; the active process of a terminal is the one on it without a
  child, so that a terminal has one chain of processes at most; no process is its own ancestor.
\<close>

definition child_of :: "ptree \<Rightarrow> (nat \<times> nat) set" where
  "child_of T = {(q, p). p \<in> t_live T \<and> t_par T p = Some q}"

definition tree_ok :: "ptree \<Rightarrow> bool" where
  "tree_ok T \<longleftrightarrow>
     (\<forall>p \<in> t_live T. 1 \<le> p \<and> p \<le> 6 \<and> t_term T p < 3) \<and>
     (\<forall>p \<in> t_live T. \<forall>q. t_par T p = Some q \<longrightarrow> q \<in> t_live T \<and> q \<noteq> p \<and> t_term T q = t_term T p) \<and>
     (\<forall>p \<in> t_live T. \<forall>p' \<in> t_live T. \<forall>q. t_par T p = Some q \<longrightarrow> t_par T p' = Some q \<longrightarrow> p = p') \<and>
     (\<forall>t p. t_act T t = Some p \<longrightarrow> p \<in> t_live T \<and> t_term T p = t \<and> leaf T p) \<and>
     (\<forall>p \<in> t_live T. leaf T p \<longrightarrow> t_act T (t_term T p) = Some p) \<and> acyclic (child_of T)"

lemma tree_okI:
  assumes "\<And>p. p \<in> t_live T \<Longrightarrow> 1 \<le> p \<and> p \<le> 6 \<and> t_term T p < 3"
    and "\<And>p q. p \<in> t_live T \<Longrightarrow> t_par T p = Some q \<Longrightarrow> q \<in> t_live T \<and> q \<noteq> p \<and> t_term T q = t_term T p"
    and "\<And>p p' q. p \<in> t_live T \<Longrightarrow> p' \<in> t_live T \<Longrightarrow> t_par T p = Some q \<Longrightarrow> t_par T p' = Some q \<Longrightarrow> p = p'"
    and "\<And>t p. t_act T t = Some p \<Longrightarrow> p \<in> t_live T \<and> t_term T p = t \<and> leaf T p"
    and "\<And>p. p \<in> t_live T \<Longrightarrow> leaf T p \<Longrightarrow> t_act T (t_term T p) = Some p"
    and "acyclic (child_of T)"
  shows "tree_ok T"
  unfolding tree_ok_def by (intro conjI ballI allI impI) (use assms in blast)+

lemma tree_okD:
  assumes "tree_ok T"
  shows "\<And>p. p \<in> t_live T \<Longrightarrow> 1 \<le> p \<and> p \<le> 6 \<and> t_term T p < 3"
    and "\<And>p q. p \<in> t_live T \<Longrightarrow> t_par T p = Some q \<Longrightarrow> q \<in> t_live T \<and> q \<noteq> p \<and> t_term T q = t_term T p"
    and "\<And>p p' q. p \<in> t_live T \<Longrightarrow> p' \<in> t_live T \<Longrightarrow> t_par T p = Some q \<Longrightarrow> t_par T p' = Some q \<Longrightarrow> p = p'"
    and "\<And>t p. t_act T t = Some p \<Longrightarrow> p \<in> t_live T \<and> t_term T p = t \<and> leaf T p"
    and "\<And>p. p \<in> t_live T \<Longrightarrow> leaf T p \<Longrightarrow> t_act T (t_term T p) = Some p"
    and "acyclic (child_of T)"
  using assms unfolding tree_ok_def by blast+

text \<open>Following the parents of a live process, one reaches a process without a parent: a base shell.\<close>

lemma base_shell:
  assumes ok: "tree_ok T" and p: "p \<in> t_live T"
  shows "\<exists>b. (b, p) \<in> (child_of T)\<^sup>* \<and> b \<in> t_live T \<and> t_par T b = None \<and> t_term T b = t_term T p"
proof -
  note d = tree_okD [OF ok]
  have "child_of T \<subseteq> {..6} \<times> {..6}" using d(1,2) by (auto simp: child_of_def)
  then have "finite (child_of T)" by (rule finite_subset) simp
  then have "wf (child_of T)" using d(6) by (rule finite_acyclic_wf)
  then show ?thesis using p
  proof (induction p rule: wf_induct_rule)
    case (less p)
    show ?case
    proof (cases "t_par T p")
      case (Some q)
      have q: "q \<in> t_live T" "t_term T q = t_term T p" using d(2) [OF less.prems Some] by auto
      have r: "(q, p) \<in> child_of T" using less.prems Some by (simp add: child_of_def)
      then obtain b where "(b, q) \<in> (child_of T)\<^sup>*" "b \<in> t_live T" "t_par T b = None" "t_term T b = t_term T q"
        using less.IH [OF r q(1)] by blast
      then show ?thesis using r q(2) by (metis rtrancl.rtrancl_into_rtrancl)
    qed (use less.prems in auto)
  qed
qed

section \<open>Operations\<close>

text \<open>The active process \<open>c\<close> of a terminal starts the program that gets pid \<open>q\<close>.\<close>

definition t_exec :: "nat \<Rightarrow> nat \<Rightarrow> ptree \<Rightarrow> ptree" where
  "t_exec c q T = \<lparr>t_live = insert q (t_live T), t_par = (t_par T)(q \<mapsto> c),
     t_term = (t_term T)(q := t_term T c), t_act = (t_act T)(t_term T c \<mapsto> q)\<rparr>"

text \<open>A program without a parent is started on terminal \<open>t\<close>.\<close>

definition t_base :: "nat \<Rightarrow> nat \<Rightarrow> ptree \<Rightarrow> ptree" where
  "t_base t q T = \<lparr>t_live = insert q (t_live T), t_par = (t_par T)(q := None),
     t_term = (t_term T)(q := t), t_act = (t_act T)(t \<mapsto> q)\<rparr>"

text \<open>Process \<open>p\<close> ends; its parent, if it has one, is active again.\<close>

definition t_halt :: "nat \<Rightarrow> ptree \<Rightarrow> ptree" where
  "t_halt p T = T\<lparr>t_live := t_live T - {p}, t_act := (t_act T)(t_term T p := t_par T p)\<rparr>"

lemma tree_ok_exec:
  assumes ok: "tree_ok T" and c: "t_act T (t_term T c) = Some c" and q: "q \<notin> t_live T" "1 \<le> q" "q \<le> 6"
  shows "tree_ok (t_exec c q T)"
proof -
  note d = tree_okD [OF ok]
  have cl: "c \<in> t_live T" "leaf T c" "q \<noteq> c" using d(4) [OF c] q(1) by auto
  have par: "t_par T p \<noteq> Some c" "t_par T p \<noteq> Some q" if "p \<in> t_live T" for p
    using cl(2) d(2) [OF that] q(1) that by (auto simp: leaf_def)
  have lf: "leaf (t_exec c q T) p \<longleftrightarrow> p = q \<or> p \<noteq> c \<and> leaf T p" if "p \<in> insert q (t_live T)" for p
    using that par cl q(1) by (auto simp: leaf_def t_exec_def)
  show ?thesis
  proof (rule tree_okI)
    fix t p assume a: "t_act (t_exec c q T) t = Some p"
    show "p \<in> t_live (t_exec c q T) \<and> t_term (t_exec c q T) p = t \<and> leaf (t_exec c q T) p"
    proof (cases "t = t_term T c")
      case True
      then show ?thesis using a lf [of q] by (simp add: t_exec_def)
    next
      case False
      then have "t_act T t = Some p" using a by (simp add: t_exec_def)
      then show ?thesis using d(4) [of t p] False lf [of p] q(1) by (auto simp: t_exec_def)
    qed
  next
    fix p assume "p \<in> t_live (t_exec c q T)" "leaf (t_exec c q T) p"
    then show "t_act (t_exec c q T) (t_term (t_exec c q T) p) = Some p"
      using lf [of p] d(4) [OF c] d(5) [of p] c by (auto simp: t_exec_def)
  next
    fix p assume "p \<in> t_live (t_exec c q T)"
    then show "1 \<le> p \<and> p \<le> 6 \<and> t_term (t_exec c q T) p < 3" using d(1) [of p] d(1) [OF cl(1)] q by (auto simp: t_exec_def)
  next
    fix p r assume "p \<in> t_live (t_exec c q T)" "t_par (t_exec c q T) p = Some r"
    then show "r \<in> t_live (t_exec c q T) \<and> r \<noteq> p \<and> t_term (t_exec c q T) r = t_term (t_exec c q T) p"
      using d(2) [of p r] cl q(1) par(2) [of p] by (cases "p = q") (auto simp: t_exec_def)
  next
    fix p p' r assume "p \<in> t_live (t_exec c q T)" "p' \<in> t_live (t_exec c q T)"
      "t_par (t_exec c q T) p = Some r" "t_par (t_exec c q T) p' = Some r"
    then show "p = p'" using d(3) [of p p' r] par(1) [of p] par(1) [of p']
      by (cases "p = q"; cases "p' = q") (auto simp: t_exec_def)
  next
    have "child_of (t_exec c q T) = insert (c, q) (child_of T)" using q(1) by (auto simp: child_of_def t_exec_def)
    moreover have "(q, c) \<notin> (child_of T)\<^sup>*"
    proof
      assume "(q, c) \<in> (child_of T)\<^sup>*"
      then have "q = c \<or> (\<exists>y. (q, y) \<in> child_of T)" by (metis converse_rtranclE)
      then show False using cl par(2) by (auto simp: child_of_def)
    qed
    ultimately show "acyclic (child_of (t_exec c q T))" using d(6) by (simp add: acyclic_insert)
  qed
qed

lemma tree_ok_base:
  assumes ok: "tree_ok T" and t: "t < 3" "t_act T t = None" and q: "q \<notin> t_live T" "1 \<le> q" "q \<le> 6"
  shows "tree_ok (t_base t q T)"
proof -
  note d = tree_okD [OF ok]
  have par: "t_par T p \<noteq> Some q" if "p \<in> t_live T" for p using d(2) [OF that] q(1) by auto
  have lf: "leaf (t_base t q T) p \<longleftrightarrow> p = q \<or> leaf T p" if "p \<in> insert q (t_live T)" for p
    using that par q(1) by (auto simp: leaf_def t_base_def)
  show ?thesis
  proof (rule tree_okI)
    fix u p assume a: "t_act (t_base t q T) u = Some p"
    show "p \<in> t_live (t_base t q T) \<and> t_term (t_base t q T) p = u \<and> leaf (t_base t q T) p"
    proof (cases "u = t")
      case True
      then show ?thesis using a lf [of q] by (simp add: t_base_def)
    next
      case False
      then have "t_act T u = Some p" using a by (simp add: t_base_def)
      then show ?thesis using d(4) [of u p] False lf [of p] q(1) by (auto simp: t_base_def)
    qed
  next
    fix p assume "p \<in> t_live (t_base t q T)" "leaf (t_base t q T) p"
    then show "t_act (t_base t q T) (t_term (t_base t q T) p) = Some p"
      using lf [of p] d(5) [of p] t(2) by (auto simp: t_base_def)
  next
    fix p assume "p \<in> t_live (t_base t q T)"
    then show "1 \<le> p \<and> p \<le> 6 \<and> t_term (t_base t q T) p < 3" using d(1) [of p] q t(1) by (auto simp: t_base_def)
  next
    fix p r assume "p \<in> t_live (t_base t q T)" "t_par (t_base t q T) p = Some r"
    then show "r \<in> t_live (t_base t q T) \<and> r \<noteq> p \<and> t_term (t_base t q T) r = t_term (t_base t q T) p"
      using d(2) [of p r] q(1) par [of p] by (cases "p = q") (auto simp: t_base_def)
  next
    fix p p' r assume "p \<in> t_live (t_base t q T)" "p' \<in> t_live (t_base t q T)"
      "t_par (t_base t q T) p = Some r" "t_par (t_base t q T) p' = Some r"
    then show "p = p'" using d(3) [of p p' r] by (cases "p = q"; cases "p' = q") (auto simp: t_base_def)
  next
    have "child_of (t_base t q T) = child_of T" using q(1) by (auto simp: child_of_def t_base_def)
    then show "acyclic (child_of (t_base t q T))" using d(6) by simp
  qed
qed

lemma tree_ok_halt:
  assumes ok: "tree_ok T" and p: "t_act T (t_term T p) = Some p"
  shows "tree_ok (t_halt p T)"
proof -
  note d = tree_okD [OF ok]
  have pl: "p \<in> t_live T" "leaf T p" using d(4) [OF p] by auto
  have lf: "leaf (t_halt p T) r \<longleftrightarrow> leaf T r \<or> t_par T p = Some r" if "r \<in> t_live T" for r
    using d(3) [OF pl(1)] pl by (auto simp: leaf_def t_halt_def)
  show ?thesis
  proof (rule tree_okI)
    fix u r assume a: "t_act (t_halt p T) u = Some r"
    show "r \<in> t_live (t_halt p T) \<and> t_term (t_halt p T) r = u \<and> leaf (t_halt p T) r"
    proof (cases "u = t_term T p")
      case True
      then show ?thesis using a d(2) [OF pl(1), of r] lf [of r] by (auto simp: t_halt_def)
    next
      case False
      then have "t_act T u = Some r" using a by (simp add: t_halt_def)
      then show ?thesis using d(4) [of u r] False lf [of r] by (auto simp: t_halt_def)
    qed
  next
    fix r assume r: "r \<in> t_live (t_halt p T)" "leaf (t_halt p T) r"
    then have rl: "r \<in> t_live T" "r \<noteq> p" by (auto simp: t_halt_def)
    then have "leaf T r \<or> t_par T p = Some r" using lf r(2) by simp
    then show "t_act (t_halt p T) (t_term (t_halt p T) r) = Some r"
      using d(2) [OF pl(1), of r] d(5) [OF rl(1)] p rl(2) by (auto simp: t_halt_def)
  next
    fix r assume "r \<in> t_live (t_halt p T)"
    then show "1 \<le> r \<and> r \<le> 6 \<and> t_term (t_halt p T) r < 3" using d(1) [of r] by (simp add: t_halt_def)
  next
    fix r s assume "r \<in> t_live (t_halt p T)" "t_par (t_halt p T) r = Some s"
    then show "s \<in> t_live (t_halt p T) \<and> s \<noteq> r \<and> t_term (t_halt p T) s = t_term (t_halt p T) r"
      using d(2) [of r s] pl(2) by (auto simp: t_halt_def leaf_def)
  next
    fix r r' s assume "r \<in> t_live (t_halt p T)" "r' \<in> t_live (t_halt p T)" "t_par (t_halt p T) r = Some s"
      "t_par (t_halt p T) r' = Some s"
    then show "r = r'" using d(3) [of r r' s] by (simp add: t_halt_def)
  next
    have "child_of (t_halt p T) \<subseteq> child_of T" by (auto simp: child_of_def t_halt_def)
    then show "acyclic (child_of (t_halt p T))" using d(6) by (rule acyclic_subset [rotated])
  qed
qed

end
