(* ===== verification/System.thy ===== *)
theory System
  imports Pit Proctree
begin

text \<open>
  The kernel as a whole: the entry of a system call (\<open>handle_syscall\<close> of
  \<^verbatim>\<open>student-distrib/isr_asm.S\<close>), the steps that system calls and timer interrupts make, and the
  invariant that they keep. The invariant ties the process table, the control blocks, the
  page directory and the kernel stack that is loaded to a tree of processes (theory \<open>Proctree\<close>);
  every step is one operation on that tree.
\<close>

section \<open>System call entry\<close>

datatype sys_out = Flow flow | Blocked

definition sys_ret :: "(u32 \<times> 'h kernel) option \<Rightarrow> (sys_out \<times> 'h kernel) option" where
  "sys_ret r = map_option (\<lambda>(v, k). (Flow (Ret v), k)) r"

definition sys_flow :: "(flow \<times> 'h kernel) option \<Rightarrow> (sys_out \<times> 'h kernel) option" where
  "sys_flow r = map_option (\<lambda>(fl, k). (Flow fl, k)) r"

definition sys_read_ret :: "(read_result \<times> 'h kernel) option \<Rightarrow> (sys_out \<times> 'h kernel) option" where
  "sys_read_ret r =
     map_option (\<lambda>(v, k). (case v of Read_ret v \<Rightarrow> Flow (Ret v) | Read_blocked \<Rightarrow> Blocked, k)) r"

text \<open>The number in \<open>eax\<close> is checked as unsigned; the arguments are in \<open>ebx\<close>, \<open>ecx\<close> and \<open>edx\<close>.\<close>

definition handle_syscall ::
  "'h machine \<Rightarrow> frame \<Rightarrow> u32 \<Rightarrow> u32 \<Rightarrow> u32 \<Rightarrow> u32 \<Rightarrow> 'h kernel \<Rightarrow> (sys_out \<times> 'h kernel) option" where
  "handle_syscall mc fr eax ebx ecx edx k =
     (if eax < 1 \<or> eax > 10 then Some (Flow (Ret (-1)), k)
      else if eax = 1 then sys_flow (halt mc fr (ucast ebx) k)
      else if eax = 2 then sys_flow (execute mc fr ebx k)
      else if eax = 3 then sys_read_ret (sys_read mc fr ebx ecx edx k)
      else if eax = 4 then sys_ret (sys_write mc ebx ecx edx k)
      else if eax = 5 then sys_ret (sys_open mc fr ebx k)
      else if eax = 6 then sys_ret (sys_close mc ebx k)
      else if eax = 7 then sys_ret (getargs mc ebx ecx k)
      else if eax = 8 then sys_ret (vidmap mc ebx k)
      else if eax = 9 then sys_ret (Some (set_handler ebx ecx, k))
      else sys_ret (Some (sigreturn, k)))"

section \<open>The invariant\<close>

definition stack_top :: "nat \<Rightarrow> u32" where
  "stack_top p = KERNEL_MEM_END - KERNEL_STACK_SIZE * of_nat p - WORD_SIZE"

definition parent_addr :: "nat option \<Rightarrow> addr" where
  "parent_addr q = (case q of None \<Rightarrow> 0 | Some q \<Rightarrow> pcb_addr (of_nat q))"

definition act_word :: "nat option \<Rightarrow> u32" where
  "act_word p = (case p of None \<Rightarrow> -1 | Some p \<Rightarrow> of_nat p)"

definition pcb_ok :: "ptree \<Rightarrow> nat \<Rightarrow> pcb_t \<Rightarrow> bool" where
  "pcb_ok T p b \<longleftrightarrow> pid b = of_nat p \<and> term_num b = of_nat (t_term T p) \<and> parent_pcb b = parent_addr (t_par T p) \<and>
     fds_ok (files b) \<and> c_esp0 (ctx b) = stack_top p \<and> pd b = Some (pd_row (p - 1))"

definition tree_rel :: "'h kernel \<Rightarrow> ptree \<Rightarrow> bool" where
  "tree_rel k T \<longleftrightarrow> ptable_wf (ptab k) \<and> get_device_fops TERM_FTYPE (ptab k) = Some term_fops \<and>
     t_live T = {p. proc_live (ptab k) p} \<and> (\<forall>p \<in> t_live T. pcb_ok T p (pcbs k (pcb_addr (of_nat p)))) \<and>
     (\<forall>t < 3. active_processes (ptab k) ! t = act_word (t_act T t))"

text \<open>A process that does not run but is active has been interrupted on its own kernel stack.\<close>

definition saved :: "'h kernel \<Rightarrow> nat \<Rightarrow> bool" where
  "saved k p \<longleftrightarrow> pcb_of_esp (c_esp (ctx (pcbs k (pcb_addr (of_nat p))))) = pcb_addr (of_nat p)"

text \<open>Process \<open>c\<close> runs: its kernel stack and its page directory are loaded.\<close>

definition sys_inv :: "'h kernel \<Rightarrow> ptree \<Rightarrow> nat \<Rightarrow> bool" where
  "sys_inv k T c \<longleftrightarrow> tree_ok T \<and> tree_rel k T \<and> t_act T (t_term T c) = Some c \<and>
     tss_esp0 k = stack_top c \<and> cr3 (pg k) = pd_row (c - 1) \<and> unat (current_terminal (kbd k)) < 3 \<and>
     (\<forall>t p. t_act T t = Some p \<longrightarrow> p \<noteq> c \<longrightarrow> saved k p)"

definition on_stack :: "'h kernel \<Rightarrow> nat \<Rightarrow> bool" where
  "on_stack k c \<longleftrightarrow> cur_pcb_at k = pcb_addr (of_nat c)"

definition loaded :: "'h kernel \<Rightarrow> nat \<Rightarrow> bool" where
  "loaded k q \<longleftrightarrow> tss_esp0 k = stack_top q \<and> cr3 (pg k) = pd_row (q - 1)"

lemma stack_top_pcb:
  assumes "1 \<le> p" "p \<le> 6"
  shows "pcb_of_esp (stack_top p) = pcb_addr (of_nat p)"
proof -
  have "p \<in> {1, 2, 3, 4, 5, 6}" using assms by auto
  then show ?thesis by (auto simp: stack_top_def pcb_of_esp_def pcb_addr_def)
qed

lemma pid_inj: "p \<le> 6 \<Longrightarrow> q \<le> 6 \<Longrightarrow> of_nat p = (of_nat q :: u32) \<longleftrightarrow> p = q"
  by (simp add: of_nat_eq_iff_u32)

lemma pid_not_minus1: "p \<le> 6 \<Longrightarrow> of_nat p \<noteq> (-1 :: u32)"
proof -
  assume "p \<le> 6"
  then have "p \<in> {0, 1, 2, 3, 4, 5, 6}" by auto
  then show ?thesis by auto
qed

section \<open>Starting a program\<close>

lemma enter_process_frame:
  assumes "enter_process mc fr p i k = Some k'"
  shows "\<exists>b. pcbs k' = (pcbs k)(pcb_addr p := b) \<and> pid b = pid (pcbs k (pcb_addr p)) \<and> files b = files (pcbs k (pcb_addr p)) \<and>
    parent_pcb b = parent_pcb (pcbs k (pcb_addr p)) \<and> term_num b = term_num (pcbs k (pcb_addr p)) \<and>
    c_esp0 (ctx b) = KERNEL_MEM_END - KERNEL_STACK_SIZE * p - WORD_SIZE \<and> pd b = Some (pd_row i) \<and>
    ptab k' = snd (set_active_process (term_num (pcbs k (pcb_addr p))) p (ptab k)) \<and> pg k' = pg k \<and> kbd k' = kbd k \<and>
    tss_esp0 k' = KERNEL_MEM_END - KERNEL_STACK_SIZE * p - WORD_SIZE \<and> next_execute k' = next_execute k"
  using assms by (auto simp: enter_process_def Let_def upd_pcb_def split: option.splits if_splits)

text \<open>What a successful \<open>execute\<close> does to the processes, whatever is in memory.\<close>

lemma start_process_frame:
  assumes "start_process mc fr (of_nat q) k = Some (fl, k')" "1 \<le> q" "q \<le> 6"
  shows "\<exists>b. pcbs k' = (pcbs k)(pcb_addr (of_nat q) := b) \<and> pid b = of_nat q \<and>
    files b = init_files fr (get_device_fops TERM_FTYPE (ptab k)) \<and> parent_pcb b = exec_parent k \<and> term_num b = exec_term k \<and>
    c_esp0 (ctx b) = stack_top q \<and> pd b = Some (pd_row (q - 1)) \<and>
    ptab k' = snd (set_active_process (exec_term k) (of_nat q) (ptab k)) \<and> cr3 (pg k') = pd_row (q - 1) \<and> kbd k' = kbd k \<and>
    tss_esp0 k' = stack_top q \<and> next_execute k' = next_execute k"
proof -
  have gp: "get_process_pd (of_nat q) = Some (pd_row (q - 1))"
    using assms(2,3) sint_pid [of q] by (auto simp: get_process_pd_def Let_def)
  let ?k = "map_process mc (of_nat q) (q - 1) (init_pcb fr (of_nat q) k)"
  have e: "enter_process mc fr (of_nat q) (q - 1) ?k = Some k'"
    using assms(1) by (auto simp: start_process_def gp Let_def split: option.splits)
  have f: "pcbs ?k = pcbs (init_pcb fr (of_nat q) k)" "ptab ?k = ptab k" "kbd ?k = kbd k" "cr3 (pg ?k) = pd_row (q - 1)"
    "next_execute ?k = next_execute k"
    by (simp_all add: map_process_def Let_def init_pcb_eq set_pd_def)
  show ?thesis
    using enter_process_frame [OF e] f by (auto simp: init_pcb_eq stack_top_def)
qed

lemma execute_frame:
  assumes ex: "execute mc fr command k = Some (fl, k')" "\<And>r. fl \<noteq> Ret r"
  shows "\<exists>q b. 1 \<le> q \<and> q \<le> 6 \<and> \<not> proc_live (ptab k) q \<and> pcbs k' = (pcbs k)(pcb_addr (of_nat q) := b) \<and> pid b = of_nat q \<and>
    files b = init_files fr (get_device_fops TERM_FTYPE (ptab k)) \<and> parent_pcb b = exec_parent k \<and> term_num b = exec_term k \<and>
    c_esp0 (ctx b) = stack_top q \<and> pd b = Some (pd_row (q - 1)) \<and>
    ptab k' = snd (set_active_process (exec_term k) (of_nat q)
      ((ptab k)\<lparr>procs := (procs (ptab k))[q - 1 := 1], proc_count := proc_count (ptab k) + 1\<rparr>)) \<and>
    cr3 (pg k') = pd_row (q - 1) \<and> kbd k' = kbd k \<and> tss_esp0 k' = stack_top q \<and> next_execute k' = next_execute k"
proof -
  obtain p pt m where st: "add_process (ptab k) = (p, pt)" "\<not> sint p < 0" "start_process mc fr p (k\<lparr>mem := m, ptab := pt\<rparr>) = Some (fl, k')"
    using ex by (auto simp: execute_def Let_def split: option.splits prod.splits if_splits)
  obtain i where i: "find (\<lambda>i. procs (ptab k) ! i = 0) [0..<6] = Some i"
    using st(1,2) by (auto simp: add_process_eq simp del: upt_rec_numeral split: option.splits)
  have pi: "i < 6" "procs (ptab k) ! i = 0" using proc_find(1) [OF i] by auto
  have p: "p = of_nat (Suc i)" "pt = (ptab k)\<lparr>procs := (procs (ptab k))[i := 1], proc_count := proc_count (ptab k) + 1\<rparr>"
    using st(1) by (simp_all add: add_process_eq i del: upt_rec_numeral)
  let ?k = "k\<lparr>mem := m, ptab := pt\<rparr>"
  have same: "exec_term ?k = exec_term k" "exec_parent ?k = exec_parent k" "get_device_fops TERM_FTYPE pt = get_device_fops TERM_FTYPE (ptab k)"
    by (simp_all add: exec_term_def exec_parent_def curr_terminal_running_process_def get_active_process_def get_device_fops_def p(2))
  have "\<not> proc_live (ptab k) (Suc i)" using pi by (simp add: proc_live_def)
  with start_process_frame [OF st(3) [unfolded p(1)]] pi(1) show ?thesis
    by (intro exI [of _ "Suc i"]) (fastforce simp: same [unfolded p(2)] p(2))
qed

section \<open>The tree under the operations\<close>

lemma tree_relD:
  assumes "tree_rel k T"
  shows "ptable_wf (ptab k)" "get_device_fops TERM_FTYPE (ptab k) = Some term_fops" "t_live T = {p. proc_live (ptab k) p}"
    "\<And>p. p \<in> t_live T \<Longrightarrow> pcb_ok T p (pcbs k (pcb_addr (of_nat p)))" "\<And>t. t < 3 \<Longrightarrow> active_processes (ptab k) ! t = act_word (t_act T t)"
  using assms by (auto simp: tree_rel_def)

lemma active_word:
  assumes "tree_rel k T" "t < 3"
  shows "get_active_process (of_nat t) (ptab k) = act_word (t_act T t)"
  using tree_relD(5) [OF assms] assms(2) by (simp add: get_active_process_def unat_of_nat_u32 word_le_nat_alt)

lemma act_word_None: "tree_ok T \<Longrightarrow> act_word (t_act T t) = -1 \<longleftrightarrow> t_act T t = None"
  using tree_okD(4,1) [of T] pid_not_minus1 by (fastforce simp: act_word_def split: option.splits)

lemma set_active_tree:
  assumes wf: "ptable_wf s" and t: "t < 3"
  shows "active_processes (snd (set_active_process (of_nat t) w s)) = (active_processes s)[t := w]"
    "devices (snd (set_active_process (of_nat t) w s)) = devices s" "procs (snd (set_active_process (of_nat t) w s)) = procs s"
  using t by (simp_all add: set_active_process_def unat_of_nat_u32 word_le_nat_alt)

lemma fds_ok_init: "fds_ok (init_files fr (Some term_fops))"
  by (auto simp: fds_ok_def init_files_def fd_ok_def)

text \<open>A new process \<open>q\<close> in the table, on terminal \<open>t\<close>, with the tree \<open>T'\<close> that differs from \<open>T\<close> accordingly.\<close>

lemma tree_rel_add:
  assumes rel: "tree_rel k T" and q: "1 \<le> q" "q \<le> 6" "\<not> proc_live (ptab k) q" and t: "t < 3"
    and live: "\<And>p. p \<in> t_live T \<Longrightarrow> p \<le> 6"
    and pt: "ptab k' = snd (set_active_process (of_nat t) (of_nat q)
      ((ptab k)\<lparr>procs := (procs (ptab k))[q - 1 := 1], proc_count := proc_count (ptab k) + 1\<rparr>))"
    and b: "pcbs k' = (pcbs k)(pcb_addr (of_nat q) := b)" "pid b = of_nat q" "files b = init_files fr (Some term_fops)"
      "parent_pcb b = parent_addr par" "term_num b = of_nat t" "c_esp0 (ctx b) = stack_top q" "pd b = Some (pd_row (q - 1))"
    and T': "t_live T' = insert q (t_live T)" "t_par T' = (t_par T)(q := par)" "t_term T' = (t_term T)(q := t)"
      "t_act T' = (t_act T)(t \<mapsto> q)"
  shows "tree_rel k' T'"
proof -
  note r = tree_relD [OF rel]
  let ?s = "(ptab k)\<lparr>procs := (procs (ptab k))[q - 1 := 1], proc_count := proc_count (ptab k) + 1\<rparr>"
  have z: "procs (ptab k) ! (q - 1) = 0" "q - 1 < 6" using q by (auto simp: proc_live_def)
  have wf: "ptable_wf ?s" by (rule proc_alloc_wf [OF r(1) z(2,1)])
  have len: "length (procs (ptab k)) = 6" "length (active_processes (ptab k)) = 3" using r(1) by (auto simp: ptable_wf_def)
  have pl: "proc_live (ptab k') p \<longleftrightarrow> p = q \<or> proc_live (ptab k) p" for p
    using q len set_active_wf(2) [OF wf t, of "of_nat q"]
    by (cases "p = q") (auto simp: pt proc_live_def nth_list_update)
  have other: "pcbs k' (pcb_addr (of_nat p)) = pcbs k (pcb_addr (of_nat p))" if "p \<in> t_live T" for p
    using that q r(3) live [OF that] pcb_addr_inj [of p q] by (auto simp: b(1) proc_live_def)
  have "pcb_ok T' p (pcbs k' (pcb_addr (of_nat p)))" if "p \<in> t_live T'" for p
  proof (cases "p = q")
    case True
    then show ?thesis using b T' by (simp add: pcb_ok_def fds_ok_init)
  next
    case False
    then have "p \<in> t_live T" using that T' by simp
    then show ?thesis using r(4) [of p] other [of p] False T' by (simp add: pcb_ok_def)
  qed
  moreover have "get_device_fops TERM_FTYPE (ptab k') = Some term_fops"
    using r(2) set_active_tree(2) [OF wf t, of "of_nat q"] by (simp add: get_device_fops_def pt)
  moreover have "active_processes (ptab k') ! u = act_word (t_act T' u)" if "u < 3" for u
    using set_active_tree(1) [OF wf t, of "of_nat q"] r(5) [OF that] len that by (auto simp: pt T' act_word_def nth_list_update)
  ultimately show ?thesis
    unfolding tree_rel_def using set_active_wf(1) [OF wf t] pl r(3) T'(1) by (auto simp: pt)
qed

abbreviation visible :: "'h kernel \<Rightarrow> nat" where
  "visible k \<equiv> unat (current_terminal (kbd k))"

lemma running_visible:
  assumes "tree_ok T" "tree_rel k T" "visible k < 3"
  shows "curr_terminal_running_process (kbd k) (ptab k) \<longleftrightarrow> t_act T (visible k) \<noteq> None"
  using active_word [OF assms(2,3)] act_word_None [OF assms(1), of "visible k"]
  by (simp add: curr_terminal_running_process_def)

text \<open>A process without a parent is started when the visible terminal has none.\<close>

lemma execute_base_rel:
  assumes ok: "tree_ok T" and rel: "tree_rel k T" and v: "visible k < 3" "t_act T (visible k) = None"
    and ex: "execute mc fr command k = Some (fl, k')" "\<And>r. fl \<noteq> Ret r"
  shows "\<exists>q. q \<notin> t_live T \<and> tree_ok (t_base (visible k) q T) \<and> tree_rel k' (t_base (visible k) q T) \<and>
    loaded k' q \<and> kbd k' = kbd k \<and> (\<forall>p \<in> t_live T. saved k' p \<longleftrightarrow> saved k p)"
proof -
  obtain q b where q: "1 \<le> q" "q \<le> 6" "\<not> proc_live (ptab k) q"
    and b: "pcbs k' = (pcbs k)(pcb_addr (of_nat q) := b)" "pid b = of_nat q"
      "files b = init_files fr (get_device_fops TERM_FTYPE (ptab k))" "parent_pcb b = exec_parent k" "term_num b = exec_term k"
      "c_esp0 (ctx b) = stack_top q" "pd b = Some (pd_row (q - 1))"
    and pt: "ptab k' = snd (set_active_process (exec_term k) (of_nat q)
      ((ptab k)\<lparr>procs := (procs (ptab k))[q - 1 := 1], proc_count := proc_count (ptab k) + 1\<rparr>))"
    and rest: "cr3 (pg k') = pd_row (q - 1)" "kbd k' = kbd k" "tss_esp0 k' = stack_top q"
    using execute_frame [OF ex] by blast
  note d = tree_okD [OF ok] and r = tree_relD [OF rel]
  have e: "exec_term k = of_nat (visible k)" "exec_parent k = parent_addr None"
    using running_visible [OF ok rel v(1)] v(2) by (simp_all add: exec_term_def exec_parent_def parent_addr_def)
  let ?T = "t_base (visible k) q T"
  have ql: "q \<notin> t_live T" using q r(3) by simp
  have "tree_rel k' ?T"
    using tree_rel_add [OF rel q v(1) _ pt [unfolded e] b(1,2) b(3) [unfolded r(2)] b(4) [unfolded e] b(5) [unfolded e] b(6,7), of ?T]
      d(1) by (simp add: t_base_def)
  moreover have "tree_ok ?T" by (rule tree_ok_base [OF ok v ql q(1,2)])
  moreover have sv: "saved k' p \<longleftrightarrow> saved k p" if "p \<in> t_live T" for p
  proof -
    have "pcb_addr (of_nat p) \<noteq> pcb_addr (of_nat q)" using d(1) [OF that] q ql pcb_addr_inj [of p q] that by auto
    then show ?thesis by (simp add: saved_def b(1))
  qed
  ultimately show ?thesis using rest ql by (intro exI [of _ q]) (simp add: loaded_def)
qed

lemma execute_base:
  assumes ok: "tree_ok T" and rel: "tree_rel k T" and v: "visible k < 3" "t_act T (visible k) = None"
    and sv: "\<And>t p. t_act T t = Some p \<Longrightarrow> saved k p"
    and ex: "execute mc fr command k = Some (fl, k')" "\<And>r. fl \<noteq> Ret r"
  shows "\<exists>q. q \<notin> t_live T \<and> sys_inv k' (t_base (visible k) q T) q"
proof -
  obtain q where q: "q \<notin> t_live T" "tree_ok (t_base (visible k) q T)" "tree_rel k' (t_base (visible k) q T)" "loaded k' q"
    "kbd k' = kbd k" "\<forall>p \<in> t_live T. saved k' p \<longleftrightarrow> saved k p"
    using execute_base_rel [OF ok rel v ex] by blast
  have "saved k' p" if "t_act (t_base (visible k) q T) t = Some p" "p \<noteq> q" for t p
  proof -
    have "t_act T t = Some p" using that by (auto simp: t_base_def split: if_splits)
    then show ?thesis using sv q(6) tree_okD(4) [OF ok] by blast
  qed
  then have "sys_inv k' (t_base (visible k) q T) q" using q v(1) by (simp add: sys_inv_def loaded_def) (simp add: t_base_def)
  with q(1) show ?thesis by blast
qed

text \<open>Otherwise it is a child of the running process, on its terminal.\<close>

lemma execute_child_rel:
  assumes ok: "tree_ok T" and rel: "tree_rel k T" and v: "visible k < 3" "t_act T (visible k) \<noteq> None" and st: "on_stack k c"
    and tm: "term_num (cur_pcb k) = of_nat (t_term T c)" "t_term T c < 3"
    and ex: "execute mc fr command k = Some (fl, k')" "\<And>r. fl \<noteq> Ret r"
  shows "\<exists>q. q \<notin> t_live T \<and> 1 \<le> q \<and> q \<le> 6 \<and> tree_rel k' (t_exec c q T) \<and>
    loaded k' q \<and> kbd k' = kbd k \<and> (\<forall>p \<in> t_live T. saved k' p \<longleftrightarrow> saved k p)"
proof -
  obtain q b where q: "1 \<le> q" "q \<le> 6" "\<not> proc_live (ptab k) q"
    and b: "pcbs k' = (pcbs k)(pcb_addr (of_nat q) := b)" "pid b = of_nat q"
      "files b = init_files fr (get_device_fops TERM_FTYPE (ptab k))" "parent_pcb b = exec_parent k" "term_num b = exec_term k"
      "c_esp0 (ctx b) = stack_top q" "pd b = Some (pd_row (q - 1))"
    and pt: "ptab k' = snd (set_active_process (exec_term k) (of_nat q)
      ((ptab k)\<lparr>procs := (procs (ptab k))[q - 1 := 1], proc_count := proc_count (ptab k) + 1\<rparr>))"
    and rest: "cr3 (pg k') = pd_row (q - 1)" "kbd k' = kbd k" "tss_esp0 k' = stack_top q"
    using execute_frame [OF ex] by blast
  note d = tree_okD [OF ok] and r = tree_relD [OF rel]
  have e: "exec_term k = of_nat (t_term T c)" "exec_parent k = parent_addr (Some c)"
    using running_visible [OF ok rel v(1)] v(2) st tm(1)
    by (auto simp: exec_term_def exec_parent_def parent_addr_def on_stack_def)
  let ?T = "t_exec c q T"
  have ql: "q \<notin> t_live T" using q r(3) by simp
  have "tree_rel k' ?T"
    using tree_rel_add [OF rel q tm(2) _ pt [unfolded e] b(1,2) b(3) [unfolded r(2)] b(4) [unfolded e] b(5) [unfolded e] b(6,7), of ?T]
      d(1) by (simp add: t_exec_def)
  have sv: "saved k' p \<longleftrightarrow> saved k p" if "p \<in> t_live T" for p
  proof -
    have "pcb_addr (of_nat p) \<noteq> pcb_addr (of_nat q)" using d(1) [OF that] q ql pcb_addr_inj [of p q] that by auto
    then show ?thesis by (simp add: saved_def b(1))
  qed
  with \<open>tree_rel k' ?T\<close> show ?thesis using rest ql q(1,2) by (intro exI [of _ q]) (simp add: loaded_def)
qed

lemma execute_child:
  assumes inv: "sys_inv k T c" and st: "on_stack k c" and v: "t_act T (visible k) \<noteq> None"
    and ex: "execute mc fr command k = Some (fl, k')" "\<And>r. fl \<noteq> Ret r"
  shows "\<exists>q. q \<notin> t_live T \<and> sys_inv k' (t_exec c q T) q"
proof -
  have ok: "tree_ok T" and rel: "tree_rel k T" and c: "t_act T (t_term T c) = Some c" and vis: "visible k < 3"
    and sv: "\<And>t p. t_act T t = Some p \<Longrightarrow> p \<noteq> c \<Longrightarrow> saved k p" using inv by (auto simp: sys_inv_def)
  note d = tree_okD [OF ok]
  have cl: "c \<in> t_live T" "t_term T c < 3" using d(4) [OF c] d(1) by auto
  have "term_num (cur_pcb k) = of_nat (t_term T c)"
    using st tree_relD(4) [OF rel cl(1)] by (simp add: on_stack_def cur_pcb_def pcb_ok_def)
  then obtain q where q: "q \<notin> t_live T" "1 \<le> q" "q \<le> 6" "tree_rel k' (t_exec c q T)" "loaded k' q"
    "kbd k' = kbd k" "\<forall>p \<in> t_live T. saved k' p \<longleftrightarrow> saved k p"
    using execute_child_rel [OF ok rel vis v st _ cl(2) ex] by blast
  have "tree_ok (t_exec c q T)" by (rule tree_ok_exec [OF ok c q(1-3)])
  moreover have "saved k' p" if "t_act (t_exec c q T) t = Some p" "p \<noteq> q" for t p
  proof -
    have a: "t_act T t = Some p" "t \<noteq> t_term T c" using that by (auto simp: t_exec_def split: if_splits)
    then have "p \<in> t_live T" "p \<noteq> c" using d(4) by blast+
    then show ?thesis using sv [OF a(1)] q(7) by blast
  qed
  ultimately have "sys_inv k' (t_exec c q T) q" using q vis by (simp add: sys_inv_def loaded_def) (simp add: t_exec_def)
  with q(1) show ?thesis by blast
qed

section \<open>Ending a program\<close>

lemma tree_rel_remove:
  assumes ok: "tree_ok T" and rel: "tree_rel k T" and c: "t_act T (t_term T c) = Some c"
    and pt: "ptab k' = snd (set_active_process (of_nat (t_term T c)) (act_word (t_par T c)) (snd (delete_process (of_nat c) (ptab k))))"
    and pcbs: "pcbs k' = pcbs k"
  shows "tree_rel k' (t_halt c T)"
proof -
  note d = tree_okD [OF ok] and r = tree_relD [OF rel]
  have cl: "c \<in> t_live T" "1 \<le> c" "c \<le> 6" "t_term T c < 3" using d(4) [OF c] d(1) by auto
  let ?s = "(ptab k)\<lparr>procs := (procs (ptab k))[c - 1 := 0], proc_count := proc_count (ptab k) - 1\<rparr>"
  have del: "snd (delete_process (of_nat c) (ptab k)) = ?s" by (simp add: delete_process_eq [OF cl(2,3)])
  have wf: "ptable_wf ?s" using cl r(3) by (intro proc_release_wf [OF r(1)]) (auto simp: proc_live_def)
  have len: "length (procs (ptab k)) = 6" "length (active_processes (ptab k)) = 3" using r(1) by (auto simp: ptable_wf_def)
  have pl: "proc_live (ptab k') p \<longleftrightarrow> p \<noteq> c \<and> proc_live (ptab k) p" for p
    using cl len set_active_wf(2) [OF wf cl(4), of "act_word (t_par T c)"]
    by (cases "p = c") (auto simp: pt del proc_live_def nth_list_update)
  have "get_device_fops TERM_FTYPE (ptab k') = Some term_fops"
    using r(2) set_active_tree(2) [OF wf cl(4), of "act_word (t_par T c)"] by (simp add: get_device_fops_def pt del)
  moreover have "active_processes (ptab k') ! u = act_word (t_act (t_halt c T) u)" if "u < 3" for u
    using set_active_tree(1) [OF wf cl(4), of "act_word (t_par T c)"] r(5) [OF that] len that
    by (auto simp: pt del t_halt_def nth_list_update)
  moreover have "pcb_ok (t_halt c T) p (pcbs k' (pcb_addr (of_nat p)))" if "p \<in> t_live (t_halt c T)" for p
    using that r(4) [of p] by (simp add: t_halt_def pcb_ok_def pcbs)
  ultimately show ?thesis
    unfolding tree_rel_def using set_active_wf(1) [OF wf cl(4)] pl r(3) by (auto simp: pt del t_halt_def)
qed

lemma pcb_addr_nz:
  assumes "1 \<le> p" "p \<le> 6"
  shows "pcb_addr (of_nat p) \<noteq> 0"
proof -
  have "p \<in> {1, 2, 3, 4, 5, 6}" using assms by auto
  then show ?thesis by (auto simp: pcb_addr_def)
qed

lemma running_pcb:
  assumes "sys_inv k T c" "on_stack k c"
  shows "c \<in> t_live T" "1 \<le> c" "c \<le> 6" "t_term T c < 3" "pcb_ok T c (cur_pcb k)"
  using assms tree_okD(4) [of T "t_term T c" c] tree_okD(1) [of T c] tree_relD(4) [of k T c]
  by (auto simp: sys_inv_def on_stack_def cur_pcb_def)

lemma halt_parent:
  assumes "sys_inv k T c" "on_stack k c" "t_par T c = Some p"
  shows "parent_pcb (cur_pcb k) = pcb_addr (of_nat p)" "pcb_addr (of_nat p) \<noteq> (0 :: addr)" "fds_ok (files (cur_pcb k))"
proof -
  note run = running_pcb [OF assms(1,2)]
  have "tree_ok T" using assms(1) by (simp add: sys_inv_def)
  then have "1 \<le> p" "p \<le> 6" using tree_okD(2) [OF _ run(1) assms(3)] tree_okD(1) [of T p] by auto
  then show "parent_pcb (cur_pcb k) = pcb_addr (of_nat p)" "pcb_addr (of_nat p) \<noteq> (0 :: addr)" "fds_ok (files (cur_pcb k))"
    using run(5) assms(3) pcb_addr_nz by (auto simp: pcb_ok_def parent_addr_def)
qed

lemma halt_child:
  assumes inv: "sys_inv k T c" and st: "on_stack k c" and q: "t_par T c = Some q"
    and h: "halt mc fr status k = Some (fl, k')"
  shows "fl = Resume_parent status \<and> sys_inv k' (t_halt c T) q"
proof -
  have ok: "tree_ok T" and rel: "tree_rel k T" and c: "t_act T (t_term T c) = Some c" and vis: "visible k < 3"
    and sv: "\<And>t p. t_act T t = Some p \<Longrightarrow> p \<noteq> c \<Longrightarrow> saved k p" using inv by (auto simp: sys_inv_def)
  note d = tree_okD [OF ok] and r = tree_relD [OF rel] and run = running_pcb [OF inv st]
  have ql: "q \<in> t_live T" "t_term T q = t_term T c" "1 \<le> q" "q \<le> 6" using d(2) [OF run(1) q] d(1) by auto
  let ?a = "pcb_addr (of_nat q)"
  have qb: "pcb_ok T q (pcbs k ?a)" using r(4) ql(1) by blast
  have par: "parent_pcb (cur_pcb k) = ?a" "?a \<noteq> 0" using run(5) q pcb_addr_nz [OF ql(3,4)] by (auto simp: pcb_ok_def parent_addr_def)
  have fds: "fds_ok (files (cur_pcb k))" using run(5) by (simp add: pcb_ok_def)
  obtain k1 where k1: "halt mc fr status k = Some (Resume_parent status, k1)" "pcbs k1 = pcbs k" "kbd k1 = kbd k"
    "pg k1 = set_pd (pd (pcbs k ?a)) (pg k)" "tss_esp0 k1 = c_esp0 (ctx (pcbs k ?a))"
    "ptab k1 = snd (set_active_process (term_num (pcbs k ?a)) (pid (pcbs k ?a)) (snd (delete_process (pid (cur_pcb k)) (ptab k))))"
    using halt_eq [OF fds par, of mc fr status] by blast
  have "tree_rel k1 (t_halt c T)"
    using run(5) qb ql(2) q k1(2,6) by (intro tree_rel_remove [OF ok rel c]) (simp_all add: pcb_ok_def act_word_def)
  moreover have "saved k1 p" if "t_act (t_halt c T) t = Some p" "p \<noteq> q" for t p
  proof -
    have "t_act T t = Some p" "t \<noteq> t_term T c" using that q by (auto simp: t_halt_def split: if_splits)
    then show ?thesis using sv [of t p] d(4) [of t p] by (auto simp: saved_def k1(2))
  qed
  ultimately have "sys_inv k1 (t_halt c T) q"
    using tree_ok_halt [OF ok c] ql(2) q vis qb k1(3-5) by (simp add: sys_inv_def pcb_ok_def set_pd_def) (simp add: t_halt_def)
  then show ?thesis using h k1(1) by simp
qed

lemma shell_loop_execute:
  assumes "shell_loop mc fr shell k = Some (fl, k')"
  shows "\<exists>m. execute mc fr shell (k\<lparr>mem := m\<rparr>) = Some (fl, k') \<and> (\<forall>r. fl \<noteq> Ret r)"
proof -
  have "case x of (fl, k') \<Rightarrow> \<exists>m. execute mc fr shell (k\<lparr>mem := m\<rparr>) = Some (fl, k') \<and> (\<forall>r. fl \<noteq> Ret r)"
    if "shell_loop mc fr shell k = Some x" for x
  proof (rule shell_loop.raw_induct [where P = "\<lambda>mc fr shell k x. case x of (fl, k') \<Rightarrow>
      \<exists>m. execute mc fr shell (k\<lparr>mem := m\<rparr>) = Some (fl, k') \<and> (\<forall>r. fl \<noteq> Ret r)", OF _ that])
    fix loop mc fr shell k x
    assume IH: "\<And>mc fr shell k x. loop mc fr shell k = Some x \<Longrightarrow>
        case x of (fl, k') \<Rightarrow> \<exists>m. execute mc fr shell (k\<lparr>mem := m\<rparr>) = Some (fl, k') \<and> (\<forall>r. fl \<noteq> Ret r)"
      and step: "(case execute mc fr shell k of None \<Rightarrow> None | Some (Ret r, k) \<Rightarrow> loop mc fr shell k
        | Some (Enter_user a b, k) \<Rightarrow> Some (Enter_user a b, k) | Some (Resume_parent s, k) \<Rightarrow> Some (Resume_parent s, k)) = Some x"
    obtain fl k1 where e: "execute mc fr shell k = Some (fl, k1)" using step by (auto split: option.splits)
    have id: "k\<lparr>mem := mem k\<rparr> = k" by simp
    show "case x of (fl, k') \<Rightarrow> \<exists>m. execute mc fr shell (k\<lparr>mem := m\<rparr>) = Some (fl, k') \<and> (\<forall>r. fl \<noteq> Ret r)"
    proof (cases fl)
      case (Ret r)
      then obtain m where "k1 = k\<lparr>mem := m\<rparr>" using execute_Ret [of mc fr shell k r k1] e by auto
      then show ?thesis using step e Ret IH [of mc fr shell k1 x] by (auto split: prod.splits)
    qed (use step e id in \<open>auto intro!: exI [of _ "mem k"]\<close>)
  qed
  with assms show ?thesis by fastforce
qed

text \<open>
  A process without a parent is replaced by a new shell, which is executed when the process has
  left the tree; the control block of the dead process is still the current one.
\<close>

lemma halt_restart:
  assumes inv: "sys_inv k T c" and st: "on_stack k c" and q: "t_par T c = None"
    and h: "halt mc fr status k = Some (fl, k')"
  shows "\<exists>k2. execute mc fr (m_shell mc) k2 = Some (fl, k') \<and> (\<forall>r. fl \<noteq> Ret r) \<and> tree_ok (t_halt c T) \<and>
    tree_rel k2 (t_halt c T) \<and> (\<forall>t p. t_act (t_halt c T) t = Some p \<longrightarrow> saved k2 p) \<and> kbd k2 = kbd k \<and>
    on_stack k2 c \<and> term_num (cur_pcb k2) = of_nat (t_term T c)"
proof -
  have ok: "tree_ok T" and rel: "tree_rel k T" and c: "t_act T (t_term T c) = Some c" and vis: "visible k < 3"
    and sv: "\<And>t p. t_act T t = Some p \<Longrightarrow> p \<noteq> c \<Longrightarrow> saved k p" using inv by (auto simp: sys_inv_def)
  note d = tree_okD [OF ok] and run = running_pcb [OF inv st]
  have b: "parent_pcb (cur_pcb k) = 0" "pid (cur_pcb k) = of_nat c" "term_num (cur_pcb k) = of_nat (t_term T c)" "fds_ok (files (cur_pcb k))"
    using run(5) q by (auto simp: pcb_ok_def parent_addr_def)
  let ?k = "k\<lparr>ptab := snd (delete_process (pid (cur_pcb k)) (ptab k))\<rparr>"
  obtain k1 where k1: "halt_close mc [0..<8] ?k = Some k1" "pcbs k1 = pcbs k" "kbd k1 = kbd k" "ptab k1 = ptab ?k"
    "r_esp k1 = r_esp k"
    using halt_close_ok [of ?k "[0..<8]" mc] b(4) by auto
  define k2 where "k2 = k1\<lparr>pg := set_pd None (pg k1), ptab := snd (set_active_process (of_nat (t_term T c)) (-1) (ptab k1))\<rparr>"
  have sl: "shell_loop mc fr (m_shell mc) k2 = Some (fl, k')"
    using h b k1 by (simp add: halt_def Let_def cur_pcb_def k2_def del: upt_rec_numeral)
  obtain m where ex: "execute mc fr (m_shell mc) (k2\<lparr>mem := m\<rparr>) = Some (fl, k')" "\<forall>r. fl \<noteq> Ret r"
    using shell_loop_execute [OF sl] by blast
  let ?k2 = "k2\<lparr>mem := m\<rparr>"
  have "tree_rel ?k2 (t_halt c T)"
    using k1 q b(2) by (intro tree_rel_remove [OF ok rel c]) (simp_all add: k2_def act_word_def)
  moreover have "saved ?k2 p" if "t_act (t_halt c T) t = Some p" for t p
  proof -
    have "t_act T t = Some p" "t \<noteq> t_term T c" using that q by (auto simp: t_halt_def split: if_splits)
    then show ?thesis using sv [of t p] d(4) [of t p] by (auto simp: saved_def k2_def k1(2))
  qed
  moreover have "cur_pcb_at ?k2 = cur_pcb_at k" "cur_pcb ?k2 = cur_pcb k"
    by (simp_all add: k2_def cur_pcb_def cur_pcb_at_def k1)
  then have "on_stack ?k2 c" "term_num (cur_pcb ?k2) = of_nat (t_term T c)" using st b(3) by (simp_all add: on_stack_def)
  moreover have "kbd ?k2 = kbd k" by (simp add: k2_def k1(3))
  ultimately show ?thesis using ex tree_ok_halt [OF ok c] by blast
qed

text \<open>The new shell has no parent, provided that no process is active on the visible terminal then.\<close>

lemma halt_base:
  assumes inv: "sys_inv k T c" and st: "on_stack k c" and q: "t_par T c = None"
    and v: "t_act (t_halt c T) (visible k) = None"
    and h: "halt mc fr status k = Some (fl, k')"
  shows "\<exists>q. q \<notin> t_live (t_halt c T) \<and> sys_inv k' (t_base (visible k) q (t_halt c T)) q"
proof -
  obtain k2 where k2: "execute mc fr (m_shell mc) k2 = Some (fl, k')" "\<forall>r. fl \<noteq> Ret r" "tree_ok (t_halt c T)"
    "tree_rel k2 (t_halt c T)" "\<forall>t p. t_act (t_halt c T) t = Some p \<longrightarrow> saved k2 p" "kbd k2 = kbd k"
    using halt_restart [OF inv st q h] by blast
  then show ?thesis using execute_base [OF k2(3,4) _ _ _ k2(1)] v inv by (simp add: sys_inv_def)
qed

text \<open>Otherwise the dead process becomes the parent of its successor, and the processes are no tree any more.\<close>

lemma halt_orphan:
  assumes inv: "sys_inv k T c" and st: "on_stack k c" and q: "t_par T c = None"
    and v: "t_act (t_halt c T) (visible k) \<noteq> None"
    and h: "halt mc fr status k = Some (fl, k')"
  shows "\<exists>q. q \<notin> t_live (t_halt c T) \<and> tree_rel k' (t_exec c q (t_halt c T)) \<and> loaded k' q \<and> \<not> tree_ok (t_exec c q (t_halt c T))"
proof -
  obtain k2 where k2: "execute mc fr (m_shell mc) k2 = Some (fl, k')" "\<forall>r. fl \<noteq> Ret r" "tree_ok (t_halt c T)"
    "tree_rel k2 (t_halt c T)" "kbd k2 = kbd k" "on_stack k2 c" "term_num (cur_pcb k2) = of_nat (t_term T c)"
    using halt_restart [OF inv st q h] by blast
  have t: "visible k2 < 3" "t_act (t_halt c T) (visible k2) \<noteq> None" "t_term (t_halt c T) c < 3" "t_term (t_halt c T) c = t_term T c"
    using v inv k2(5) running_pcb(4) [OF inv st] by (auto simp: sys_inv_def t_halt_def)
  obtain q where q: "q \<notin> t_live (t_halt c T)" "tree_rel k' (t_exec c q (t_halt c T))" "loaded k' q"
    using execute_child_rel [OF k2(3,4) t(1,2) k2(6) _ t(3) k2(1)] k2(2,7) t(4) by auto
  have "t_par (t_exec c q (t_halt c T)) q = Some c" "q \<in> t_live (t_exec c q (t_halt c T))" by (simp_all add: t_exec_def)
  moreover have "c = q \<or> c \<notin> t_live (t_exec c q (t_halt c T))" by (auto simp: t_exec_def t_halt_def)
  ultimately have "\<not> tree_ok (t_exec c q (t_halt c T))" using tree_okD(2) by metis
  then show ?thesis using q by blast
qed

section \<open>The other system calls\<close>

text \<open>They change no process but the descriptor table of the running one.\<close>

definition quiet :: "'h kernel \<Rightarrow> 'h kernel \<Rightarrow> bool" where
  "quiet k k' \<longleftrightarrow> ptab k' = ptab k \<and> cr3 (pg k') = cr3 (pg k) \<and> tss_esp0 k' = tss_esp0 k \<and>
     current_terminal (kbd k') = current_terminal (kbd k) \<and>
     pcbs k' = (pcbs k)(cur_pcb_at k := (cur_pcb k)\<lparr>files := files (pcbs k' (cur_pcb_at k))\<rparr>) \<and>
     (fds_ok (files (cur_pcb k)) \<longrightarrow> fds_ok (files (pcbs k' (cur_pcb_at k))))"

lemma quiet_inv:
  assumes inv: "sys_inv k T c" and st: "on_stack k c" and q: "quiet k k'"
  shows "sys_inv k' T c"
proof -
  define fds where "fds = files (pcbs k' (cur_pcb_at k))"
  have f: "pcbs k' = (pcbs k)(cur_pcb_at k := (cur_pcb k)\<lparr>files := fds\<rparr>)" "fds_ok (files (cur_pcb k)) \<longrightarrow> fds_ok fds"
    using q by (simp_all add: quiet_def fds_def)
  have pcb: "pcb_ok T p (pcbs k' (pcb_addr (of_nat p)))" if "p \<in> t_live T" for p
  proof -
    have "pcb_ok T p (pcbs k (pcb_addr (of_nat p)))" using that inv by (simp add: sys_inv_def tree_rel_def)
    then show ?thesis using f by (cases "pcb_addr (of_nat p) = cur_pcb_at k") (simp_all add: cur_pcb_def pcb_ok_def)
  qed
  have "saved k' p \<longleftrightarrow> saved k p" for p by (simp add: saved_def f(1) cur_pcb_def)
  then show ?thesis using inv q pcb by (simp add: sys_inv_def tree_rel_def quiet_def)
qed

lemma quiet_simple:
  assumes "ptab k' = ptab k" "cr3 (pg k') = cr3 (pg k)" "tss_esp0 k' = tss_esp0 k" "current_terminal (kbd k') = current_terminal (kbd k)"
    "pcbs k' = pcbs k"
  shows "quiet k k'"
  using assms by (simp add: quiet_def cur_pcb_def)

lemma quiet_files:
  assumes "ptab k' = ptab k" "cr3 (pg k') = cr3 (pg k)" "tss_esp0 k' = tss_esp0 k" "current_terminal (kbd k') = current_terminal (kbd k)"
    "pcbs k' = (pcbs k)(cur_pcb_at k := (cur_pcb k)\<lparr>files := files (pcbs k' (cur_pcb_at k))\<rparr>)" "r_esp k' = r_esp k"
    "fds_ok (files (cur_pcb k)) \<Longrightarrow> fds_ok (files (cur_pcb k'))"
  shows "quiet k k'"
  using assms(1-5,7) assms(6) by (simp add: quiet_def cur_pcb_def cur_pcb_at_def)

lemma upd_term_current [simp]: "current_terminal (upd_term t f kb) = current_terminal kb"
  by (simp add: upd_term_def)

lemma terminal_write_current: "terminal_write outb tr t buf n (kb, m, h) = (r, kb', m', h') \<Longrightarrow> current_terminal kb' = current_terminal kb"
  by (auto simp: terminal_write_def Let_def split: if_splits prod.splits)

lemma terminal_read_start_current: "terminal_read_start t buf kb = (r, kb') \<Longrightarrow> current_terminal kb' = current_terminal kb"
  by (auto simp: terminal_read_start_def Let_def split: if_splits)

lemma fops_tss [simp]:
  "tss_esp0 (snd (fops_open mc f filename k)) = tss_esp0 k" "tss_esp0 (snd (fops_close mc f fd k)) = tss_esp0 k"
  "next_execute (snd (fops_open mc f filename k)) = next_execute k" "next_execute (snd (fops_close mc f fd k)) = next_execute k"
  by (auto simp: fops_open_def fops_close_def split: fops_t.split prod.split)

lemma sys_open_quiet:
  assumes o: "sys_open mc fr filename k = Some (r, k')"
  shows "quiet k k'"
proof -
  have "ptab k' = ptab k \<and> pg k' = pg k \<and> tss_esp0 k' = tss_esp0 k \<and> kbd k' = kbd k \<and> r_esp k' = r_esp k \<and>
      pcbs k' = (pcbs k)(cur_pcb_at k := (cur_pcb k)\<lparr>files := files (pcbs k' (cur_pcb_at k))\<rparr>)"
    using o unfolding sys_open_def
    by (auto simp: Let_def upd_fd_def upd_pcb_def cur_pcb_def cur_pcb_at_def split: option.splits prod.splits if_splits)
  then show ?thesis using sys_open_fds [OF _ o] by (intro quiet_files) auto
qed

lemma sys_close_quiet:
  assumes o: "sys_close mc fd k = Some (r, k')"
  shows "quiet k k'"
proof -
  have "ptab k' = ptab k \<and> pg k' = pg k \<and> tss_esp0 k' = tss_esp0 k \<and> kbd k' = kbd k \<and> r_esp k' = r_esp k \<and>
      pcbs k' = (pcbs k)(cur_pcb_at k := (cur_pcb k)\<lparr>files := files (pcbs k' (cur_pcb_at k))\<rparr>)"
    using o unfolding sys_close_def
    by (auto simp: Let_def upd_fd_def upd_pcb_def cur_pcb_def cur_pcb_at_def split: option.splits if_splits)
  moreover have "fds_ok (files (cur_pcb k'))" if "fds_ok (files (cur_pcb k))"
    using sys_close_fds [OF o] fdt.release [OF that, of "unat fd"] that by auto
  ultimately show ?thesis by (intro quiet_files) auto
qed

lemma sys_read_quiet:
  assumes o: "sys_read mc fr fd buf n k = Some (r, k')"
  shows "quiet k k'"
proof -
  have "ptab k' = ptab k \<and> pg k' = pg k \<and> tss_esp0 k' = tss_esp0 k \<and> current_terminal (kbd k') = current_terminal (kbd k) \<and>
      r_esp k' = r_esp k \<and> pcbs k' = (pcbs k)(cur_pcb_at k := (cur_pcb k)\<lparr>files := files (pcbs k' (cur_pcb_at k))\<rparr>)"
    using o unfolding sys_read_def fops_read_def
    by (auto simp: Let_def upd_fd_def upd_pcb_def cur_pcb_def cur_pcb_at_def terminal_read_start_current
        split: option.splits if_splits fops_t.splits prod.splits)
  then show ?thesis using sys_read_fds [OF _ o] by (intro quiet_files) auto
qed

lemma sys_write_quiet:
  assumes o: "sys_write mc fd buf n k = Some (r, k')"
  shows "quiet k k'"
  using o unfolding sys_write_def fops_write_def
  by (intro quiet_simple)
    (auto simp: Let_def terminal_write_current split: option.splits if_splits fops_t.splits prod.splits)

lemma getargs_quiet: "getargs mc buf n k = Some (r, k') \<Longrightarrow> quiet k k'"
  by (intro quiet_simple) (auto simp: getargs_def Let_def split: if_splits)

lemma vidmap_quiet: "vidmap mc s k = Some (r, k') \<Longrightarrow> quiet k k'"
  by (intro quiet_simple) (auto simp: vidmap_def Let_def split: if_splits option.splits pd_ptr.splits)

lemma terminal_read_finish_current:
  "terminal_read_finish tr m t buf n kb = Some (r, m', kb') \<Longrightarrow> current_terminal kb' = current_terminal kb"
  by (auto simp: terminal_read_finish_def Let_def upd_term_current split: if_splits)

lemma read_resume_quiet: "fops_read_resume mc f buf n k = Some (r, k') \<Longrightarrow> quiet k k'"
  by (intro quiet_simple)
    (auto simp: fops_read_resume_def Let_def dest: terminal_read_finish_current split: if_splits option.splits fops_t.splits)

lemma if_eqE: "(if b then x else y) = z \<Longrightarrow> (x = z \<Longrightarrow> P) \<Longrightarrow> (y = z \<Longrightarrow> P) \<Longrightarrow> P"
  by (simp split: if_splits)

lemma syscall_quiet:
  assumes "handle_syscall mc fr eax ebx ecx edx k = Some (out, k')" "eax \<noteq> 1" "eax \<noteq> 2"
  shows "quiet k k'"
proof -
  have "quiet k k" by (rule quiet_simple) simp_all
  with assms(1) show ?thesis
    unfolding handle_syscall_def sys_ret_def sys_read_ret_def if_not_P [OF assms(2)] if_not_P [OF assms(3)]
    by (elim if_eqE)
      (auto intro: sys_read_quiet sys_write_quiet sys_open_quiet sys_close_quiet getargs_quiet vidmap_quiet)
qed

section \<open>The timer\<close>

lemma processes_nz:
  assumes "tree_rel k T" "p \<in> t_live T"
  shows "processes (ptab k) \<noteq> 0"
proof -
  note r = tree_relD [OF assms(1)]
  have p: "1 \<le> p" "p \<le> 6" "procs (ptab k) ! (p - 1) \<noteq> 0" using r(3) assms(2) by (auto simp: proc_live_def)
  have l: "length (procs (ptab k)) = 6" "set (procs (ptab k)) \<subseteq> {0, 1}" using r(1) by (auto simp: ptable_wf_def)
  then have "procs (ptab k) ! (p - 1) \<in> set (procs (ptab k))" using p by (intro nth_mem) simp
  then have "1 \<in> set (procs (ptab k))" using p(3) l(2) by auto
  then have "count_list (procs (ptab k)) 1 \<noteq> 0" by (simp add: count_list_0_iff)
  moreover have "count_list (procs (ptab k)) 1 \<le> 6" using count_le_length [of "procs (ptab k)" 1] l(1) by simp
  ultimately show ?thesis using r(1) of_nat_eq_iff_u32 [of "count_list (procs (ptab k)) 1" 0]
    by (simp add: processes_def ptable_wf_def)
qed

lemma active_processes_tree:
  assumes "sys_inv k T c" "t < 3" "active_processes (ptab k) ! t \<noteq> -1"
  shows "\<exists>p. t_act T t = Some p \<and> active_processes (ptab k) ! t = of_nat p \<and> p \<in> t_live T \<and> t_term T p = t \<and> 1 \<le> p \<and> p \<le> 6 \<and>
    pcb_ok T p (pcbs k (pcb_addr (of_nat p)))"
proof -
  have ok: "tree_ok T" and rel: "tree_rel k T" using assms(1) by (auto simp: sys_inv_def)
  have "act_word (t_act T t) \<noteq> -1" using tree_relD(5) [OF rel assms(2)] assms(3) by simp
  then obtain p where p: "t_act T t = Some p" by (auto simp: act_word_def split: option.splits)
  then show ?thesis
    using tree_okD(4) [OF ok p] tree_okD(1) [OF ok, of p] tree_relD(4,5) [OF rel] assms(2) by (auto simp: act_word_def)
qed

text \<open>The invariant gives what the scheduler needs.\<close>

lemma sys_inv_sched_ok:
  assumes inv: "sys_inv k T c" and st: "on_stack k c" and nx: "next_execute k = 0"
  shows "sched_ok k" "runs k (t_term T c)"
proof -
  have ok: "tree_ok T" and rel: "tree_rel k T" and c: "t_act T (t_term T c) = Some c"
    and sv: "\<And>t p. t_act T t = Some p \<Longrightarrow> p \<noteq> c \<Longrightarrow> saved k p" using inv by (auto simp: sys_inv_def)
  note run = running_pcb [OF inv st]
  have act: "active_processes (ptab k) ! t_term T c = of_nat c" using tree_relD(5) [OF rel run(4)] c by (simp add: act_word_def)
  show r: "runs k (t_term T c)" using act st pid_not_minus1 [OF run(3)] by (simp add: runs_def on_stack_def)
  have "proc_ok k t" if t: "t < 3" for t
  proof (cases "active_processes (ptab k) ! t = -1")
    case False
    obtain p where p: "t_act T t = Some p" "active_processes (ptab k) ! t = of_nat p" "t_term T p = t" "1 \<le> p" "p \<le> 6"
      "pcb_ok T p (pcbs k (pcb_addr (of_nat p)))" using active_processes_tree [OF inv t False] by blast
    have "\<not> runs k t \<Longrightarrow> saved k p" using r p sv [OF p(1)] by auto
    then show ?thesis using p by (auto simp: proc_ok_def Let_def pcb_ok_def saved_def unat_of_nat_u32)
  qed (simp add: proc_ok_def)
  then show "sched_ok k" using r run(4) nx processes_nz [OF rel run(1)] by (auto simp: sched_ok_def)
qed

text \<open>Saving the stack pointers of the interrupted process keeps the invariant.\<close>

lemma save_inv:
  assumes inv: "sys_inv k T c" and st: "on_stack k c"
    and k': "pcbs k' = (pcbs k)(cur_pcb_at k := (cur_pcb k)\<lparr>ctx := (ctx (cur_pcb k))\<lparr>c_esp := r_esp k, c_ebp := r_ebp k\<rparr>\<rparr>)"
      "ptab k' = ptab k" "pg k' = pg k" "tss_esp0 k' = tss_esp0 k" "kbd k' = kbd k"
  shows "sys_inv k' T c" "saved k' c"
proof -
  show s: "saved k' c" using st by (simp add: saved_def k'(1) on_stack_def cur_pcb_at_def)
  have "pcb_ok T p (pcbs k' (pcb_addr (of_nat p)))" if "p \<in> t_live T" for p
  proof -
    have "pcb_ok T p (pcbs k (pcb_addr (of_nat p)))" using that inv by (simp add: sys_inv_def tree_rel_def)
    then show ?thesis by (cases "pcb_addr (of_nat p) = cur_pcb_at k") (simp_all add: k'(1) cur_pcb_def pcb_ok_def)
  qed
  moreover have "saved k p \<Longrightarrow> saved k' p" for p
    by (cases "pcb_addr (of_nat p) = cur_pcb_at k") (auto simp: saved_def k'(1) cur_pcb_at_def)
  ultimately show "sys_inv k' T c" using inv by (auto simp: sys_inv_def tree_rel_def k')
qed

lemma schedule_inv:
  assumes inv: "sys_inv k T c" and sv: "saved k c" and st: "prev = pcb_addr (of_nat c)"
  shows "\<exists>p. sys_inv (schedule mc prev k) T p"
proof -
  have ok: "tree_ok T" and rel: "tree_rel k T" and c: "t_act T (t_term T c) = Some c"
    and svd: "\<And>t p. t_act T t = Some p \<Longrightarrow> saved k p" using inv sv by (auto simp: sys_inv_def)
  have cl: "c \<in> t_live T" "t_term T c < 3" "c \<le> 6" using tree_okD(4) [OF ok c] tree_okD(1) [OF ok] by auto
  have cb: "pcb_ok T c (pcbs k prev)" using tree_relD(4) [OF rel cl(1)] st by simp
  let ?act = "active_processes (ptab k)"
  let ?u = "next_term ?act (t_term T c)"
  have a: "?act ! t_term T c \<noteq> -1" using tree_relD(5) [OF rel cl(2)] c pid_not_minus1 [OF cl(3)] by (simp add: act_word_def)
  note u = next_term_active [OF cl(2) a]
  obtain p where p: "t_act T ?u = Some p" "?act ! ?u = of_nat p" "t_term T p = ?u" "1 \<le> p" "p \<le> 6"
    "pcb_ok T p (pcbs k (pcb_addr (of_nat p)))" using active_processes_tree [OF inv u] by blast
  have n: "sched_loop 1 (term_num (pcbs k prev)) (- 1) (ptab k) = of_nat p"
    using sched_loop_eq [OF cl(2), of "-1" "ptab k"] cb p(2) by (simp add: pcb_ok_def)
  have pid: "pid (pcbs k prev) = of_nat p \<longleftrightarrow> c = p" using cb pid_inj [OF cl(3) p(5)] by (simp add: pcb_ok_def)
  let ?k = "k\<lparr>hw := pit_reset_count (m_outb mc) (pit_rate k) (hw k)\<rparr>"
  have s: "saved x q \<longleftrightarrow> saved k q" if "pcbs x = pcbs k" for x q using that by (simp add: saved_def)
  show ?thesis
  proof (cases "c = p")
    case True
    then have "schedule mc prev k = ?k" using pid by (simp add: schedule_def Let_def n [simplified])
    moreover have "sys_inv ?k T c" using inv s [of ?k] by (simp add: sys_inv_def tree_rel_def)
    ultimately show ?thesis by auto
  next
    case False
    let ?k' = "schedule mc prev k"
    have "pcbs ?k' = pcbs k" "ptab ?k' = ptab k" "kbd ?k' = kbd k" "cr3 (pg ?k') = pd_row (p - 1)" "tss_esp0 ?k' = stack_top p"
      using False pid p(6) by (simp_all add: schedule_def Let_def n [simplified] pcb_ok_def set_pd_def)
    then have "sys_inv ?k' T p" using inv p(1,3) svd s [of ?k'] by (simp add: sys_inv_def tree_rel_def)
    then show ?thesis by blast
  qed
qed

lemma timer_inv:
  assumes inv: "sys_inv k T c" and st: "on_stack k c" and h: "pit_handler_main mc fr k = Some (fl, k')"
  shows "\<exists>T' p. sys_inv k' T' p"
proof -
  let ?h1 = "send_eoi (m_outb mc) PIT_IRQ_NUM (hw k)"
  define k1 where "k1 = upd_pcb (cur_pcb_at k) (\<lambda>b. b\<lparr>ctx := (ctx b)\<lparr>c_esp := r_esp k, c_ebp := r_ebp k\<rparr>\<rparr>) (k\<lparr>hw := ?h1\<rparr>)"
  define k2 where "k2 = k1\<lparr>next_execute := 0, hw := pit_reset_count (m_outb mc) (pit_rate k1) (hw k1)\<rparr>"
  have f1: "pcbs k1 = (pcbs k)(cur_pcb_at k := (cur_pcb k)\<lparr>ctx := (ctx (cur_pcb k))\<lparr>c_esp := r_esp k, c_ebp := r_ebp k\<rparr>\<rparr>)"
    "ptab k1 = ptab k" "pg k1 = pg k" "tss_esp0 k1 = tss_esp0 k" "kbd k1 = kbd k" "r_esp k1 = r_esp k" "next_execute k1 = next_execute k"
    by (simp_all add: k1_def cur_pcb_def)
  note i1 = save_inv [OF inv st f1(1-5)]
  have i2: "sys_inv k2 T c" "saved k2 c" by (rule save_inv [OF inv st], simp_all add: k2_def f1)+
  have st2: "on_stack k2 c" using st by (simp add: on_stack_def k2_def cur_pcb_at_def f1(6))
  have prev: "cur_pcb_at k = pcb_addr (of_nat c)" using st by (simp add: on_stack_def)
  have ok: "tree_ok T" "tree_rel k2 T" "visible k2 < 3" "\<And>t p. t_act T t = Some p \<Longrightarrow> saved k2 p" using i2 by (auto simp: sys_inv_def)
  have np: "processes (ptab k) \<noteq> 0"
    using inv running_pcb(1) [OF inv st] by (intro processes_nz [of k T c]) (auto simp: sys_inv_def)
  have cur: "cur_pcb_at (k\<lparr>hw := ?h1\<rparr>) = cur_pcb_at k" by (simp add: cur_pcb_at_def)
  show ?thesis
  proof (cases "next_execute k = 0")
    case True
    then have "k' = schedule mc (cur_pcb_at k) k1" using h np
      by (simp add: pit_handler_main_def Let_def k1_def)
    then show ?thesis using schedule_inv [OF i1 prev] by blast
  next
    case False
    then obtain fl2 k3 where ex: "execute mc fr (m_shell mc) k2 = Some (fl2, k3)"
      and k': "k' = (case fl2 of Ret r \<Rightarrow> schedule mc (cur_pcb_at k) k3 | _ \<Rightarrow> k3)"
      using h np by (auto simp: pit_handler_main_def Let_def k1_def k2_def split: option.splits flow.splits)
    show ?thesis
    proof (cases "\<exists>r. fl2 = Ret r")
      case True
      then obtain r where r: "fl2 = Ret r" by blast
      have k3: "k3 = k2\<lparr>mem := mem k3\<rparr>" using execute_Ret [of mc fr "m_shell mc" k2 r k3] ex r by blast
      have "sys_inv k3 T c" "saved k3 c"
        using i2 by (subst k3, simp add: sys_inv_def tree_rel_def saved_def)+
      then have "\<exists>p. sys_inv (schedule mc (cur_pcb_at k) k3) T p" by (rule schedule_inv [OF _ _ prev])
      then show ?thesis using k' r by auto
    next
      case False
      then have "k' = k3" "\<And>r. fl2 \<noteq> Ret r" using k' by (auto split: flow.splits)
      note e = this
      show ?thesis
      proof (cases "t_act T (visible k2) = None")
        case True
        then have "\<exists>q. q \<notin> t_live T \<and> sys_inv k3 (t_base (visible k2) q T) q"
          by (intro execute_base [OF ok(1-3) _ _ ex e(2)] ok(4))
        then show ?thesis using e(1) by blast
      next
        case False
        then show ?thesis using execute_child [OF i2(1) st2 _ ex e(2)] e(1) by blast
      qed
    qed
  qed
qed

section \<open>The keyboard\<close>

lemma update_current: "update outb tr key (kb, m, h) = Some (kb', m', h') \<Longrightarrow> current_terminal kb' = current_terminal kb"
  by (auto simp: update_def Let_def split: if_splits prod.splits)

lemma redraw_current: "redraw outb tr (kb, m, h) = Some (kb', m', h') \<Longrightarrow> current_terminal kb' = current_terminal kb"
  by (auto simp: redraw_def Let_def split: if_splits prod.splits)

lemma start_terminal_current:
  assumes "start_terminal outb shell pt tn (kb, nx, h) = (r, kb', nx', h')" "unat (current_terminal kb) < 3"
  shows "unat (current_terminal kb') < 3"
proof -
  have "unat tn < 3" if "\<not> 3 \<le> tn" using that by (simp add: word_le_nat_alt)
  then show ?thesis using assms by (auto simp: start_terminal_def Let_def split: if_splits)
qed

lemma keyboard_current:
  assumes k: "keyboard_handler_main inb outb oob shell tr pt (kb, nx, m, h) = Some (r, kb', nx', m', h')"
    and v: "unat (current_terminal kb) < 3"
  shows "unat (current_terminal kb') < 3"
proof -
  have "unat (current_terminal kb') < 3" if "press_key outb shell tr pt sc key (kb, nx, m, h1) = Some (r, kb', nx', m', h')" for sc key h1
    using that v unfolding press_key_def prod.case Let_def
    by (elim if_eqE) (auto dest: update_current redraw_current start_terminal_current split: option.splits prod.splits)
  moreover have "current_terminal (release_key key kb) = current_terminal kb" for key by (simp add: release_key_def)
  ultimately show ?thesis using k v
    unfolding keyboard_handler_main_def by (auto simp: Let_def split: prod.splits if_splits)
qed

section \<open>Steps of the kernel\<close>

text \<open>
  A system call or an interrupt enters on the kernel stack of the running process, whose top is in
  the task state segment, or somewhere below on the same stack when the process waits in the kernel.
\<close>

definition entered :: "u32 \<Rightarrow> u32 \<Rightarrow> 'h kernel \<Rightarrow> 'h kernel \<Rightarrow> bool" where
  "entered esp ebp k k1 \<longleftrightarrow> pcb_of_esp esp = pcb_of_esp (tss_esp0 k) \<and> k1 = k\<lparr>r_esp := esp, r_ebp := ebp\<rparr>"

text \<open>
  The events: a system call with its registers, the rest of a read that has waited, an interrupt of
  the timer, the keyboard (which returns, or executes a shell from within the handler) or the
  clock, and a store by the program itself, whose effect on memory is arbitrary.
\<close>

datatype kevent = Ev_syscall u32 u32 u32 u32 | Ev_resume addr u32 | Ev_timer | Ev_key | Ev_key_shell | Ev_clock | Ev_user

inductive kstep :: "'h machine \<Rightarrow> kevent \<Rightarrow> 'h kernel \<Rightarrow> 'h kernel \<Rightarrow> bool" for mc where
  syscall: "entered esp ebp k k1 \<Longrightarrow> handle_syscall mc fr eax ebx ecx edx k1 = Some (out, k') \<Longrightarrow>
    kstep mc (Ev_syscall eax ebx ecx edx) k k'"
| resume: "entered esp ebp k k1 \<Longrightarrow> fops_read_resume mc f buf nbytes k1 = Some (r, k') \<Longrightarrow> kstep mc (Ev_resume buf nbytes) k k'"
| timer: "entered esp ebp k k1 \<Longrightarrow> pit_handler_main mc fr k1 = Some (fl, k') \<Longrightarrow> kstep mc Ev_timer k k'"
| keyboard: "entered esp ebp k k1 \<Longrightarrow>
    keyboard_handler_main (m_inb mc) (m_outb mc) oob shell (cur_tr mc k1) (ptab k1) (kbd k1, next_execute k1, mem k1, hw k1) =
      Some (St_return r, kb, nx, m, h) \<Longrightarrow>
    kstep mc Ev_key k (k1\<lparr>kbd := kb, next_execute := nx, mem := m, hw := h\<rparr>)"
| keyboard_shell: "entered esp ebp k k1 \<Longrightarrow>
    keyboard_handler_main (m_inb mc) (m_outb mc) oob shell (cur_tr mc k1) (ptab k1) (kbd k1, next_execute k1, mem k1, hw k1) =
      Some (St_execute_loop, kb, nx, m, h) \<Longrightarrow>
    shell_loop mc fr shell (k1\<lparr>kbd := kb, next_execute := nx, mem := m, hw := h\<rparr>) = Some (fl, k') \<Longrightarrow>
    kstep mc Ev_key_shell k k'"
| clock: "entered esp ebp k k1 \<Longrightarrow> rtc_handler_main (m_inb mc) (m_outb mc) (rtc k1, hw k1) = (s, h) \<Longrightarrow>
    kstep mc Ev_clock k (k1\<lparr>rtc := s, hw := h\<rparr>)"
| user: "kstep mc Ev_user k (k\<lparr>mem := m\<rparr>)"

inductive krun :: "'h machine \<Rightarrow> kevent list \<Rightarrow> 'h kernel \<Rightarrow> 'h kernel \<Rightarrow> bool" for mc where
  krun_nil: "krun mc [] k k"
| krun_step: "kstep mc ev k k1 \<Longrightarrow> krun mc evs k1 k' \<Longrightarrow> krun mc (ev # evs) k k'"

text \<open>
  The events that can bring the processes out of order, by the code:

  \<^item> \<open>halt\<close> in a shell without a parent while another terminal is on the screen: \<open>execute\<close> looks at the
    terminal on the screen instead of the terminal of the caller, and makes the dead process the
    parent of its successor;
  \<^item> \<open>execute\<close> while the terminal on the screen has no process (between the switch to it and the next
    timer interrupt): the program becomes a process without a parent there, and the registers of
    the caller are not saved;
  \<^item> a shell executed from within the keyboard handler, which happens when the user leaves an
    empty terminal for another empty one;
  \<^item> a pointer that the kernel stores through and that is not in the page of the program (\<open>read\<close> and
    \<open>getargs\<close> check nothing; \<open>vidmap\<close> checks), or a command line that is too long for the buffers on
    the stack of \<open>execute\<close>: the store can hit control blocks and tables, which the model keeps
    beside the memory.
\<close>

definition in_program :: "addr \<Rightarrow> nat \<Rightarrow> bool" where
  "in_program a n \<longleftrightarrow> rng a n \<subseteq> rng PROG_VM_START 4194304"

fun hazard :: "'h machine \<Rightarrow> kevent \<Rightarrow> 'h kernel \<Rightarrow> bool" where
  "hazard mc (Ev_syscall eax ebx ecx edx) k =
     (let p = pcbs k (pcb_of_esp (tss_esp0 k))
      in eax = 1 \<and> parent_pcb p = 0 \<and> current_terminal (kbd k) \<noteq> term_num p \<or>
         eax = 2 \<and> \<not> curr_terminal_running_process (kbd k) (ptab k) \<or>
         eax = 2 \<and> \<not> (\<exists>xs. length xs < 128 \<and> cstring (cur_tr mc k) (mem k) ebx xs) \<or>
         eax = 3 \<and> \<not> in_program ecx (unat edx + 2) \<or>
         eax = 7 \<and> \<not> in_program ebx (Suc (unat (args_len p))))"
| "hazard mc (Ev_resume buf nbytes) k = (\<not> in_program buf (unat nbytes))"
| "hazard mc Ev_key_shell k = True"
| "hazard mc _ k = False"

lemma entered_inv:
  assumes "sys_inv k T c" "entered esp ebp k k1"
  shows "sys_inv k1 T c" "on_stack k1 c"
proof -
  have "c \<in> t_live T" "1 \<le> c" "c \<le> 6"
    using assms(1) tree_okD(4) [of T "t_term T c" c] tree_okD(1) [of T c] by (auto simp: sys_inv_def)
  then have "pcb_of_esp (tss_esp0 k) = pcb_addr (of_nat c)" using assms(1) stack_top_pcb by (simp add: sys_inv_def)
  then show "on_stack k1 c" using assms(2) by (simp add: entered_def on_stack_def cur_pcb_at_def)
  show "sys_inv k1 T c" using assms by (simp add: entered_def sys_inv_def tree_rel_def saved_def)
qed

lemma syscall_inv:
  assumes inv: "sys_inv k T c" and st: "on_stack k c"
    and u: "eax = 2 \<Longrightarrow> curr_terminal_running_process (kbd k) (ptab k)"
      "eax = 1 \<Longrightarrow> parent_pcb (cur_pcb k) = 0 \<Longrightarrow> current_terminal (kbd k) = term_num (cur_pcb k)"
    and h: "handle_syscall mc fr eax ebx ecx edx k = Some (out, k')"
  shows "\<exists>T' p. sys_inv k' T' p"
proof -
  have ok: "tree_ok T" and rel: "tree_rel k T" and c: "t_act T (t_term T c) = Some c" and vis: "visible k < 3"
    using inv by (auto simp: sys_inv_def)
  note run = running_pcb [OF inv st]
  consider "eax = 1" | "eax = 2" | "eax \<noteq> 1" "eax \<noteq> 2" by blast
  then show ?thesis
  proof cases
    case 1
    then obtain fl where fl: "halt mc fr (ucast ebx) k = Some (fl, k')"
      using h by (auto simp: handle_syscall_def sys_flow_def)
    show ?thesis
    proof (cases "t_par T c")
      case None
      then have "current_terminal (kbd k) = of_nat (t_term T c)"
        using u(2) 1 run(5) by (simp add: pcb_ok_def parent_addr_def)
      then have "visible k = t_term T c" using run(4) by (simp add: unat_of_nat_u32)
      then show ?thesis using halt_base [OF inv st None _ fl] None by (auto simp: t_halt_def)
    next
      case (Some q)
      then show ?thesis using halt_child [OF inv st Some fl] by blast
    qed
  next
    case 2
    then obtain fl where ex: "execute mc fr ebx k = Some (fl, k')" using h by (auto simp: handle_syscall_def sys_flow_def)
    have v: "t_act T (visible k) \<noteq> None" using u(1) 2 running_visible [OF ok rel vis] by simp
    show ?thesis
    proof (cases "\<exists>r. fl = Ret r")
      case True
      then have k': "k' = k\<lparr>mem := mem k'\<rparr>" using execute_Ret ex by blast
      have "quiet k k'" by (rule quiet_simple) (subst k', simp)+
      then show ?thesis using quiet_inv [OF inv st] by blast
    next
      case False
      then show ?thesis using execute_child [OF inv st v ex] by blast
    qed
  next
    case 3
    then show ?thesis using quiet_inv [OF inv st syscall_quiet [OF h]] by blast
  qed
qed

lemma kstep_inv:
  assumes step: "kstep mc ev k k'" and inv: "sys_inv k T c" and safe: "\<not> hazard mc ev k"
  shows "\<exists>T' p. sys_inv k' T' p"
  using step
proof cases
  case (syscall esp ebp k1 fr eax ebx ecx edx out)
  note e = entered_inv [OF inv syscall(2)]
  have k1: "cur_pcb k1 = pcbs k (pcb_of_esp (tss_esp0 k))" "kbd k1 = kbd k" "ptab k1 = ptab k"
    using syscall(2) by (simp_all add: entered_def cur_pcb_def cur_pcb_at_def)
  show ?thesis by (rule syscall_inv [OF e _ _ syscall(3)]) (use safe syscall(1) k1 in \<open>auto simp: Let_def\<close>)
next
  case (resume esp ebp k1 f buf nbytes r)
  note e = entered_inv [OF inv resume(2)]
  show ?thesis using quiet_inv [OF e read_resume_quiet [OF resume(3)]] by blast
next
  case (timer esp ebp k1 fr fl)
  note e = entered_inv [OF inv timer(2)]
  show ?thesis by (rule timer_inv [OF e timer(3)])
next
  case (keyboard esp ebp k1 oob shell r kb nx m h)
  note e = entered_inv [OF inv keyboard(3)]
  have "unat (current_terminal kb) < 3" using keyboard_current [OF keyboard(4)] e(1) by (simp add: sys_inv_def)
  then have "sys_inv k' T c" using e(1) keyboard(2) by (simp add: sys_inv_def tree_rel_def saved_def)
  then show ?thesis by blast
next
  case (clock esp ebp k1 s h)
  note e = entered_inv [OF inv clock(3)]
  have "sys_inv k' T c" using e(1) clock(2) by (simp add: sys_inv_def tree_rel_def saved_def)
  then show ?thesis by blast
next
  case (user m)
  have "sys_inv k' T c" using inv user by (simp add: sys_inv_def tree_rel_def saved_def)
  then show ?thesis by blast
qed (use safe in auto)

section \<open>Properties\<close>


text \<open>Three processes: 2 runs as a child of the shell 1 on terminal 0, 3 is the shell of terminal 2.\<close>

definition tree3 :: ptree where
  "tree3 = \<lparr>t_live = {1, 2, 3}, t_par = [2 \<mapsto> 1], t_term = (\<lambda>p. if p = 3 then 2 else 0), t_act = [0 \<mapsto> 2, 2 \<mapsto> 3]\<rparr>"

definition pcb3 :: "nat \<Rightarrow> pcb_t" where
  "pcb3 p = sample_pcb\<lparr>pid := of_nat p, term_num := if p = 3 then 2 else 0, parent_pcb := if p = 2 then pcb_addr 1 else 0,
     ctx := \<lparr>c_esp = stack_top p - 0x100, c_eip = 0, c_esp0 = stack_top p, c_ebp = 0\<rparr>, pd := Some (pd_row (p - 1)),
     esp_parent := if p = 2 then 0x7FDF00 else 0\<rparr>"

definition kernel3 :: "nat kernel" where
  "kernel3 = sample_kernel\<lparr>
     ptab := sample_ptab\<lparr>procs := [1, 1, 1, 0, 0, 0], proc_count := 3, active_processes := [2, -1, 3]\<rparr>,
     pcbs := (\<lambda>_. pcb3 1)(pcb_addr 2 := pcb3 2, pcb_addr 3 := pcb3 3), pg := flat_paging\<lparr>cr3 := pd_row 1\<rparr>,
     kbd := demo_kbd\<lparr>current_terminal := 0\<rparr>, tss_esp0 := stack_top 2, r_esp := stack_top 2 - 0x40\<rparr>"

lemma tree3_ok: "tree_ok tree3"
proof (rule tree_okI)
  have "child_of tree3 = {(1, 2)}" by (auto simp: child_of_def tree3_def)
  then show "acyclic (child_of tree3)" by (simp add: acyclic_insert wf_acyclic)
qed (auto simp: tree3_def leaf_def split: if_splits)

lemma kernel3_simps [simp]:
  "ptab kernel3 = sample_ptab\<lparr>procs := [1, 1, 1, 0, 0, 0], proc_count := 3, active_processes := [2, -1, 3]\<rparr>"
  "tss_esp0 kernel3 = stack_top 2" "cr3 (pg kernel3) = pd_row 1" "kbd kernel3 = demo_kbd\<lparr>current_terminal := 0\<rparr>"
  "next_execute kernel3 = 0" "r_esp kernel3 = stack_top 2 - 0x40"
  by (simp_all add: kernel3_def sample_kernel_def)

lemma kernel3_pcbs:
  assumes "p \<in> {1, 2, 3}"
  shows "pcbs kernel3 (pcb_addr (of_nat p)) = pcb3 p"
  using assms by (auto simp: kernel3_def pcb_addr_def)

lemma kernel3_live: "proc_live (ptab kernel3) p \<longleftrightarrow> p \<in> {1, 2, 3}"
proof -
  have "p - 1 \<in> {0, 1, 2, 3, 4, 5}" if "1 \<le> p" "p \<le> 6" using that by auto
  then show ?thesis by (auto simp: proc_live_def)
qed

lemma pcb3_ok: "p \<in> {1, 2, 3} \<Longrightarrow> pcb_ok tree3 p (pcb3 p)"
  by (auto simp: pcb_ok_def pcb3_def tree3_def parent_addr_def sample_pcb_def sample_fds_ok)

lemma kernel3_rel: "tree_rel kernel3 tree3"
proof -
  have "ptable_wf (ptab kernel3)" by (simp add: ptable_wf_def sample_ptab_def ptable_init_def)
  moreover have "get_device_fops 3 (ptab kernel3) = Some term_fops"
    by (simp add: get_device_fops_def sample_ptab_def ptable_init_def)
  moreover have "active_processes (ptab kernel3) ! t = act_word (t_act tree3 t)" if "t < 3" for t
  proof -
    have "t = 0 \<or> t = 1 \<or> t = 2" using that by linarith
    then show ?thesis by (auto simp: act_word_def tree3_def)
  qed
  moreover have "t_live tree3 = {1, 2, 3}" by (simp add: tree3_def)
  ultimately show ?thesis
    unfolding tree_rel_def using kernel3_live kernel3_pcbs pcb3_ok by (auto simp del: kernel3_simps)
qed

lemma kernel3_inv: "sys_inv kernel3 tree3 2" "on_stack kernel3 2"
proof -
  have "saved kernel3 3" using kernel3_pcbs [of 3]
    by (simp add: saved_def pcb3_def pcb_of_esp_def pcb_addr_def stack_top_def)
  then show "sys_inv kernel3 tree3 2"
    using tree3_ok kernel3_rel by (auto simp: sys_inv_def tree3_def split: if_splits)
  show "on_stack kernel3 2" by (simp add: on_stack_def cur_pcb_at_def pcb_of_esp_def pcb_addr_def stack_top_def)
qed


section \<open>The first process\<close>

text \<open>
  From the state without processes, the loop in which \<open>start_terminal\<close> executes the first shell
  reaches a state in order, with the shell as the only process, on the visible terminal.
\<close>

definition no_procs :: ptree where
  "no_procs = \<lparr>t_live = {}, t_par = Map.empty, t_term = (\<lambda>_. 0), t_act = Map.empty\<rparr>"

lemma shell_loop_boot:
  assumes "ptable_wf (ptab k)" "\<forall>p. \<not> proc_live (ptab k) p" "active_processes (ptab k) = [-1, -1, -1]"
    and "get_device_fops TERM_FTYPE (ptab k) = Some term_fops" "unat (current_terminal (kbd k)) < 3"
    and "shell_loop mc fr shell k = Some (fl, k')"
  shows "\<exists>q. sys_inv k' (t_base (unat (current_terminal (kbd k))) q no_procs) q"
proof -
  obtain m where m: "execute mc fr shell (k\<lparr>mem := m\<rparr>) = Some (fl, k')" "\<forall>r. fl \<noteq> Ret r"
    using shell_loop_execute [OF assms(6)] by blast
  have act: "[-1, -1, -1 :: u32] ! t = -1" if "t < 3" for t
  proof -
    have "t = 0 \<or> t = 1 \<or> t = 2" using that by linarith
    then show ?thesis by (elim disjE) simp_all
  qed
  have "tree_rel (k\<lparr>mem := m\<rparr>) no_procs"
    using assms(1-4) by (auto simp: tree_rel_def no_procs_def act_word_def act)
  moreover have "child_of no_procs = {}" by (simp add: child_of_def no_procs_def)
  then have "tree_ok no_procs" by (intro tree_okI) (simp_all add: wf_acyclic, simp_all add: no_procs_def)
  ultimately show ?thesis
    using execute_base [of no_procs "k\<lparr>mem := m\<rparr>" mc fr shell fl k'] m assms(5) by (auto simp: no_procs_def)
qed

end
