(* ===== verification/Printf.thy ===== *)
theory Printf
  imports Console
begin

text \<open>
  \<open>printf\<close> of \<^verbatim>\<open>student-distrib/lib.c\<close> over the byte memory: the format string, the words
  of the variable arguments on the stack behind it, and the local conversion buffers. The
  \<open>goto format_char_switch\<close> makes the loop a machine with two kinds of state: outside a conversion
  (\<open>None\<close>) and at the label (\<open>Some alternate\<close>).

  The abstract side is \<open>fmt_text\<close>, which expands a format with a list of arguments; the property
  says that \<open>printf\<close> prints that text and writes nowhere but on the screen and in its buffers.
\<close>

section \<open>The code\<close>

text \<open>The loop that fills \<open>conv_buf\<close> with zeros up to index 8; \<open>i\<close> is an \<open>int32_t\<close>.\<close>

function pad_zeros :: "translation \<Rightarrow> addr \<Rightarrow> u32 \<Rightarrow> memory \<Rightarrow> memory" where
  "pad_zeros tr conv_buf i m =
     (if sint i < 8 then pad_zeros tr conv_buf (i + 1) (st8 tr m (conv_buf + i) 48) else m)"
  by pat_completeness auto
termination
proof (relation "measure (\<lambda>(tr, b, i, m). nat (8 - sint i))")
  fix tr :: translation and b :: addr and i :: u32 and m :: memory
  assume i: "sint i < 8"
  have "- (2 ^ 31) \<le> sint i" using sint_ge [of i] by simp
  then have "sint (i + 1) = sint i + 1" using i by (simp add: sint_word_ariths signed_take_bit_int_eq_self)
  then show "((tr, b, i + 1, st8 tr m (b + i) 48), tr, b, i, m) \<in> measure (\<lambda>(tr, b, i, m). nat (8 - sint i))"
    using i by simp
qed simp

declare pad_zeros.simps [simp del]

text \<open>
  The cases of the inner switch. The three arrays \<open>conv_buf\<close> of the cases \<open>x\<close>, \<open>u\<close> and \<open>d\<close> are at
  the addresses that the compiler gave them; \<open>None\<close> is a scan that does not end.
\<close>

definition printf_x ::
  "translation \<Rightarrow> addr \<Rightarrow> bool \<Rightarrow> u32 \<Rightarrow> screen_t \<times> memory \<Rightarrow> (screen_t \<times> memory) option" where
  "printf_x tr conv_buf alternate v = (\<lambda>(con, m).
     if \<not> alternate then
       case itoa tr m v conv_buf 16 of None \<Rightarrow> None | Some m \<Rightarrow> map_option snd (puts tr conv_buf (con, m))
     else
       case itoa tr m v (conv_buf + 8) 16 of None \<Rightarrow> None
       | Some m \<Rightarrow>
           (case strlen tr m (conv_buf + 8) of None \<Rightarrow> None
            | Some starting_index \<Rightarrow>
                map_option snd (puts tr (conv_buf + starting_index) (con, pad_zeros tr conv_buf starting_index m))))"

definition printf_d :: "translation \<Rightarrow> addr \<Rightarrow> u32 \<Rightarrow> screen_t \<times> memory \<Rightarrow> (screen_t \<times> memory) option" where
  "printf_d tr conv_buf v = (\<lambda>(con, m).
     case (if sint v < 0 then itoa tr (st8 tr m conv_buf 45) (- v) (conv_buf + 1) 10 else itoa tr m v conv_buf 10) of
       None \<Rightarrow> None | Some m \<Rightarrow> map_option snd (puts tr conv_buf (con, m)))"

definition printf_u :: "translation \<Rightarrow> addr \<Rightarrow> u32 \<Rightarrow> screen_t \<times> memory \<Rightarrow> (screen_t \<times> memory) option" where
  "printf_u tr conv_buf v = (\<lambda>(con, m).
     case itoa tr m v conv_buf 10 of None \<Rightarrow> None | Some m \<Rightarrow> map_option snd (puts tr conv_buf (con, m)))"

record conv_bufs =
  cb_x :: addr
  cb_u :: addr
  cb_d :: addr

definition printf_conv ::
  "translation \<Rightarrow> conv_bufs \<Rightarrow> bool \<Rightarrow> u8 \<Rightarrow> addr \<Rightarrow> screen_t \<times> memory \<Rightarrow> (addr \<times> screen_t \<times> memory) option" where
  "printf_conv tr cb alternate c esp st =
     (let v = ld32 tr (snd st) esp
      in if c = 37 then Some (esp, putc tr 37 st)
         else if c = 120 then map_option (Pair (esp + 4)) (printf_x tr (cb_x cb) alternate v st)
         else if c = 117 then map_option (Pair (esp + 4)) (printf_u tr (cb_u cb) v st)
         else if c = 100 then map_option (Pair (esp + 4)) (printf_d tr (cb_d cb) v st)
         else if c = 99 then Some (esp + 4, putc tr (ucast v) st)
         else if c = 115 then map_option (\<lambda>(n, st). (esp + 4, st)) (puts tr v st)
         else Some (esp, st))"

partial_function (option) printf_loop ::
  "translation \<Rightarrow> conv_bufs \<Rightarrow> bool option \<Rightarrow> addr \<Rightarrow> addr \<Rightarrow> screen_t \<times> memory \<Rightarrow> (addr \<times> screen_t \<times> memory) option" where
  "printf_loop tr cb mode buf esp st =
     (let c = ld8 tr (snd st) buf
      in case mode of
           None \<Rightarrow>
             if c = 0 then Some (buf, st)
             else if c = 37 then printf_loop tr cb (Some False) (buf + 1) esp st
             else printf_loop tr cb None (buf + 1) esp (putc tr c st)
         | Some alternate \<Rightarrow>
             if c = 35 then printf_loop tr cb (Some True) (buf + 1) esp st
             else Option.bind (printf_conv tr cb alternate c esp st)
                    (\<lambda>r. printf_loop tr cb None (buf + 1) (fst r) (snd r)))"

definition printf ::
  "translation \<Rightarrow> conv_bufs \<Rightarrow> addr \<Rightarrow> addr \<Rightarrow> screen_t \<times> memory \<Rightarrow> (u32 \<times> screen_t \<times> memory) option" where
  "printf tr cb format esp st = map_option (\<lambda>(buf, st). (buf - format, st)) (printf_loop tr cb None format esp st)"

section \<open>Formats and their expansion\<close>

datatype parg = PNum u32 | PStr bytes

definition num_text :: "bool \<Rightarrow> u8 \<Rightarrow> u32 \<Rightarrow> bytes" where
  "num_text alternate c v =
     (if c = 120 then
        let t = itoa_text 16 (unat v) in if alternate then replicate (8 - length t) 48 @ t else t
      else if c = 117 then itoa_text 10 (unat v)
      else if c = 100 then (if sint v < 0 then [45] else []) @ itoa_text 10 (nat \<bar>sint v\<bar>)
      else [ucast v])"

definition fmt_conv :: "bool \<Rightarrow> u8 \<Rightarrow> parg list \<Rightarrow> (bytes \<times> parg list) option" where
  "fmt_conv alternate c as =
     (if c = 37 then Some ([37], as)
      else if c = 120 \<or> c = 117 \<or> c = 100 \<or> c = 99 then
        (case as of PNum v # as \<Rightarrow> Some (num_text alternate c v, as) | _ \<Rightarrow> None)
      else if c = 115 then (case as of PStr bs # as \<Rightarrow> Some (bs, as) | _ \<Rightarrow> None)
      else Some ([], as))"

text \<open>A format that ends inside a conversion, or has too few arguments, has no expansion.\<close>

fun fmt_text :: "bool option \<Rightarrow> bytes \<Rightarrow> parg list \<Rightarrow> bytes option" where
  "fmt_text None [] as = Some []"
| "fmt_text (Some alternate) [] as = None"
| "fmt_text None (c # cs) as =
     (if c = 37 then fmt_text (Some False) cs as else map_option ((#) c) (fmt_text None cs as))"
| "fmt_text (Some alternate) (c # cs) as =
     (if c = 35 then fmt_text (Some True) cs as
      else case fmt_conv alternate c as of None \<Rightarrow> None
           | Some (t, as) \<Rightarrow> map_option ((@) t) (fmt_text None cs as))"

text \<open>The arguments on the stack, with the strings they point to, inside the region \<open>rd\<close>.\<close>

fun pargs_at :: "translation \<Rightarrow> memory \<Rightarrow> addr set \<Rightarrow> addr \<Rightarrow> parg list \<Rightarrow> bool" where
  "pargs_at tr m rd esp [] \<longleftrightarrow> True"
| "pargs_at tr m rd esp (PNum v # as) \<longleftrightarrow> rng esp 4 \<subseteq> rd \<and> ld32 tr m esp = v \<and> pargs_at tr m rd (esp + 4) as"
| "pargs_at tr m rd esp (PStr bs # as) \<longleftrightarrow>
     rng esp 4 \<subseteq> rd \<and> cstring tr m (ld32 tr m esp) bs \<and> rng (ld32 tr m esp) (Suc (length bs)) \<subseteq> rd \<and>
     pargs_at tr m rd (esp + 4) as"

definition buf_space :: "conv_bufs \<Rightarrow> addr set" where
  "buf_space cb = rng (cb_x cb) 64 \<union> rng (cb_u cb) 36 \<union> rng (cb_d cb) 36"

text \<open>Where \<open>printf\<close> may write: the screen and the three buffers, apart from each other.\<close>

definition bufs_ok :: "addr set \<Rightarrow> conv_bufs \<Rightarrow> screen_t \<Rightarrow> bool" where
  "bufs_ok mapped cb con \<longleftrightarrow> rng (scr_mem con) 4000 \<subseteq> mapped \<and> buf_space cb \<subseteq> mapped \<and>
     rng (scr_mem con) 4000 \<inter> buf_space cb = {}"

definition printed :: "translation \<Rightarrow> addr set \<Rightarrow> conv_bufs \<Rightarrow> bytes \<Rightarrow> screen_t \<times> memory \<Rightarrow> screen_t \<times> memory \<Rightarrow> bool" where
  "printed tr mapped cb t st st' \<longleftrightarrow>
     screen_abs tr st' = fold a_putc t (screen_abs tr st) \<and> screen_wf (fst st') \<and> scr_mem (fst st') = scr_mem (fst st) \<and>
     (\<forall>x \<in> mapped. x \<notin> rng (scr_mem (fst st)) 4000 \<union> buf_space cb \<longrightarrow> ld8 tr (snd st') x = ld8 tr (snd st) x)"

lemma printed_trans:
  "printed tr mapped cb t st st1 \<Longrightarrow> printed tr mapped cb u st1 st2 \<Longrightarrow> printed tr mapped cb (t @ u) st st2"
  by (auto simp: printed_def)

lemma length_digits_base: "n < b ^ k \<Longrightarrow> length (digits_le b n) \<le> k"
proof (induction k arbitrary: n)
  case 0
  then show ?case by (subst digits_le.simps) simp
next
  case (Suc k)
  then have "n div b < b ^ k" by (simp add: less_mult_imp_div_less mult.commute)
  then have "length (digits_le b (n div b)) \<le> k" by (rule Suc.IH)
  then show ?case by (subst digits_le.simps) simp
qed

lemma length_hex_text: "length (itoa_text 16 (unat (v :: u32))) \<le> 8"
  using length_digits_base [of "unat v" 16 8] unat_lt_2p32 [of v] by (simp add: itoa_text_def itoa_digits_def)

lemma unat_abs_sint:
  fixes v :: u32
  shows "sint v < 0 \<Longrightarrow> unat (- v) = nat \<bar>sint v\<bar>" "\<not> sint v < 0 \<Longrightarrow> unat v = nat \<bar>sint v\<bar>"
proof -
  have "\<bar>sint v\<bar> \<le> 2 ^ 31" using sint_ge [of v] sint_lt [of v] by simp
  then have n: "nat \<bar>sint v\<bar> < 4294967296" by (simp add: nat_less_iff)
  have "of_int (sint v) = v" by simp
  then have "sint v < 0 \<Longrightarrow> - v = of_nat (nat \<bar>sint v\<bar>)" "\<not> sint v < 0 \<Longrightarrow> v = of_nat (nat \<bar>sint v\<bar>)"
    by (simp_all add: of_nat_nat del: of_int_sint)
  then show "sint v < 0 \<Longrightarrow> unat (- v) = nat \<bar>sint v\<bar>" "\<not> sint v < 0 \<Longrightarrow> unat v = nat \<bar>sint v\<bar>"
    using n unat_of_nat_u32 [of "nat \<bar>sint v\<bar>"] by metis+
qed

lemma cstring_cong_ld8:
  assumes "cstring tr m s bs" "\<And>x. x \<in> rng s (Suc (length bs)) \<Longrightarrow> ld8 tr m' x = ld8 tr m x"
  shows "cstring tr m' s bs"
proof -
  have l: "length bs < 4294967296" using assms(1) by (simp add: cstring_def)
  have "load_bytes tr m' s (length bs) = load_bytes tr m s (length bs)"
    using assms(2) l rng_mono [of "length bs" "Suc (length bs)" s] by (intro load_bytes_cong) auto
  moreover have "s + of_nat (length bs) \<in> rng s (Suc (length bs))" using l by (intro rng_offset) auto
  ultimately show ?thesis using assms by (simp add: cstring_def)
qed

lemma cstring_prepend:
  assumes "cstring tr m (a + of_nat (length zs)) bs" "load_bytes tr m a (length zs) = zs" "0 \<notin> set zs"
    and "length zs + length bs < 4294967296"
  shows "cstring tr m a (zs @ bs)"
  using assms by (simp add: cstring_def load_bytes_append add.assoc)

lemma cstring_tail:
  assumes "cstring tr m a (c # cs)"
  shows "ld8 tr m a = c" "c \<noteq> 0" "cstring tr m (a + 1) cs"
  using assms by (auto simp: cstring_def algebra_simps)

lemma rng_tail: "rng a (Suc (length (c # cs))) \<subseteq> rd \<Longrightarrow> rng (a + 1) (Suc (length cs)) \<subseteq> rd"
  using rng_sub [of 1 "Suc (length cs)" "Suc (length (c # cs))" a] by auto

lemma ld32_cong_ld8:
  assumes "\<And>x. x \<in> rng a 4 \<Longrightarrow> ld8 tr m' x = ld8 tr m x"
  shows "ld32 tr m' a = ld32 tr m a"
proof -
  have "a \<in> rng a 4" "a + 1 \<in> rng a 4" "a + 2 \<in> rng a 4" "a + 3 \<in> rng a 4" by (simp_all add: rng_def)
  then show ?thesis using assms by (simp add: ld32_def)
qed

lemma pargs_at_cong:
  assumes "pargs_at tr m rd esp as" "\<And>x. x \<in> rd \<Longrightarrow> ld8 tr m' x = ld8 tr m x"
  shows "pargs_at tr m' rd esp as"
  using assms
proof (induction tr m rd esp as rule: pargs_at.induct)
  case (2 tr m rd esp v as)
  then have "ld32 tr m' esp = ld32 tr m esp" by (intro ld32_cong_ld8) auto
  with 2 show ?case by simp
next
  case (3 tr m rd esp bs as)
  then have "ld32 tr m' esp = ld32 tr m esp" by (intro ld32_cong_ld8) auto
  moreover have "cstring tr m' (ld32 tr m esp) bs"
  proof (rule cstring_cong_ld8)
    show "cstring tr m (ld32 tr m esp) bs" using 3(2) by simp
    show "ld8 tr m' x = ld8 tr m x" if "x \<in> rng (ld32 tr m esp) (Suc (length bs))" for x
      using 3(2,3) that by (auto simp del: length_Suc_conv)
  qed
  ultimately show ?case using 3 by simp
qed simp

lemma pad_zeros_eq:
  assumes "n \<le> 8"
  shows "pad_zeros tr b (of_nat n) m = store_bytes tr m (b + of_nat n) (replicate (8 - n) 48)"
  using assms
proof (induction "8 - n" arbitrary: n m)
  case 0
  then have "n = 8" by simp
  then show ?case by (subst pad_zeros.simps) simp
next
  case (Suc k)
  then have n: "n < 8" by simp
  have "sint (of_nat n :: u32) = int n" using n by (intro sint_small_u32) simp
  moreover have "replicate (8 - n) (48 :: u8) = 48 # replicate (8 - Suc n) 48"
    using n Suc_diff_Suc [of n 8] by (metis replicate_Suc)
  moreover have "pad_zeros tr b (of_nat (Suc n)) (st8 tr m (b + of_nat n) 48) =
      store_bytes tr (st8 tr m (b + of_nat n) 48) (b + of_nat (Suc n)) (replicate (8 - Suc n) 48)"
    using Suc.hyps(2) n by (intro Suc.hyps(1)) auto
  ultimately show ?case using n by (subst pad_zeros.simps) (simp add: add.assoc add.commute add.left_commute)
qed

lemma pad_disjoint:
  assumes "n \<le> 8" "x \<in> rng (b + 8) (Suc n)"
  shows "x \<notin> rng (b + of_nat n) (length (replicate (8 - n) c))"
proof -
  define i where "i = unat (x - (b + 8))"
  have i: "i < Suc n" using assms(2) by (simp add: rng_def i_def)
  have "x - (b + 8) = of_nat i" by (simp add: i_def)
  then have "x = b + 8 + of_nat i" by (simp add: algebra_simps)
  then have "x - (b + of_nat n) = of_nat (8 + i - n)" using assms(1) by (simp add: of_nat_diff)
  moreover have "unat (of_nat (8 + i - n) :: u32) = 8 + i - n" using i assms(1) by (intro unat_of_nat_u32) simp
  ultimately have "unat (x - (b + of_nat n)) = 8 + i - n" by metis
  then show ?thesis by (simp add: rng_def)
qed

context address_space
begin

lemma printed_putc:
  assumes "screen_wf con" "rng (scr_mem con) 4000 \<subseteq> mapped"
  shows "printed tr mapped cb [c] (con, m) (putc tr c (con, m))"
  using putc_refines [OF assms(2,1)] putc_wf [OF assms(1)] ld8_putc [OF assms(2,1)]
  by (simp add: printed_def putc_eq)

lemma printed_puts:
  assumes "screen_wf con" "rng (scr_mem con) 4000 \<subseteq> mapped" "cstring tr m s bs"
    and "rng s (Suc (length bs)) \<subseteq> mapped" "rng (scr_mem con) 4000 \<inter> rng s (Suc (length bs)) = {}"
  shows "\<exists>n st. puts tr s (con, m) = Some (n, st) \<and> printed tr mapped cb bs (con, m) st"
  using puts_loop_eq [OF assms(2,1,4,5), of 0 m] cstring_nth [OF assms(3)] assms(3)
  by (auto simp: puts_def cstring_def printed_def)

lemma printed_store:
  assumes "screen_wf con" "bufs_ok mapped cb con" "rng a (length bs) \<subseteq> buf_space cb" "length bs \<le> 4294967296"
  shows "printed tr mapped cb [] (con, m) (con, store_bytes tr m a bs)"
proof -
  have a: "rng a (length bs) \<subseteq> mapped" "rng (scr_mem con) 4000 \<inter> rng a (length bs) = {}"
    "rng (scr_mem con) 4000 \<subseteq> mapped" using assms by (auto simp: bufs_ok_def)
  have "get_cell tr (scr_mem con) (int i) (store_bytes tr m a bs) = get_cell tr (scr_mem con) (int i) m" if "i < 2000" for i
    using cell_in_rng(1) [of "int i" "scr_mem con"] that a assms(4)
    unfolding get_cell_def by (intro ld8_store_outside) auto
  then have "cells tr (store_bytes tr m a bs) (scr_mem con) 2000 = cells tr m (scr_mem con) 2000"
    by (simp add: cells_def)
  moreover have "ld8 tr (store_bytes tr m a bs) x = ld8 tr m x" if "x \<in> mapped" "x \<notin> buf_space cb" for x
    using that a(1) assms(3,4) by (intro ld8_store_outside) auto
  ultimately show ?thesis using assms(1) by (simp add: printed_def screen_abs_def)
qed

text \<open>A number printed by way of a buffer.\<close>

lemma printed_via_buf:
  assumes "screen_wf con" "bufs_ok mapped cb con"
    and "printed tr mapped cb [] (con, m) (con, m')" "cstring tr m' s bs" "rng s (Suc (length bs)) \<subseteq> buf_space cb"
  shows "\<exists>n st. puts tr s (con, m') = Some (n, st) \<and> printed tr mapped cb bs (con, m) st"
proof -
  have bufs: "rng (scr_mem con) 4000 \<subseteq> mapped" "rng (scr_mem con) 4000 \<inter> buf_space cb = {}" "buf_space cb \<subseteq> mapped"
    using assms(2) by (auto simp: bufs_ok_def)
  obtain n st where "puts tr s (con, m') = Some (n, st)" "printed tr mapped cb bs (con, m') st"
    using printed_puts [OF assms(1) _ assms(4)] bufs assms(5) by blast
  then show ?thesis using printed_trans [OF assms(3)] by fastforce
qed

lemma itoa_buf:
  assumes "screen_wf con" "bufs_ok mapped cb con" "2 \<le> unat radix" "unat radix \<le> 36"
    and "rng a 33 \<subseteq> buf_space cb"
  shows "\<exists>m'. itoa tr m v a radix = Some m' \<and> cstring tr m' a (itoa_text (unat radix) (unat v)) \<and>
    rng a (Suc (length (itoa_text (unat radix) (unat v)))) \<subseteq> rng a 33 \<and> printed tr mapped cb [] (con, m) (con, m')"
proof -
  let ?t = "itoa_text (unat radix) (unat v)"
  have len: "length ?t \<le> 32" by (intro length_itoa_text) simp
  then have r: "rng a (Suc (length ?t)) \<subseteq> rng a 33" by (intro rng_mono) simp
  then have "rng a (Suc (length ?t)) \<subseteq> mapped" using assms(2,5) by (auto simp: bufs_ok_def)
  then have "itoa tr m v a radix = Some (store_bytes tr m a (?t @ [0]))" "cstring tr (store_bytes tr m a (?t @ [0])) a ?t"
    using assms(3,4) itoa_text_nz [OF assms(3,4)] len by (auto intro!: itoa_eq cstring_store)
  moreover have "printed tr mapped cb [] (con, m) (con, store_bytes tr m a (?t @ [0]))"
    using assms len r by (intro printed_store) auto
  ultimately show ?thesis using r by blast
qed

lemma buf_space_rng:
  "i + n \<le> 64 \<Longrightarrow> rng (cb_x cb + of_nat i) n \<subseteq> buf_space cb" "i + n \<le> 36 \<Longrightarrow> rng (cb_u cb + of_nat i) n \<subseteq> buf_space cb"
  "i + n \<le> 36 \<Longrightarrow> rng (cb_d cb + of_nat i) n \<subseteq> buf_space cb"
  unfolding buf_space_def by (blast dest: rng_sub)+

lemma printf_x_alternate:
  assumes wf: "screen_wf con" and ok: "bufs_ok mapped cb con"
  shows "\<exists>st. printf_x tr (cb_x cb) True v (con, m) = Some st \<and> printed tr mapped cb (num_text True 120 v) (con, m) st"
proof -
  let ?t = "itoa_text 16 (unat v)" and ?b = "cb_x cb"
  let ?n = "length ?t" and ?zs = "replicate (8 - length ?t) (48 :: u8)"
  have n: "?n \<le> 8" by (rule length_hex_text)
  have b: "rng (?b + 8) 33 \<subseteq> buf_space cb" using buf_space_rng(1) [of 8 33 cb] by simp
  obtain m1 where m1: "itoa tr m v (?b + 8) 16 = Some m1" "cstring tr m1 (?b + 8) ?t"
    "printed tr mapped cb [] (con, m) (con, m1)" using itoa_buf [OF wf ok _ _ b, of 16 m v] by auto
  define m2 where "m2 = store_bytes tr m1 (?b + of_nat ?n) ?zs"
  have z: "rng (?b + of_nat ?n) (length ?zs) \<subseteq> buf_space cb" using n by (intro buf_space_rng(1)) simp
  have zm: "rng (?b + of_nat ?n) (length ?zs) \<subseteq> mapped" using z ok by (auto simp: bufs_ok_def)
  have r: "rng (?b + 8) (Suc ?n) \<subseteq> mapped"
    using rng_mono [of "Suc ?n" 33 "?b + 8"] b n ok by (auto simp: bufs_ok_def)
  have "cstring tr m2 (?b + 8) ?t"
    unfolding m2_def using r zm pad_disjoint [OF n] by (intro cstring_cong_ld8 [OF m1(2)] ld8_store_outside) auto
  moreover have "?b + of_nat ?n + of_nat (length ?zs) = ?b + (8 :: u32)" using n by (simp add: of_nat_diff)
  moreover have "load_bytes tr m2 (?b + of_nat ?n) (length ?zs) = ?zs"
    unfolding m2_def using zm by (intro load_store_same) auto
  ultimately have "cstring tr m2 (?b + of_nat ?n) (?zs @ ?t)" using n by (intro cstring_prepend) auto
  moreover have "printed tr mapped cb [] (con, m) (con, m2)"
    using printed_trans [OF m1(3) printed_store [OF wf ok z, of m1]] by (simp add: m2_def)
  moreover have "rng (?b + of_nat ?n) (Suc (length (?zs @ ?t))) \<subseteq> buf_space cb"
    using n by (intro buf_space_rng(1)) simp
  ultimately obtain k st where "puts tr (?b + of_nat ?n) (con, m2) = Some (k, st)" "printed tr mapped cb (?zs @ ?t) (con, m) st"
    using printed_via_buf [OF wf ok] by blast
  then show ?thesis
    using m1(1) strlen_cstring [OF m1(2)] pad_zeros_eq [OF n, of tr ?b m1]
    by (simp add: printf_x_def num_text_def Let_def m2_def)
qed

text \<open>\<open>itoa\<close> at the start of a buffer, then \<open>puts\<close>.\<close>

lemma print_number:
  assumes wf: "screen_wf con" and ok: "bufs_ok mapped cb con" and b: "rng a 33 \<subseteq> buf_space cb"
    and r: "2 \<le> unat radix" "unat radix \<le> 36"
  shows "\<exists>m' st n. itoa tr m v a radix = Some m' \<and> puts tr a (con, m') = Some (n, st) \<and>
    printed tr mapped cb (itoa_text (unat radix) (unat v)) (con, m) st"
proof -
  obtain m' where "itoa tr m v a radix = Some m'" "cstring tr m' a (itoa_text (unat radix) (unat v))"
    "rng a (Suc (length (itoa_text (unat radix) (unat v)))) \<subseteq> rng a 33" "printed tr mapped cb [] (con, m) (con, m')"
    using itoa_buf [OF wf ok r b, of m v] by auto
  then show ?thesis using printed_via_buf [OF wf ok, of m m' a] b by blast
qed

lemma printf_x_eq:
  assumes "screen_wf con" "bufs_ok mapped cb con"
  shows "\<exists>st. printf_x tr (cb_x cb) alternate v (con, m) = Some st \<and> printed tr mapped cb (num_text alternate 120 v) (con, m) st"
proof (cases alternate)
  case False
  then show ?thesis
    using print_number [OF assms, of "cb_x cb" 16 m v] buf_space_rng(1) [of 0 33 cb]
    by (auto simp: printf_x_def num_text_def Let_def)
qed (use printf_x_alternate [OF assms] in simp)

lemma printf_u_eq:
  assumes "screen_wf con" "bufs_ok mapped cb con"
  shows "\<exists>st. printf_u tr (cb_u cb) v (con, m) = Some st \<and> printed tr mapped cb (num_text alternate 117 v) (con, m) st"
  using print_number [OF assms, of "cb_u cb" 10 m v] buf_space_rng(2) [of 0 33 cb]
  by (auto simp: printf_u_def num_text_def)

lemma printf_d_eq:
  assumes wf: "screen_wf con" and ok: "bufs_ok mapped cb con"
  shows "\<exists>st. printf_d tr (cb_d cb) v (con, m) = Some st \<and> printed tr mapped cb (num_text alternate 100 v) (con, m) st"
proof (cases "sint v < 0")
  case False
  then show ?thesis
    using print_number [OF assms, of "cb_d cb" 10 m v] buf_space_rng(3) [of 0 33 cb]
    by (auto simp: printf_d_def num_text_def unat_abs_sint)
next
  case True
  let ?b = "cb_d cb" and ?t = "itoa_text 10 (unat (- v))"
  have b: "rng (?b + 1) 33 \<subseteq> buf_space cb" "rng ?b 36 \<subseteq> buf_space cb"
    using buf_space_rng(3) [of 1 33 cb] buf_space_rng(3) [of 0 36 cb] by simp_all
  have p1: "printed tr mapped cb [] (con, m) (con, st8 tr m ?b 45)"
    using printed_store [OF wf ok, of ?b "[45]" m] b(2) rng_mono [of 1 36 ?b] by auto
  obtain m1 where m1: "itoa tr (st8 tr m ?b 45) (- v) (?b + 1) 10 = Some m1" "cstring tr m1 (?b + 1) ?t"
    "printed tr mapped cb [] (con, st8 tr m ?b 45) (con, m1)" "rng (?b + 1) (Suc (length ?t)) \<subseteq> rng (?b + 1) 33"
    using itoa_buf [OF wf ok _ _ b(1), of 10 "st8 tr m ?b 45" "- v"] by auto
  have len: "length ?t \<le> 32" by (intro length_itoa_text) simp
  have mb: "?b \<in> mapped" "rng (?b + 1) (Suc (length ?t)) \<subseteq> mapped"
    using b m1(4) ok rng_offset [of 0 36 ?b] by (auto simp: bufs_ok_def)
  have "m1 = store_bytes tr (st8 tr m ?b 45) (?b + 1) (?t @ [0])"
    using m1(1) mb(2) itoa_eq [of 10 "?b + 1" "- v" "st8 tr m ?b 45"] by simp
  then have "ld8 tr m1 ?b = 45"
    using mb notin_rng_Suc [of "Suc (length ?t)" ?b] len by (simp add: ld8_store_outside)
  then have "cstring tr m1 ?b ([45] @ ?t)" using m1(2) len by (intro cstring_prepend) auto
  moreover have "rng ?b (Suc (length ([45] @ ?t))) \<subseteq> buf_space cb"
    using b(2) len rng_mono [of "Suc (length ([45] @ ?t))" 36 ?b] by auto
  ultimately obtain n st where "puts tr ?b (con, m1) = Some (n, st)" "printed tr mapped cb ([45] @ ?t) (con, m) st"
    using printed_via_buf [OF wf ok] printed_trans [OF p1 m1(3)] by fastforce
  then show ?thesis using True m1(1) by (simp add: printf_d_def num_text_def unat_abs_sint)
qed

lemma printf_conv_eq:
  assumes wf: "screen_wf con" and ok: "bufs_ok mapped cb con"
    and rd: "rd \<subseteq> mapped" "rd \<inter> rng (scr_mem con) 4000 = {}"
    and c: "fmt_conv alternate c as = Some (t, as')" "pargs_at tr m rd esp as"
  shows "\<exists>esp' st. printf_conv tr cb alternate c esp (con, m) = Some (esp', st) \<and>
    printed tr mapped cb t (con, m) st \<and> pargs_at tr m rd esp' as'"
proof -
  have scr: "rng (scr_mem con) 4000 \<subseteq> mapped" using ok by (simp add: bufs_ok_def)
  note putc = printed_putc [OF wf scr, of cb _ m]
  have none: "printed tr mapped cb [] (con, m) (con, m)" using wf by (simp add: printed_def)
  consider "c = 37" | "c = 120" | "c = 117" | "c = 100" | "c = 99" | "c = 115" | "c \<notin> {37, 120, 117, 100, 99, 115}" by blast
  then show ?thesis
  proof cases
    case 1
    then show ?thesis using c putc by (auto simp: printf_conv_def fmt_conv_def)
  next
    case 2
    then show ?thesis using c printf_x_eq [OF wf ok, of alternate _ m]
      by (fastforce simp: printf_conv_def fmt_conv_def split: list.splits parg.splits)
  next
    case 3
    then show ?thesis using c printf_u_eq [OF wf ok, of _ m alternate]
      by (fastforce simp: printf_conv_def fmt_conv_def split: list.splits parg.splits)
  next
    case 4
    then show ?thesis using c printf_d_eq [OF wf ok, of _ m alternate]
      by (fastforce simp: printf_conv_def fmt_conv_def split: list.splits parg.splits)
  next
    case 5
    then show ?thesis using c putc
      by (auto simp: printf_conv_def fmt_conv_def num_text_def split: list.splits parg.splits)
  next
    case 6
    then obtain bs where as: "as = PStr bs # as'" "t = bs" using c(1) by (auto simp: fmt_conv_def split: list.splits parg.splits)
    then have s: "cstring tr m (ld32 tr m esp) bs" "rng (ld32 tr m esp) (Suc (length bs)) \<subseteq> rd" using c(2) by simp_all
    then have "rng (ld32 tr m esp) (Suc (length bs)) \<subseteq> mapped"
      "rng (scr_mem con) 4000 \<inter> rng (ld32 tr m esp) (Suc (length bs)) = {}" using rd by blast+
    from printed_puts [OF wf scr s(1) this, of cb] show ?thesis using 6 as c(2) by (auto simp: printf_conv_def)
  next
    case 7
    then show ?thesis using c none by (auto simp: printf_conv_def fmt_conv_def)
  qed
qed

text \<open>What a conversion leaves of the data that the rest of the format needs.\<close>

lemma printed_keeps:
  assumes p: "printed tr mapped cb t (con, m) (con1, m1)" and ok: "bufs_ok mapped cb con"
    and rd: "rd \<subseteq> mapped" "rd \<inter> (rng (scr_mem con) 4000 \<union> buf_space cb) = {}"
  shows "screen_wf con1" "bufs_ok mapped cb con1" "rd \<inter> (rng (scr_mem con1) 4000 \<union> buf_space cb) = {}"
    "cstring tr m s bs \<Longrightarrow> rng s (Suc (length bs)) \<subseteq> rd \<Longrightarrow> cstring tr m1 s bs"
    "pargs_at tr m rd esp as \<Longrightarrow> pargs_at tr m1 rd esp as"
proof -
  have same: "ld8 tr m1 x = ld8 tr m x" if "x \<in> rd" for x using p that rd by (auto simp: printed_def)
  show "screen_wf con1" "bufs_ok mapped cb con1" "rd \<inter> (rng (scr_mem con1) 4000 \<union> buf_space cb) = {}"
    using p ok rd by (simp_all add: printed_def bufs_ok_def)
  show "cstring tr m s bs \<Longrightarrow> rng s (Suc (length bs)) \<subseteq> rd \<Longrightarrow> cstring tr m1 s bs"
    using same by (blast intro: cstring_cong_ld8)
  show "pargs_at tr m rd esp as \<Longrightarrow> pargs_at tr m1 rd esp as" using same by (blast intro: pargs_at_cong)
qed

lemma printf_loop_eq:
  assumes "fmt_text mode xs as = Some ts" "cstring tr m buf xs" "rng buf (Suc (length xs)) \<subseteq> rd"
    and "screen_wf con" "bufs_ok mapped cb con" "rd \<subseteq> mapped" "rd \<inter> (rng (scr_mem con) 4000 \<union> buf_space cb) = {}"
    and "pargs_at tr m rd esp as"
  shows "\<exists>st. printf_loop tr cb mode buf esp (con, m) = Some (buf + of_nat (length xs), st) \<and>
    printed tr mapped cb ts (con, m) st"
  using assms
proof (induction mode xs "as" arbitrary: ts buf con m esp rule: fmt_text.induct)
  case (1 as)
  then show ?case by (subst printf_loop.simps) (auto simp: cstring_def printed_def)
next
  case (3 c cs as)
  note s = cstring_tail [OF 3(4)] rng_tail [OF 3(5)]
  show ?case
  proof (cases "c = 37")
    case True
    then have "fmt_text (Some False) cs as = Some ts" using 3(3) by simp
    from 3(1) [OF True this s(3,4) 3(6-10)] show ?thesis
      using True s(1,2) by (subst printf_loop.simps) (simp add: algebra_simps)
  next
    case False
    then obtain ts' where ts: "fmt_text None cs as = Some ts'" "ts = [c] @ ts'" using 3(3) by auto
    obtain con1 m1 where p: "putc tr c (con, m) = (con1, m1)" by fastforce
    have pr: "printed tr mapped cb [c] (con, m) (con1, m1)"
      using printed_putc [OF 3(6), of cb c m] 3(7) p by (simp add: bufs_ok_def)
    note k = printed_keeps [OF pr 3(7-9)]
    obtain st where st: "printf_loop tr cb None (buf + 1) esp (con1, m1) = Some (buf + 1 + of_nat (length cs), st)"
      "printed tr mapped cb ts' (con1, m1) st"
      using 3(2) [OF False ts(1) k(4) [OF s(3,4)] s(4) k(1,2) 3(8) k(3) k(5) [OF 3(10)]] by blast
    then show ?thesis
      using False s(1,2) p printed_trans [OF pr st(2)] by (subst printf_loop.simps) (simp add: ts(2) algebra_simps)
  qed
next
  case (4 alternate c cs as)
  note s = cstring_tail [OF 4(4)] rng_tail [OF 4(5)]
  show ?case
  proof (cases "c = 35")
    case True
    then have "fmt_text (Some True) cs as = Some ts" using 4(3) by simp
    from 4(1) [OF True this s(3,4) 4(6-10)] show ?thesis
      using True s(1,2) by (subst printf_loop.simps) (simp add: algebra_simps)
  next
    case False
    then obtain t as' ts' where ts: "fmt_conv alternate c as = Some (t, as')" "fmt_text None cs as' = Some ts'" "ts = t @ ts'"
      using 4(3) by (auto split: option.splits)
    obtain esp' con1 m1 where p: "printf_conv tr cb alternate c esp (con, m) = Some (esp', con1, m1)"
      "printed tr mapped cb t (con, m) (con1, m1)" "pargs_at tr m rd esp' as'"
      using printf_conv_eq [OF 4(6,7,8) _ ts(1) 4(10)] 4(9) by fastforce
    note k = printed_keeps [OF p(2) 4(7-9)]
    obtain st where st: "printf_loop tr cb None (buf + 1) esp' (con1, m1) = Some (buf + 1 + of_nat (length cs), st)"
      "printed tr mapped cb ts' (con1, m1) st"
      using 4(2) [OF False ts(1) _ ts(2) k(4) [OF s(3,4)] s(4) k(1,2) 4(8) k(3) k(5) [OF p(3)]] by blast
    then show ?thesis
      using False s(1) p(1) printed_trans [OF p(2) st(2)] by (subst printf_loop.simps) (simp add: ts(3) algebra_simps)
  qed
qed simp

end

section \<open>Properties\<close>

text \<open>
  C33. \<open>printf\<close> returns for every format that has an expansion with its arguments, with the length
  of the format, and has printed the expansion: numbers in decimal with their sign or in
  hexadecimal, with \<open>#\<close> padded to eight digits, characters and strings. It writes nothing but the
  screen and its conversion buffers of 64 and 36 bytes.
\<close>

theorem printf_prints:
  assumes "inj_on tr mapped" "screen_wf con" "bufs_ok mapped cb con"
    and "rd \<subseteq> mapped" "rd \<inter> (rng (scr_mem con) 4000 \<union> buf_space cb) = {}"
    and "cstring tr m format xs" "rng format (Suc (length xs)) \<subseteq> rd" "pargs_at tr m rd esp as"
    and "fmt_text None xs as = Some ts"
  shows "\<exists>st. printf tr cb format esp (con, m) = Some (of_nat (length xs), st) \<and>
    screen_abs tr st = fold a_putc ts (screen_abs tr (con, m)) \<and> screen_wf (fst st) \<and>
    (\<forall>x \<in> mapped. x \<notin> rng (scr_mem con) 4000 \<union> buf_space cb \<longrightarrow> ld8 tr (snd st) x = ld8 tr m x)"
  using address_space.printf_loop_eq [OF address_space.intro [OF assms(1)] assms(9,6,7,2,3,4,5,8)]
  by (auto simp: printf_def printed_def)

text \<open>\<open>"%#x"\<close> of 0xBEEF at \<open>0x10\<close>, with its argument at \<open>0x20\<close>.\<close>

definition sample_fmt :: memory where
  "sample_fmt = (\<lambda>a. 0)(0x10 := 37, 0x11 := 35, 0x12 := 120, 0x20 := 0xEF, 0x21 := 0xBE)"

definition sample_bufs :: conv_bufs where
  "sample_bufs = \<lparr>cb_x = 0x100, cb_u = 0x200, cb_d = 0x300\<rparr>"

lemma replicate_4: "replicate 4 c = [c, c, c, c]"
  by (simp add: numeral_eq_Suc)

lemma sample_fmt_text: "fmt_text None [37, 35, 120] [PNum 0xBEEF] = Some (lit ''0000BEEF'')"
  using replicate_4 by (simp add: fmt_conv_def num_text_def itoa_text_def itoa_digits_def digits_le.simps lookup_def)

theorem printf_prints_witness:
  "\<exists>st. printf (\<lambda>a. a) sample_bufs 0x10 0x20 (\<lparr>scr_x = 79, scr_y = 24, scr_mem = VIDEO\<rparr>, sample_fmt) = Some (3, st) \<and>
     screen_abs (\<lambda>a. a) st =
       fold a_putc (lit ''0000BEEF'') (screen_abs (\<lambda>a. a) (\<lparr>scr_x = 79, scr_y = 24, scr_mem = VIDEO\<rparr>, sample_fmt))"
proof -
  let ?con = "\<lparr>scr_x = 79, scr_y = 24, scr_mem = VIDEO\<rparr>" and ?rd = "rng 0x10 0x20 :: addr set"
  have d: "rng VIDEO 4000 \<inter> buf_space sample_bufs = {}" "?rd \<inter> (rng VIDEO 4000 \<union> buf_space sample_bufs) = {}"
    using rng_disjoint [of "0x100" 64 VIDEO 4000] rng_disjoint [of "0x200" 36 VIDEO 4000]
      rng_disjoint [of "0x300" 36 VIDEO 4000] rng_disjoint [of "0x10" "0x20" VIDEO 4000]
      rng_disjoint [of "0x10" "0x20" "0x100" 64] rng_disjoint [of "0x10" "0x20" "0x200" 36]
      rng_disjoint [of "0x10" "0x20" "0x300" 36]
    by (simp_all add: buf_space_def sample_bufs_def Int_Un_distrib)
  have "cstring (\<lambda>a. a) sample_fmt 0x10 [37, 35, 120]" by (simp add: cstring_def ld8_def sample_fmt_def)
  moreover have "ld32 (\<lambda>a. a) sample_fmt 0x20 = 0xBEEF"
    by (simp add: ld32_def ld8_def sample_fmt_def word_of_bytes_def)
  moreover have "rng (0x10 + of_nat 0x10) 4 \<subseteq> ?rd" "rng 0x10 (Suc (length [37, 35, 120 :: u8])) \<subseteq> ?rd"
    by (intro rng_sub) (simp, intro rng_mono, simp)
  ultimately show ?thesis
    using printf_prints [of "\<lambda>a. a" UNIV ?con sample_bufs ?rd sample_fmt "0x10" "[37, 35, 120]" "0x20" "[PNum 0xBEEF]", OF _ _ _ _ _ _ _ _ sample_fmt_text]
      d by (auto simp: screen_wf_def bufs_ok_def)
qed

end
