(* ===== verification/Message.thy ===== *)
theory Message
  imports Printf
begin

text \<open>
  A call of \<open>printf\<close> with its variable arguments: the caller pushes the words of the arguments
  and the address of the format, so that they stand behind each other on the stack when
  \<open>printf\<close> runs. \<open>fault_handler\<close> and \<open>entry\<close> print their messages in this way.
\<close>

section \<open>The call\<close>

fun push_args :: "translation \<Rightarrow> addr \<Rightarrow> u32 list \<Rightarrow> memory \<Rightarrow> memory" where
  "push_args tr esp [] m = m"
| "push_args tr esp (w # ws) m = push_args tr (esp + 4) ws (st32 tr m esp w)"

text \<open>The stack of the call: where the arguments behind the format go, and the buffers of \<open>printf\<close>.\<close>

record pframe =
  pf_args :: addr
  pf_bufs :: conv_bufs

definition call_printf ::
  "translation \<Rightarrow> pframe \<Rightarrow> addr \<Rightarrow> u32 list \<Rightarrow> screen_t \<times> memory \<Rightarrow> (screen_t \<times> memory) option" where
  "call_printf tr pf format ws = (\<lambda>(con, m).
     map_option snd (printf tr (pf_bufs pf) format (pf_args pf) (con, push_args tr (pf_args pf) ws m)))"

section \<open>What it prints\<close>

text \<open>The words stand for the arguments; strings are in the region \<open>rd\<close>.\<close>

definition parg_word :: "translation \<Rightarrow> memory \<Rightarrow> addr set \<Rightarrow> parg \<Rightarrow> u32 \<Rightarrow> bool" where
  "parg_word tr m rd a w \<longleftrightarrow>
     (case a of PNum v \<Rightarrow> v = w | PStr bs \<Rightarrow> cstring tr m w bs \<and> rng w (Suc (length bs)) \<subseteq> rd)"

definition stack_space :: "pframe \<Rightarrow> addr set" where
  "stack_space pf = buf_space (pf_bufs pf) \<union> rng (pf_args pf) 64"

text \<open>
  The screen, the buffers and the arguments are apart from each other and from what is printed.
\<close>

definition print_ok :: "addr set \<Rightarrow> pframe \<Rightarrow> addr set \<Rightarrow> screen_t \<Rightarrow> bool" where
  "print_ok mapped pf rd con \<longleftrightarrow> screen_wf con \<and> bufs_ok mapped (pf_bufs pf) con \<and>
     rng (pf_args pf) 64 \<subseteq> mapped \<and> rng (pf_args pf) 64 \<inter> (rng (scr_mem con) 4000 \<union> buf_space (pf_bufs pf)) = {} \<and>
     rd \<subseteq> mapped \<and> rd \<inter> (rng (scr_mem con) 4000 \<union> stack_space pf) = {}"

lemma rng_quad: "rng a (4 + 4 * n) = rng a 4 \<union> rng (a + 4) (4 * n)" if "n \<le> 16"
proof
  show "rng a (4 + 4 * n) \<subseteq> rng a 4 \<union> rng (a + 4) (4 * n)" using rng_split [of 4 a "4 * n"] by simp
  show "rng a 4 \<union> rng (a + 4) (4 * n) \<subseteq> rng a (4 + 4 * n)"
    using rng_sub [of 4 "4 * n" "4 + 4 * n" a] rng_mono [of 4 "4 + 4 * n" a] that by simp
qed

lemma rng_next: "n \<le> 16 \<Longrightarrow> rng a 4 \<inter> rng (a + 4) (4 * n) = {}"
proof -
  assume n: "n \<le> 16"
  have "unat (x - a) = unat (x - (a + 4)) + 4" if "x \<in> rng (a + 4) (4 * n)" for x
  proof -
    define y where "y = x - (a + 4)"
    have "unat y < 64" using that n by (simp add: rng_def y_def)
    then have "unat (y + 4) = unat y + 4" by (simp add: unat_word_ariths)
    moreover have "x - a = y + 4" by (simp add: y_def)
    ultimately show ?thesis by (simp only: y_def)
  qed
  then show ?thesis by (fastforce simp: rng_def)
qed

context address_space
begin

lemma ld8_st32_outside:
  assumes "rng a 4 \<subseteq> mapped" "x \<in> mapped" "x \<notin> rng a 4"
  shows "ld8 tr (st32 tr m a w) x = ld8 tr m x"
proof -
  define bs where "bs = map (\<lambda>i. byte_of_word i w) [0, 1, 2, 3]"
  have "length bs = 4" by (simp add: bs_def)
  then have "ld8 tr (store_bytes tr m a bs) x = ld8 tr m x" using ld8_store_outside [of a bs x m] assms by simp
  then show ?thesis unfolding st32_def bs_def .
qed

lemma ld8_push_args:
  assumes "length ws \<le> 16" "rng esp (4 * length ws) \<subseteq> mapped" "x \<in> mapped" "x \<notin> rng esp (4 * length ws)"
  shows "ld8 tr (push_args tr esp ws m) x = ld8 tr m x"
  using assms
proof (induction ws arbitrary: esp m)
  case (Cons w ws)
  have r: "rng esp (4 * length (w # ws)) = rng esp 4 \<union> rng (esp + 4) (4 * length ws)"
    using rng_quad [of "length ws" esp] Cons.prems(1) by simp
  then show ?case using Cons ld8_st32_outside [of esp x m w] by auto
qed simp

lemma push_args_at:
  assumes "length ws \<le> 16" "rng esp (4 * length ws) \<subseteq> mapped" "rd \<subseteq> mapped" "rd \<inter> rng esp (4 * length ws) = {}"
    and "list_all2 (parg_word tr m rd) as ws"
  shows "pargs_at tr (push_args tr esp ws m) (rd \<union> rng esp (4 * length ws)) esp as"
  using assms
proof (induction ws arbitrary: esp m "as" rd)
  case (Cons w ws)
  then obtain a as' where as: "as = a # as'" "parg_word tr m rd a w" "list_all2 (parg_word tr m rd) as' ws"
    by (auto simp: list_all2_Cons2)
  let ?m = "st32 tr m esp w" and ?n = "4 * length ws"
  have l: "length ws \<le> 16" using Cons.prems(1) by simp
  have r: "rng esp (4 * length (w # ws)) = rng esp 4 \<union> rng (esp + 4) ?n" "rng esp 4 \<inter> rng (esp + 4) ?n = {}"
    using rng_quad [OF l, of esp] rng_next [OF l, of esp] by simp_all
  let ?rd = "rd \<union> rng esp 4"
  have keep: "ld8 tr ?m x = ld8 tr m x" if "x \<in> rd" for x
    using that Cons.prems(2,3,4) r by (intro ld8_st32_outside) auto
  have pw: "parg_word tr ?m ?rd b v" if "parg_word tr m rd b v" for b v
  proof (cases b)
    case (PStr bs)
    then have c: "cstring tr m v bs" "rng v (Suc (length bs)) \<subseteq> rd" using that by (simp_all add: parg_word_def)
    then have "cstring tr ?m v bs" using keep by (intro cstring_cong_ld8 [OF c(1)]) blast
    then show ?thesis using c(2) PStr by (simp add: parg_word_def le_supI1)
  qed (use that in \<open>simp add: parg_word_def\<close>)
  have "pargs_at tr (push_args tr (esp + 4) ws ?m) (?rd \<union> rng (esp + 4) ?n) (esp + 4) as'"
  proof (rule Cons.IH [OF l])
    show "rng (esp + 4) ?n \<subseteq> mapped" "?rd \<subseteq> mapped" using Cons.prems(2,3) r(1) by blast+
    show "?rd \<inter> rng (esp + 4) ?n = {}" using Cons.prems(4) r by blast
    show "list_all2 (parg_word tr ?m ?rd) as' ws" using as(3) pw by (rule list_all2_mono)
  qed
  moreover have w: "ld32 tr (push_args tr (esp + 4) ws ?m) esp = w"
  proof -
    have "ld32 tr (push_args tr (esp + 4) ws ?m) esp = ld32 tr ?m esp"
      using r l Cons.prems(2) by (intro ld32_cong_ld8 ld8_push_args) auto
    then show ?thesis using ld32_st32_same [of esp m w] Cons.prems(2) r by auto
  qed
  moreover have "cstring tr (push_args tr (esp + 4) ws ?m) w bs" if "a = PStr bs" for bs
  proof -
    have c: "cstring tr m w bs" "rng w (Suc (length bs)) \<subseteq> rd" using as(2) that by (simp_all add: parg_word_def)
    have "ld8 tr (push_args tr (esp + 4) ws ?m) x = ld8 tr m x" if "x \<in> rng w (Suc (length bs))" for x
    proof -
      have x: "x \<in> rd" using that c(2) by blast
      then have "ld8 tr (push_args tr (esp + 4) ws ?m) x = ld8 tr ?m x"
        using r Cons.prems(2,3,4) by (intro ld8_push_args [OF l]) blast+
      then show ?thesis using keep [OF x] by simp
    qed
    then show ?thesis by (rule cstring_cong_ld8 [OF c(1)])
  qed
  ultimately show ?case
    using as r by (cases a) (auto simp: parg_word_def Un_assoc)
qed simp

lemma call_printf_eq:
  assumes ok: "print_ok mapped pf rd con" and f: "cstring tr m format xs" "rng format (Suc (length xs)) \<subseteq> rd"
    and a: "list_all2 (parg_word tr m rd) as ws" "length ws \<le> 16" and t: "fmt_text None xs as = Some ts"
  shows "\<exists>con' m'. call_printf tr pf format ws (con, m) = Some (con', m') \<and>
    screen_abs tr (con', m') = fold a_putc ts (screen_abs tr (con, m)) \<and> screen_wf con' \<and> scr_mem con' = scr_mem con \<and>
    (\<forall>x \<in> mapped. x \<notin> rng (scr_mem con) 4000 \<union> stack_space pf \<longrightarrow> ld8 tr m' x = ld8 tr m x)"
proof -
  let ?m = "push_args tr (pf_args pf) ws m" and ?A = "rng (pf_args pf) (4 * length ws)"
  have sub: "?A \<subseteq> rng (pf_args pf) 64" using a(2) by (intro rng_mono) simp
  have okD: "screen_wf con" "bufs_ok mapped (pf_bufs pf) con" using ok by (simp_all add: print_ok_def)
  have rdD: "rd \<union> ?A \<subseteq> mapped" "(rd \<union> ?A) \<inter> (rng (scr_mem con) 4000 \<union> buf_space (pf_bufs pf)) = {}"
    using ok sub unfolding print_ok_def stack_space_def by blast+
  have keep: "ld8 tr ?m x = ld8 tr m x" if "x \<in> mapped" "x \<notin> rng (pf_args pf) 64" for x
    using ok sub that by (intro ld8_push_args [OF a(2)]) (auto simp: print_ok_def)
  have "pargs_at tr ?m (rd \<union> ?A) (pf_args pf) as"
    using ok sub by (intro push_args_at a) (auto simp: print_ok_def stack_space_def)
  moreover have "cstring tr ?m format xs"
    using ok f(2) by (intro cstring_cong_ld8 [OF f(1)] keep) (auto simp: print_ok_def stack_space_def)
  ultimately obtain st where st: "printf_loop tr (pf_bufs pf) None format (pf_args pf) (con, ?m) = Some (format + of_nat (length xs), st)"
    "printed tr mapped (pf_bufs pf) ts (con, ?m) st"
    using printf_loop_eq [OF t, of ?m format "rd \<union> ?A" con "pf_bufs pf" "pf_args pf"] okD f(2) rdD by blast
  obtain con' m' where [simp]: "st = (con', m')" by fastforce
  have "screen_abs tr (con, ?m) = screen_abs tr (con, m)"
  proof -
    have "get_cell tr (scr_mem con) (int i) ?m = get_cell tr (scr_mem con) (int i) m" if "i < 2000" for i
    proof -
      have "scr_mem con + of_int (2 * int i) \<in> rng (scr_mem con) 4000" using that by (intro cell_in_rng) auto
      then show ?thesis using ok by (auto simp: get_cell_def print_ok_def bufs_ok_def intro!: keep)
    qed
    then show ?thesis by (simp add: screen_abs_def cells_def)
  qed
  then show ?thesis
    using st keep by (simp add: call_printf_def printf_def printed_def stack_space_def)
qed

end

section \<open>Tables of literals\<close>

text \<open>For the examples: literals of less than 128 characters, one every 128 bytes from \<open>base\<close> on.\<close>

definition lit_mem :: "addr \<Rightarrow> bytes list \<Rightarrow> memory" where
  "lit_mem base bss a =
     (let i = unat (a - base)
      in if i < 128 * length bss \<and> i mod 128 < length (bss ! (i div 128)) then bss ! (i div 128) ! (i mod 128) else 0)"

lemma lit_mem_at:
  assumes "i < length bss" "j < 128" "128 * length bss < 4294967296"
  shows "lit_mem base bss (base + of_nat (128 * i) + of_nat j) = (if j < length (bss ! i) then bss ! i ! j else 0)"
proof -
  have "base + of_nat (128 * i) + of_nat j - base = (of_nat (128 * i + j) :: u32)" by simp
  moreover have "unat (of_nat (128 * i + j) :: u32) = 128 * i + j" using assms by (intro unat_of_nat_u32) linarith
  ultimately have "unat (base + of_nat (128 * i) + of_nat j - base) = 128 * i + j" by (simp only:)
  moreover have "128 * i + j < 128 * length bss" using assms by linarith
  ultimately show ?thesis using assms(2) by (simp only: lit_mem_def Let_def) simp
qed

lemma lit_mem_cstring:
  assumes "i < length bss" "length (bss ! i) < 128" "0 \<notin> set (bss ! i)" "128 * length bss < 4294967296"
  shows "cstring (\<lambda>a. a) (lit_mem base bss) (base + of_nat (128 * i)) (bss ! i)"
    "rng (base + of_nat (128 * i)) (Suc (length (bss ! i))) \<subseteq> rng base (128 * length bss)"
proof -
  have "load_bytes (\<lambda>a. a) (lit_mem base bss) (base + of_nat (128 * i)) (length (bss ! i)) = bss ! i"
    using lit_mem_at [OF assms(1) _ assms(4)] assms(2) by (intro load_bytes_eqI) (auto simp: ld8_def)
  moreover have "ld8 (\<lambda>a. a) (lit_mem base bss) (base + of_nat (128 * i) + of_nat (length (bss ! i))) = 0"
    using lit_mem_at [OF assms(1,2,4)] by (simp add: ld8_def)
  ultimately show "cstring (\<lambda>a. a) (lit_mem base bss) (base + of_nat (128 * i)) (bss ! i)"
    using assms(2,3) by (simp add: cstring_def)
  show "rng (base + of_nat (128 * i)) (Suc (length (bss ! i))) \<subseteq> rng base (128 * length bss)"
    using assms by (intro rng_sub) linarith+
qed

end
