(* ===== verification/Fault.thy ===== *)
theory Fault
  imports System Message
begin

text \<open>
  Exceptions: \<open>fault_handler\<close> and \<open>sys_call_handler\<close> of \<^verbatim>\<open>student-distrib/isr.c\<close>. The handler
  prints a message on the screen of the terminal of the process that caused the exception, with
  the coordinates of that screen put into the static variables of \<^verbatim>\<open>lib.c\<close>, and ends the process
  with status 1.
\<close>

section \<open>The code\<close>

definition exception_messages :: "bytes list" where
  "exception_messages = map lit [
     ''Division by zero'', ''Debugger'', ''NMI'', ''Breakpoint'', ''Overflow'', ''Bounds'', ''Invalid Opcode'',
     ''Coprocessor not availible'', ''Double fault'', ''Coprocessor segment overrun'', ''Invalid TSS'',
     ''Segment not present'', ''Stack fault'', ''General protection fault'', ''Page fault'', ''Unknown interrupt'',
     ''Math fault'', ''Alignment Check'', ''Machine check'', ''Reserved'', ''Reserved'', ''Reserved'', ''Reserved'',
     ''Reserved'', ''Reserved'', ''Reserved'', ''Reserved'', ''Reserved'', ''Reserved'', ''Reserved'', ''Reserved'',
     ''Reserved'']"

text \<open>The members of \<open>struct regs\<close> that the handler reads.\<close>

record regs =
  int_no :: u32
  err_code :: u32

text \<open>The addresses of the literals of \<^verbatim>\<open>isr.c\<close> and of the stack words of the call of \<open>printf\<close>.\<close>

record fault_data =
  fd_format :: addr
  fd_messages :: "addr list"
  fd_syscall :: addr
  fd_stack :: pframe

definition fault_format :: bytes where
  "fault_format = lit ''Process terminated with exception %d: %s (%d)'' @ [10]"

text \<open>
  The source indexes the table of messages without a check. The stubs push the numbers 0 to 31, which
  it has; a number behind the table would read past the array, which is the result \<open>None\<close> here.
\<close>

definition print_fault :: "translation \<Rightarrow> fault_data \<Rightarrow> regs \<Rightarrow> screen_t \<times> memory \<Rightarrow> (screen_t \<times> memory) option" where
  "print_fault tr fd r st =
     (if unat (int_no r) < length (fd_messages fd)
      then call_printf tr (fd_stack fd) (fd_format fd) [int_no r, fd_messages fd ! unat (int_no r), err_code r] st
      else None)"

text \<open>\<open>Spin\<close> is the endless loop at the end of a handler.\<close>

datatype fault_out = Fault_flow flow | Spin

definition fault_handler ::
  "'h machine \<Rightarrow> frame \<Rightarrow> fault_data \<Rightarrow> regs \<Rightarrow> screen_t \<times> 'h kernel \<Rightarrow> (fault_out \<times> screen_t \<times> 'h kernel) option" where
  "fault_handler mc fr fd r = (\<lambda>(con, k).
     if processes (ptab k) \<noteq> 0 then
       let tn = term_num (cur_pcb k);
           scr = screen (get_terminal tn (kbd k));
           con = set_screen_x (scr_x scr) con;
           con = set_screen_y (scr_y scr) con;
           con = set_video_mem (scr_mem scr + PAGE_SIZE * (tn + 1)) con
       in case print_fault (cur_tr mc k) fd r (con, mem k) of None \<Rightarrow> None
          | Some (con, m) \<Rightarrow>
              let scr = \<lparr>scr_x = get_screen_x con, scr_y = get_screen_y con,
                         scr_mem = get_video_mem con - PAGE_SIZE * (tn + 1)\<rparr>;
                  k = k\<lparr>kbd := upd_term (unat tn) (\<lambda>tm. tm\<lparr>screen := scr\<rparr>) (kbd k), mem := m\<rparr>
              in map_option (\<lambda>(fl, k). (Fault_flow fl, con, k)) (halt mc fr 1 k)
     else
       case print_fault (cur_tr mc k) fd r (con, mem k) of None \<Rightarrow> None
       | Some (con, m) \<Rightarrow> Some (Spin, con, k\<lparr>mem := m\<rparr>))"

definition sys_call_handler ::
  "translation \<Rightarrow> fault_data \<Rightarrow> u32 \<Rightarrow> screen_t \<times> memory \<Rightarrow> (fault_out \<times> screen_t \<times> memory) option" where
  "sys_call_handler tr fd syscall st = map_option (Pair Spin) (call_printf tr (fd_stack fd) (fd_syscall fd) [syscall] st)"

section \<open>The message\<close>

definition dec_text :: "u32 \<Rightarrow> bytes" where
  "dec_text v = num_text False 100 v"

definition fault_text :: "regs \<Rightarrow> bytes" where
  "fault_text r = lit ''Process terminated with exception '' @ dec_text (int_no r) @ lit '': '' @
     exception_messages ! unat (int_no r) @ lit '' ('' @ dec_text (err_code r) @ lit '')'' @ [10]"

text \<open>The literals are where the compiler put them, in the region \<open>rd\<close>.\<close>

definition fault_data_ok :: "translation \<Rightarrow> memory \<Rightarrow> addr set \<Rightarrow> fault_data \<Rightarrow> bool" where
  "fault_data_ok tr m rd fd \<longleftrightarrow>
     cstring tr m (fd_format fd) fault_format \<and> rng (fd_format fd) (Suc (length fault_format)) \<subseteq> rd \<and>
     list_all2 (\<lambda>a bs. cstring tr m a bs \<and> rng a (Suc (length bs)) \<subseteq> rd) (fd_messages fd) exception_messages"

lemma length_exception_messages [simp]: "length exception_messages = 32"
  by (simp add: exception_messages_def)

lemma fmt_text_fault:
  "fmt_text None fault_format [PNum i, PStr msg, PNum e] =
     Some (lit ''Process terminated with exception '' @ dec_text i @ lit '': '' @ msg @ lit '' ('' @ dec_text e @ lit '')'' @ [10])"
  by (simp add: fault_format_def dec_text_def fmt_conv_def)

context address_space
begin

lemma print_fault_eq:
  assumes "print_ok mapped (fd_stack fd) rd con" "fault_data_ok tr m rd fd" "unat (int_no r) < 32"
  shows "\<exists>con' m'. print_fault tr fd r (con, m) = Some (con', m') \<and>
    screen_abs tr (con', m') = fold a_putc (fault_text r) (screen_abs tr (con, m)) \<and> screen_wf con' \<and>
    scr_mem con' = scr_mem con \<and>
    (\<forall>x \<in> mapped. x \<notin> rng (scr_mem con) 4000 \<union> stack_space (fd_stack fd) \<longrightarrow> ld8 tr m' x = ld8 tr m x)"
proof -
  let ?n = "unat (int_no r)"
  have l: "length (fd_messages fd) = 32" using assms(2) by (auto simp: fault_data_ok_def dest: list_all2_lengthD)
  have f: "cstring tr m (fd_format fd) fault_format" "rng (fd_format fd) (Suc (length fault_format)) \<subseteq> rd"
    and m: "cstring tr m (fd_messages fd ! ?n) (exception_messages ! ?n)"
      "rng (fd_messages fd ! ?n) (Suc (length (exception_messages ! ?n))) \<subseteq> rd"
    using assms(2,3) l by (auto simp: fault_data_ok_def list_all2_conv_all_nth)
  have "list_all2 (parg_word tr m rd) [PNum (int_no r), PStr (exception_messages ! ?n), PNum (err_code r)]
      [int_no r, fd_messages fd ! ?n, err_code r]"
    using m by (simp add: parg_word_def)
  from call_printf_eq [OF assms(1) f this _ fmt_text_fault] show ?thesis
    using assms(3) l by (simp add: print_fault_def fault_text_def)
qed

end

text \<open>What reaches the parent as the result of \<open>execute\<close> is the status as an \<open>int8_t\<close>.\<close>

lemma execute_return_range: "sint (execute_return status) < 128"
proof -
  have "sint (execute_return status) = sint status" by (simp add: execute_return_def sint_up_scast is_up)
  then show ?thesis using sint_lt [of status] by simp
qed

section \<open>Properties\<close>


text \<open>The running process 2 of \<open>kernel3\<close> has a page fault; the literals are at \<open>0x1000\<close>.\<close>

definition fault_lits :: "bytes list" where
  "fault_lits = exception_messages @ [fault_format]"

definition fault_kernel :: "nat kernel" where
  "fault_kernel = kernel3\<lparr>mem := lit_mem 0x1000 fault_lits\<rparr>"

definition sample_fault :: fault_data where
  "sample_fault = \<lparr>fd_format = 0x1000 + of_nat (128 * 32), fd_messages = map (\<lambda>i. 0x1000 + of_nat (128 * i)) [0..<32],
     fd_syscall = 0, fd_stack = \<lparr>pf_args = 0x10000, pf_bufs = \<lparr>cb_x = 0x11000, cb_u = 0x12000, cb_d = 0x13000\<rparr>\<rparr>\<rparr>"

lemma fault_lits_short: "list_all (\<lambda>bs. length bs < 128 \<and> 0 \<notin> set bs) fault_lits" "length fault_lits = 33"
  by (simp_all add: fault_lits_def exception_messages_def fault_format_def)

lemma fault_lits_at:
  assumes "i < 33"
  shows "cstring (\<lambda>a. a) (lit_mem 0x1000 fault_lits) (0x1000 + of_nat (128 * i)) (fault_lits ! i)"
    "rng (0x1000 + of_nat (128 * i)) (Suc (length (fault_lits ! i))) \<subseteq> rng 0x1000 4224"
  using lit_mem_cstring [of i fault_lits "0x1000"] assms fault_lits_short by (simp_all add: list_all_length)

lemma fault_kernel_tr: "cur_tr sample_machine fault_kernel = (\<lambda>a. a)"
proof -
  have "pg fault_kernel = flat_paging\<lparr>cr3 := pd_row 1\<rparr>" by (simp add: fault_kernel_def kernel3_def)
  then show ?thesis
    using flat_paging_on by (intro cur_tr_flat) (simp_all add: paging_on_def flat_paging_def pd_of_def)
qed

lemma sample_fault_ok: "fault_data_ok (\<lambda>a. a) (lit_mem 0x1000 fault_lits) (rng 0x1000 4224) sample_fault"
proof -
  have "fault_lits ! 32 = fault_format" by (simp add: fault_lits_def nth_append)
  then have f: "cstring (\<lambda>a. a) (lit_mem 0x1000 fault_lits) (0x1000 + of_nat (128 * 32)) fault_format"
    "rng (0x1000 + of_nat (128 * 32)) (Suc (length fault_format)) \<subseteq> rng 0x1000 4224"
    using fault_lits_at [of 32] by simp_all
  have m: "cstring (\<lambda>a. a) (lit_mem 0x1000 fault_lits) (0x1000 + of_nat (128 * i)) (exception_messages ! i) \<and>
    rng (0x1000 + of_nat (128 * i)) (Suc (length (exception_messages ! i))) \<subseteq> rng 0x1000 4224" if "i < 32" for i
  proof -
    have "fault_lits ! i = exception_messages ! i" using that by (simp add: fault_lits_def nth_append)
    then show ?thesis using fault_lits_at [of i] that by simp
  qed
  show ?thesis
    using f m by (simp add: fault_data_ok_def sample_fault_def list_all2_conv_all_nth del: upt_rec_numeral)
qed


end
