(* ===== verification/Userlib.thy ===== *)
theory Userlib
  imports Lib_String
begin

text \<open>
  The library of the user programs, \<^verbatim>\<open>syscalls/ece391support.c\<close> (and its copy under
  \<^verbatim>\<open>fish\<close>): string functions over the memory that the program sees. A scan that finds no
  terminator does not return, which is the result \<open>None\<close>.
\<close>

section \<open>The routines\<close>

partial_function (option) ece391_strlen_loop :: "translation \<Rightarrow> memory \<Rightarrow> addr \<Rightarrow> u32 \<Rightarrow> u32 option" where
  "ece391_strlen_loop tr m s len = (if ld8 tr m s \<noteq> 0 then ece391_strlen_loop tr m (s + 1) (len + 1) else Some len)"

definition ece391_strlen :: "translation \<Rightarrow> memory \<Rightarrow> addr \<Rightarrow> u32 option" where
  "ece391_strlen tr m s = ece391_strlen_loop tr m s 0"

partial_function (option) ece391_strcpy :: "translation \<Rightarrow> memory \<Rightarrow> addr \<Rightarrow> addr \<Rightarrow> memory option" where
  "ece391_strcpy tr m dst src =
     (let c = ld8 tr m src; m = st8 tr m dst c
      in if c \<noteq> 0 then ece391_strcpy tr m (dst + 1) (src + 1) else Some m)"

text \<open>The characters are \<open>uint8_t\<close>; their difference is an \<open>int32_t\<close>.\<close>

partial_function (option) ece391_strcmp :: "translation \<Rightarrow> memory \<Rightarrow> addr \<Rightarrow> addr \<Rightarrow> u32 option" where
  "ece391_strcmp tr m s1 s2 =
     (let c1 = ld8 tr m s1; c2 = ld8 tr m s2
      in if c1 = c2 then if c1 = 0 then Some 0 else ece391_strcmp tr m (s1 + 1) (s2 + 1)
         else Some (ucast c1 - ucast c2))"

partial_function (option) ece391_strncmp_loop :: "translation \<Rightarrow> memory \<Rightarrow> addr \<Rightarrow> addr \<Rightarrow> u32 \<Rightarrow> u32 option" where
  "ece391_strncmp_loop tr m s1 s2 n =
     (let c1 = ld8 tr m s1; c2 = ld8 tr m s2
      in if c1 = c2 then
           if c1 = 0 then Some 0
           else let n = n - 1 in if n = 0 then Some 0 else ece391_strncmp_loop tr m (s1 + 1) (s2 + 1) n
         else Some (ucast c1 - ucast c2))"

definition ece391_strncmp :: "translation \<Rightarrow> memory \<Rightarrow> addr \<Rightarrow> addr \<Rightarrow> u32 \<Rightarrow> u32 option" where
  "ece391_strncmp tr m s1 s2 n = (if n = 0 then Some 0 else ece391_strncmp_loop tr m s1 s2 n)"

text \<open>The loops of \<open>ece391_strrev\<close> and \<open>ece391_itoa\<close> are the ones of \<^verbatim>\<open>lib.c\<close>.\<close>

definition ece391_strrev :: "translation \<Rightarrow> memory \<Rightarrow> addr \<Rightarrow> memory option" where
  "ece391_strrev tr m s =
     (case ece391_strlen tr m s of None \<Rightarrow> None
      | Some len \<Rightarrow> let end = sint (len - 1) in if end \<le> 0 then Some m else Some (strrev_loop tr m s 0 end))"

definition ece391_itoa :: "translation \<Rightarrow> memory \<Rightarrow> u32 \<Rightarrow> addr \<Rightarrow> u32 \<Rightarrow> memory option" where
  "ece391_itoa tr m value buf radix =
     (if value = 0 then Some (st8 tr (st8 tr m buf (of_char CHR ''0'')) (buf + 1) 0)
      else case itoa_loop tr m value buf radix of None \<Rightarrow> None
           | Some (m', newbuf) \<Rightarrow> ece391_strrev tr (st8 tr m' newbuf 0) buf)"

section \<open>The same as in the kernel\<close>

lemma strlen_loop_user:
  assumes "strlen_loop tr m s len = Some r"
  shows "ece391_strlen_loop tr m (s + len) len = Some r"
  using assms
proof (induction rule: strlen_loop.raw_induct [rotated 1, consumes 1, case_names step])
  case (step rec tr m s len r)
  then show ?case by (subst ece391_strlen_loop.simps) (auto simp: add.assoc split: if_splits)
qed

lemma strlen_loop_kernel:
  assumes "ece391_strlen_loop tr m s len = Some r"
  shows "strlen_loop tr m (s - len) len = Some r"
  using assms
proof (induction rule: ece391_strlen_loop.raw_induct [rotated 1, consumes 1, case_names step])
  case (step rec tr m s len r)
  have "s + 1 - (len + 1) = s - len" by simp
  with step show ?case by (subst strlen_loop.simps) (metis diff_add_cancel)
qed

lemma ece391_strlen_eq: "ece391_strlen = strlen"
proof (intro ext)
  fix tr :: translation and m s
  show "ece391_strlen tr m s = strlen tr m s"
  proof (cases "strlen tr m s")
    case None
    then show ?thesis using strlen_loop_kernel [of tr m s 0]
      by (cases "ece391_strlen tr m s") (auto simp: ece391_strlen_def strlen_def)
  next
    case (Some r)
    then show ?thesis using strlen_loop_user [of tr m s 0 r] by (simp add: ece391_strlen_def strlen_def)
  qed
qed

lemma ece391_strrev_eq: "ece391_strrev = strrev"
  by (intro ext) (auto simp: ece391_strrev_def strrev_def ece391_strlen_eq strrev_loop.simps Let_def split: option.split)

lemma ece391_itoa_eq: "ece391_itoa = itoa"
  unfolding ece391_itoa_def itoa_def ece391_strrev_eq by simp

section \<open>Comparison\<close>

lemma cstring_Nil_iff: "cstring tr m s [] \<longleftrightarrow> ld8 tr m s = 0"
  by (simp add: cstring_def)

lemma cstring_Cons_iff:
  "cstring tr m s (c # cs) \<longleftrightarrow> ld8 tr m s = c \<and> c \<noteq> 0 \<and> cstring tr m (s + 1) cs \<and> length cs < 4294967295"
  by (auto simp: cstring_def algebra_simps)

lemma ucast_inj_u8: "ucast (c1 :: u8) = (ucast c2 :: u32) \<longleftrightarrow> c1 = c2"
proof
  assume e: "ucast c1 = (ucast c2 :: u32)"
  have "bit c1 n = bit c2 n" if "n < 8" for n
    using arg_cong [OF e, of "\<lambda>w. bit w n"] that by (simp add: bit_simps)
  then show "c1 = c2" by (intro bit_word_eqI) simp
qed simp

lemma ucast_0_u8: "ucast (c :: u8) = (0 :: u32) \<longleftrightarrow> c = 0"
  using ucast_inj_u8 [of c 0] by simp

text \<open>\<open>ece391_strcmp\<close> returns, and 0 exactly for equal strings.\<close>

lemma ece391_strcmp_eq:
  assumes "cstring tr m s1 xs" "cstring tr m s2 ys"
  shows "\<exists>r. ece391_strcmp tr m s1 s2 = Some r \<and> (r = 0 \<longleftrightarrow> xs = ys)"
  using assms
proof (induction xs arbitrary: s1 s2 ys)
  case Nil
  then show ?case
    by (subst ece391_strcmp.simps) (cases ys; auto simp: Let_def cstring_Nil_iff cstring_Cons_iff ucast_0_u8)
next
  case (Cons c cs)
  then show ?case
    by (subst ece391_strcmp.simps)
      (cases ys; auto simp: Let_def cstring_Nil_iff cstring_Cons_iff ucast_inj_u8 ucast_0_u8)
qed

lemma ece391_strncmp_eq:
  assumes "cstring tr m s1 xs" "cstring tr m s2 ys"
  shows "\<exists>r. ece391_strncmp tr m s1 s2 n = Some r \<and> (r = 0 \<longleftrightarrow> take (unat n) xs = take (unat n) ys)"
proof (cases "n = 0")
  case False
  have "\<exists>r. ece391_strncmp_loop tr m s1 s2 n = Some r \<and> (r = 0 \<longleftrightarrow> take (unat n) xs = take (unat n) ys)" if "n \<noteq> 0"
    using assms that
  proof (induction xs arbitrary: s1 s2 ys n)
    case Nil
    then obtain k where "unat n = Suc k" by (metis not0_implies_Suc unat_eq_zero)
    with Nil show ?case
      by (subst ece391_strncmp_loop.simps) (cases ys; auto simp: Let_def cstring_Nil_iff cstring_Cons_iff ucast_0_u8)
  next
    case (Cons c cs)
    have n: "unat n = Suc (unat (n - 1))" by (rule unat_minus_Suc_u32 [OF Cons.prems(3)])
    show ?case
    proof (cases ys)
      case Nil
      with Cons.prems n show ?thesis
        by (subst ece391_strncmp_loop.simps) (simp add: Let_def cstring_Nil_iff cstring_Cons_iff ucast_0_u8)
    next
      case (Cons d ds)
      show ?thesis
      proof (cases "c = d \<and> n - 1 \<noteq> 0")
        case True
        with Cons Cons.prems Cons.IH [of "s1 + 1" "s2 + 1" ds "n - 1"] n show ?thesis
          by (subst ece391_strncmp_loop.simps) (simp add: Let_def cstring_Cons_iff)
      next
        case False
        with Cons Cons.prems n show ?thesis
          by (subst ece391_strncmp_loop.simps) (auto simp: Let_def cstring_Cons_iff ucast_inj_u8)
      qed
    qed
  qed
  with False show ?thesis by (simp add: ece391_strncmp_def)
qed (simp add: ece391_strncmp_def)

end
