(* ===== verification/Userprog.thy ===== *)
theory Userprog
  imports Userlib "HOL-Library.Monad_Syntax"
begin

text \<open>
  The user programs of \<^verbatim>\<open>src/syscalls\<close>: \<open>cat\<close>, \<open>ls\<close>, \<open>hello\<close>, \<open>counter\<close>,
  \<open>testprint\<close>, the shell and the error tests \<open>syserr\<close>, over an operating system that they see through
  memory and \<open>int 0x80\<close> only. The interface of the system is the record \<open>os\<close>. Theory \<open>Contract\<close>
  states what the programs rely on and proves them on it, and theory \<open>Userkernel\<close> shows that the kernel
  of this development keeps that contract.
\<close>

section \<open>The operating system as a program sees it\<close>

text \<open>
  \<open>o_int80\<close> takes \<open>eax\<close>, \<open>ebx\<close>, \<open>ecx\<close> and \<open>edx\<close> and gives \<open>eax\<close> at the return; it is \<open>None\<close> for a
  call that does not come back. \<open>o_lit\<close> is the address of a string literal of the program. The
  wrappers of \<^verbatim>\<open>ece391syscall.S\<close> load three words from the stack whatever the number of arguments:
  \<open>o_above\<close> are the words that lie above them.
\<close>

record 's os =
  o_tr :: "'s \<Rightarrow> translation"
  o_mem :: "'s \<Rightarrow> memory"
  o_set_mem :: "memory \<Rightarrow> 's \<Rightarrow> 's"
  o_int80 :: "u32 \<Rightarrow> u32 \<Rightarrow> u32 \<Rightarrow> u32 \<Rightarrow> 's \<Rightarrow> (u32 \<times> 's) option"
  o_lit :: "string \<Rightarrow> addr"
  o_above :: "nat \<Rightarrow> u32"

definition get8 :: "'s os \<Rightarrow> 's \<Rightarrow> addr \<Rightarrow> u8" where
  "get8 os s a = ld8 (o_tr os s) (o_mem os s) a"

definition put8 :: "'s os \<Rightarrow> addr \<Rightarrow> u8 \<Rightarrow> 's \<Rightarrow> 's" where
  "put8 os a v s = o_set_mem os (st8 (o_tr os s) (o_mem os s) a v) s"

definition ece391_execute :: "'s os \<Rightarrow> addr \<Rightarrow> 's \<Rightarrow> (u32 \<times> 's) option" where
  "ece391_execute os command = o_int80 os 2 command (o_above os 0) (o_above os 1)"

definition ece391_read :: "'s os \<Rightarrow> u32 \<Rightarrow> addr \<Rightarrow> u32 \<Rightarrow> 's \<Rightarrow> (u32 \<times> 's) option" where
  "ece391_read os fd buf nbytes = o_int80 os 3 fd buf nbytes"

definition ece391_write :: "'s os \<Rightarrow> u32 \<Rightarrow> addr \<Rightarrow> u32 \<Rightarrow> 's \<Rightarrow> (u32 \<times> 's) option" where
  "ece391_write os fd buf nbytes = o_int80 os 4 fd buf nbytes"

definition ece391_open :: "'s os \<Rightarrow> addr \<Rightarrow> 's \<Rightarrow> (u32 \<times> 's) option" where
  "ece391_open os filename = o_int80 os 5 filename (o_above os 0) (o_above os 1)"

definition ece391_close :: "'s os \<Rightarrow> u32 \<Rightarrow> 's \<Rightarrow> (u32 \<times> 's) option" where
  "ece391_close os fd = o_int80 os 6 fd (o_above os 0) (o_above os 1)"

definition ece391_getargs :: "'s os \<Rightarrow> addr \<Rightarrow> u32 \<Rightarrow> 's \<Rightarrow> (u32 \<times> 's) option" where
  "ece391_getargs os buf nbytes = o_int80 os 7 buf nbytes (o_above os 0)"

definition ece391_vidmap :: "'s os \<Rightarrow> addr \<Rightarrow> 's \<Rightarrow> (u32 \<times> 's) option" where
  "ece391_vidmap os screen_start = o_int80 os 8 screen_start (o_above os 0) (o_above os 1)"

definition ece391_fdputs :: "'s os \<Rightarrow> u32 \<Rightarrow> addr \<Rightarrow> 's \<Rightarrow> 's option" where
  "ece391_fdputs os fd str s = do {
     len \<leftarrow> ece391_strlen (o_tr os s) (o_mem os s) str;
     (_, s) \<leftarrow> ece391_write os fd str len s;
     Some s }"

text \<open>A literal printed on descriptor 1.\<close>

definition put_lit :: "'s os \<Rightarrow> string \<Rightarrow> 's \<Rightarrow> 's option" where
  "put_lit os l = ece391_fdputs os 1 (o_lit os l)"

section \<open>The programs\<close>

text \<open>Local arrays are arguments; their addresses are the choice of the compiler.\<close>

partial_function (option) cat_loop :: "'s os \<Rightarrow> addr \<Rightarrow> u32 \<Rightarrow> 's \<Rightarrow> (u32 \<times> 's) option" where
  "cat_loop os buf fd s = do {
     (cnt, s) \<leftarrow> ece391_read os fd buf 1024 s;
     if cnt = 0 then Some (0, s)
     else if cnt = -1 then do { s \<leftarrow> put_lit os ''file read failed\<newline>'' s; Some (3, s) }
     else do {
       (r, s) \<leftarrow> ece391_write os 1 buf cnt s;
       if r = -1 then Some (3, s) else cat_loop os buf fd s } }"

definition cat_main :: "'s os \<Rightarrow> addr \<Rightarrow> 's \<Rightarrow> (u32 \<times> 's) option" where
  "cat_main os buf s = do {
     (r, s) \<leftarrow> ece391_getargs os buf 1024 s;
     if r \<noteq> 0 then do { s \<leftarrow> put_lit os ''could not read arguments\<newline>'' s; Some (3, s) }
     else do {
       (fd, s) \<leftarrow> ece391_open os buf s;
       if fd = -1 then do { s \<leftarrow> put_lit os ''file not found\<newline>'' s; Some (2, s) }
       else cat_loop os buf fd s } }"

partial_function (option) ls_loop :: "'s os \<Rightarrow> addr \<Rightarrow> u32 \<Rightarrow> 's \<Rightarrow> (u32 \<times> 's) option" where
  "ls_loop os buf fd s = do {
     (cnt, s) \<leftarrow> ece391_read os fd buf 32 s;
     if cnt = 0 then Some (0, s)
     else if cnt = -1 then do { s \<leftarrow> put_lit os ''directory entry read failed\<newline>'' s; Some (3, s) }
     else do {
       let s = put8 os (buf + cnt) 10 s;
       (r, s) \<leftarrow> ece391_write os 1 buf (cnt + 1) s;
       if r = -1 then Some (3, s) else ls_loop os buf fd s } }"

definition ls_main :: "'s os \<Rightarrow> addr \<Rightarrow> 's \<Rightarrow> (u32 \<times> 's) option" where
  "ls_main os buf s = do {
     (fd, s) \<leftarrow> ece391_open os (o_lit os ''.'') s;
     if fd = -1 then do { s \<leftarrow> put_lit os ''directory open failed\<newline>'' s; Some (2, s) }
     else ls_loop os buf fd s }"

definition hello_main :: "'s os \<Rightarrow> addr \<Rightarrow> 's \<Rightarrow> (u32 \<times> 's) option" where
  "hello_main os buf s = do {
     s \<leftarrow> put_lit os ''Hi, what's your name? '' s;
     (cnt, s) \<leftarrow> ece391_read os 0 buf 1023 s;
     if cnt = -1 then do { s \<leftarrow> put_lit os ''Can't read name from keyboard.\<newline>'' s; Some (3, s) }
     else do {
       let s = put8 os (buf + cnt) 0 s;
       s \<leftarrow> put_lit os ''Hello, '' s;
       s \<leftarrow> ece391_fdputs os 1 buf s;
       Some (0, s) } }"

definition testprint_main :: "'s os \<Rightarrow> 's \<Rightarrow> (u32 \<times> 's) option" where
  "testprint_main os s = do {
     s \<leftarrow> put_lit os ''Hello, if this ran, the program was correct. Yay!\<newline>'' s;
     Some (0, s) }"

text \<open>\<open>limit\<close> is the variable \<open>max\<close> of the source.\<close>

partial_function (option) counter_loop :: "'s os \<Rightarrow> addr \<Rightarrow> u32 \<Rightarrow> u32 \<Rightarrow> 's \<Rightarrow> 's option" where
  "counter_loop os buf limit i s =
     (if i < limit then do {
        m \<leftarrow> ece391_itoa (o_tr os s) (o_mem os s) (i + 1) buf 10;
        s \<leftarrow> ece391_fdputs os 1 buf (o_set_mem os m s);
        s \<leftarrow> put_lit os ''\<newline>'' s;
        counter_loop os buf limit (i + 1) s }
      else Some s)"

definition counter_main :: "'s os \<Rightarrow> addr \<Rightarrow> 's \<Rightarrow> (u32 \<times> 's) option" where
  "counter_main os buf s = do {
     s \<leftarrow> put_lit os ''Enter the Test Number: (0): 100, (1): 10000, (2): 100000\<newline>'' s;
     (cnt, s) \<leftarrow> ece391_read os 0 buf 1023 s;
     if cnt = -1 then do { s \<leftarrow> put_lit os ''Can't read the number from keyboard.\<newline>'' s; Some (3, s) }
     else do {
       let s = put8 os (buf + cnt) 0 s;
       len \<leftarrow> ece391_strlen (o_tr os s) (o_mem os s) buf;
       let c = get8 os s buf;
       if len > 2 \<or> len = 2 \<and> (c < of_char CHR ''0'' \<or> c > of_char CHR ''2'')
       then do { s \<leftarrow> put_lit os ''Wrong Choice!\<newline>'' s; Some (0, s) }
       else do {
         let limit = (if c = of_char CHR ''0'' then 100 else if c = of_char CHR ''1'' then 10000
                    else if c = of_char CHR ''2'' then 100000 else 0);
         s \<leftarrow> counter_loop os buf limit 0 s;
         Some (0, s) } } }"

text \<open>The shell; its loop ends only by \<open>exit\<close> or an error of the keyboard.\<close>

partial_function (option) shell_main_loop :: "'s os \<Rightarrow> addr \<Rightarrow> 's \<Rightarrow> (u32 \<times> 's) option" where
  "shell_main_loop os buf s = do {
     s \<leftarrow> put_lit os ''391OS> '' s;
     (cnt, s) \<leftarrow> ece391_read os 0 buf 1023 s;
     if cnt = -1 then do { s \<leftarrow> put_lit os ''read from keyboard failed\<newline>'' s; Some (3, s) }
     else do {
       let cnt = (if sint cnt > 0 \<and> get8 os s (buf + (cnt - 1)) = 10 then cnt - 1 else cnt);
       let s = put8 os (buf + cnt) 0 s;
       r \<leftarrow> ece391_strcmp (o_tr os s) (o_mem os s) buf (o_lit os ''exit'');
       if r = 0 then Some (0, s)
       else if get8 os s buf = 0 then shell_main_loop os buf s
       else do {
         (rval, s) \<leftarrow> ece391_execute os buf s;
         s \<leftarrow> (if rval = -1 then put_lit os ''no such command\<newline>'' s
               else if rval = 256 then put_lit os ''program terminated by exception\<newline>'' s
               else if rval \<noteq> 0 then put_lit os ''program terminated abnormally\<newline>'' s
               else Some s);
         shell_main_loop os buf s } } }"

definition shell_main :: "'s os \<Rightarrow> addr \<Rightarrow> 's \<Rightarrow> (u32 \<times> 's) option" where
  "shell_main os buf s = do {
     s \<leftarrow> put_lit os ''Starting 391 Shell\<newline>'' s;
     shell_main_loop os buf s }"

text \<open>
  The error tests. \<open>check_fails\<close> is the pattern \<open>if (-1 != call) { fail = 2; ece391_fdputs(...); }\<close>,
  \<open>verdict\<close> the message at the end of a test.
\<close>

definition check_fails :: "'s os \<Rightarrow> string \<Rightarrow> u32 \<Rightarrow> (u32 \<times> 's) option \<Rightarrow> (u32 \<times> 's) option" where
  "check_fails os msg fail call = do {
     (r, s) \<leftarrow> call;
     if r \<noteq> -1 then do { s \<leftarrow> put_lit os msg s; Some (2, s) } else Some (fail, s) }"

definition verdict :: "'s os \<Rightarrow> string \<Rightarrow> string \<Rightarrow> u32 \<Rightarrow> 's \<Rightarrow> (u32 \<times> 's) option" where
  "verdict os failed passed fail s = do {
     s \<leftarrow> put_lit os (if fail \<noteq> 0 then failed else passed) s;
     Some (fail, s) }"

fun check_each :: "'s os \<Rightarrow> string \<Rightarrow> (u32 \<Rightarrow> 's \<Rightarrow> (u32 \<times> 's) option) \<Rightarrow> u32 list \<Rightarrow> u32 \<Rightarrow> 's \<Rightarrow> (u32 \<times> 's) option" where
  "check_each os msg call [] fail s = Some (fail, s)"
| "check_each os msg call (i # is) fail s = do {
     (fail, s) \<leftarrow> check_fails os msg fail (call i s);
     check_each os msg call is fail s }"

abbreviation (input) NEG_FD :: u32 where "NEG_FD \<equiv> -1073741823"
abbreviation (input) BIG_FD :: u32 where "BIG_FD \<equiv> 1073741823"
abbreviation (input) BIG_NUM :: u32 where "BIG_NUM \<equiv> 1073741823"
abbreviation (input) NEG_NUM :: u32 where "NEG_NUM \<equiv> -1073741823"

definition call_sys :: "'s os \<Rightarrow> u32 \<Rightarrow> 's \<Rightarrow> (u32 \<times> 's) option" where
  "call_sys os num = o_int80 os num (o_above os 0) (o_above os 1) (o_above os 2)"

definition err_neg_fd :: "'s os \<Rightarrow> addr \<Rightarrow> 's \<Rightarrow> (u32 \<times> 's) option" where
  "err_neg_fd os buf s = do {
     (fail, s) \<leftarrow> check_fails os ''read fail\<newline>'' 0 (ece391_read os NEG_FD buf 31 s);
     (fail, s) \<leftarrow> check_fails os ''write fail\<newline>'' fail (ece391_write os NEG_FD buf 31 s);
     (fail, s) \<leftarrow> check_fails os ''close fail\<newline>'' fail (ece391_close os NEG_FD s);
     verdict os ''err_neg_fd: FAIL\<newline>'' ''err_neg_fd: PASS\<newline>'' fail s }"

definition err_big_fd :: "'s os \<Rightarrow> addr \<Rightarrow> 's \<Rightarrow> (u32 \<times> 's) option" where
  "err_big_fd os buf s = do {
     (fail, s) \<leftarrow> check_fails os ''read fail\<newline>'' 0 (ece391_read os BIG_FD buf 31 s);
     (fail, s) \<leftarrow> check_fails os ''write fail\<newline>'' fail (ece391_write os BIG_FD buf 31 s);
     (fail, s) \<leftarrow> check_fails os ''close fail\<newline>'' fail (ece391_close os BIG_FD s);
     verdict os ''err_big_fd: FAIL\<newline>'' ''err_big_fd: PASS\<newline>'' fail s }"

fun open_lots :: "'s os \<Rightarrow> nat \<Rightarrow> u32 \<Rightarrow> 's \<Rightarrow> (u32 \<times> 's) option" where
  "open_lots os 0 cnt s = Some (cnt, s)"
| "open_lots os (Suc n) cnt s = do {
     (r, s) \<leftarrow> ece391_open os (o_lit os ''.'') s;
     open_lots os n (if r = -1 then cnt + 1 else cnt) s }"

fun close_each :: "'s os \<Rightarrow> u32 list \<Rightarrow> 's \<Rightarrow> 's option" where
  "close_each os [] s = Some s"
| "close_each os (i # is) s = do {
     (_, s) \<leftarrow> ece391_close os i s;
     close_each os is s }"

definition err_open_lots :: "'s os \<Rightarrow> 's \<Rightarrow> (u32 \<times> 's) option" where
  "err_open_lots os s = do {
     (cnt, s) \<leftarrow> open_lots os 7 0 s;
     s \<leftarrow> close_each os (map of_nat [2..<8]) s;
     if cnt = 1 then do { s \<leftarrow> put_lit os ''err_open_lots: PASS\<newline>'' s; Some (0, s) }
     else do { s \<leftarrow> put_lit os ''err_open_lots: FAIL\<newline>'' s; Some (2, s) } }"

definition err_open :: "'s os \<Rightarrow> 's \<Rightarrow> (u32 \<times> 's) option" where
  "err_open os s = do {
     (fail, s) \<leftarrow> check_fails os '''helloo' fail\<newline>'' 0 (ece391_open os (o_lit os ''helloo'') s);
     (fail, s) \<leftarrow> check_fails os '''shel' fail\<newline>'' fail (ece391_open os (o_lit os ''shel'') s);
     (fail, s) \<leftarrow> check_fails os ''empty string fail\<newline>'' fail (ece391_open os (o_lit os '''') s);
     verdict os ''err_open: FAIL\<newline>'' ''err_open: PASS\<newline>'' fail s }"

definition err_unopened :: "'s os \<Rightarrow> addr \<Rightarrow> 's \<Rightarrow> (u32 \<times> 's) option" where
  "err_unopened os buf s = do {
     (fail, s) \<leftarrow> check_each os ''close unopened or invalid fd fail\<newline>'' (ece391_close os) (map of_nat [0..<8]) 0 s;
     (fail, s) \<leftarrow> check_each os ''read from unopened fd fail\<newline>'' (\<lambda>i. ece391_read os i buf 31) (map of_nat [2..<8]) fail s;
     (fail, s) \<leftarrow> check_each os ''write to unopened fd fail\<newline>'' (\<lambda>i. ece391_write os i buf 31) (map of_nat [2..<8]) fail s;
     verdict os ''err_unopened: FAIL\<newline>'' ''err_unopened: PASS\<newline>'' fail s }"

definition err_vidmap :: "'s os \<Rightarrow> 's \<Rightarrow> (u32 \<times> 's) option" where
  "err_vidmap os s = do {
     (fail, s) \<leftarrow> check_fails os ''Null pointer fail\<newline>'' 0 (ece391_vidmap os 0x0 s);
     (fail, s) \<leftarrow> check_fails os ''Kernel pointer fail fail\<newline>'' fail (ece391_vidmap os 0x400000 s);
     verdict os ''err_vidmap: FAIL\<newline>'' ''err_vidmap: PASS\<newline>'' fail s }"

definition err_stdin_out :: "'s os \<Rightarrow> addr \<Rightarrow> 's \<Rightarrow> (u32 \<times> 's) option" where
  "err_stdin_out os buf s = do {
     (fail, s) \<leftarrow> check_fails os ''write to stdin fail\<newline>'' 0 (ece391_write os 0 buf 31 s);
     (fail, s) \<leftarrow> check_fails os ''read from stdout fail\<newline>'' fail (ece391_read os 1 buf 31 s);
     verdict os ''err_stdin_out: FAIL\<newline>'' ''err_stdin_out: PASS\<newline>'' fail s }"

definition err_syscall_num :: "'s os \<Rightarrow> 's \<Rightarrow> (u32 \<times> 's) option" where
  "err_syscall_num os s = do {
     (fail, s) \<leftarrow> check_fails os ''syscall 0 fail\<newline>'' 0 (call_sys os BIG_NUM s);
     (fail, s) \<leftarrow> check_fails os ''big num syscall fail\<newline>'' fail (call_sys os NEG_NUM s);
     (fail, s) \<leftarrow> check_fails os ''neg num syscall fail\<newline>'' fail (call_sys os 0 s);
     verdict os ''err_syscall_num: FAIL\<newline>'' ''err_syscall_num: PASS\<newline>'' fail s }"

text \<open>All tests, the case 0 of \<open>main\<close>, and \<open>main\<close>; \<open>select\<close> is the difference of the promoted characters.\<close>

definition syserr_all :: "'s os \<Rightarrow> addr \<Rightarrow> 's \<Rightarrow> (u32 \<times> 's) option" where
  "syserr_all os buf s = do {
     (f1, s) \<leftarrow> err_neg_fd os buf s;
     (f2, s) \<leftarrow> err_big_fd os buf s;
     (f3, s) \<leftarrow> err_open_lots os s;
     (f4, s) \<leftarrow> err_open os s;
     (f5, s) \<leftarrow> err_unopened os buf s;
     (f6, s) \<leftarrow> err_vidmap os s;
     (f7, s) \<leftarrow> err_stdin_out os buf s;
     (f8, s) \<leftarrow> err_syscall_num os s;
     verdict os ''\<newline>Overall Tests: FAIL\<newline>'' ''\<newline>Overall Tests: PASS\<newline>'' (f1 + f2 + f3 + f4 + f5 + f6 + f7 + f8) s }"

definition syserr_main :: "'s os \<Rightarrow> addr \<Rightarrow> addr \<Rightarrow> 's \<Rightarrow> (u32 \<times> 's) option" where
  "syserr_main os buf test_buf s = do {
     s \<leftarrow> put_lit os ''Choose from tests 1-8. 0 to run all: '' s;
     (cnt, s) \<leftarrow> ece391_read os 0 buf 127 s;
     if cnt = -1 then do { s \<leftarrow> put_lit os ''Can't read test #\<newline>'' s; Some (2, s) }
     else
       let select = ucast (get8 os s buf) - ucast (of_char CHR ''0'' :: u8) :: u32
       in if select = 0 then syserr_all os test_buf s
          else if select = 1 then err_neg_fd os test_buf s
          else if select = 2 then err_big_fd os test_buf s
          else if select = 3 then err_open_lots os s
          else if select = 4 then err_open os s
          else if select = 5 then err_unopened os test_buf s
          else if select = 6 then err_vidmap os s
          else if select = 7 then err_stdin_out os test_buf s
          else if select = 8 then err_syscall_num os s
          else do { s \<leftarrow> put_lit os ''Invalid test number. Choose from tests 1-8 or 0'' s; Some (0, s) } }"

end
