(* ===== verification/Contract.thy ===== *)
theory Contract
  imports Userprog
begin

text \<open>
  The contract between the user programs and the operating system, as the locale \<open>user_os\<close>: what
  each system call that the programs make does to what a program can observe, and what it leaves
  alone. The programs of theory \<open>Userprog\<close> are proved once, inside the locale.
\<close>

section \<open>The contract of the system\<close>

lemma cstring_view:
  assumes "cstring tr m a bs" "\<And>x. x \<in> rng a (Suc (length bs)) \<Longrightarrow> ld8 tr' m' x = ld8 tr m x"
  shows "cstring tr' m' a bs"
proof -
  have l: "length bs < 4294967296" using assms(1) by (simp add: cstring_def)
  then have "ld8 tr' m' (a + of_nat i) = ld8 tr m (a + of_nat i)" if "i \<le> length bs" for i
    using that by (intro assms(2) rng_offset) auto
  then show ?thesis using assms(1) by (auto simp: cstring_def intro!: load_bytes_eqI) (metis nth_load_bytes order_less_imp_le)
qed

text \<open>
  What a program can observe of the system: the output of its terminal, its open descriptors and its
  arguments. An open file is the part of it that has not been read; a directory is read entry by entry.
  Of a \<open>Device\<close> nothing is promised; a directory behind its end is one too, because its position goes
  on counting there and wraps around in the end.
\<close>

datatype ufile = Data bytes | Entries "bytes list" | Device

record 'o ustate =
  us_out :: 'o
  us_files :: "nat \<Rightarrow> ufile option"
  us_args :: bytes

fun u_read :: "nat \<Rightarrow> ufile \<Rightarrow> bytes \<times> ufile" where
  "u_read n (Data bs) = (take n bs, Data (drop n bs))"
| "u_read n (Entries []) = ([], Device)"
| "u_read n (Entries (x # xs)) = (take n x, Entries xs)"
| "u_read n Device = ([], Device)"

text \<open>
  The extent of the buffer that a read may store to: a read of a directory entry stores a newline and
  a terminator behind the bytes that it returns, behind the last entry it stores nothing.
\<close>

fun u_extent :: "nat \<Rightarrow> ufile \<Rightarrow> nat" where
  "u_extent n (Entries []) = 0"
| "u_extent n (Entries (x # xs)) = length (take n x) + 2"
| "u_extent n f = n"

definition us_free :: "(nat \<Rightarrow> ufile option) \<Rightarrow> nat option" where
  "us_free fs = find (\<lambda>i. fs i = None) [2..<8]"

definition keeps :: "'s os \<Rightarrow> addr set \<Rightarrow> 's \<Rightarrow> 's \<Rightarrow> bool" where
  "keeps os R s s' \<longleftrightarrow> (\<forall>x \<in> R. get8 os s' x = get8 os s x)"

definition str_at :: "'s os \<Rightarrow> 's \<Rightarrow> addr \<Rightarrow> bytes \<Rightarrow> bool" where
  "str_at os s a bs \<longleftrightarrow> cstring (o_tr os s) (o_mem os s) a bs"

definition bytes_at :: "'s os \<Rightarrow> 's \<Rightarrow> addr \<Rightarrow> nat \<Rightarrow> bytes" where
  "bytes_at os s a n = load_bytes (o_tr os s) (o_mem os s) a n"

text \<open>The literals of a program lie in a region \<open>R\<close> that it does not write to.\<close>

definition lits_at :: "'s os \<Rightarrow> addr set \<Rightarrow> string list \<Rightarrow> 's \<Rightarrow> bool" where
  "lits_at os R L s \<longleftrightarrow> (\<forall>l \<in> set L. rng (o_lit os l) (Suc (length l)) \<subseteq> R \<and> str_at os s (o_lit os l) (lit l))"

definition emits :: "(u8 \<Rightarrow> 'o \<Rightarrow> 'o) \<Rightarrow> bytes \<Rightarrow> 'o ustate \<Rightarrow> 'o ustate" where
  "emits emit bs u = u\<lparr>us_out := fold emit bs (us_out u)\<rparr>"

lemma us_freeD: "us_free fs = Some i \<Longrightarrow> 2 \<le> i \<and> i < 8 \<and> fs i = None"
  using find_upt_Some [of "\<lambda>i. fs i = None" 2 8 i] by (simp add: us_free_def del: upt_rec_numeral)

lemma small_not_minus1: "n < 4294967295 \<Longrightarrow> of_nat n \<noteq> (-1 :: u32)"
  using unat_of_nat_u32 [of n] unat_minus1_u32 by auto

locale user_os =
  fixes os :: "'s os" and inv :: "'s \<Rightarrow> bool" and img :: "addr set" and abs :: "'s \<Rightarrow> 'o ustate"
    and emit :: "u8 \<Rightarrow> 'o \<Rightarrow> 'o" and dir :: "bytes \<Rightarrow> ufile option"
  assumes space: "inv s \<Longrightarrow> inj_on (o_tr os s) img \<and> 0 \<notin> img"
    and set_mem: "inv s \<Longrightarrow> (\<And>p. p \<notin> o_tr os s ` img \<Longrightarrow> m p = o_mem os s p) \<Longrightarrow>
      inv (o_set_mem os m s) \<and> abs (o_set_mem os m s) = abs s \<and>
      o_mem os (o_set_mem os m s) = m \<and> o_tr os (o_set_mem os m s) = o_tr os s"
    and write_out: "inv s \<Longrightarrow> buf \<in> img \<Longrightarrow> rng buf (unat n) \<subseteq> img \<Longrightarrow> unat n < 2147483648 \<Longrightarrow>
      \<exists>s'. ece391_write os 1 buf n s = Some (n, s') \<and> inv s' \<and> keeps os img s s' \<and>
        abs s' = emits emit (bytes_at os s buf (unat n)) (abs s)"
    and write_bad: "inv s \<Longrightarrow>
      sint fd < 0 \<or> fd = 0 \<or> sint fd \<ge> 8 \<or> fd \<noteq> 1 \<and> us_files (abs s) (unat fd) = None \<Longrightarrow>
      \<exists>s'. ece391_write os fd buf n s = Some (-1, s') \<and> inv s' \<and> keeps os img s s' \<and> abs s' = abs s"
    and read_file: "inv s \<Longrightarrow> 2 \<le> i \<Longrightarrow> i < 8 \<Longrightarrow> us_files (abs s) i = Some f \<Longrightarrow> f \<noteq> Device \<Longrightarrow> u_read (unat n) f = (d, f') \<Longrightarrow>
      rng buf (u_extent (unat n) f) \<subseteq> img \<Longrightarrow>
      \<exists>s'. ece391_read os (of_nat i) buf n s = Some (of_nat (length d), s') \<and> inv s' \<and>
        keeps os (img - rng buf (u_extent (unat n) f)) s s' \<and> bytes_at os s' buf (length d) = d \<and>
        abs s' = (abs s)\<lparr>us_files := (us_files (abs s))(i \<mapsto> f')\<rparr>"
    and read_bad: "inv s \<Longrightarrow>
      sint fd < 0 \<or> fd = 1 \<or> sint fd \<ge> 8 \<or> fd \<noteq> 0 \<and> us_files (abs s) (unat fd) = None \<Longrightarrow>
      \<exists>s'. ece391_read os fd buf n s = Some (-1, s') \<and> inv s' \<and> keeps os img s s' \<and> abs s' = abs s"
    and open_file: "inv s \<Longrightarrow> str_at os s a xs \<Longrightarrow> rng a (Suc (length xs)) \<subseteq> img \<Longrightarrow>
      us_free (us_files (abs s)) = Some i \<Longrightarrow> dir xs = Some f \<Longrightarrow>
      \<exists>s'. ece391_open os a s = Some (of_nat i, s') \<and> inv s' \<and> keeps os img s s' \<and>
        abs s' = (abs s)\<lparr>us_files := (us_files (abs s))(i \<mapsto> f)\<rparr>"
    and open_none: "inv s \<Longrightarrow> str_at os s a xs \<Longrightarrow> rng a (Suc (length xs)) \<subseteq> img \<Longrightarrow>
      us_free (us_files (abs s)) = None \<or> dir xs = None \<Longrightarrow>
      \<exists>s'. ece391_open os a s = Some (-1, s') \<and> inv s' \<and> keeps os img s s' \<and> abs s' = abs s"
    and close_file: "inv s \<Longrightarrow> 2 \<le> i \<Longrightarrow> i < 8 \<Longrightarrow> us_files (abs s) i \<noteq> None \<Longrightarrow>
      \<exists>s'. ece391_close os (of_nat i) s = Some (0, s') \<and> inv s' \<and> keeps os img s s' \<and>
        abs s' = (abs s)\<lparr>us_files := (us_files (abs s))(i := None)\<rparr>"
    and close_bad: "inv s \<Longrightarrow> sint fd < 2 \<or> sint fd \<ge> 8 \<or> us_files (abs s) (unat fd) = None \<Longrightarrow>
      \<exists>s'. ece391_close os fd s = Some (-1, s') \<and> inv s' \<and> keeps os img s s' \<and> abs s' = abs s"
    and getargs: "inv s \<Longrightarrow> length (us_args (abs s)) < unat n \<Longrightarrow> rng buf (Suc (length (us_args (abs s)))) \<subseteq> img \<Longrightarrow>
      \<exists>s'. ece391_getargs os buf n s = Some (0, s') \<and> inv s' \<and> str_at os s' buf (us_args (abs s)) \<and>
        keeps os (img - rng buf (Suc (length (us_args (abs s))))) s s' \<and> abs s' = abs s"
    and vidmap_bad: "inv s \<Longrightarrow> sint a < 0x8000000 \<or> sint a \<ge> 0x8400000 \<Longrightarrow>
      \<exists>s'. ece391_vidmap os a s = Some (-1, s') \<and> inv s' \<and> keeps os img s s' \<and> abs s' = abs s"
    and number_bad: "inv s \<Longrightarrow> eax = 0 \<or> eax > 10 \<Longrightarrow>
      \<exists>s'. o_int80 os eax ebx ecx edx s = Some (-1, s') \<and> inv s' \<and> keeps os img s s' \<and> abs s' = abs s"
begin

lemma keeps_trans: "keeps os R s s' \<Longrightarrow> keeps os R s' s'' \<Longrightarrow> keeps os R s s''"
  by (simp add: keeps_def)

lemma keeps_mono: "keeps os R s s' \<Longrightarrow> R' \<subseteq> R \<Longrightarrow> keeps os R' s s'"
  by (auto simp: keeps_def)

lemma keeps_bytes: "keeps os R s s' \<Longrightarrow> rng a n \<subseteq> R \<Longrightarrow> n \<le> 4294967296 \<Longrightarrow> bytes_at os s' a n = bytes_at os s a n"
  unfolding bytes_at_def keeps_def get8_def by (rule load_bytes_eqI) (auto simp: rng_offset subset_iff)

lemma keeps_str: "str_at os s a bs \<Longrightarrow> keeps os R s s' \<Longrightarrow> rng a (Suc (length bs)) \<subseteq> R \<Longrightarrow> str_at os s' a bs"
  unfolding str_at_def keeps_def get8_def by (erule cstring_view) auto

lemma keeps_lits: "lits_at os R L s \<Longrightarrow> keeps os R s s' \<Longrightarrow> lits_at os R L s'"
  unfolding lits_at_def using keeps_str [of s _ _ R s'] by fastforce

lemma write_bytes:
  assumes "inv s" "bytes_at os s buf (length d) = d" "buf \<in> img" "rng buf (length d) \<subseteq> img" "length d < 2147483648"
  shows "\<exists>s'. ece391_write os 1 buf (of_nat (length d)) s = Some (of_nat (length d), s') \<and> inv s' \<and> keeps os img s s' \<and>
    abs s' = emits emit d (abs s)"
proof -
  have "unat (of_nat (length d) :: u32) = length d" using assms(5) by (simp add: unat_of_nat_u32)
  then show ?thesis using write_out [OF assms(1,3), of "of_nat (length d)"] assms(2,4,5) by simp
qed

lemma fdputs_ok:
  assumes "inv s" "str_at os s a bs" "rng a (Suc (length bs)) \<subseteq> img" "length bs < 2147483648"
  shows "\<exists>s'. ece391_fdputs os 1 a s = Some s' \<and> inv s' \<and> keeps os img s s' \<and> abs s' = emits emit bs (abs s)"
proof -
  have "a \<in> rng a (Suc (length bs))" "rng a (length bs) \<subseteq> rng a (Suc (length bs))" by (auto simp: rng_def)
  moreover have "bytes_at os s a (length bs) = bs" using assms(2) by (simp add: str_at_def bytes_at_def cstring_def)
  ultimately obtain s' where "ece391_write os 1 a (of_nat (length bs)) s = Some (of_nat (length bs), s')"
    "inv s'" "keeps os img s s'" "abs s' = emits emit bs (abs s)"
    using write_bytes [OF assms(1) _ _ _ assms(4), of a] assms(3) by blast
  then show ?thesis
    using strlen_cstring [of "o_tr os s" "o_mem os s" a bs] assms(2)
    by (auto simp: ece391_fdputs_def ece391_strlen_eq str_at_def)
qed

lemma lit_str:
  assumes "lits_at os R L s" "l \<in> set L" "R \<subseteq> img"
  shows "str_at os s (o_lit os l) (lit l)" "rng (o_lit os l) (Suc (length (lit l))) \<subseteq> img"
  using assms by (auto simp: lits_at_def)

lemma put_lit_ok:
  assumes "inv s" "lits_at os R L s" "l \<in> set L" "R \<subseteq> img" "length l < 2147483648"
  shows "\<exists>s'. put_lit os l s = Some s' \<and> inv s' \<and> keeps os img s s' \<and> abs s' = emits emit (lit l) (abs s)"
  using fdputs_ok [OF assms(1) lit_str [OF assms(2-4)]] assms(5) by (simp add: put_lit_def)

end

section \<open>Programs on a system that keeps the contract\<close>

context user_os
begin

lemma put8_ok:
  assumes "inv s" "a \<in> img"
  shows "inv (put8 os a v s)" "abs (put8 os a v s) = abs s"
    "x \<in> img \<Longrightarrow> get8 os (put8 os a v s) x = (if x = a then v else get8 os s x)"
proof -
  have as: "address_space (o_tr os s) img" using space [OF assms(1)] by (simp add: address_space_def)
  have "st8 (o_tr os s) (o_mem os s) a v p = o_mem os s p" if "p \<notin> o_tr os s ` img" for p
    using that assms(2) by (auto simp: st8_def)
  note m = set_mem [OF assms(1) this]
  show "inv (put8 os a v s)" "abs (put8 os a v s) = abs s" using m by (simp_all add: put8_def)
  show "x \<in> img \<Longrightarrow> get8 os (put8 os a v s) x = (if x = a then v else get8 os s x)"
    using m assms(2) by (simp add: put8_def get8_def address_space.ld8_st8 [OF as])
qed

lemma put8_keeps: "inv s \<Longrightarrow> a \<in> img \<Longrightarrow> a \<notin> R \<Longrightarrow> R \<subseteq> img \<Longrightarrow> keeps os R s (put8 os a v s)"
  using put8_ok(3) [of s a _ v] by (auto simp: keeps_def)

lemma cat_loop_ok:
  assumes "inv s" "2 \<le> i" "i < 8" "us_files (abs s) i = Some (Data bs)" "rng buf 1024 \<subseteq> img"
  shows "\<exists>s'. cat_loop os buf (of_nat i) s = Some (0, s') \<and> inv s' \<and> keeps os (img - rng buf 1024) s s' \<and>
    abs s' = emits emit bs ((abs s)\<lparr>us_files := (us_files (abs s))(i \<mapsto> Data [])\<rparr>)"
  using assms(1,4)
proof (induction "length bs" arbitrary: bs s rule: less_induct)
  case less
  let ?d = "take 1024 bs"
  have rd: "u_read (unat (1024 :: u32)) (Data bs) = (?d, Data (drop 1024 bs))" by simp
  obtain s1 where s1: "ece391_read os (of_nat i) buf 1024 s = Some (of_nat (length ?d), s1)" "inv s1"
      "keeps os (img - rng buf 1024) s s1" "bytes_at os s1 buf (length ?d) = ?d"
      "abs s1 = (abs s)\<lparr>us_files := (us_files (abs s))(i \<mapsto> Data (drop 1024 bs))\<rparr>"
    using read_file [OF less.prems(1) assms(2,3) less.prems(2) _ rd, of buf] assms(5) by auto
  show ?case
  proof (cases "bs = []")
    case True
    with s1 show ?thesis by (subst cat_loop.simps) (simp add: emits_def)
  next
    case False
    let ?n = "of_nat (length ?d) :: u32"
    have n: "unat ?n = length ?d" by (simp add: unat_of_nat_u32)
    then have nz: "?n \<noteq> 0" "?n \<noteq> -1" using False by (auto simp flip: unat_eq_zero dest: arg_cong [of _ _ unat])
    have "rng buf (length ?d) \<subseteq> img" using rng_mono [of "length ?d" 1024 buf] assms(5) by auto
    moreover have "buf \<in> rng buf 1024" by (simp add: rng_def)
    ultimately have "\<exists>s'. ece391_write os 1 buf ?n s1 = Some (?n, s') \<and> inv s' \<and> keeps os img s1 s' \<and>
        abs s' = emits emit ?d (abs s1)"
      using assms(5) by (intro write_bytes s1) auto
    then obtain s2 where s2: "ece391_write os 1 buf ?n s1 = Some (?n, s2)" "inv s2" "keeps os img s1 s2"
        "abs s2 = emits emit ?d (abs s1)"
      by blast
    have "us_files (abs s2) i = Some (Data (drop 1024 bs))" using s2(4) s1(5) by (simp add: emits_def)
    from less.hyps [OF _ s2(2) this] False obtain s3 where s3: "cat_loop os buf (of_nat i) s2 = Some (0, s3)" "inv s3"
        "keeps os (img - rng buf 1024) s2 s3"
        "abs s3 = emits emit (drop 1024 bs) ((abs s2)\<lparr>us_files := (us_files (abs s2))(i \<mapsto> Data [])\<rparr>)"
      by auto
    have "keeps os (img - rng buf 1024) s s3"
      using keeps_trans [OF keeps_trans [OF s1(3) keeps_mono [OF s2(3)]] s3(3)] by simp
    moreover have "fold emit (drop 1024 bs) (fold emit ?d out) = fold emit bs out" for out
      by (metis append_take_drop_id fold_append comp_apply)
    ultimately show ?thesis
      using s1(1,5) s2(1,4) s3(1,2,4) nz by (subst cat_loop.simps) (simp add: emits_def)
  qed
qed

abbreviation cat_lits :: "string list" where
  "cat_lits \<equiv> [''could not read arguments\<newline>'', ''file not found\<newline>'', ''file read failed\<newline>'']"

lemma cat_start:
  assumes "inv s" "rng buf 1024 \<subseteq> img" "length (us_args (abs s)) < 1024" "lits_at os (img - rng buf 1024) L s"
  obtains s1 where "cat_main os buf s = do {
      (fd, s) \<leftarrow> ece391_open os buf s1;
      if fd = -1 then do { s \<leftarrow> put_lit os ''file not found\<newline>'' s; Some (2, s) } else cat_loop os buf fd s }"
    "inv s1" "str_at os s1 buf (us_args (abs s))" "abs s1 = abs s" "lits_at os (img - rng buf 1024) L s1"
    "rng buf (Suc (length (us_args (abs s)))) \<subseteq> img"
proof -
  have sub: "rng buf (Suc (length (us_args (abs s)))) \<subseteq> rng buf 1024" using assms(3) by (intro rng_mono) simp
  with assms(2) have sub': "rng buf (Suc (length (us_args (abs s)))) \<subseteq> img" by blast
  have "length (us_args (abs s)) < unat (1024 :: u32)" using assms(3) by simp
  from getargs [OF assms(1) this sub'] obtain s1 where s1: "ece391_getargs os buf 1024 s = Some (0, s1)" "inv s1"
      "str_at os s1 buf (us_args (abs s))" "keeps os (img - rng buf (Suc (length (us_args (abs s))))) s s1" "abs s1 = abs s"
    by blast
  have "keeps os (img - rng buf 1024) s s1" using keeps_mono [OF s1(4)] sub by blast
  then show thesis using that [of s1] s1 sub' keeps_lits [OF assms(4)] by (simp add: cat_main_def)
qed

lemma cat_prints:
  assumes "inv s" "rng buf 1024 \<subseteq> img" "length (us_args (abs s)) < 1024"
    and "us_free (us_files (abs s)) = Some i" "dir (us_args (abs s)) = Some (Data bs)"
  shows "\<exists>s'. cat_main os buf s = Some (0, s') \<and> inv s' \<and>
    abs s' = emits emit bs ((abs s)\<lparr>us_files := (us_files (abs s))(i \<mapsto> Data [])\<rparr>)"
proof -
  have i: "2 \<le> i" "i < 8" using us_freeD [OF assms(4)] by auto
  obtain s1 where s1: "cat_main os buf s = do {
      (fd, s) \<leftarrow> ece391_open os buf s1;
      if fd = -1 then do { s \<leftarrow> put_lit os ''file not found\<newline>'' s; Some (2, s) } else cat_loop os buf fd s }"
    "inv s1" "str_at os s1 buf (us_args (abs s))" "abs s1 = abs s" "rng buf (Suc (length (us_args (abs s)))) \<subseteq> img"
    using cat_start [OF assms(1-3), of "[]"] by (auto simp: lits_at_def)
  obtain s2 where s2: "ece391_open os buf s1 = Some (of_nat i, s2)" "inv s2"
      "abs s2 = (abs s)\<lparr>us_files := (us_files (abs s))(i \<mapsto> Data bs)\<rparr>"
    using open_file [OF s1(2,3,5), of i "Data bs"] assms(4,5) s1(4) by auto
  have "us_files (abs s2) i = Some (Data bs)" using s2(3) by simp
  from cat_loop_ok [OF s2(2) i this assms(2)] obtain s3 where "cat_loop os buf (of_nat i) s2 = Some (0, s3)" "inv s3"
      "abs s3 = emits emit bs ((abs s2)\<lparr>us_files := (us_files (abs s2))(i \<mapsto> Data [])\<rparr>)" by blast
  moreover have "(of_nat i :: u32) \<noteq> -1" using i by (simp add: small_not_minus1)
  ultimately show ?thesis using s1(1) s2 by (simp add: emits_def)
qed

lemma cat_not_found:
  assumes "inv s" "rng buf 1024 \<subseteq> img" "length (us_args (abs s)) < 1024" "lits_at os (img - rng buf 1024) cat_lits s"
    and "us_free (us_files (abs s)) = None \<or> dir (us_args (abs s)) = None"
  shows "\<exists>s'. cat_main os buf s = Some (2, s') \<and> inv s' \<and> abs s' = emits emit (lit ''file not found\<newline>'') (abs s)"
proof -
  obtain s1 where s1: "cat_main os buf s = do {
      (fd, s) \<leftarrow> ece391_open os buf s1;
      if fd = -1 then do { s \<leftarrow> put_lit os ''file not found\<newline>'' s; Some (2, s) } else cat_loop os buf fd s }"
    "inv s1" "str_at os s1 buf (us_args (abs s))" "abs s1 = abs s" "rng buf (Suc (length (us_args (abs s)))) \<subseteq> img"
    "lits_at os (img - rng buf 1024) cat_lits s1"
    using cat_start [OF assms(1-4)] by blast
  obtain s2 where s2: "ece391_open os buf s1 = Some (-1, s2)" "inv s2" "keeps os img s1 s2" "abs s2 = abs s"
    using open_none [OF s1(2,3,5)] assms(5) s1(4) by auto
  have "lits_at os (img - rng buf 1024) cat_lits s2" using keeps_lits [OF s1(6) keeps_mono [OF s2(3)]] by blast
  from put_lit_ok [OF s2(2) this, of "''file not found\<newline>''"] obtain s3 where
    "put_lit os ''file not found\<newline>'' s2 = Some s3" "inv s3" "abs s3 = emits emit (lit ''file not found\<newline>'') (abs s2)" by auto
  then show ?thesis using s1(1) s2 by simp
qed

end

context user_os
begin

lemma testprint_prints:
  assumes "inv s" "lits_at os img L s" "''Hello, if this ran, the program was correct. Yay!\<newline>'' \<in> set L"
  shows "\<exists>s'. testprint_main os s = Some (0, s') \<and> inv s' \<and>
    abs s' = emits emit (lit ''Hello, if this ran, the program was correct. Yay!\<newline>'') (abs s)"
  using put_lit_ok [OF assms] by (auto simp: testprint_main_def)

text \<open>
  \<open>ls\<close>: one line per entry. The kernel stores two bytes behind a name, so that names of up to 31
  characters fit the buffer of 33 bytes; one of 32 characters is written one byte too far.
\<close>

definition ls_text :: "bytes list \<Rightarrow> bytes" where
  "ls_text names = concat (map (\<lambda>x. x @ [10]) names)"

lemma ls_line:
  assumes "inv s" "bytes_at os s buf (length d) = d" "length d \<le> 31" "rng buf 33 \<subseteq> img"
  shows "\<exists>s'. ece391_write os 1 buf (of_nat (length d) + 1) (put8 os (buf + of_nat (length d)) 10 s) =
      Some (of_nat (length d) + 1, s') \<and> inv s' \<and> keeps os (img - rng buf 33) s s' \<and> abs s' = emits emit (d @ [10]) (abs s)"
proof -
  let ?a = "buf + of_nat (length d)" let ?s = "put8 os ?a 10 s"
  have a: "?a \<in> rng buf 33" using assms(3) by (intro rng_offset) auto
  then have a': "?a \<in> img" using assms(4) by blast
  note p = put8_ok [OF assms(1) a']
  have r: "rng buf (Suc (length d)) \<subseteq> img" using rng_mono [of "Suc (length d)" 33 buf] assms(3,4) by auto
  have "get8 os ?s (buf + of_nat i) = (d @ [10]) ! i" if i: "i \<le> length d" for i
  proof -
    have "buf + of_nat i \<in> rng buf (Suc (length d))" using i assms(3) by (intro rng_offset) auto
    then have x: "buf + of_nat i \<in> img" using r by blast
    have e: "buf + of_nat i = ?a \<longleftrightarrow> i = length d" using i assms(3) by (simp add: of_nat_eq_iff_u32)
    have "get8 os s (buf + of_nat i) = d ! i" if "i < length d"
      using that nth_load_bytes [OF that, of "o_tr os s" "o_mem os s" buf] assms(2) unfolding bytes_at_def get8_def by simp
    then show ?thesis using i e p(3) [OF x, of 10] by (auto simp: nth_append)
  qed
  then have "bytes_at os ?s buf (length (d @ [10])) = d @ [10]"
    unfolding bytes_at_def by (intro load_bytes_eqI) (auto simp: get8_def less_Suc_eq_le)
  moreover have "buf \<in> img" using assms(4) by (auto simp: rng_def)
  ultimately obtain s' where s': "ece391_write os 1 buf (of_nat (length (d @ [10]))) ?s = Some (of_nat (length (d @ [10])), s')"
      "inv s'" "keeps os img ?s s'" "abs s' = emits emit (d @ [10]) (abs ?s)"
    using write_bytes [OF p(1), where buf = buf and d = "d @ [10]"] r assms(3) by auto
  have "keeps os (img - rng buf 33) s ?s" using a by (intro put8_keeps assms(1) a') auto
  with s'(3) have "keeps os (img - rng buf 33) s s'" by (auto intro: keeps_trans keeps_mono)
  with s' p(2) show ?thesis by (simp add: add.commute)
qed

lemma ls_loop_ok:
  assumes "inv s" "2 \<le> i" "i < 8" "us_files (abs s) i = Some (Entries names)" "rng buf 33 \<subseteq> img" "\<forall>x \<in> set names. x \<noteq> [] \<and> length x \<le> 31"
  shows "\<exists>s'. ls_loop os buf (of_nat i) s = Some (0, s') \<and> inv s' \<and>
    abs s' = emits emit (ls_text names) ((abs s)\<lparr>us_files := (us_files (abs s))(i \<mapsto> Device)\<rparr>)"
  using assms(1,4,6)
proof (induction names arbitrary: s)
  case Nil
  have rd: "u_read (unat (32 :: u32)) (Entries []) = ([], Device)" by simp
  obtain s1 where "ece391_read os (of_nat i) buf 32 s = Some (0, s1)" "inv s1"
      "abs s1 = (abs s)\<lparr>us_files := (us_files (abs s))(i \<mapsto> Device)\<rparr>"
    using read_file [OF Nil.prems(1) assms(2,3) Nil.prems(2) _ rd, of buf] assms(5) by auto
  then show ?case by (subst ls_loop.simps) (simp add: emits_def ls_text_def)
next
  case (Cons x xs)
  let ?d = x
  have x: "x \<noteq> []" "length x \<le> 31" using Cons.prems(3) by auto
  have rd: "u_read (unat (32 :: u32)) (Entries (x # xs)) = (x, Entries xs)" using x by simp
  have ext: "rng buf (u_extent (unat (32 :: u32)) (Entries (x # xs))) \<subseteq> img"
    using rng_mono [of "length x + 2" 33 buf] x(2) assms(5) by auto
  obtain s1 where s1: "ece391_read os (of_nat i) buf 32 s = Some (of_nat (length ?d), s1)" "inv s1"
      "bytes_at os s1 buf (length ?d) = ?d" "abs s1 = (abs s)\<lparr>us_files := (us_files (abs s))(i \<mapsto> Entries xs)\<rparr>"
    using read_file [OF Cons.prems(1) assms(2,3) Cons.prems(2) _ rd ext] by auto
  let ?n = "of_nat (length ?d) :: u32"
  have "unat ?n = length ?d" using x(2) by (simp add: unat_of_nat_u32)
  then have "?n \<noteq> 0" using x(1) by (auto dest: arg_cong [of _ _ unat])
  then have nz: "?n \<noteq> 0" "?n \<noteq> -1" "?n + 1 \<noteq> -1"
    using small_not_minus1 [of "length ?d"] small_not_minus1 [of "Suc (length ?d)"] x(2) by (simp_all add: add.commute)
  obtain s2 where s2: "ece391_write os 1 buf (?n + 1) (put8 os (buf + ?n) 10 s1) = Some (?n + 1, s2)" "inv s2"
      "abs s2 = emits emit (?d @ [10]) (abs s1)"
    using ls_line [OF s1(2,3) x(2) assms(5)] by auto
  have "us_files (abs s2) i = Some (Entries xs)" using s2(3) s1(4) by (simp add: emits_def)
  moreover have "\<forall>x \<in> set xs. x \<noteq> [] \<and> length x \<le> 31" using Cons.prems(3) by simp
  ultimately obtain s3 where "ls_loop os buf (of_nat i) s2 = Some (0, s3)" "inv s3"
      "abs s3 = emits emit (ls_text xs) ((abs s2)\<lparr>us_files := (us_files (abs s2))(i \<mapsto> Device)\<rparr>)"
    using Cons.IH [OF s2(2)] by blast
  then show ?case
    using s1(1,4) s2(1,3) nz by (subst ls_loop.simps) (simp add: emits_def ls_text_def Let_def)
qed

lemma ls_lists:
  assumes "inv s" "rng buf 33 \<subseteq> img" "lits_at os img L s" "''.'' \<in> set L"
    and "us_free (us_files (abs s)) = Some i" "dir (lit ''.'') = Some (Entries names)" "\<forall>x \<in> set names. x \<noteq> [] \<and> length x \<le> 31"
  shows "\<exists>s'. ls_main os buf s = Some (0, s') \<and> inv s' \<and>
    abs s' = emits emit (ls_text names) ((abs s)\<lparr>us_files := (us_files (abs s))(i \<mapsto> Device)\<rparr>)"
proof -
  have i: "2 \<le> i" "i < 8" using us_freeD [OF assms(5)] by auto
  from open_file [OF assms(1) lit_str [OF assms(3,4) order_refl] assms(5,6)] obtain s1 where s1: "ece391_open os (o_lit os ''.'') s = Some (of_nat i, s1)"
      "inv s1" "abs s1 = (abs s)\<lparr>us_files := (us_files (abs s))(i \<mapsto> Entries names)\<rparr>" by blast
  moreover have "us_files (abs s1) i = Some (Entries names)" using s1(3) by simp
  from ls_loop_ok [OF s1(2) i this assms(2,7)] obtain s2 where "ls_loop os buf (of_nat i) s1 = Some (0, s2)" "inv s2"
      "abs s2 = emits emit (ls_text names) ((abs s1)\<lparr>us_files := (us_files (abs s1))(i \<mapsto> Device)\<rparr>)" by blast
  moreover have "(of_nat i :: u32) \<noteq> -1" using i by (simp add: small_not_minus1)
  ultimately show ?thesis by (simp add: ls_main_def emits_def)
qed

end

section \<open>The error tests\<close>

definition syserr_lits :: "string list" where
  "syserr_lits = [''err_neg_fd: PASS\<newline>'', ''err_big_fd: PASS\<newline>'', ''err_open_lots: PASS\<newline>'', ''err_open: PASS\<newline>'',
     ''err_unopened: PASS\<newline>'', ''err_vidmap: PASS\<newline>'', ''err_stdin_out: PASS\<newline>'', ''err_syscall_num: PASS\<newline>'',
     ''\<newline>Overall Tests: PASS\<newline>'']"

context user_os
begin

definition same :: "'s \<Rightarrow> 's \<Rightarrow> bool" where
  "same s s' \<longleftrightarrow> inv s' \<and> keeps os img s s' \<and> abs s' = abs s"

definition passes :: "('s \<Rightarrow> (u32 \<times> 's) option) \<Rightarrow> string \<Rightarrow> 's \<Rightarrow> bool" where
  "passes test l s \<longleftrightarrow> (\<exists>s'. test s = Some (0, s') \<and> inv s' \<and> keeps os img s s' \<and> abs s' = emits emit (lit l) (abs s))"

lemma same_refl: "inv s \<Longrightarrow> same s s"
  by (simp add: same_def keeps_def)

lemma same_trans: "same s s' \<Longrightarrow> same s' s'' \<Longrightarrow> same s s''"
  by (auto simp: same_def keeps_def)

lemma sameD: "same s s' \<Longrightarrow> inv s'" "same s s' \<Longrightarrow> abs s' = abs s" "same s s' \<Longrightarrow> keeps os img s s'"
  by (simp_all add: same_def)

lemma bad_calls:
  assumes "inv s"
  shows "sint fd < 0 \<or> sint fd \<ge> 8 \<or> fd = 1 \<or> fd \<noteq> 0 \<and> us_files (abs s) (unat fd) = None \<Longrightarrow>
      \<exists>s'. ece391_read os fd buf n s = Some (-1, s') \<and> same s s'"
    and "sint fd < 0 \<or> sint fd \<ge> 8 \<or> fd = 0 \<or> fd \<noteq> 1 \<and> us_files (abs s) (unat fd) = None \<Longrightarrow>
      \<exists>s'. ece391_write os fd buf n s = Some (-1, s') \<and> same s s'"
    and "sint fd < 2 \<or> sint fd \<ge> 8 \<or> us_files (abs s) (unat fd) = None \<Longrightarrow>
      \<exists>s'. ece391_close os fd s = Some (-1, s') \<and> same s s'"
    and "sint fd < 0x8000000 \<or> sint fd \<ge> 0x8400000 \<Longrightarrow> \<exists>s'. ece391_vidmap os fd s = Some (-1, s') \<and> same s s'"
    and "fd = 0 \<or> fd > 10 \<Longrightarrow> \<exists>s'. call_sys os fd s = Some (-1, s') \<and> same s s'"
  using read_bad [OF assms, of fd buf n] write_bad [OF assms, of fd buf n] close_bad [OF assms, of fd] vidmap_bad [OF assms, of fd]
    number_bad [OF assms, of fd] unfolding call_sys_def same_def by blast+

lemma open_bad:
  assumes "inv s" "lits_at os img L s" "l \<in> set L" "dir (lit l) = None"
  shows "\<exists>s'. ece391_open os (o_lit os l) s = Some (-1, s') \<and> same s s'"
  using open_none [OF assms(1) lit_str [OF assms(2,3) order_refl]] assms(4) by (auto simp: same_def)

lemma check_fails_bind:
  assumes "\<exists>s'. call = Some (-1, s') \<and> same s s'" "\<And>s'. same s s' \<Longrightarrow> P (f (fail, s'))"
  shows "P (check_fails os msg fail call \<bind> f)"
  using assms by (auto simp: check_fails_def)

lemma check_each_ok:
  assumes "inv s" "\<And>i s'. i \<in> set is \<Longrightarrow> same s s' \<Longrightarrow> \<exists>s''. call i s' = Some (-1, s'') \<and> same s' s''"
  shows "\<exists>s'. check_each os msg call is fail s = Some (fail, s') \<and> same s s'"
  using assms
proof (induction "is" arbitrary: s)
  case Nil
  then show ?case by (simp add: same_refl)
next
  case (Cons i "is")
  obtain s1 where s1: "call i s = Some (-1, s1)" "same s s1" using Cons.prems same_refl by (metis list.set_intros(1))
  have "\<exists>s'. check_each os msg call is fail s1 = Some (fail, s') \<and> same s1 s'"
    using Cons.prems(2) same_trans [OF s1(2)] by (intro Cons.IH sameD(1) [OF s1(2)]) simp
  with s1 show ?case by (auto simp: check_fails_def intro: same_trans)
qed

lemma verdict_passes:
  assumes "same s s'" "lits_at os img L s" "passed \<in> set L" "length passed < 2147483648"
  shows "\<exists>s''. verdict os failed passed 0 s' = Some (0, s'') \<and> inv s'' \<and> keeps os img s s'' \<and> abs s'' = emits emit (lit passed) (abs s)"
proof -
  have "lits_at os img L s'" using keeps_lits [OF assms(2) sameD(3) [OF assms(1)]] .
  from put_lit_ok [OF sameD(1) [OF assms(1)] this assms(3) order_refl assms(4)] show ?thesis
    using keeps_trans [OF sameD(3) [OF assms(1)]] sameD(2) [OF assms(1)] by (auto simp: verdict_def)
qed

end

context user_os
begin

text \<open>Calls that fail as they should, one after the other, end in the verdict \<open>PASS\<close>.\<close>

lemma two_checks:
  assumes "inv s" "lits_at os img L s" "passed \<in> set L" "length passed < 2147483648"
    and "\<And>s'. same s s' \<Longrightarrow> \<exists>s''. c1 s' = Some (-1, s'') \<and> same s' s''"
    and "\<And>s'. same s s' \<Longrightarrow> \<exists>s''. c2 s' = Some (-1, s'') \<and> same s' s''"
  shows "passes (\<lambda>s. do {
      (fail, s) \<leftarrow> check_fails os m1 0 (c1 s);
      (fail, s) \<leftarrow> check_fails os m2 fail (c2 s);
      verdict os failed passed fail s }) passed s"
proof -
  obtain s1 where s1: "c1 s = Some (-1, s1)" "same s s1" using assms(5) [OF same_refl [OF assms(1)]] by blast
  obtain s2 where s2: "c2 s1 = Some (-1, s2)" "same s s2" using assms(6) [OF s1(2)] same_trans [OF s1(2)] by blast
  show ?thesis
    using verdict_passes [OF s2(2) assms(2-4), of failed] s1(1) s2(1) by (auto simp: passes_def check_fails_def)
qed

lemma three_checks:
  assumes "inv s" "lits_at os img L s" "passed \<in> set L" "length passed < 2147483648"
    and "\<And>s'. same s s' \<Longrightarrow> \<exists>s''. c1 s' = Some (-1, s'') \<and> same s' s''"
    and "\<And>s'. same s s' \<Longrightarrow> \<exists>s''. c2 s' = Some (-1, s'') \<and> same s' s''"
    and "\<And>s'. same s s' \<Longrightarrow> \<exists>s''. c3 s' = Some (-1, s'') \<and> same s' s''"
  shows "passes (\<lambda>s. do {
      (fail, s) \<leftarrow> check_fails os m1 0 (c1 s);
      (fail, s) \<leftarrow> check_fails os m2 fail (c2 s);
      (fail, s) \<leftarrow> check_fails os m3 fail (c3 s);
      verdict os failed passed fail s }) passed s"
proof -
  obtain s1 where s1: "c1 s = Some (-1, s1)" "same s s1" using assms(5) [OF same_refl [OF assms(1)]] by blast
  obtain s2 where s2: "c2 s1 = Some (-1, s2)" "same s s2" using assms(6) [OF s1(2)] same_trans [OF s1(2)] by blast
  obtain s3 where s3: "c3 s2 = Some (-1, s3)" "same s s3" using assms(7) [OF s2(2)] same_trans [OF s2(2)] by blast
  show ?thesis
    using verdict_passes [OF s3(2) assms(2-4), of failed] s1(1) s2(1) s3(1) by (auto simp: passes_def check_fails_def)
qed

lemma err_fd_pass:
  assumes "inv s" "lits_at os img syserr_lits s"
  shows "passes (err_neg_fd os buf) ''err_neg_fd: PASS\<newline>'' s" "passes (err_big_fd os buf) ''err_big_fd: PASS\<newline>'' s"
  unfolding err_neg_fd_def err_big_fd_def
  by (rule three_checks [OF assms]; simp add: syserr_lits_def bad_calls sameD(1))+

lemma err_vidmap_pass:
  assumes "inv s" "lits_at os img syserr_lits s"
  shows "passes (err_vidmap os) ''err_vidmap: PASS\<newline>'' s"
  unfolding err_vidmap_def by (rule two_checks [OF assms]; simp add: syserr_lits_def bad_calls sameD(1))

lemma err_stdin_out_pass:
  assumes "inv s" "lits_at os img syserr_lits s"
  shows "passes (err_stdin_out os buf) ''err_stdin_out: PASS\<newline>'' s"
  unfolding err_stdin_out_def by (rule two_checks [OF assms]; simp add: syserr_lits_def bad_calls sameD(1))

lemma err_syscall_num_pass:
  assumes "inv s" "lits_at os img syserr_lits s"
  shows "passes (err_syscall_num os) ''err_syscall_num: PASS\<newline>'' s"
  unfolding err_syscall_num_def by (rule three_checks [OF assms]; simp add: syserr_lits_def bad_calls sameD(1))

lemma err_open_pass:
  assumes "inv s" "lits_at os img (''helloo'' # ''shel'' # [] # L) s" "dir (lit ''helloo'') = None" "dir (lit ''shel'') = None"
    and "dir [] = None" "''err_open: PASS\<newline>'' \<in> set L"
  shows "passes (err_open os) ''err_open: PASS\<newline>'' s"
proof -
  have "\<exists>s''. ece391_open os (o_lit os l) s' = Some (-1, s'') \<and> same s' s''"
    if "same s s'" "l \<in> {''helloo'', ''shel'', []}" for l s'
    using that assms(3-5) open_bad [OF sameD(1) [OF that(1)] keeps_lits [OF assms(2) sameD(3) [OF that(1)]], of l] by auto
  then show ?thesis
    unfolding err_open_def using assms(6) by (intro three_checks [OF assms(1,2)]) simp_all
qed

lemma err_unopened_pass:
  assumes "inv s" "lits_at os img syserr_lits s" "\<forall>i \<in> {2..<8}. us_files (abs s) i = None"
  shows "passes (err_unopened os buf) ''err_unopened: PASS\<newline>'' s"
proof -
  have u: "unat (of_nat i :: u32) = i" "sint (of_nat i :: u32) = int i" if "i < 8" for i
    using that sint_small_u32 [of i] by (simp_all add: unat_of_nat_u32)
  have c: "\<exists>s''. ece391_close os i s' = Some (-1, s'') \<and> same s' s''" if "i \<in> set (map of_nat [0..<8])" "same s s'" for i s'
  proof -
    from that(1) obtain j where "i = of_nat j" "j < 8" by (auto simp del: upt_rec_numeral)
    then show ?thesis
      using u [of j] assms(3) sameD(2) [OF that(2)] by (intro bad_calls sameD(1) [OF that(2)]) (cases "j < 2"; force)
  qed
  have n: "us_files (abs s') (unat i) = None" "i \<noteq> 0" "i \<noteq> 1" if "i \<in> set (map of_nat [2..<8])" "same s s'" for i :: u32 and s'
  proof -
    from that(1) obtain j where j: "i = of_nat j" "2 \<le> j" "j < 8" by (auto simp del: upt_rec_numeral)
    then show "us_files (abs s') (unat i) = None" using u [of j] assms(3) sameD(2) [OF that(2)] by simp
    show "i \<noteq> 0" "i \<noteq> 1" using j u(1) [of j] by auto
  qed
  have bad: "\<exists>s''. ece391_read os i buf 31 s' = Some (-1, s'') \<and> same s' s''"
    "\<exists>s''. ece391_write os i buf 31 s' = Some (-1, s'') \<and> same s' s''"
    if "i \<in> set (map of_nat [2..<8])" "same s s'" for i s'
    using bad_calls(1,2) [OF sameD(1) [OF that(2)], of i buf 31] n [OF that] by blast+
  obtain s1 where s1: "check_each os ''close unopened or invalid fd fail\<newline>'' (ece391_close os) (map of_nat [0..<8]) 0 s = Some (0, s1)"
      "same s s1"
    using check_each_ok [OF assms(1), of "map of_nat [0..<8]" "ece391_close os"] c by blast
  obtain s2 where s2: "check_each os ''read from unopened fd fail\<newline>'' (\<lambda>i. ece391_read os i buf 31) (map of_nat [2..<8]) 0 s1 =
      Some (0, s2)" "same s1 s2"
    using check_each_ok [OF sameD(1) [OF s1(2)], of "map of_nat [2..<8]" "\<lambda>i. ece391_read os i buf 31"]
      bad(1) [OF _ same_trans [OF s1(2)]] by blast
  have s02: "same s s2" using same_trans [OF s1(2) s2(2)] .
  obtain s3 where s3: "check_each os ''write to unopened fd fail\<newline>'' (\<lambda>i. ece391_write os i buf 31) (map of_nat [2..<8]) 0 s2 =
      Some (0, s3)" "same s2 s3"
    using check_each_ok [OF sameD(1) [OF s2(2)], of "map of_nat [2..<8]" "\<lambda>i. ece391_write os i buf 31"]
      bad(2) [OF _ same_trans [OF s02]] by blast
  have p: "''err_unopened: PASS\<newline>'' \<in> set syserr_lits" by (simp add: syserr_lits_def)
  show ?thesis
    using verdict_passes [OF same_trans [OF s02 s3(2)] assms(2) p] s1(1) s2(1) s3(1)
    by (auto simp: passes_def err_unopened_def simp del: upt_rec_numeral)
qed

end

text \<open>The descriptors after \<open>j\<close> files have been opened one after the other.\<close>

definition opened :: "ufile \<Rightarrow> nat \<Rightarrow> (nat \<Rightarrow> ufile option) \<Rightarrow> nat \<Rightarrow> ufile option" where
  "opened f j fs i = (if 2 \<le> i \<and> i < 2 + j then Some f else fs i)"

definition closed :: "nat \<Rightarrow> (nat \<Rightarrow> ufile option) \<Rightarrow> nat \<Rightarrow> ufile option" where
  "closed a fs i = (if a \<le> i \<and> i < 8 then None else fs i)"

lemma us_free_opened:
  assumes "\<forall>i \<in> {2..<8}. fs i = None"
  shows "us_free (opened f j fs) = (if j < 6 then Some (2 + j) else None)"
proof (cases "j < 6")
  case True
  with assms show ?thesis
    using find_upt_Some [of "\<lambda>i. opened f j fs i = None" 2 8 "2 + j"] by (simp add: us_free_def opened_def del: upt_rec_numeral)
next
  case False
  then show ?thesis
    using find_upt_None [of "\<lambda>i. opened f j fs i = None" 2 8] by (simp add: us_free_def opened_def del: upt_rec_numeral)
qed

context user_os
begin

lemma open_lots_ok:
  assumes "\<forall>i \<in> {2..<8}. fs i = None" "dir (lit ''.'') = Some f"
    and "inv s" "lits_at os img L s" "''.'' \<in> set L" "us_files (abs s) = opened f j fs" "j + n \<le> 7" "j \<le> 6"
  shows "\<exists>s'. open_lots os n cnt s = Some (if j + n = 7 then cnt + 1 else cnt, s') \<and> inv s' \<and> keeps os img s s' \<and>
    abs s' = (abs s)\<lparr>us_files := opened f (min 6 (j + n)) fs\<rparr>"
  using assms(3-)
proof (induction n arbitrary: s j cnt)
  case 0
  then show ?case by (auto simp: keeps_def min_def)
next
  case (Suc n)
  note lt = lit_str [OF Suc.prems(2,3) order_refl]
  note fr = us_free_opened [OF assms(1), of f j]
  show ?case
  proof (cases "j = 6")
    case True
    obtain s1 where s1: "ece391_open os (o_lit os ''.'') s = Some (-1, s1)" "inv s1" "keeps os img s s1" "abs s1 = abs s"
      using open_none [OF Suc.prems(1) lt] fr Suc.prems(4) True by auto
    have "n = 0" using Suc.prems(5) True by simp
    with s1 True Suc.prems(4) show ?thesis by simp
  next
    case False
    with Suc.prems(6) have j: "j < 6" by simp
    then have fr: "us_free (us_files (abs s)) = Some (2 + j)" using fr Suc.prems(4) by simp
    obtain s1 where s1: "ece391_open os (o_lit os ''.'') s = Some (of_nat (2 + j), s1)" "inv s1" "keeps os img s s1"
        "abs s1 = (abs s)\<lparr>us_files := (us_files (abs s))(2 + j \<mapsto> f)\<rparr>"
      using open_file [OF Suc.prems(1) lt fr assms(2)] by blast
    have f: "us_files (abs s1) = opened f (Suc j) fs"
      using s1(4) Suc.prems(4) by (auto simp: opened_def fun_eq_iff)
    have "\<exists>s'. open_lots os n cnt s1 = Some (if Suc j + n = 7 then cnt + 1 else cnt, s') \<and> inv s' \<and> keeps os img s1 s' \<and>
        abs s' = (abs s1)\<lparr>us_files := opened f (min 6 (Suc j + n)) fs\<rparr>"
      using Suc.prems(5) j by (intro Suc.IH s1(2) keeps_lits [OF Suc.prems(2) s1(3)] Suc.prems(3) f) auto
    moreover have "(of_nat (2 + j) :: u32) \<noteq> -1" using j by (intro small_not_minus1) simp
    ultimately show ?thesis using s1 keeps_trans [OF s1(3)] by auto
  qed
qed

lemma close_each_ok:
  assumes "inv s" "a \<le> 8" "2 \<le> a" "\<forall>i \<in> {a..<8}. us_files (abs s) i \<noteq> None"
  shows "\<exists>s'. close_each os (map of_nat [a..<8]) s = Some s' \<and> inv s' \<and> keeps os img s s' \<and>
    abs s' = (abs s)\<lparr>us_files := closed a (us_files (abs s))\<rparr>"
  using assms
proof (induction "8 - a" arbitrary: s a)
  case 0
  then have "a = 8" by simp
  moreover have "closed 8 (us_files (abs s)) = us_files (abs s)" by (auto simp: fun_eq_iff closed_def)
  ultimately show ?case using 0 by (simp add: keeps_def)
next
  case (Suc n)
  then have a: "a < 8" by simp
  obtain s1 where s1: "ece391_close os (of_nat a) s = Some (0, s1)" "inv s1" "keeps os img s s1"
      "abs s1 = (abs s)\<lparr>us_files := (us_files (abs s))(a := None)\<rparr>"
    using close_file [OF Suc.prems(1,3) a] Suc.prems(4) a by auto
  have "\<exists>s'. close_each os (map of_nat [Suc a..<8]) s1 = Some s' \<and> inv s' \<and> keeps os img s1 s' \<and>
      abs s' = (abs s1)\<lparr>us_files := closed (Suc a) (us_files (abs s1))\<rparr>"
    using Suc.hyps(2) Suc.prems a s1 by (intro Suc.hyps(1)) auto
  moreover have "closed (Suc a) ((us_files (abs s))(a := None)) = closed a (us_files (abs s))"
    using a by (auto simp: fun_eq_iff closed_def)
  ultimately show ?case
    using s1 a keeps_trans [OF s1(3)] by (auto simp: upt_conv_Cons simp del: upt_rec_numeral)
qed

lemma err_open_lots_pass:
  assumes "inv s" "lits_at os img L s" "''.'' \<in> set L" "''err_open_lots: PASS\<newline>'' \<in> set L" "dir (lit ''.'') = Some f"
    and "\<forall>i \<in> {2..<8}. us_files (abs s) i = None"
  shows "passes (err_open_lots os) ''err_open_lots: PASS\<newline>'' s"
proof -
  let ?fs = "us_files (abs s)"
  have "?fs = opened f 0 ?fs" by (auto simp: fun_eq_iff opened_def)
  from open_lots_ok [OF assms(6,5,1-3) this, of 7 0] obtain s1 where s1: "open_lots os 7 0 s = Some (1, s1)" "inv s1"
      "keeps os img s s1" "abs s1 = (abs s)\<lparr>us_files := opened f 6 ?fs\<rparr>" by auto
  have "\<forall>i \<in> {2..<8}. us_files (abs s1) i \<noteq> None" using s1(4) by (simp add: opened_def)
  from close_each_ok [OF s1(2) _ _ this] obtain s2 where s2: "close_each os (map of_nat [2..<8]) s1 = Some s2" "inv s2"
      "keeps os img s1 s2" "abs s2 = (abs s1)\<lparr>us_files := closed 2 (us_files (abs s1))\<rparr>"
    by auto
  have "closed 2 (opened f 6 ?fs) = ?fs" using assms(6) by (auto simp: fun_eq_iff opened_def closed_def)
  then have abs: "abs s2 = abs s" using s1(4) s2(4) by simp
  have k: "keeps os img s s2" using keeps_trans [OF s1(3) s2(3)] .
  from put_lit_ok [OF s2(2) keeps_lits [OF assms(2) k] assms(4) order_refl] obtain s3 where
    "put_lit os ''err_open_lots: PASS\<newline>'' s2 = Some s3" "inv s3" "keeps os img s2 s3"
    "abs s3 = emits emit (lit ''err_open_lots: PASS\<newline>'') (abs s2)" by auto
  then show ?thesis
    using s1(1) s2(1) abs keeps_trans [OF k] unfolding passes_def err_open_lots_def by (auto simp del: upt_rec_numeral)
qed

end

context user_os
begin

lemma passesE:
  assumes "passes t l s" "lits_at os img L s"
  obtains s' where "t s = Some (0, s')" "inv s'" "lits_at os img L s'" "abs s' = emits emit (lit l) (abs s)"
  using assms keeps_lits by (auto simp: passes_def)

lemma syserr_passes:
  assumes "inv s" "lits_at os img (''.'' # ''helloo'' # ''shel'' # [] # syserr_lits) s"
    and "\<forall>i \<in> {2..<8}. us_files (abs s) i = None"
    and "dir (lit ''.'') = Some f" "dir (lit ''helloo'') = None" "dir (lit ''shel'') = None" "dir [] = None"
  shows "\<exists>s'. syserr_all os buf s = Some (0, s') \<and> inv s' \<and>
    abs s' = emits emit (concat (map lit syserr_lits)) (abs s)"
proof -
  let ?L = "''.'' # ''helloo'' # ''shel'' # [] # syserr_lits"
  have sub: "lits_at os img syserr_lits s'" "lits_at os img (''helloo'' # ''shel'' # [] # syserr_lits) s'"
    if "lits_at os img ?L s'" for s' using that by (simp_all add: lits_at_def)
  have files: "us_files (emits emit bs u) = us_files u" for bs and u :: "'o ustate" by (simp add: emits_def)
  have mem: "''err_open_lots: PASS\<newline>'' \<in> set ?L" "''err_open: PASS\<newline>'' \<in> set syserr_lits" "''.'' \<in> set ?L"
    "''\<newline>Overall Tests: PASS\<newline>'' \<in> set ?L" by (simp_all add: syserr_lits_def)
  obtain s1 where s1: "err_neg_fd os buf s = Some (0, s1)" "inv s1" "lits_at os img ?L s1"
    "abs s1 = emits emit (lit ''err_neg_fd: PASS\<newline>'') (abs s)" using passesE [OF err_fd_pass(1) [OF assms(1) sub(1)] assms(2)] assms(2) by blast
  obtain s2 where s2: "err_big_fd os buf s1 = Some (0, s2)" "inv s2" "lits_at os img ?L s2"
    "abs s2 = emits emit (lit ''err_big_fd: PASS\<newline>'') (abs s1)" using passesE [OF err_fd_pass(2) [OF s1(2) sub(1)] s1(3)] s1(3) by blast
  obtain s3 where s3: "err_open_lots os s2 = Some (0, s3)" "inv s3" "lits_at os img ?L s3"
    "abs s3 = emits emit (lit ''err_open_lots: PASS\<newline>'') (abs s2)"
    using passesE [OF err_open_lots_pass [OF s2(2,3) mem(3,1) assms(4)] s2(3)] assms(3) s2(4) s1(4) files by metis
  obtain s4 where s4: "err_open os s3 = Some (0, s4)" "inv s4" "lits_at os img ?L s4"
    "abs s4 = emits emit (lit ''err_open: PASS\<newline>'') (abs s3)"
    using passesE [OF err_open_pass [OF s3(2) sub(2) assms(5-7) mem(2)] s3(3)] s3(3) by blast
  obtain s5 where s5: "err_unopened os buf s4 = Some (0, s5)" "inv s5" "lits_at os img ?L s5"
    "abs s5 = emits emit (lit ''err_unopened: PASS\<newline>'') (abs s4)"
    using passesE [OF err_unopened_pass [OF s4(2) sub(1)] s4(3)] s4(3) assms(3) s4(4) s3(4) s2(4) s1(4) files by metis
  obtain s6 where s6: "err_vidmap os s5 = Some (0, s6)" "inv s6" "lits_at os img ?L s6"
    "abs s6 = emits emit (lit ''err_vidmap: PASS\<newline>'') (abs s5)" using passesE [OF err_vidmap_pass [OF s5(2) sub(1)] s5(3)] s5(3) by blast
  obtain s7 where s7: "err_stdin_out os buf s6 = Some (0, s7)" "inv s7" "lits_at os img ?L s7"
    "abs s7 = emits emit (lit ''err_stdin_out: PASS\<newline>'') (abs s6)" using passesE [OF err_stdin_out_pass [OF s6(2) sub(1)] s6(3)] s6(3) by blast
  obtain s8 where s8: "err_syscall_num os s7 = Some (0, s8)" "inv s8" "lits_at os img ?L s8"
    "abs s8 = emits emit (lit ''err_syscall_num: PASS\<newline>'') (abs s7)" using passesE [OF err_syscall_num_pass [OF s7(2) sub(1)] s7(3)] s7(3) by blast
  obtain s9 where s9: "verdict os ''\<newline>Overall Tests: FAIL\<newline>'' ''\<newline>Overall Tests: PASS\<newline>'' 0 s8 = Some (0, s9)" "inv s9"
    "abs s9 = emits emit (lit ''\<newline>Overall Tests: PASS\<newline>'') (abs s8)"
    using verdict_passes [OF same_refl [OF s8(2)] s8(3) mem(4)] by auto
  have e: "emits emit bs (emits emit as u) = emits emit (as @ bs) u" for as bs u by (simp add: emits_def)
  have "abs s9 = emits emit (concat (map lit syserr_lits)) (abs s)"
    unfolding s9(3) s8(4) s7(4) s6(4) s5(4) s4(4) s3(4) s2(4) s1(4) e by (simp add: syserr_lits_def del: lit_simps)
  then show ?thesis
    using s1(1) s2(1) s3(1) s4(1) s5(1) s6(1) s7(1) s8(1) s9 by (simp add: syserr_all_def)
qed

end

section \<open>Counting\<close>

definition counter_text :: "nat \<Rightarrow> nat \<Rightarrow> bytes" where
  "counter_text a b = concat (map (\<lambda>k. itoa_text 10 (Suc k) @ [10]) [a..<b])"

context user_os
begin

lemma itoa_ok:
  assumes "inv s" "rng buf 33 \<subseteq> img"
  shows "\<exists>m. ece391_itoa (o_tr os s) (o_mem os s) v buf 10 = Some m \<and> inv (o_set_mem os m s) \<and>
    abs (o_set_mem os m s) = abs s \<and> keeps os (img - rng buf 33) s (o_set_mem os m s) \<and>
    str_at os (o_set_mem os m s) buf (itoa_text 10 (unat v))"
proof -
  let ?bs = "itoa_text 10 (unat v)" let ?m = "store_bytes (o_tr os s) (o_mem os s) buf (?bs @ [0])"
  have as: "address_space (o_tr os s) img" using space [OF assms(1)] by (simp add: address_space_def)
  have len: "length ?bs \<le> 32" by (rule length_itoa_text) simp
  have sub: "rng buf (Suc (length ?bs)) \<subseteq> rng buf 33" using len by (intro rng_mono) simp
  then have r: "rng buf (Suc (length ?bs)) \<subseteq> img" using assms(2) by blast
  have i: "itoa (o_tr os s) (o_mem os s) v buf 10 = Some ?m"
    using address_space.itoa_eq [OF as, of 10 buf v "o_mem os s"] r by simp
  have "?m p = o_mem os s p" if "p \<notin> o_tr os s ` img" for p
    using that r len by (intro store_bytes_frame) auto
  note sm = set_mem [OF assms(1) this]
  have "cstring (o_tr os s) ?m buf ?bs"
    using itoa_text_nz [of 10 "unat v"] len r by (intro address_space.cstring_store [OF as]) auto
  moreover have "ld8 (o_tr os s) ?m x = ld8 (o_tr os s) (o_mem os s) x" if "x \<in> img - rng buf 33" for x
    using that sub r len by (intro address_space.ld8_store_outside [OF as]) auto
  ultimately show ?thesis using i sm by (simp add: ece391_itoa_eq str_at_def keeps_def get8_def)
qed

lemma counter_loop_ok:
  assumes "inv s" "rng buf 33 \<subseteq> img" "lits_at os (img - rng buf 33) L s" "''\<newline>'' \<in> set L" "i \<le> unat limit"
  shows "\<exists>s'. counter_loop os buf limit (of_nat i) s = Some s' \<and> inv s' \<and>
    abs s' = emits emit (counter_text i (unat limit)) (abs s)"
  using assms(1,3,5)
proof (induction "unat limit - i" arbitrary: i s)
  case 0
  then have "i = unat limit" by simp
  with 0 show ?case by (subst counter_loop.simps) (simp add: counter_text_def emits_def)
next
  case (Suc n)
  then have i: "i < unat limit" by simp
  then have v: "unat (of_nat i + 1 :: u32) = Suc i" using unat_of_nat_u32 [of "Suc i"] unat_lt_2p32 [of limit] by (simp add: add.commute)
  obtain m where m: "ece391_itoa (o_tr os s) (o_mem os s) (of_nat i + 1) buf 10 = Some m" "inv (o_set_mem os m s)"
      "abs (o_set_mem os m s) = abs s" "keeps os (img - rng buf 33) s (o_set_mem os m s)"
      "str_at os (o_set_mem os m s) buf (itoa_text 10 (Suc i))"
    using itoa_ok [OF Suc.prems(1) assms(2), of "of_nat i + 1"] v by auto
  have len: "length (itoa_text 10 (Suc i)) \<le> 32" using length_itoa_text [of "Suc i" 10] i unat_lt_2p32 [of limit] by simp
  have "rng buf (Suc (length (itoa_text 10 (Suc i)))) \<subseteq> img" using rng_mono [of "Suc (length (itoa_text 10 (Suc i)))" 33 buf] len assms(2) by auto
  from fdputs_ok [OF m(2,5) this] len obtain s1 where s1: "ece391_fdputs os 1 buf (o_set_mem os m s) = Some s1" "inv s1"
      "keeps os img (o_set_mem os m s) s1" "abs s1 = emits emit (itoa_text 10 (Suc i)) (abs s)" using m(3) by auto
  have k1: "keeps os (img - rng buf 33) s s1" using keeps_trans [OF m(4) keeps_mono [OF s1(3)]] by blast
  from put_lit_ok [OF s1(2) keeps_lits [OF Suc.prems(2) k1] assms(4)] obtain s2 where
    s2: "put_lit os ''\<newline>'' s1 = Some s2" "inv s2" "keeps os img s1 s2" "abs s2 = emits emit [10] (abs s1)" by auto
  have k2: "keeps os (img - rng buf 33) s s2" using keeps_trans [OF k1 keeps_mono [OF s2(3)]] by blast
  have "\<exists>s'. counter_loop os buf limit (of_nat (Suc i)) s2 = Some s' \<and> inv s' \<and>
      abs s' = emits emit (counter_text (Suc i) (unat limit)) (abs s2)"
    using Suc.hyps(2) i by (intro Suc.hyps(1) s2(2) keeps_lits [OF Suc.prems(2) k2]) auto
  moreover have "of_nat i < limit" using i by (simp add: of_nat_less_u32)
  moreover have "counter_text i (unat limit) = itoa_text 10 (Suc i) @ [10] @ counter_text (Suc i) (unat limit)"
    using i by (simp add: counter_text_def upt_conv_Cons)
  ultimately show ?case
    using m(1) s1 s2 by (subst counter_loop.simps) (auto simp: emits_def add.commute)
qed

end

end
