(* ===== verification/Grep.thy ===== *)
theory Grep
  imports Contract "HOL-Library.Sublist"
begin

text \<open>
  The program \<^verbatim>\<open>syscalls/ece391grep.c\<close>: it searches every file of the directory for a string and prints
  the lines that have it, through a buffer of 1024 bytes that holds the rest of an unfinished line while
  the next part of the file is read. Shown, on a system that keeps the contract: searching one text file
  prints exactly the lines that contain the string, wherever the borders of the buffer fall.
\<close>

section \<open>The program\<close>

text \<open>
  The locals are \<open>int32_t\<close>; \<open>lst\<close> is the variable \<open>last\<close>. \<open>data\<close> is the array of 1025 bytes of \<open>do_one_file\<close>, \<open>str\<close> the string \<open>s\<close> of the
  source. \<open>grep_line_end\<close> is the loop over \<open>line_end\<close>, \<open>grep_search\<close> the loop over \<open>check\<close>, \<open>grep_lines\<close> the inner
  and \<open>grep_chunks\<close> the outer endless loop.
\<close>

partial_function (option) grep_line_end :: "'s os \<Rightarrow> addr \<Rightarrow> u32 \<Rightarrow> u32 \<Rightarrow> 's \<Rightarrow> u32 option" where
  "grep_line_end os data lst line_end s =
     (if sint line_end < sint lst \<and> get8 os s (data + line_end) \<noteq> 10
      then grep_line_end os data lst (line_end + 1) s else Some line_end)"

definition grep_print :: "'s os \<Rightarrow> addr \<Rightarrow> addr \<Rightarrow> 's \<Rightarrow> 's option" where
  "grep_print os fname line s = do {
     s \<leftarrow> ece391_fdputs os 1 fname s;
     s \<leftarrow> put_lit os '':'' s;
     s \<leftarrow> ece391_fdputs os 1 line s;
     put_lit os ''\<newline>'' s }"

partial_function (option) grep_search ::
  "'s os \<Rightarrow> addr \<Rightarrow> addr \<Rightarrow> addr \<Rightarrow> u32 \<Rightarrow> u32 \<Rightarrow> u32 \<Rightarrow> u32 \<Rightarrow> 's \<Rightarrow> 's option" where
  "grep_search os data str fname s_len line_start line_end check s =
     (if sint check < sint line_end then
        if get8 os s str = get8 os s (data + check) then do {
          r \<leftarrow> ece391_strncmp (o_tr os s) (o_mem os s) (data + check) str s_len;
          if r = 0 then grep_print os fname (data + line_start) s
          else grep_search os data str fname s_len line_start line_end (check + 1) s }
        else grep_search os data str fname s_len line_start line_end (check + 1) s
      else Some s)"

partial_function (option) grep_lines ::
  "'s os \<Rightarrow> addr \<Rightarrow> addr \<Rightarrow> addr \<Rightarrow> u32 \<Rightarrow> u32 \<Rightarrow> u32 \<Rightarrow> u32 \<Rightarrow> 's \<Rightarrow> (u32 \<times> 's) option" where
  "grep_lines os data str fname s_len cnt lst line_start s = do {
     line_end \<leftarrow> grep_line_end os data lst line_start s;
     if get8 os s (data + line_end) \<noteq> 10 \<and> cnt \<noteq> 0 \<and> line_start \<noteq> 0 then do {
       let s = put8 os (data + line_end) 0 s;
       m \<leftarrow> ece391_strcpy (o_tr os s) (o_mem os s) data (data + line_start);
       Some (lst - line_start, o_set_mem os m s) }
     else do {
       let s = put8 os (data + line_end) 0 s;
       s \<leftarrow> grep_search os data str fname s_len line_start line_end line_start s;
       if sint (line_end + 1) \<ge> sint lst then Some (0, s)
       else grep_lines os data str fname s_len cnt lst (line_end + 1) s } }"

partial_function (option) grep_chunks ::
  "'s os \<Rightarrow> addr \<Rightarrow> addr \<Rightarrow> addr \<Rightarrow> u32 \<Rightarrow> u32 \<Rightarrow> u32 \<Rightarrow> 's \<Rightarrow> (u32 \<times> 's) option" where
  "grep_chunks os data str fname s_len fd lst s = do {
     (cnt, s) \<leftarrow> ece391_read os fd (data + lst) (1024 - lst) s;
     if cnt = -1 then do { s \<leftarrow> put_lit os ''file read failed\<newline>'' s; Some (-1, s) }
     else do {
       (lst, s) \<leftarrow> grep_lines os data str fname s_len cnt (lst + cnt) 0 s;
       if cnt = 0 then do {
         (r, s) \<leftarrow> ece391_close os fd s;
         if r = -1 then do { s \<leftarrow> put_lit os ''file close failed\<newline>'' s; Some (-1, s) } else Some (0, s) }
       else grep_chunks os data str fname s_len fd lst s } }"

definition do_one_file :: "'s os \<Rightarrow> addr \<Rightarrow> addr \<Rightarrow> addr \<Rightarrow> 's \<Rightarrow> (u32 \<times> 's) option" where
  "do_one_file os data str fname s = do {
     s_len \<leftarrow> ece391_strlen (o_tr os s) (o_mem os s) str;
     (fd, s) \<leftarrow> ece391_open os fname s;
     if fd = -1 then do { s \<leftarrow> put_lit os ''file open failed\<newline>'' s; Some (-1, s) }
     else grep_chunks os data str fname s_len fd 0 s }"

partial_function (option) grep_main_loop :: "'s os \<Rightarrow> addr \<Rightarrow> addr \<Rightarrow> addr \<Rightarrow> u32 \<Rightarrow> 's \<Rightarrow> (u32 \<times> 's) option" where
  "grep_main_loop os buf search data fd s = do {
     (cnt, s) \<leftarrow> ece391_read os fd buf 32 s;
     if cnt = 0 then Some (0, s)
     else if cnt = -1 then do { s \<leftarrow> put_lit os ''directory entry read failed\<newline>'' s; Some (3, s) }
     else if get8 os s buf = of_char CHR ''.'' then grep_main_loop os buf search data fd s
     else do {
       let s = put8 os (buf + cnt) 0 s;
       (r, s) \<leftarrow> do_one_file os data search buf s;
       if r \<noteq> 0 then Some (3, s) else grep_main_loop os buf search data fd s } }"

definition grep_main :: "'s os \<Rightarrow> addr \<Rightarrow> addr \<Rightarrow> addr \<Rightarrow> 's \<Rightarrow> (u32 \<times> 's) option" where
  "grep_main os buf search data s = do {
     (r, s) \<leftarrow> ece391_getargs os search 1024 s;
     if r \<noteq> 0 then do { s \<leftarrow> put_lit os ''could not read argument\<newline>'' s; Some (3, s) }
     else do {
       (fd, s) \<leftarrow> ece391_open os (o_lit os ''.'') s;
       if fd = -1 then do { s \<leftarrow> put_lit os ''directory open failed\<newline>'' s; Some (2, s) }
       else grep_main_loop os buf search data fd s } }"

section \<open>What is printed\<close>

text \<open>The lines of a text, and the line printed for a match. The empty string matches no line.\<close>

function split_lines :: "bytes \<Rightarrow> bytes list" where
  "split_lines bs =
     (if 10 \<in> set bs then takeWhile (\<lambda>c. c \<noteq> 10) bs # split_lines (tl (dropWhile (\<lambda>c. c \<noteq> 10) bs)) else [bs])"
  by pat_completeness auto

termination
proof (relation "measure length")
  fix bs :: bytes assume "10 \<in> set bs"
  then have "dropWhile (\<lambda>c. c \<noteq> 10) bs \<noteq> []" by (auto simp: dropWhile_eq_Nil_conv)
  then have "length (tl (dropWhile (\<lambda>c. c \<noteq> 10) bs)) < length (dropWhile (\<lambda>c. c \<noteq> 10) bs)" by simp
  then show "(tl (dropWhile (\<lambda>c. c \<noteq> 10) bs), bs) \<in> measure length"
    using length_dropWhile_le [of "\<lambda>c. c \<noteq> 10" bs] by simp
qed simp

declare split_lines.simps [simp del]

definition grep_hit :: "bytes \<Rightarrow> bytes \<Rightarrow> bytes \<Rightarrow> bytes" where
  "grep_hit pat name line = (if pat \<noteq> [] \<and> sublist pat line then name @ [58] @ line @ [10] else [])"

definition grep_text :: "bytes \<Rightarrow> bytes \<Rightarrow> bytes \<Rightarrow> bytes" where
  "grep_text pat name bs = concat (map (grep_hit pat name) (split_lines bs))"

lemma split_lines_app: "10 \<notin> set l \<Longrightarrow> split_lines (l @ 10 # bs) = l # split_lines bs"
proof -
  assume "10 \<notin> set l"
  then have "takeWhile (\<lambda>c. c \<noteq> 10) (l @ 10 # bs) = l" "dropWhile (\<lambda>c. c \<noteq> 10) (l @ 10 # bs) = 10 # bs" by (induction l) auto
  then show ?thesis by (subst split_lines.simps) simp
qed

lemma split_lines_none: "10 \<notin> set l \<Longrightarrow> split_lines l = [l]"
  by (subst split_lines.simps) simp

lemma grep_text_app: "10 \<notin> set l \<Longrightarrow> grep_text pat name (l @ 10 # bs) = grep_hit pat name l @ grep_text pat name bs"
  by (simp add: grep_text_def split_lines_app)

lemma grep_text_none: "10 \<notin> set l \<Longrightarrow> grep_text pat name l = grep_hit pat name l"
  by (simp add: grep_text_def split_lines_none)

lemma grep_hit_Nil [simp]: "grep_hit pat name [] = []"
  by (simp add: grep_hit_def)

section \<open>Loops over the buffer\<close>

context address_space
begin

text \<open>\<open>ece391_strcpy\<close> moves a string down, also onto itself.\<close>

lemma ece391_strcpy_down:
  assumes "cstring tr m (a + of_nat k) bs" "0 < k" "k + Suc (length bs) < 4294967296" "rng a (k + Suc (length bs)) \<subseteq> mapped"
  shows "ece391_strcpy tr m a (a + of_nat k) = Some (store_bytes tr m a (bs @ [0]))"
  using assms
proof (induction bs arbitrary: a m)
  case Nil
  then show ?case by (subst ece391_strcpy.simps) (simp add: cstring_Nil_iff Let_def)
next
  case (Cons c cs)
  let ?m = "st8 tr m a c"
  have c: "ld8 tr m (a + of_nat k) = c" "c \<noteq> 0" "cstring tr m (a + of_nat (Suc k)) cs"
    using Cons.prems(1) by (simp_all add: cstring_Cons_iff algebra_simps)
  have a: "a \<in> mapped" using Cons.prems(4) by (auto simp: rng_def)
  have "ld8 tr ?m x = ld8 tr m x" if "x \<in> rng (a + of_nat (Suc k)) (Suc (length cs))" for x
  proof -
    define i where "i = unat (x - (a + of_nat (Suc k)))"
    then have i: "x = a + of_nat (Suc k + i)" "i < Suc (length cs)" using that by (simp_all add: rng_def)
    have "x \<in> rng a (k + Suc (length (c # cs)))" unfolding i(1) using i(2) Cons.prems(3) by (intro rng_offset) auto
    moreover have "of_nat (Suc k + i) \<noteq> (0 :: u32)" using i(2) Cons.prems(3) of_nat_eq_iff_u32 [of "Suc k + i" 0] by (auto simp del: of_nat_add of_nat_Suc)
    then have "x \<noteq> a" unfolding i(1) by simp
    ultimately show ?thesis using Cons.prems(4) a by (auto simp: ld8_st8)
  qed
  then have "cstring tr ?m (a + 1 + of_nat k) cs" using cstring_view [OF c(3)] by (simp add: algebra_simps)
  moreover have "rng (a + of_nat 1) (k + Suc (length cs)) \<subseteq> rng a (k + Suc (length (c # cs)))" by (intro rng_sub) simp
  ultimately have "ece391_strcpy tr ?m (a + 1) (a + 1 + of_nat k) = Some (store_bytes tr ?m (a + 1) (cs @ [0]))"
    using Cons.prems(2-4) by (intro Cons.IH) auto
  then show ?case using c by (subst ece391_strcpy.simps) (simp add: Let_def algebra_simps)
qed

end

lemma sublist_at:
  assumes "pat \<noteq> []"
  shows "sublist pat l \<longleftrightarrow> (\<exists>i < length l. take (length pat) (drop i l) = pat)"
proof
  assume "sublist pat l"
  then obtain ps ss where l: "l = ps @ pat @ ss" by (auto simp: sublist_def)
  with assms show "\<exists>i < length l. take (length pat) (drop i l) = pat" by (intro exI [of _ "length ps"]) simp
next
  assume "\<exists>i < length l. take (length pat) (drop i l) = pat"
  then obtain i where "take (length pat) (drop i l) = pat" by blast
  then have "l = take i l @ pat @ drop (length pat) (drop i l)" by (metis append_take_drop_id)
  then show "sublist pat l" unfolding sublist_def by blast
qed

context user_os
begin

lemma grep_line_end_ok:
  assumes "bytes_at os s (data + of_nat ls) (length w) = w" "ls + length w < 2147483648"
  shows "grep_line_end os data (of_nat (ls + length w)) (of_nat ls) s = Some (of_nat (ls + length (takeWhile (\<lambda>c. c \<noteq> 10) w)))"
  using assms
proof (induction w arbitrary: ls)
  case Nil
  then show ?case by (subst grep_line_end.simps) simp
next
  case (Cons c w)
  have c: "get8 os s (data + of_nat ls) = c" "bytes_at os s (data + of_nat (Suc ls)) (length w) = w"
    using Cons.prems(1) by (simp_all add: bytes_at_def get8_def algebra_simps)
  have "sint (of_nat ls :: u32) = int ls" "sint (of_nat (ls + length (c # w)) :: u32) = int (ls + length (c # w))"
    using Cons.prems(2) by (intro sint_small_u32; simp)+
  then have lt: "sint (of_nat ls :: u32) < sint (of_nat (ls + length (c # w)) :: u32)" by simp
  have "grep_line_end os data (of_nat (Suc ls + length w)) (of_nat (Suc ls)) s = Some (of_nat (Suc ls + length (takeWhile (\<lambda>c. c \<noteq> 10) w)))"
    using c(2) Cons.prems(2) by (intro Cons.IH) auto
  then show ?case using lt c(1) by (subst grep_line_end.simps) (simp add: algebra_simps)
qed

lemma grep_print_ok:
  assumes "inv s" "lits_at os R L s" "{'':'', ''\<newline>''} \<subseteq> set L" "R \<subseteq> img" "str_at os s fname nm" "rng fname (Suc (length nm)) \<subseteq> img"
    and "str_at os s line l" "rng line (Suc (length l)) \<subseteq> img" "length nm < 2147483648" "length l < 2147483648"
  shows "\<exists>s'. grep_print os fname line s = Some s' \<and> inv s' \<and> keeps os img s s' \<and> abs s' = emits emit (nm @ [58] @ l @ [10]) (abs s)"
proof -
  have k: "lits_at os R L s'" if "keeps os img s s'" for s' using keeps_lits [OF assms(2) keeps_mono [OF that assms(4)]] .
  obtain s1 where s1: "ece391_fdputs os 1 fname s = Some s1" "inv s1" "keeps os img s s1" "abs s1 = emits emit nm (abs s)"
    using fdputs_ok [OF assms(1,5,6,9)] by blast
  obtain s2 where s2: "put_lit os '':'' s1 = Some s2" "inv s2" "keeps os img s1 s2" "abs s2 = emits emit [58] (abs s1)"
    using put_lit_ok [OF s1(2) k [OF s1(3)] _ assms(4), of "'':''"] assms(3) by auto
  note k2 = keeps_trans [OF s1(3) s2(3)]
  obtain s3 where s3: "ece391_fdputs os 1 line s2 = Some s3" "inv s3" "keeps os img s2 s3" "abs s3 = emits emit l (abs s2)"
    using fdputs_ok [OF s2(2) keeps_str [OF assms(7) k2 assms(8)] assms(8,10)] by blast
  note k3 = keeps_trans [OF k2 s3(3)]
  obtain s4 where s4: "put_lit os ''\<newline>'' s3 = Some s4" "inv s4" "keeps os img s3 s4" "abs s4 = emits emit [10] (abs s3)"
    using put_lit_ok [OF s3(2) k [OF k3] _ assms(4), of "''\<newline>''"] assms(3) by auto
  show ?thesis
    using s1(1,4) s2(1,4) s3(1,4) s4 keeps_trans [OF k3 s4(3)] by (simp add: grep_print_def emits_def)
qed

end


context user_os
begin

lemma grep_search_ok:
  assumes "inv s" "lits_at os R L s" "{'':'', ''\<newline>''} \<subseteq> set L" "R \<subseteq> img" "str_at os s fname nm" "rng fname (Suc (length nm)) \<subseteq> img"
    and l: "str_at os s (data + of_nat ls) l" "rng (data + of_nat ls) (Suc (length l)) \<subseteq> img" "length nm < 2147483648" "ls + length l < 2147483648"
    and pat: "str_at os s str pat" and j: "j \<le> length l"
  shows "\<exists>s'. grep_search os data str fname (of_nat (length pat)) (of_nat ls) (of_nat (ls + length l)) (of_nat (ls + j)) s = Some s' \<and>
    inv s' \<and> keeps os img s s' \<and>
    abs s' = emits emit (if pat \<noteq> [] \<and> (\<exists>i < length l. j \<le> i \<and> take (length pat) (drop i l) = pat) then nm @ [58] @ l @ [10] else []) (abs s)"
  using j
proof (induction "length l - j" arbitrary: j)
  case 0
  then show ?case using assms(1) by (subst grep_search.simps) (auto simp: keeps_def emits_def)
next
  case (Suc n)
  then have j: "j < length l" by simp
  have "sint (of_nat (ls + j) :: u32) = int (ls + j)" "sint (of_nat (ls + length l) :: u32) = int (ls + length l)"
    using l(4) j by (intro sint_small_u32; simp)+
  then have lt: "sint (of_nat (ls + j) :: u32) < sint (of_nat (ls + length l) :: u32)" using j by simp
  have a: "data + of_nat ls + of_nat j = data + of_nat (ls + j)" by (simp add: add.assoc)
  have cj: "cstring (o_tr os s) (o_mem os s) (data + of_nat (ls + j)) (drop j l)"
    using cstring_drop [of "o_tr os s" "o_mem os s" "data + of_nat ls" l j] l(1) j by (simp add: str_at_def a)
  have lj: "get8 os s (data + of_nat (ls + j)) = l ! j" "l ! j \<noteq> 0"
    using cj j by (simp_all add: get8_def cstring_Cons_iff flip: Cons_nth_drop_Suc)
  have hd: "get8 os s str = (pat @ [0]) ! 0" using pat by (cases pat) (simp_all add: str_at_def get8_def cstring_Nil_iff cstring_Cons_iff)
  have n: "unat (of_nat (length pat) :: u32) = length pat" using pat by (simp add: str_at_def cstring_def unat_of_nat_u32)
  obtain r where r: "ece391_strncmp (o_tr os s) (o_mem os s) (data + of_nat (ls + j)) str (of_nat (length pat)) = Some r"
      "r = 0 \<longleftrightarrow> take (length pat) (drop j l) = pat"
    using ece391_strncmp_eq [OF cj, of str pat "of_nat (length pat)"] pat n by (auto simp: str_at_def)
  show ?case
  proof (cases "pat \<noteq> [] \<and> take (length pat) (drop j l) = pat")
    case True
    then have "pat ! 0 = l ! j" using j by (cases pat) (auto simp flip: Cons_nth_drop_Suc)
    then have "get8 os s str = get8 os s (data + of_nat (ls + j))" using hd lj True by (cases pat) auto
    moreover obtain s' where "grep_print os fname (data + of_nat ls) s = Some s'" "inv s'" "keeps os img s s'"
        "abs s' = emits emit (nm @ [58] @ l @ [10]) (abs s)"
      using grep_print_ok [OF assms(1-6) l(1,2,3)] l(4) by auto
    ultimately show ?thesis using True lt r j by (subst grep_search.simps) auto
  next
    case False
    have "(\<exists>i < length l. j \<le> i \<and> take (length pat) (drop i l) = pat) = (\<exists>i < length l. Suc j \<le> i \<and> take (length pat) (drop i l) = pat)"
      if "pat \<noteq> []"
      using that False by (metis Suc_leD Suc_leI le_neq_implies_less)
    moreover have "grep_search os data str fname (of_nat (length pat)) (of_nat ls) (of_nat (ls + length l)) (of_nat (ls + j)) s =
        grep_search os data str fname (of_nat (length pat)) (of_nat ls) (of_nat (ls + length l)) (of_nat (ls + Suc j)) s"
      using False lt r hd lj by (subst grep_search.simps) (auto simp: algebra_simps)
    ultimately show ?thesis using Suc.hyps(1) [of "Suc j"] Suc.hyps(2) j by (cases "pat = []") auto
  qed
qed

end

section \<open>The lines in the buffer\<close>

context user_os
begin

definition grep_env :: "addr \<Rightarrow> addr \<Rightarrow> addr \<Rightarrow> bytes \<Rightarrow> bytes \<Rightarrow> string list \<Rightarrow> 's \<Rightarrow> bool" where
  "grep_env data str fname pat nm L s \<longleftrightarrow> inv s \<and> rng data 1025 \<subseteq> img \<and> lits_at os (img - rng data 1025) L s \<and>
     {'':'', ''\<newline>''} \<subseteq> set L \<and> str_at os s str pat \<and> rng str (Suc (length pat)) \<subseteq> img - rng data 1025 \<and>
     str_at os s fname nm \<and> rng fname (Suc (length nm)) \<subseteq> img - rng data 1025 \<and> length nm < 2147483648"

lemma grep_env_keeps:
  assumes "grep_env data str fname pat nm L s" "keeps os (img - rng data 1025) s s'" "inv s'"
  shows "grep_env data str fname pat nm L s'"
  using assms keeps_lits [of "img - rng data 1025" L s s'] keeps_str [of s _ _ "img - rng data 1025" s'] by (simp add: grep_env_def)

lemma in_data: "i < 1025 \<Longrightarrow> data + of_nat i \<in> rng data 1025"
  by (rule rng_offset) simp_all

lemma bytes_nth:
  assumes "bytes_at os s a (length w) = w" "i < length w"
  shows "get8 os s (a + of_nat i) = w ! i"
  using assms nth_load_bytes [OF assms(2), of "o_tr os s" "o_mem os s" a] by (simp add: bytes_at_def get8_def)

lemma bytes_atI: "(\<And>i. i < length w \<Longrightarrow> get8 os s (a + of_nat i) = w ! i) \<Longrightarrow> bytes_at os s a (length w) = w"
  unfolding bytes_at_def get8_def by (rule load_bytes_eqI) simp_all

text \<open>The end of the line is overwritten with a terminator.\<close>

lemma cut_line:
  assumes env: "grep_env data str fname pat nm L s" and w: "bytes_at os s (data + of_nat ls) (length (l @ w)) = l @ w" "0 \<notin> set l"
    and n: "ls + length (l @ w) \<le> 1024"
  defines "s1 \<equiv> put8 os (data + of_nat (ls + length l)) 0 s"
  shows "grep_env data str fname pat nm L s1" "abs s1 = abs s" "str_at os s1 (data + of_nat ls) l"
    "get8 os s (data + 1024) \<noteq> 10 \<Longrightarrow> get8 os s1 (data + 1024) \<noteq> 10"
    "w \<noteq> [] \<Longrightarrow> bytes_at os s1 (data + of_nat (Suc (ls + length l))) (length (tl w)) = tl w"
    "rng (data + of_nat ls) (Suc (length l)) \<subseteq> img"
proof -
  let ?e = "data + of_nat (ls + length l)"
  have inv: "inv s" and d: "rng data 1025 \<subseteq> img" using env by (simp_all add: grep_env_def)
  have e: "?e \<in> rng data 1025" using n by (intro in_data) simp
  then have ei: "?e \<in> img" using d by blast
  note p = put8_ok [OF inv ei]
  have g: "get8 os s1 (data + of_nat i) = (if i = ls + length l then 0 else get8 os s (data + of_nat i))" if "i < 1025" for i
  proof -
    have "data + of_nat i \<in> img" using in_data [OF that] d by blast
    moreover have "data + of_nat i = ?e \<longleftrightarrow> i = ls + length l"
      using that n of_nat_eq_iff_u32 [of i "ls + length l"] by (simp del: of_nat_add)
    ultimately show ?thesis using p(3) [of "data + of_nat i" 0] by (simp add: s1_def del: of_nat_add)
  qed
  show "abs s1 = abs s" using p(2) by (simp add: s1_def)
  have "keeps os (img - rng data 1025) s s1" unfolding s1_def using e by (intro put8_keeps inv ei) auto
  then show "grep_env data str fname pat nm L s1" using grep_env_keeps [OF env] p(1) by (simp add: s1_def)
  have "get8 os s1 (data + of_nat ls + of_nat i) = (l @ [0]) ! i" if "i \<le> length l" for i
    using that n g [of "ls + i"] bytes_nth [OF w(1), of i] by (auto simp: nth_append add.assoc)
  then have "bytes_at os s1 (data + of_nat ls) (length l) = l" "get8 os s1 (data + of_nat ls + of_nat (length l)) = 0"
    by (auto intro!: bytes_atI simp: nth_append)
  then show "str_at os s1 (data + of_nat ls) l" using w(2) n by (simp add: str_at_def cstring_def bytes_at_def get8_def)
  show "get8 os s (data + 1024) \<noteq> 10 \<Longrightarrow> get8 os s1 (data + 1024) \<noteq> 10" using g [of 1024] by auto
  show "bytes_at os s1 (data + of_nat (Suc (ls + length l))) (length (tl w)) = tl w" if "w \<noteq> []"
  proof (rule bytes_atI)
    fix i assume i: "i < length (tl w)"
    have "get8 os s (data + of_nat ls + of_nat (Suc (length l) + i)) = (l @ w) ! (Suc (length l) + i)"
      using i by (intro bytes_nth [OF w(1)]) auto
    then show "get8 os s1 (data + of_nat (Suc (ls + length l)) + of_nat i) = tl w ! i"
      using g [of "ls + Suc (length l) + i"] i n by (simp add: nth_append nth_tl algebra_simps)
  qed
  have "rng (data + of_nat ls) (Suc (length l)) \<subseteq> rng data 1025" using n by (intro rng_sub) simp
  then show "rng (data + of_nat ls) (Suc (length l)) \<subseteq> img" using d by blast
qed

text \<open>The whole line is searched.\<close>

lemma search_line:
  assumes env: "grep_env data str fname pat nm L s" and l: "str_at os s (data + of_nat ls) l" "rng (data + of_nat ls) (Suc (length l)) \<subseteq> img"
    and n: "ls + length l \<le> 1024"
  shows "\<exists>s'. grep_search os data str fname (of_nat (length pat)) (of_nat ls) (of_nat (ls + length l)) (of_nat ls) s = Some s' \<and>
    grep_env data str fname pat nm L s' \<and> keeps os img s s' \<and> abs s' = emits emit (grep_hit pat nm l) (abs s)"
proof -
  have e: "inv s" "lits_at os (img - rng data 1025) L s" "{'':'', ''\<newline>''} \<subseteq> set L" "img - rng data 1025 \<subseteq> img"
    "str_at os s fname nm" "rng fname (Suc (length nm)) \<subseteq> img" "length nm < 2147483648" "str_at os s str pat"
    using env by (auto simp: grep_env_def)
  have n': "ls + length l < 2147483648" using n by simp
  from grep_search_ok [OF e(1-6) l e(7) n' e(8), of 0] obtain s' where
      s': "grep_search os data str fname (of_nat (length pat)) (of_nat ls) (of_nat (ls + length l)) (of_nat (ls + 0)) s = Some s'"
      "inv s'" "keeps os img s s'"
      "abs s' = emits emit (if pat \<noteq> [] \<and> (\<exists>i < length l. 0 \<le> i \<and> take (length pat) (drop i l) = pat) then nm @ [58] @ l @ [10] else []) (abs s)"
    by blast
  have "(pat \<noteq> [] \<and> (\<exists>i < length l. 0 \<le> i \<and> take (length pat) (drop i l) = pat)) = (pat \<noteq> [] \<and> sublist pat l)"
    using sublist_at [of pat l] by auto
  then have "abs s' = emits emit (grep_hit pat nm l) (abs s)" using s'(4) by (simp only: grep_hit_def)
  moreover have "grep_env data str fname pat nm L s'" using grep_env_keeps [OF env keeps_mono [OF s'(3)] s'(2)] by blast
  ultimately show ?thesis using s' by auto
qed

end

context user_os
begin

text \<open>The rest of an unfinished line is moved to the beginning of the buffer.\<close>

lemma keep_rest:
  assumes env: "grep_env data str fname pat nm L s" and w: "bytes_at os s (data + of_nat ls) (length w) = w" "0 \<notin> set w"
    and n: "ls + length w \<le> 1024" "0 < ls" and e: "get8 os s (data + 1024) \<noteq> 10"
  defines "s1 \<equiv> put8 os (data + of_nat (ls + length w)) 0 s"
  shows "\<exists>m. ece391_strcpy (o_tr os s1) (o_mem os s1) data (data + of_nat ls) = Some m \<and> grep_env data str fname pat nm L (o_set_mem os m s1) \<and>
    abs (o_set_mem os m s1) = abs s \<and> bytes_at os (o_set_mem os m s1) data (length w) = w \<and> get8 os (o_set_mem os m s1) (data + 1024) \<noteq> 10"
proof -
  note c = cut_line [OF env _ w(2), of ls "[]", folded s1_def]
  have env1: "grep_env data str fname pat nm L s1" and abs1: "abs s1 = abs s" and str1: "str_at os s1 (data + of_nat ls) w"
    and e1: "get8 os s1 (data + 1024) \<noteq> 10"
    using c(1-4) w(1) n(1) e by (simp_all add: s1_def)
  have inv1: "inv s1" and d: "rng data 1025 \<subseteq> img" using env1 by (simp_all add: grep_env_def)
  let ?tr = "o_tr os s1" and ?m = "store_bytes (o_tr os s1) (o_mem os s1) data (w @ [0])"
  have as: "address_space ?tr img" using space [OF inv1] by (simp add: address_space_def)
  have sub: "rng data (ls + Suc (length w)) \<subseteq> img" using rng_mono [of "ls + Suc (length w)" 1025 data] n(1) d by auto
  have sub': "rng data (length (w @ [0])) \<subseteq> rng data 1024" using n by (intro rng_mono) simp
  have "rng data 1024 \<subseteq> rng data 1025" by (rule rng_mono) simp
  then have subi: "rng data (length (w @ [0])) \<subseteq> img" using sub' d by blast
  have cp: "ece391_strcpy ?tr (o_mem os s1) data (data + of_nat ls) = Some ?m"
    using str1 n sub by (intro address_space.ece391_strcpy_down [OF as]) (simp_all add: str_at_def)
  have len: "length (w @ [0]) \<le> 4294967296" using n(1) by simp
  then have "?m p = o_mem os s1 p" if "p \<notin> ?tr ` img" for p
    using that subi by (intro store_bytes_frame) (auto simp del: length_append)
  note sm = set_mem [OF inv1 this]
  have out: "get8 os (o_set_mem os ?m s1) x = get8 os s1 x" if "x \<in> img" "x \<notin> rng data (length (w @ [0]))" for x
    using that sm address_space.ld8_store_outside [OF as, of data "w @ [0]" x "o_mem os s1"] subi n(1) by (simp add: get8_def)
  have "load_bytes ?tr ?m data (length (w @ [0])) = w @ [0]"
    using subi n(1) by (intro address_space.load_store_same [OF as]) simp_all
  then have "load_bytes ?tr ?m data (length w) = w"
    using take_load_bytes [of "length w" "length (w @ [0])" ?tr ?m data] by (simp del: load_bytes.simps)
  then have "bytes_at os (o_set_mem os ?m s1) data (length w) = w" using sm by (simp add: bytes_at_def)
  moreover have "keeps os (img - rng data 1025) s1 (o_set_mem os ?m s1)"
    using out sub' \<open>rng data 1024 \<subseteq> rng data 1025\<close> by (auto simp: keeps_def)
  moreover have "get8 os (o_set_mem os ?m s1) (data + 1024) \<noteq> 10"
  proof -
    have i: "data + 1024 \<in> img" "data + 1024 \<notin> rng data 1024" using in_data [of 1024 data] d by (auto simp: rng_def)
    then have "data + 1024 \<notin> rng data (length (w @ [0]))" using sub' by blast
    then show ?thesis using out [OF i(1)] e1 by simp
  qed
  ultimately show ?thesis using cp sm abs1 grep_env_keeps [OF env1] by auto
qed

lemma grep_lines_ok:
  assumes "grep_env data str fname pat nm L s" "bytes_at os s (data + of_nat ls) (length w) = w" "0 \<notin> set w"
    and "ls + length w \<le> 1024" "w = [] \<longrightarrow> ls = 0" "get8 os s (data + 1024) \<noteq> 10"
  shows "\<exists>s' rest bs. grep_lines os data str fname (of_nat (length pat)) cnt (of_nat (ls + length w)) (of_nat ls) s = Some (of_nat (length rest), s') \<and>
    grep_env data str fname pat nm L s' \<and> abs s' = emits emit bs (abs s) \<and> suffix rest w \<and> 10 \<notin> set rest \<and> length rest < 1024 \<and>
    (cnt = 0 \<longrightarrow> rest = []) \<and> bytes_at os s' data (length rest) = rest \<and> get8 os s' (data + 1024) \<noteq> 10 \<and>
    (\<forall>r. r = [] \<or> cnt \<noteq> 0 \<and> ls + length w = 1024 \<and> (ls \<noteq> 0 \<or> 10 \<in> set w) \<longrightarrow>
       grep_text pat nm (w @ r) = bs @ grep_text pat nm (rest @ r))"
  using assms
proof (induction "length w" arbitrary: w ls s rule: less_induct)
  case less
  define l where "l = takeWhile (\<lambda>c. c \<noteq> 10) w"
  have l: "10 \<notin> set l" "0 \<notin> set l" using set_takeWhileD [of _ "\<lambda>c. c \<noteq> 10" w] less.prems(3) by (auto simp: l_def)
  define w' where "w' = dropWhile (\<lambda>c. c \<noteq> 10) w"
  have ww: "w = l @ w'" by (simp add: l_def w'_def)
  have le: "grep_line_end os data (of_nat (ls + length w)) (of_nat ls) s = Some (of_nat (ls + length l))"
    using grep_line_end_ok [OF less.prems(2)] less.prems(4) by (simp add: l_def)
  let ?s1 = "put8 os (data + of_nat (ls + length l)) 0 s"
  note c = cut_line [OF less.prems(1) less.prems(2) [unfolded ww] l(2) less.prems(4) [unfolded ww]]
  have ll: "ls + length l \<le> 1024" using less.prems(4) by (simp add: ww)
  obtain s2 where s2: "grep_search os data str fname (of_nat (length pat)) (of_nat ls) (of_nat (ls + length l)) (of_nat ls) ?s1 = Some s2"
      "grep_env data str fname pat nm L s2" "keeps os img ?s1 s2" "abs s2 = emits emit (grep_hit pat nm l) (abs s)"
    using search_line [OF c(1,3,6) ll] c(2) by auto
  have in_img: "data + of_nat i \<in> img" if "i < 1025" for i using in_data [OF that] c(1) by (auto simp: grep_env_def)
  have e2: "get8 os s2 (data + 1024) \<noteq> 10" using c(4) [OF less.prems(6)] s2(3) in_img [of 1024] by (simp add: keeps_def)
  have si: "sint (of_nat (ls + length w) :: u32) = int (ls + length w)" "sint (of_nat (ls + length l) + 1 :: u32) = int (Suc (ls + length l))"
    using sint_small_u32 [of "ls + length w"] sint_small_u32 [of "Suc (ls + length l)"] less.prems(4) ll by (simp_all add: add.commute)
  have ls0: "of_nat ls \<noteq> (0 :: u32) \<longleftrightarrow> ls \<noteq> 0" using of_nat_eq_iff_u32 [of ls 0] less.prems(4) by simp
  show ?case
  proof (cases w')
    case Nil
    then have lw: "l = w" by (simp add: ww)
    show ?thesis
    proof (cases "get8 os s (data + of_nat (ls + length w)) \<noteq> 10 \<and> cnt \<noteq> 0 \<and> ls \<noteq> 0")
      case True
      then obtain m where m: "ece391_strcpy (o_tr os ?s1) (o_mem os ?s1) data (data + of_nat ls) = Some m"
          "grep_env data str fname pat nm L (o_set_mem os m ?s1)" "abs (o_set_mem os m ?s1) = abs s"
          "bytes_at os (o_set_mem os m ?s1) data (length w) = w" "get8 os (o_set_mem os m ?s1) (data + 1024) \<noteq> 10"
        using keep_rest [OF less.prems(1-4) _ less.prems(6)] by (auto simp: lw)
      have "of_nat (ls + length w) - of_nat ls = (of_nat (length w) :: u32)" by simp
      then have "grep_lines os data str fname (of_nat (length pat)) cnt (of_nat (ls + length w)) (of_nat ls) s = Some (of_nat (length w), o_set_mem os m ?s1)"
        using True le m(1) ls0 by (subst grep_lines.simps) (simp add: lw Let_def)
      then show ?thesis
        using True m l(1) less.prems(4) by (intro exI [of _ "o_set_mem os m ?s1"] exI [of _ w] exI [of _ "[]"]) (auto simp: lw emits_def)
    next
      case False
      then have "grep_lines os data str fname (of_nat (length pat)) cnt (of_nat (ls + length w)) (of_nat ls) s = Some (0, s2)"
        using le s2(1) ls0 si by (subst grep_lines.simps) (auto simp: lw Let_def)
      moreover have "grep_text pat nm (w @ r) = grep_hit pat nm w @ grep_text pat nm ([] @ r)"
        if "r = [] \<or> cnt \<noteq> 0 \<and> ls + length w = 1024 \<and> (ls \<noteq> 0 \<or> 10 \<in> set w)" for r
      proof -
        have "r = []" using that False less.prems(6) l(1) by (auto simp: lw simp del: of_nat_add)
        then show ?thesis using l(1) by (simp add: lw grep_text_none)
      qed
      moreover have "bytes_at os s2 data (length []) = []" by (simp add: bytes_at_def)
      ultimately show ?thesis
        using s2(2,4) e2 unfolding lw by (intro exI [of _ s2] exI [of _ "[]"] exI [of _ "grep_hit pat nm w"]) simp
    qed
  next
    case (Cons x w2)
    then have x: "x = 10" using hd_dropWhile [of "\<lambda>c. c \<noteq> 10" w] by (simp add: w'_def)
    have w: "w = l @ 10 # w2" by (simp add: ww Cons x)
    have g: "get8 os s (data + of_nat (ls + length l)) = 10"
      using bytes_nth [OF less.prems(2), of "length l"] by (simp add: w nth_append add.assoc)
    have sw: "Suc (ls + length l) + length w2 = ls + length w" by (simp add: w)
    have b2: "bytes_at os s2 (data + of_nat (Suc (ls + length l))) (length w2) = w2"
    proof (rule bytes_atI)
      fix i assume i: "i < length w2"
      have "get8 os ?s1 (data + of_nat (Suc (ls + length l)) + of_nat i) = w2 ! i"
        using bytes_nth [OF c(5), of i] i by (simp add: Cons)
      then show "get8 os s2 (data + of_nat (Suc (ls + length l)) + of_nat i) = w2 ! i"
        using s2(3) in_img [of "Suc (ls + length l) + i"] i sw less.prems(4) by (simp add: keeps_def add.assoc)
    qed
    have step: "grep_lines os data str fname (of_nat (length pat)) cnt (of_nat (ls + length w)) (of_nat ls) s =
      (if w2 = [] then Some (0, s2) else grep_lines os data str fname (of_nat (length pat)) cnt (of_nat (ls + length w)) (of_nat (Suc (ls + length l))) s2)"
      using le g s2(1) si by (subst grep_lines.simps) (simp add: Let_def w algebra_simps)
    show ?thesis
    proof (cases "w2 = []")
      case True
      then show ?thesis
        using step s2(2,4) e2 l(1) by (intro exI [of _ s2] exI [of _ "[]"] exI [of _ "grep_hit pat nm l"])
          (auto simp: w grep_text_app bytes_at_def)
    next
      case False
      have "length w2 < length w" "0 \<notin> set w2" "Suc (ls + length l) + length w2 \<le> 1024" using less.prems(3,4) by (auto simp: w)
      from less.hyps [OF this(1) s2(2) b2 this(2,3) _ e2] False obtain s' rest bs where r:
          "grep_lines os data str fname (of_nat (length pat)) cnt (of_nat (ls + length w)) (of_nat (Suc (ls + length l))) s2 = Some (of_nat (length rest), s')"
          "grep_env data str fname pat nm L s'" "abs s' = emits emit bs (abs s2)" "suffix rest w2" "10 \<notin> set rest" "length rest < 1024"
          "cnt = 0 \<longrightarrow> rest = []" "bytes_at os s' data (length rest) = rest" "get8 os s' (data + 1024) \<noteq> 10"
          "\<forall>r. r = [] \<or> cnt \<noteq> 0 \<and> ls + length w = 1024 \<longrightarrow> grep_text pat nm (w2 @ r) = bs @ grep_text pat nm (rest @ r)"
        unfolding sw by auto
      have "suffix rest w" using r(4) by (auto simp: w suffix_def)
      moreover have "abs s' = emits emit (grep_hit pat nm l @ bs) (abs s)" using r(3) s2(4) by (simp add: emits_def)
      moreover have "grep_text pat nm (w @ r) = (grep_hit pat nm l @ bs) @ grep_text pat nm (rest @ r)"
        if "r = [] \<or> cnt \<noteq> 0 \<and> ls + length w = 1024 \<and> (ls \<noteq> 0 \<or> 10 \<in> set w)" for r
      proof -
        have "grep_text pat nm (w2 @ r) = bs @ grep_text pat nm (rest @ r)" using that r(10) by blast
        then show ?thesis using grep_text_app [OF l(1), of pat nm "w2 @ r"] by (simp add: w)
      qed
      ultimately show ?thesis using step False r(1,2,5-9) by auto
    qed
  qed
qed

end

section \<open>One file\<close>

lemma offset_out:
  assumes "j < 4294967296" "k + n \<le> 4294967296" "j < k \<or> k + n \<le> j"
  shows "a + of_nat j \<notin> rng (a + of_nat k) n"
proof
  define x where "x = unat (of_nat j - of_nat k :: u32)"
  assume "a + of_nat j \<in> rng (a + of_nat k) n"
  then have x: "x < n" by (simp add: rng_def x_def)
  have "of_nat j = (of_nat (k + x) :: u32)" by (simp add: x_def)
  then have "unat (of_nat j :: u32) = unat (of_nat (k + x) :: u32)" by simp
  then have "j = k + x" using assms x by (simp add: unat_of_nat_u32 del: of_nat_add)
  then show False using assms(3) x by simp
qed

text \<open>No line is longer than the buffer.\<close>

definition short_lines :: "bytes \<Rightarrow> bool" where
  "short_lines bs \<longleftrightarrow> (\<forall>l. sublist l bs \<and> 10 \<notin> set l \<longrightarrow> length l < 1024)"

lemma short_lines_suffix: "short_lines bs \<Longrightarrow> suffix xs bs \<Longrightarrow> short_lines xs"
  unfolding short_lines_def by (meson suffix_imp_sublist sublist_order.order_trans)

context user_os
begin

lemma grep_chunks_ok:
  assumes "grep_env data str fname pat nm L s" "2 \<le> i" "i < 8" "us_files (abs s) i = Some (Data r)"
    and "bytes_at os s data (length p) = p" "length p < 1024" "10 \<notin> set p" "0 \<notin> set (p @ r)" "short_lines (p @ r)"
    and "get8 os s (data + 1024) \<noteq> 10"
  shows "\<exists>s'. grep_chunks os data str fname (of_nat (length pat)) (of_nat i) (of_nat (length p)) s = Some (0, s') \<and>
    grep_env data str fname pat nm L s' \<and> get8 os s' (data + 1024) \<noteq> 10 \<and>
    abs s' = emits emit (grep_text pat nm (p @ r)) ((abs s)\<lparr>us_files := (us_files (abs s))(i := None)\<rparr>)"
  using assms(1,4-)
proof (induction "length r" arbitrary: r p s rule: less_induct)
  case less
  let ?n = "1024 - of_nat (length p) :: u32" and ?k = "1024 - length p" and ?a = "data + of_nat (length p)"
  let ?d = "take ?k r" and ?r = "drop ?k r"
  have inv: "inv s" and d: "rng data 1025 \<subseteq> img" using less.prems(1) by (simp_all add: grep_env_def)
  have n: "unat ?n = ?k"
  proof -
    have "?n = of_nat ?k" using less.prems(4) by (simp add: of_nat_diff)
    then show ?thesis by (simp add: unat_of_nat_u32)
  qed
  have rd: "u_read (unat ?n) (Data r) = (?d, Data ?r)" by (simp add: n)
  have sub: "rng ?a (u_extent (unat ?n) (Data r)) \<subseteq> rng data 1024"
    unfolding n using rng_sub [of "length p" ?k 1024 data] less.prems(4) by simp
  have s1024: "rng data 1024 \<subseteq> rng data 1025" by (rule rng_mono) simp
  have subi: "rng ?a (u_extent (unat ?n) (Data r)) \<subseteq> img" using sub s1024 d by blast
  from read_file [OF inv assms(2,3) less.prems(2) _ rd subi] obtain s1 where
    s1: "ece391_read os (of_nat i) ?a ?n s = Some (of_nat (length ?d), s1)" "inv s1" "keeps os (img - rng ?a ?k) s s1"
      "bytes_at os s1 ?a (length ?d) = ?d" "abs s1 = (abs s)\<lparr>us_files := (us_files (abs s))(i \<mapsto> Data ?r)\<rparr>" unfolding n by auto
  have "keeps os (img - rng data 1025) s s1" using s1(3) sub s1024 unfolding n by (auto intro: keeps_mono)
  then have env1: "grep_env data str fname pat nm L s1" using grep_env_keeps [OF less.prems(1)] s1(2) by blast
  have kp: "get8 os s1 (data + of_nat j) = get8 os s (data + of_nat j)" if "j < length p \<or> j = 1024" for j
  proof -
    have "data + of_nat j \<in> img" using in_data [of j data] that less.prems(4) d by auto
    moreover have "data + of_nat j \<notin> rng ?a ?k" using that less.prems(4) by (intro offset_out) auto
    ultimately show ?thesis using s1(3) by (simp add: keeps_def)
  qed
  define w where "w = p @ ?d"
  have w: "bytes_at os s1 (data + of_nat 0) (length w) = w"
  proof (rule bytes_atI)
    fix j assume j: "j < length w"
    show "get8 os s1 (data + of_nat 0 + of_nat j) = w ! j"
    proof (cases "j < length p")
      case True
      then show ?thesis using kp [of j] bytes_nth [OF less.prems(3), of j] by (simp add: w_def nth_append)
    next
      case False
      then have "?a + of_nat (j - length p) = data + of_nat j" by simp
      then show ?thesis using False j bytes_nth [OF s1(4), of "j - length p"] by (simp add: w_def nth_append del: length_take)
    qed
  qed
  have e1: "get8 os s1 (data + 1024) \<noteq> 10" using kp [of 1024] less.prems(8) by simp
  have w0: "0 \<notin> set w" "0 + length w \<le> 1024" using less.prems(4,6) in_set_takeD [of 0 ?k r] by (auto simp: w_def)
  let ?c = "of_nat (length ?d) :: u32"
  have c: "?c \<noteq> -1" "?c = 0 \<longleftrightarrow> ?d = []"
  proof -
    have d: "length ?d < 1025" by simp
    then show "?c \<noteq> -1" by (intro small_not_minus1) linarith
    have "length ?d < 4294967296" using d by linarith
    then have "?c = of_nat 0 \<longleftrightarrow> length ?d = 0" by (intro of_nat_eq_iff_u32) simp_all
    then show "?c = 0 \<longleftrightarrow> ?d = []" unfolding semiring_1_class.of_nat_0 length_0_conv .
  qed
  have "w = [] \<longrightarrow> 0 = 0" by simp
  from grep_lines_ok [OF env1 w w0 this e1, of ?c] obtain s2 rest bs where
      s2: "grep_lines os data str fname (of_nat (length pat)) ?c (of_nat (0 + length w)) (of_nat 0) s1 = Some (of_nat (length rest), s2)"
      "grep_env data str fname pat nm L s2" "abs s2 = emits emit bs (abs s1)" "suffix rest w" "10 \<notin> set rest" "length rest < 1024"
      "?c = 0 \<longrightarrow> rest = []" "bytes_at os s2 data (length rest) = rest" "get8 os s2 (data + 1024) \<noteq> 10"
      "\<forall>r'. r' = [] \<or> ?c \<noteq> 0 \<and> 0 + length w = 1024 \<and> (0 \<noteq> 0 \<or> 10 \<in> set w) \<longrightarrow>
        grep_text pat nm (w @ r') = bs @ grep_text pat nm (rest @ r')"
    by blast
  have lw: "of_nat (0 + length w) = of_nat (length p) + ?c" by (simp add: w_def)
  have f2: "us_files (abs s2) i = Some (Data ?r)" using s2(3) s1(5) by (simp add: emits_def)
  have step: "grep_chunks os data str fname (of_nat (length pat)) (of_nat i) (of_nat (length p)) s =
    (if ?c = 0 then do {
       (r, s) \<leftarrow> ece391_close os (of_nat i) s2;
       if r = -1 then do { s \<leftarrow> put_lit os ''file close failed\<newline>'' s; Some (-1, s) } else Some (0, s) }
     else grep_chunks os data str fname (of_nat (length pat)) (of_nat i) (of_nat (length rest)) s2)"
    using s1(1) s2(1) [unfolded lw] c(1) by (subst grep_chunks.simps) (simp del: length_take)
  show ?case
  proof (cases "?d = []")
    case True
    then have r: "r = []" using less.prems(4) by auto
    have "\<exists>s3. ece391_close os (of_nat i) s2 = Some (0, s3) \<and> inv s3 \<and> keeps os img s2 s3 \<and>
        abs s3 = (abs s2)\<lparr>us_files := (us_files (abs s2))(i := None)\<rparr>"
      using s2(2) f2 by (intro close_file assms(2,3)) (simp_all add: grep_env_def)
    then obtain s3 where s3: "ece391_close os (of_nat i) s2 = Some (0, s3)" "inv s3" "keeps os img s2 s3"
        "abs s3 = (abs s2)\<lparr>us_files := (us_files (abs s2))(i := None)\<rparr>" by blast
    have "bs = grep_text pat nm p" using s2(7,10) c(2) True by (auto simp: w_def r grep_text_none)
    moreover have "grep_env data str fname pat nm L s3" using grep_env_keeps [OF s2(2) keeps_mono [OF s3(3)] s3(2)] by blast
    moreover have "get8 os s3 (data + 1024) \<noteq> 10" using s3(3) s2(9) in_data [of 1024 data] d by (auto simp: keeps_def)
    ultimately show ?thesis using step c(2) True s3 s2(3) s1(5) by (simp add: r emits_def)
  next
    case False
    have sf: "suffix (rest @ ?r) (p @ r)"
    proof -
      have "p @ r = w @ ?r" by (simp add: w_def)
      then show ?thesis using s2(4) by (auto simp: suffix_def)
    qed
    then have z: "0 \<notin> set (rest @ ?r)" using less.prems(6) set_mono_suffix [OF sf] by blast
    have len: "length ?r < length r" using False less.prems(4) by (cases r) auto
    from less.hyps [OF len s2(2) f2 s2(8,6,5) z short_lines_suffix [OF less.prems(7) sf] s2(9)] obtain s' where
      s': "grep_chunks os data str fname (of_nat (length pat)) (of_nat i) (of_nat (length rest)) s2 = Some (0, s')"
        "grep_env data str fname pat nm L s'" "get8 os s' (data + 1024) \<noteq> 10"
        "abs s' = emits emit (grep_text pat nm (rest @ ?r)) ((abs s2)\<lparr>us_files := (us_files (abs s2))(i := None)\<rparr>)" by blast
    have "?r = [] \<or> ?c \<noteq> 0 \<and> 0 + length w = 1024 \<and> (0 \<noteq> 0 \<or> 10 \<in> set w)"
    proof (cases "?r = []")
      case F: False
      then have lw: "length w = 1024" using less.prems(4) by (simp add: w_def)
      have "sublist w (p @ r)" using sublist_appendI [of w "[]" ?r] by (simp add: w_def)
      then have "10 \<in> set w" using less.prems(7) lw unfolding short_lines_def by fastforce
      then show ?thesis using lw c(2) False by simp
    qed simp
    then have "grep_text pat nm (w @ ?r) = bs @ grep_text pat nm (rest @ ?r)" using s2(10) by blast
    then have "grep_text pat nm (p @ r) = bs @ grep_text pat nm (rest @ ?r)" by (simp add: w_def)
    then show ?thesis using step c(2) False s' s2(3) s1(5) by (simp add: emits_def)
  qed
qed

lemma do_one_file_greps:
  assumes "grep_env data str fname pat nm L s" "us_free (us_files (abs s)) = Some i" "dir nm = Some (Data bs)"
    and "0 \<notin> set bs" "short_lines bs" "get8 os s (data + 1024) \<noteq> 10"
  shows "\<exists>s'. do_one_file os data str fname s = Some (0, s') \<and> grep_env data str fname pat nm L s' \<and> get8 os s' (data + 1024) \<noteq> 10 \<and>
    abs s' = emits emit (grep_text pat nm bs) (abs s)"
proof -
  have inv: "inv s" and nm: "str_at os s fname nm" "rng fname (Suc (length nm)) \<subseteq> img" and d: "rng data 1025 \<subseteq> img"
    and pat: "ece391_strlen (o_tr os s) (o_mem os s) str = Some (of_nat (length pat))"
    using assms(1) strlen_cstring [of "o_tr os s" "o_mem os s" str pat] by (auto simp: grep_env_def str_at_def ece391_strlen_eq)
  note i = us_freeD [OF assms(2)]
  from open_file [OF inv nm assms(2,3)] obtain s1 where s1: "ece391_open os fname s = Some (of_nat i, s1)" "inv s1" "keeps os img s s1"
      "abs s1 = (abs s)\<lparr>us_files := (us_files (abs s))(i \<mapsto> Data bs)\<rparr>" by blast
  have env1: "grep_env data str fname pat nm L s1" using grep_env_keeps [OF assms(1) keeps_mono [OF s1(3)] s1(2)] by blast
  have "data + of_nat 1024 \<in> img" using in_data [of 1024 data] d by auto
  then have e1: "get8 os s1 (data + 1024) \<noteq> 10" using s1(3) assms(6) by (simp add: keeps_def)
  have "us_files (abs s1) i = Some (Data bs)" "bytes_at os s1 data (length []) = []" using s1(4) by (simp_all add: bytes_at_def)
  with grep_chunks_ok [OF env1, of i bs "[]"] i assms(4,5) e1 obtain s2 where
    "grep_chunks os data str fname (of_nat (length pat)) (of_nat i) 0 s1 = Some (0, s2)" "grep_env data str fname pat nm L s2" "get8 os s2 (data + 1024) \<noteq> 10"
    "abs s2 = emits emit (grep_text pat nm bs) ((abs s1)\<lparr>us_files := (us_files (abs s1))(i := None)\<rparr>)" by auto
  moreover have "(abs s1)\<lparr>us_files := (us_files (abs s1))(i := None)\<rparr> = abs s" using s1(4) i by (simp add: fun_upd_idem)
  moreover have "(of_nat i :: u32) \<noteq> -1" using i by (intro small_not_minus1) simp
  ultimately show ?thesis using pat s1(1) by (simp add: do_one_file_def)
qed

end

section \<open>All files of the directory\<close>

text \<open>
  The entries that do not begin with a dot are searched in the order of the directory; every one of them
  has to be a text file without zero bytes whose lines fit the buffer.
\<close>

definition grep_entry :: "(bytes \<Rightarrow> ufile option) \<Rightarrow> bytes \<Rightarrow> bytes \<Rightarrow> bytes" where
  "grep_entry dir pat nm =
     (case dir nm of Some (Data bs) \<Rightarrow> if hd nm = 46 then [] else grep_text pat nm bs | _ \<Rightarrow> [])"

definition entry_ok :: "(bytes \<Rightarrow> ufile option) \<Rightarrow> bytes \<Rightarrow> bool" where
  "entry_ok dir nm \<longleftrightarrow> nm \<noteq> [] \<and> length nm \<le> 31 \<and> 0 \<notin> set nm \<and>
     (hd nm = 46 \<or> (\<exists>bs. dir nm = Some (Data bs) \<and> 0 \<notin> set bs \<and> short_lines bs))"

lemma us_free_cong: "(\<And>n. f n = None \<longleftrightarrow> g n = None) \<Longrightarrow> us_free f = us_free g"
  by (simp add: us_free_def)

lemma us_free_some: "i \<in> {2..<8} \<Longrightarrow> f i = None \<Longrightarrow> \<exists>j. us_free f = Some j"
  by (cases "us_free f") (auto simp: us_free_def find_None_iff simp del: upt_rec_numeral)

context user_os
begin

definition main_env :: "addr \<Rightarrow> addr \<Rightarrow> addr \<Rightarrow> bytes \<Rightarrow> string list \<Rightarrow> 's \<Rightarrow> bool" where
  "main_env buf search data pat L s \<longleftrightarrow> inv s \<and> rng data 1025 \<subseteq> img \<and> rng buf 33 \<subseteq> img - rng data 1025 \<and>
     lits_at os (img - rng data 1025 - rng buf 33) L s \<and> {'':'', ''\<newline>''} \<subseteq> set L \<and>
     str_at os s search pat \<and> rng search (Suc (length pat)) \<subseteq> img - rng data 1025 - rng buf 33 \<and> get8 os s (data + 1024) \<noteq> 10"

lemma lits_mono: "lits_at os R L s \<Longrightarrow> R \<subseteq> R' \<Longrightarrow> lits_at os R' L s"
  by (auto simp: lits_at_def)

lemma lits_shrink: "lits_at os R L s \<Longrightarrow> lits_at os R' L s' \<Longrightarrow> lits_at os R L s'"
  by (auto simp: lits_at_def)

lemma data_end: "data + 1024 \<in> rng data 1025"
  using in_data [of 1024 data] by simp

lemma main_env_keeps:
  assumes "main_env buf search data pat L s" "keeps os (img - rng buf 33) s s'" "inv s'"
  shows "main_env buf search data pat L s'"
proof -
  let ?R = "img - rng data 1025 - rng buf 33"
  have k: "keeps os ?R s s'" by (rule keeps_mono [OF assms(2)]) blast
  have "rng data 1025 \<subseteq> img" "rng buf 33 \<subseteq> img - rng data 1025" using assms(1) by (simp_all add: main_env_def)
  then have "data + 1024 \<in> img - rng buf 33" using data_end [of data] by blast
  then have "get8 os s' (data + 1024) = get8 os s (data + 1024)" using assms(2) by (simp add: keeps_def)
  then show ?thesis
    using assms(1,3) keeps_lits [OF _ k, of L] keeps_str [OF _ k, of search pat] by (simp add: main_env_def)
qed

text \<open>One entry that is searched.\<close>

lemma grep_one_entry:
  assumes "main_env buf search data pat L s" "us_free (us_files (abs s)) = Some j" "entry_ok dir nm" "hd nm \<noteq> 46"
    and "bytes_at os s buf (length nm) = nm"
  shows "\<exists>s'. do_one_file os data search buf (put8 os (buf + of_nat (length nm)) 0 s) = Some (0, s') \<and>
    main_env buf search data pat L s' \<and> abs s' = emits emit (grep_entry dir pat nm) (abs s)"
proof -
  let ?a = "buf + of_nat (length nm)" let ?s = "put8 os ?a 0 s"
  obtain bs where bs: "dir nm = Some (Data bs)" "0 \<notin> set bs" "short_lines bs" and nm: "length nm \<le> 31" "0 \<notin> set nm"
    using assms(3,4) by (auto simp: entry_ok_def)
  have inv: "inv s" and b: "rng buf 33 \<subseteq> img" "rng buf 33 \<subseteq> img - rng data 1025"
    using assms(1) by (auto simp: main_env_def)
  have a: "?a \<in> rng buf 33" using nm by (intro rng_offset) auto
  then have ai: "?a \<in> img" using b by blast
  have sub: "rng buf (Suc (length nm)) \<subseteq> rng buf 33" using nm by (intro rng_mono) simp
  note p = put8_ok [OF inv ai]
  have g: "get8 os ?s (buf + of_nat i) = (nm @ [0]) ! i" if i: "i \<le> length nm" for i
  proof -
    have "buf + of_nat i \<in> rng buf (Suc (length nm))" using i nm by (intro rng_offset) auto
    then have "buf + of_nat i \<in> img" using sub b by blast
    moreover have "buf + of_nat i = ?a \<longleftrightarrow> i = length nm" using i nm by (simp add: of_nat_eq_iff_u32)
    ultimately show ?thesis using i p(3) [of "buf + of_nat i" 0] bytes_nth [OF assms(5), of i] by (auto simp: nth_append)
  qed
  have "bytes_at os ?s buf (length nm) = nm" using g by (intro bytes_atI) (simp add: nth_append)
  then have str: "str_at os ?s buf nm" using g [of "length nm"] nm by (simp add: str_at_def cstring_def bytes_at_def get8_def)
  have m: "main_env buf search data pat L ?s"
    using a by (intro main_env_keeps [OF assms(1)] put8_keeps inv ai p(1)) auto
  then have env: "grep_env data search buf pat nm L ?s"
    using str sub b nm lits_mono [of "img - rng data 1025 - rng buf 33" L ?s "img - rng data 1025"]
    by (auto simp: main_env_def grep_env_def)
  have "get8 os ?s (data + 1024) \<noteq> 10" "us_free (us_files (abs ?s)) = Some j" using m assms(2) p(2) by (simp_all add: main_env_def)
  from do_one_file_greps [OF env this(2) bs this(1)] obtain s' where
    s': "do_one_file os data search buf ?s = Some (0, s')" "grep_env data search buf pat nm L s'" "get8 os s' (data + 1024) \<noteq> 10"
      "abs s' = emits emit (grep_text pat nm bs) (abs ?s)" by blast
  have "main_env buf search data pat L s'"
    using m s'(2,3) lits_shrink [of "img - rng data 1025 - rng buf 33" L ?s "img - rng data 1025" s'] by (simp add: main_env_def grep_env_def)
  then show ?thesis using s'(1,4) p(2) assms(4) bs(1) by (simp add: grep_entry_def)
qed

lemma grep_main_loop_ok:
  assumes "main_env buf search data pat L s" "2 \<le> i" "i < 8" "us_files (abs s) i = Some (Entries names)"
    and "us_free (us_files (abs s)) = Some j" "\<forall>nm \<in> set names. entry_ok dir nm"
  shows "\<exists>s'. grep_main_loop os buf search data (of_nat i) s = Some (0, s') \<and> main_env buf search data pat L s' \<and>
    abs s' = emits emit (concat (map (grep_entry dir pat) names)) ((abs s)\<lparr>us_files := (us_files (abs s))(i \<mapsto> Device)\<rparr>)"
  using assms(1,4-)
proof (induction names arbitrary: s)
  case Nil
  have e: "inv s" "rng buf 33 \<subseteq> img" using Nil.prems(1) by (auto simp: main_env_def)
  have rd: "u_read (unat (32 :: u32)) (Entries []) = ([], Device)" by simp
  obtain s1 where s1: "ece391_read os (of_nat i) buf 32 s = Some (0, s1)" "inv s1" "keeps os (img - rng buf 33) s s1"
      "abs s1 = (abs s)\<lparr>us_files := (us_files (abs s))(i \<mapsto> Device)\<rparr>"
    using read_file [OF e(1) assms(2,3) Nil.prems(2) _ rd, of buf] keeps_mono [of img] by (auto simp: rng_def)
  moreover have "main_env buf search data pat L s1" by (rule main_env_keeps [OF Nil.prems(1) s1(3,2)])
  ultimately show ?case by (subst grep_main_loop.simps) (simp add: emits_def)
next
  case (Cons x xs)
  have e: "inv s" "rng buf 33 \<subseteq> img" using Cons.prems(1) by (auto simp: main_env_def)
  have ok: "entry_ok dir x" and x: "x \<noteq> []" "length x \<le> 31" using Cons.prems(4) by (auto simp: entry_ok_def)
  have rd: "u_read (unat (32 :: u32)) (Entries (x # xs)) = (x, Entries xs)" using x by simp
  have ext: "rng buf (u_extent (unat (32 :: u32)) (Entries (x # xs))) \<subseteq> rng buf 33" using x(2) by (simp add: rng_mono)
  then have exti: "rng buf (u_extent (unat (32 :: u32)) (Entries (x # xs))) \<subseteq> img" using e(2) by blast
  obtain s1 where s1: "ece391_read os (of_nat i) buf 32 s = Some (of_nat (length x), s1)" "inv s1"
      "keeps os (img - rng buf (u_extent (unat (32 :: u32)) (Entries (x # xs)))) s s1"
      "bytes_at os s1 buf (length x) = x" "abs s1 = (abs s)\<lparr>us_files := (us_files (abs s))(i \<mapsto> Entries xs)\<rparr>"
    using read_file [OF e(1) assms(2,3) Cons.prems(2) _ rd exti] by auto
  have keep: "keeps os (img - rng buf 33) s s1" by (rule keeps_mono [OF s1(3)]) (use ext in blast)
  let ?n = "of_nat (length x) :: u32"
  have "?n = of_nat 0 \<longleftrightarrow> length x = 0" using x by (intro of_nat_eq_iff_u32) auto
  then have nz: "?n \<noteq> 0" "?n \<noteq> -1" using x small_not_minus1 [of "length x"] by auto
  have b0: "get8 os s1 buf = hd x" using bytes_nth [OF s1(4), of 0] x by (simp add: hd_conv_nth)
  have m1: "main_env buf search data pat L s1" by (rule main_env_keeps [OF Cons.prems(1) keep s1(2)])
  have f1: "us_free (us_files (abs s1)) = Some j"
    using us_free_cong [of "us_files (abs s1)" "us_files (abs s)"] s1(5) Cons.prems(2,3) by simp
  obtain s2 where s2: "grep_main_loop os buf search data (of_nat i) s = grep_main_loop os buf search data (of_nat i) s2"
      "main_env buf search data pat L s2" "abs s2 = emits emit (grep_entry dir pat x) (abs s1)"
  proof (cases "hd x = 46")
    case True
    then have "grep_main_loop os buf search data (of_nat i) s = grep_main_loop os buf search data (of_nat i) s1"
      using s1(1) nz b0 by (subst grep_main_loop.simps) simp
    then show thesis using that [of s1] m1 True by (simp add: grep_entry_def emits_def split: option.split ufile.split)
  next
    case False
    then obtain s2 where "do_one_file os data search buf (put8 os (buf + ?n) 0 s1) = Some (0, s2)" "main_env buf search data pat L s2"
        "abs s2 = emits emit (grep_entry dir pat x) (abs s1)"
      using grep_one_entry [OF m1 f1 ok _ s1(4)] by blast
    moreover from this(1) have "grep_main_loop os buf search data (of_nat i) s = grep_main_loop os buf search data (of_nat i) s2"
      using s1(1) nz b0 False by (subst grep_main_loop.simps) (simp add: Let_def)
    ultimately show thesis using that [of s2] by blast
  qed
  have "us_files (abs s2) i = Some (Entries xs)" "us_free (us_files (abs s2)) = Some j" "\<forall>nm \<in> set xs. entry_ok dir nm"
    using s2(3) s1(5) f1 Cons.prems(4) by (simp_all add: emits_def)
  from Cons.IH [OF s2(2) this] obtain s3 where
      "grep_main_loop os buf search data (of_nat i) s2 = Some (0, s3)" "main_env buf search data pat L s3"
      "abs s3 = emits emit (concat (map (grep_entry dir pat) xs)) ((abs s2)\<lparr>us_files := (us_files (abs s2))(i \<mapsto> Device)\<rparr>)" by blast
  then show ?case using s2(1,3) s1(5) by (simp add: emits_def) (simp add: fun_upd_def)
qed

lemma grep_main_greps:
  assumes "inv s" "rng data 1025 \<subseteq> img" "rng buf 33 \<subseteq> img - rng data 1025" "rng search (Suc (length (us_args (abs s)))) \<subseteq> img - rng data 1025 - rng buf 33"
    and "lits_at os (img - rng data 1025 - rng buf 33 - rng search (Suc (length (us_args (abs s))))) ['':'', ''\<newline>'', ''.''] s" "get8 os s (data + 1024) \<noteq> 10"
    and "length (us_args (abs s)) < 1024" "us_free (us_files (abs s)) = Some i" "us_free ((us_files (abs s))(i \<mapsto> Device)) = Some j"
    and "dir (lit ''.'') = Some (Entries names)" "\<forall>nm \<in> set names. entry_ok dir nm"
  shows "\<exists>s'. grep_main os buf search data s = Some (0, s') \<and> inv s' \<and>
    abs s' = emits emit (concat (map (grep_entry dir (us_args (abs s))) names)) ((abs s)\<lparr>us_files := (us_files (abs s))(i \<mapsto> Device)\<rparr>)"
proof -
  let ?A = "us_args (abs s)" let ?S = "rng search (Suc (length ?A))" let ?L = "['':'', ''\<newline>'', ''.'']" let ?R = "img - rng data 1025 - rng buf 33"
  have "length ?A < unat (1024 :: u32)" "?S \<subseteq> img" using assms(4,7) by auto
  from getargs [OF assms(1) this] obtain s1 where s1: "ece391_getargs os search 1024 s = Some (0, s1)" "inv s1"
      "str_at os s1 search ?A" "keeps os (img - ?S) s s1" "abs s1 = abs s" by blast
  have "keeps os (?R - ?S) s s1" by (rule keeps_mono [OF s1(4)]) blast
  then have l1: "lits_at os ?R ?L s1" by (rule lits_mono [OF keeps_lits [OF assms(5)]]) blast
  have "data + 1024 \<in> img - ?S" using data_end [of data] assms(2,4) by blast
  then have "get8 os s1 (data + 1024) = get8 os s (data + 1024)" using s1(4) by (simp add: keeps_def)
  then have "main_env buf search data ?A ?L s1" using s1(2,3) l1 assms(2-4,6) by (simp add: main_env_def)
  moreover have "''.'' \<in> set ?L" by simp
  from open_file [OF s1(2) lit_str [OF l1 this]] assms(8,10) s1(5) obtain s2 where s2: "ece391_open os (o_lit os ''.'') s1 = Some (of_nat i, s2)"
      "inv s2" "keeps os img s1 s2" "abs s2 = (abs s1)\<lparr>us_files := (us_files (abs s1))(i \<mapsto> Entries names)\<rparr>" by auto
  ultimately have m2: "main_env buf search data ?A ?L s2" using keeps_mono [OF s2(3), of "img - rng buf 33"] by (auto intro: main_env_keeps)
  have i: "2 \<le> i" "i < 8" using us_freeD [OF assms(8)] by auto
  have "us_free (us_files (abs s2)) = us_free ((us_files (abs s))(i \<mapsto> Device))" using s2(4) s1(5) by (intro us_free_cong) simp
  then have "us_free (us_files (abs s2)) = Some j" "us_files (abs s2) i = Some (Entries names)" using assms(9) s2(4) by simp_all
  from grep_main_loop_ok [OF m2 i this(2,1) assms(11)] obtain s3 where
    s3: "grep_main_loop os buf search data (of_nat i) s2 = Some (0, s3)" "main_env buf search data ?A ?L s3"
      "abs s3 = emits emit (concat (map (grep_entry dir ?A) names)) ((abs s2)\<lparr>us_files := (us_files (abs s2))(i \<mapsto> Device)\<rparr>)" by blast
  moreover have "inv s3" using s3(2) by (simp add: main_env_def)
  moreover have "(of_nat i :: u32) \<noteq> -1" using i by (simp add: small_not_minus1)
  ultimately show ?thesis using s1(1,5) s2(1,4) by (simp add: grep_main_def emits_def)
qed

end

end
