(* ===== verification/Userkernel.thy ===== *)
theory Userkernel
  imports Grep System
begin

text \<open>
  The user programs on the kernel. \<open>kernel_os\<close> is the kernel of theory \<open>System\<close> as a user program
  sees it: a program that executes \<open>int 0x80\<close> enters \<open>handle_syscall\<close> on the kernel stack of its
  process. The interpretation of the locale \<open>user_os\<close> shows that this kernel keeps the contract of
  theory \<open>Contract\<close>; the properties are what follows for the programs.
\<close>

section \<open>The kernel as the system of a program\<close>

text \<open>
  The processor takes the stack pointer from the task state segment and pushes five words. While a
  read waits, other code runs: \<open>wait\<close> is what has become of the kernel when the read goes on.
  \<open>child\<close> is a program that \<open>execute\<close> has entered, up to its halt. A call that does not block runs
  without an interruption: what the timer and the other processes do between and inside the calls is
  not part of this function (theories \<open>Pit\<close> and \<open>System\<close> have it).
\<close>

definition on_kernel_stack :: "'h kernel \<Rightarrow> 'h kernel" where
  "on_kernel_stack k = k\<lparr>r_esp := tss_esp0 k - 20\<rparr>"

definition kernel_int80 ::
  "'h machine \<Rightarrow> frame \<Rightarrow> ('h kernel \<Rightarrow> 'h kernel option) \<Rightarrow> (u32 \<Rightarrow> u32 \<Rightarrow> 'h kernel \<Rightarrow> (u32 \<times> 'h kernel) option) \<Rightarrow>
   u32 \<Rightarrow> u32 \<Rightarrow> u32 \<Rightarrow> u32 \<Rightarrow> 'h kernel \<Rightarrow> (u32 \<times> 'h kernel) option" where
  "kernel_int80 mc fr wait child eax ebx ecx edx k = do {
     (r, k) \<leftarrow> handle_syscall mc fr eax ebx ecx edx (on_kernel_stack k);
     case r of
       Flow (Ret v) \<Rightarrow> Some (v, k)
     | Flow (Enter_user eip esp) \<Rightarrow> child eip esp k
     | Flow (Resume_parent status) \<Rightarrow> None
     | Blocked \<Rightarrow> do {
         f \<leftarrow> fops (files (cur_pcb k) ! unat ebx);
         k \<leftarrow> wait k;
         (v, k) \<leftarrow> fops_read_resume mc f ecx edx k;
         case v of Read_ret v \<Rightarrow> Some (v, k) | Read_blocked \<Rightarrow> None } }"

text \<open>What stays fixed while a program runs.\<close>

record 'h uctx =
  u_mc :: "'h machine"
  u_fr :: frame
  u_wait :: "'h kernel \<Rightarrow> 'h kernel option"
  u_child :: "u32 \<Rightarrow> u32 \<Rightarrow> 'h kernel \<Rightarrow> (u32 \<times> 'h kernel) option"
  u_lit :: "string \<Rightarrow> addr"
  u_above :: "nat \<Rightarrow> u32"
  u_tr :: translation
  u_mapped :: "addr set"
  u_m0 :: memory
  u_bb :: addr
  u_names :: "bytes list"
  u_term :: nat

definition kernel_os :: "'h uctx \<Rightarrow> 'h kernel os" where
  "kernel_os X = \<lparr>o_tr = cur_tr (u_mc X), o_mem = mem, o_set_mem = (\<lambda>m k. k\<lparr>mem := m\<rparr>),
     o_int80 = kernel_int80 (u_mc X) (u_fr X) (u_wait X) (u_child X), o_lit = u_lit X, o_above = u_above X\<rparr>"

section \<open>What a program can observe\<close>

abbreviation prog_page :: "addr set" where
  "prog_page \<equiv> rng PROG_VM_START 4194304"

definition upcb :: "'h kernel \<Rightarrow> pcb_t" where
  "upcb k = pcbs k (pcb_of_esp (tss_esp0 k - 20))"

definition fs_region :: "'h uctx \<Rightarrow> addr set" where
  "fs_region X = rng (u_bb X) (fs_size (u_tr X) (u_m0 X) (u_bb X))"

definition ufile_of :: "'h uctx \<Rightarrow> fd_t \<Rightarrow> ufile" where
  "ufile_of X d =
     (case fops d of
        Some fs_fops \<Rightarrow>
          if inode_num d < inode_cnt (u_tr X) (u_m0 X) (u_bb X) \<and> unat (pos d) \<le> file_len (u_tr X) (u_m0 X) (u_bb X) (inode_num d)
          then Data (drop (unat (pos d)) (file_bytes (u_tr X) (u_m0 X) (u_bb X) (inode_num d))) else Device
      | Some dir_fops \<Rightarrow> if unat (pos d) \<le> length (u_names X) then Entries (drop (unat (pos d)) (u_names X)) else Device
      | _ \<Rightarrow> Device)"

definition ufiles :: "'h uctx \<Rightarrow> fd_t list \<Rightarrow> nat \<Rightarrow> ufile option" where
  "ufiles X fds i = (if fd_live fds i then Some (ufile_of X (fds ! i)) else None)"

definition udir :: "'h uctx \<Rightarrow> bytes \<Rightarrow> ufile option" where
  "udir X xs =
     (case first_index xs (u_names X) of None \<Rightarrow> None
      | Some j \<Rightarrow>
          let e = bootblock_dentry (u_bb X) (of_nat j); ino = dentry_inode (u_tr X) (u_m0 X) e
          in if dentry_ftype (u_tr X) (u_m0 X) e = FILE_FTYPE then
               Some (if ino < inode_cnt (u_tr X) (u_m0 X) (u_bb X) then Data (file_bytes (u_tr X) (u_m0 X) (u_bb X) ino) else Device)
             else if dentry_ftype (u_tr X) (u_m0 X) e = DIR_FTYPE then Some (Entries (u_names X))
             else Some Device)"

definition uabs :: "'h uctx \<Rightarrow> memory \<Rightarrow> pcb_t \<Rightarrow> kbd_state \<Rightarrow> ascreen ustate" where
  "uabs X m p kb =
     \<lparr>us_out = screen_abs (u_tr X) (screen (terminals kb ! u_term X), m), us_files = ufiles X (files p),
      us_args = take (unat (args_len p)) (args p)\<rparr>"

text \<open>
  The memory that the program and the kernel use on its behalf: the page of the program, the image of
  the file system, the local directory entry of the kernel and the screen are mapped without overlap.
\<close>

definition ustatic :: "'h uctx \<Rightarrow> bool" where
  "ustatic X \<longleftrightarrow> inj_on (u_tr X) (u_mapped X) \<and> fs_wf (u_tr X) (u_m0 X) (u_bb X) \<and>
     dir_names (u_tr X) (u_m0 X) (u_bb X) (u_names X) \<and> (\<forall>x \<in> set (u_names X). length x < 64) \<and>
     (\<forall>j < length (u_names X). dentry_ftype (u_tr X) (u_m0 X) (bootblock_dentry (u_bb X) (of_nat j)) \<in> {0, 1, 2}) \<and>
     prog_page \<union> fs_region X \<union> rng (fr_dentry (u_fr X)) 64 \<union> rng VIDEO 4000 \<subseteq> u_mapped X \<and>
     prog_page \<inter> fs_region X = {} \<and> prog_page \<inter> rng (fr_dentry (u_fr X)) 64 = {} \<and> prog_page \<inter> rng VIDEO 4000 = {} \<and>
     fs_region X \<inter> rng (fr_dentry (u_fr X)) 64 = {} \<and> fs_region X \<inter> rng VIDEO 4000 = {} \<and>
     rng (fr_dentry (u_fr X)) 64 \<inter> rng VIDEO 4000 = {} \<and> u_term X < 3"

definition pcb_good :: "'h uctx \<Rightarrow> pcb_t \<Rightarrow> bool" where
  "pcb_good X p \<longleftrightarrow> fds_ok (files p) \<and> term_num p = of_nat (u_term X) \<and> length (args p) = 128 \<and> unat (args_len p) < 128 \<and>
     0 \<notin> set (take (unat (args_len p)) (args p))"

definition kbd_good :: "'h uctx \<Rightarrow> kbd_state \<Rightarrow> bool" where
  "kbd_good X kb \<longleftrightarrow> u_term X < length (terminals kb) \<and> screen_wf (screen (terminals kb ! u_term X)) \<and>
     scr_mem (screen (terminals kb ! u_term X)) = VIDEO"

definition devices_good :: "ptable \<Rightarrow> bool" where
  "devices_good pt \<longleftrightarrow> get_device_fops RTC_FTYPE pt = Some rtc_fops \<and> get_device_fops DIR_FTYPE pt = Some dir_fops \<and>
     get_device_fops FILE_FTYPE pt = Some fs_fops"

definition udyn :: "'h uctx \<Rightarrow> 'h kernel \<Rightarrow> bool" where
  "udyn X k \<longleftrightarrow> cur_tr (u_mc X) k = u_tr X \<and> bootblock k = u_bb X \<and> fs_same (u_tr X) (u_bb X) (u_m0 X) (mem k) \<and>
     pcb_good X (upcb k) \<and> kbd_good X (kbd k) \<and> devices_good (ptab k)"

definition uinv :: "'h uctx \<Rightarrow> 'h kernel \<Rightarrow> bool" where
  "uinv X k \<longleftrightarrow> ustatic X \<and> udyn X k"

definition uview :: "'h uctx \<Rightarrow> 'h kernel \<Rightarrow> ascreen ustate" where
  "uview X k = uabs X (mem k) (upcb k) (kbd k)"

section \<open>The kernel keeps the contract\<close>

lemma kernel_os_simps [simp]:
  "o_tr (kernel_os X) = cur_tr (u_mc X)" "o_mem (kernel_os X) = mem" "o_set_mem (kernel_os X) m k = k\<lparr>mem := m\<rparr>"
  "o_int80 (kernel_os X) = kernel_int80 (u_mc X) (u_fr X) (u_wait X) (u_child X)" "o_lit (kernel_os X) = u_lit X"
  "get8 (kernel_os X) k a = ld8 (cur_tr (u_mc X) k) (mem k) a"
  by (simp_all add: kernel_os_def get8_def)

lemma on_kernel_stack_simps [simp]:
  "pg (on_kernel_stack k) = pg k" "mem (on_kernel_stack k) = mem k" "ptab (on_kernel_stack k) = ptab k"
  "kbd (on_kernel_stack k) = kbd k" "bootblock (on_kernel_stack k) = bootblock k" "tss_esp0 (on_kernel_stack k) = tss_esp0 k"
  "cur_tr mc (on_kernel_stack k) = cur_tr mc k" "cur_pcb (on_kernel_stack k) = upcb k" "upcb (on_kernel_stack k) = upcb k"
  by (simp_all add: on_kernel_stack_def cur_tr_def cur_pcb_def cur_pcb_at_def upcb_def)

lemma uinvD:
  assumes "uinv X k"
  shows "ustatic X" "udyn X k" "cur_tr (u_mc X) k = u_tr X" "bootblock k = u_bb X" "fs_same (u_tr X) (u_bb X) (u_m0 X) (mem k)"
    "pcb_good X (upcb k)" "kbd_good X (kbd k)" "devices_good (ptab k)" "fds_ok (files (upcb k))"
  using assms by (simp_all add: uinv_def udyn_def pcb_good_def)

lemma ustaticD:
  assumes "ustatic X"
  shows "address_space (u_tr X) (u_mapped X)" "fs_wf (u_tr X) (u_m0 X) (u_bb X)" "dir_names (u_tr X) (u_m0 X) (u_bb X) (u_names X)"
    "\<forall>x \<in> set (u_names X). length x < 64" "prog_page \<subseteq> u_mapped X" "fs_region X \<subseteq> u_mapped X"
    "rng (fr_dentry (u_fr X)) 64 \<subseteq> u_mapped X" "rng VIDEO 4000 \<subseteq> u_mapped X" "u_term X < 3"
    "prog_page \<inter> fs_region X = {}" "prog_page \<inter> rng (fr_dentry (u_fr X)) 64 = {}" "prog_page \<inter> rng VIDEO 4000 = {}"
    "fs_region X \<inter> rng (fr_dentry (u_fr X)) 64 = {}" "fs_region X \<inter> rng VIDEO 4000 = {}"
    "rng (fr_dentry (u_fr X)) 64 \<inter> rng VIDEO 4000 = {}"
  using assms by (simp_all add: ustatic_def address_space_def)

text \<open>A call that changes none of the parts of the kernel that a program depends on.\<close>

lemma uinv_frame:
  assumes "uinv X k" "pg k' = pg k" "bootblock k' = bootblock k" "devices (ptab k') = devices (ptab k)"
    and "fs_same (u_tr X) (u_bb X) (u_m0 X) (mem k')" "pcb_good X (upcb k')" "kbd_good X (kbd k')"
  shows "uinv X k'"
proof -
  have "devices_good (ptab k')" using uinvD(8) [OF assms(1)] by (simp only: devices_good_def get_device_fops_def assms(4))
  then show ?thesis using assms cur_tr_cong [OF assms(2)] by (simp add: uinv_def udyn_def)
qed

lemma quiet_call:
  assumes "uinv X k" "handle_syscall (u_mc X) (u_fr X) eax ebx ecx edx (on_kernel_stack k) = Some (Flow (Ret v), on_kernel_stack k)"
  shows "\<exists>k'. o_int80 (kernel_os X) eax ebx ecx edx k = Some (v, k') \<and> uinv X k' \<and> keeps (kernel_os X) prog_page k k' \<and>
    uview X k' = uview X k"
proof -
  have "uinv X (on_kernel_stack k)" using assms(1) by (rule uinv_frame) (use uinvD [OF assms(1)] in simp_all)
  then show ?thesis using assms(2) by (simp add: kernel_int80_def keeps_def uview_def)
qed

lemma ufiles_None: "2 \<le> i \<Longrightarrow> i < 8 \<Longrightarrow> ufiles X fds i = None \<longleftrightarrow> flags (fds ! i) = 0"
  by (simp add: ufiles_def fd_live_def)

lemma fd_cases:
  assumes "\<not> (sint fd < 0 \<or> sint fd \<ge> 8)" "fd \<noteq> 0" "fd \<noteq> (1 :: u32)"
  shows "2 \<le> unat fd" "unat fd < 8"
proof -
  show "unat fd < 8" using fd_range [of fd] assms(1) by blast
  have "unat fd \<noteq> unat (0 :: u32)" "unat fd \<noteq> unat (1 :: u32)" using assms(2,3) by (metis of_nat_unat_u32)+
  then show "2 \<le> unat fd" by simp
qed

lemma kernel_read_bad:
  assumes "uinv X k" "sint fd < 0 \<or> fd = 1 \<or> sint fd \<ge> 8 \<or> fd \<noteq> 0 \<and> us_files (uview X k) (unat fd) = None"
  shows "\<exists>k'. ece391_read (kernel_os X) fd buf n k = Some (-1, k') \<and> uinv X k' \<and> keeps (kernel_os X) prog_page k k' \<and>
    uview X k' = uview X k"
  unfolding ece391_read_def
proof (rule quiet_call [OF assms(1)])
  have "sys_read (u_mc X) (u_fr X) fd buf n (on_kernel_stack k) = Some (Read_ret (-1), on_kernel_stack k)"
  proof (cases "sint fd < 0 \<or> fd = 1 \<or> sint fd \<ge> 8")
    case False
    then have "fd \<noteq> 0" "us_files (uview X k) (unat fd) = None" using assms(2) by auto
    moreover have "2 \<le> unat fd" "unat fd < 8" using fd_cases [of fd] False calculation(1) by auto
    ultimately show ?thesis using False by (auto simp: sys_read_def uview_def uabs_def ufiles_None Let_def)
  qed (auto simp: sys_read_def)
  then show "handle_syscall (u_mc X) (u_fr X) 3 fd buf n (on_kernel_stack k) = Some (Flow (Ret (-1)), on_kernel_stack k)"
    by (simp add: handle_syscall_def sys_read_ret_def)
qed

lemma kernel_write_bad:
  assumes "uinv X k" "sint fd < 0 \<or> fd = 0 \<or> sint fd \<ge> 8 \<or> fd \<noteq> 1 \<and> us_files (uview X k) (unat fd) = None"
  shows "\<exists>k'. ece391_write (kernel_os X) fd buf n k = Some (-1, k') \<and> uinv X k' \<and> keeps (kernel_os X) prog_page k k' \<and>
    uview X k' = uview X k"
  unfolding ece391_write_def
proof (rule quiet_call [OF assms(1)])
  have "sys_write (u_mc X) fd buf n (on_kernel_stack k) = Some (-1, on_kernel_stack k)"
  proof (cases "sint fd < 0 \<or> fd = 0 \<or> sint fd \<ge> 8")
    case False
    then have "fd \<noteq> 1" "us_files (uview X k) (unat fd) = None" using assms(2) by auto
    moreover have "2 \<le> unat fd" "unat fd < 8" using fd_cases [of fd] False calculation(1) by auto
    ultimately show ?thesis using False by (auto simp: sys_write_def uview_def uabs_def ufiles_None Let_def)
  qed (auto simp: sys_write_def)
  then show "handle_syscall (u_mc X) (u_fr X) 4 fd buf n (on_kernel_stack k) = Some (Flow (Ret (-1)), on_kernel_stack k)"
    by (simp add: handle_syscall_def sys_ret_def)
qed

lemma kernel_close_bad:
  assumes "uinv X k" "sint fd < 2 \<or> sint fd \<ge> 8 \<or> us_files (uview X k) (unat fd) = None"
  shows "\<exists>k'. ece391_close (kernel_os X) fd k = Some (-1, k') \<and> uinv X k' \<and> keeps (kernel_os X) prog_page k k' \<and>
    uview X k' = uview X k"
  unfolding ece391_close_def
proof (rule quiet_call [OF assms(1)])
  have "sys_close (u_mc X) fd (on_kernel_stack k) = Some (-1, on_kernel_stack k)"
  proof (cases "sint fd < 2 \<or> sint fd \<ge> 8")
    case False
    then have "us_files (uview X k) (unat fd) = None" "unat fd < 8" "sint fd = int (unat fd)"
      using assms(2) fd_range [of fd] by auto
    moreover have "2 \<le> unat fd" using False calculation(3) by linarith
    ultimately show ?thesis using False by (auto simp: sys_close_def uview_def uabs_def ufiles_None Let_def)
  qed (auto simp: sys_close_def)
  then show "handle_syscall (u_mc X) (u_fr X) 6 fd (o_above (kernel_os X) 0) (o_above (kernel_os X) 1) (on_kernel_stack k) =
      Some (Flow (Ret (-1)), on_kernel_stack k)"
    by (simp add: handle_syscall_def sys_ret_def)
qed

lemma kernel_vidmap_bad:
  assumes "uinv X k" "sint a < 0x8000000 \<or> sint a \<ge> 0x8400000"
  shows "\<exists>k'. ece391_vidmap (kernel_os X) a k = Some (-1, k') \<and> uinv X k' \<and> keeps (kernel_os X) prog_page k k' \<and>
    uview X k' = uview X k"
  unfolding ece391_vidmap_def
  by (rule quiet_call [OF assms(1)]) (use assms(2) in \<open>auto simp: handle_syscall_def sys_ret_def vidmap_def\<close>)

lemma kernel_number_bad:
  assumes "uinv X k" "eax = 0 \<or> eax > 10"
  shows "\<exists>k'. o_int80 (kernel_os X) eax ebx ecx edx k = Some (-1, k') \<and> uinv X k' \<and> keeps (kernel_os X) prog_page k k' \<and>
    uview X k' = uview X k"
  by (rule quiet_call [OF assms(1)]) (use assms(2) in \<open>auto simp: handle_syscall_def\<close>)

lemma kernel_region:
  assumes "ustatic X" "x \<in> fs_region X \<union> rng VIDEO 4000"
  shows "x \<in> u_mapped X" "x \<notin> prog_page" "x \<notin> rng (fr_dentry (u_fr X)) 64"
  using assms(2) ustaticD(6,8) [OF assms(1)] ustaticD(10,12) [OF assms(1)] ustaticD(13,15) [OF assms(1)] by auto

text \<open>The memory of the kernel as the program sees it, before and after a store to another region.\<close>

lemma screen_abs_frame:
  assumes "address_space tr mapped" "rng (scr_mem scr) 4000 \<subseteq> mapped"
    and "\<And>x. x \<in> rng (scr_mem scr) 4000 \<Longrightarrow> ld8 tr m' x = ld8 tr m x"
  shows "screen_abs tr (scr, m') = screen_abs tr (scr, m)"
proof -
  have "get_cell tr (scr_mem scr) (int i) m' = get_cell tr (scr_mem scr) (int i) m" if "i < 2000" for i
    unfolding get_cell_def using that by (intro assms(3) cell_in_rng) auto
  then show ?thesis by (simp add: screen_abs_def cells_def)
qed

lemma uabs_frame:
  assumes "ustatic X" "kbd_good X kb" "\<And>x. x \<in> rng VIDEO 4000 \<Longrightarrow> ld8 (u_tr X) m' x = ld8 (u_tr X) m x"
  shows "uabs X m' p kb = uabs X m p kb"
  using screen_abs_frame [OF ustaticD(1) [OF assms(1)], of "screen (terminals kb ! u_term X)" m' m] assms(2,3) ustaticD(8) [OF assms(1)]
  by (simp add: uabs_def kbd_good_def)

text \<open>A call that stores into some region of memory besides the screen and the image, and changes the descriptors.\<close>

lemma store_call:
  assumes inv: "uinv X k" and same: "pg k' = pg k" "bootblock k' = bootblock k" "devices (ptab k') = devices (ptab k)" "kbd k' = kbd k"
    and pcb: "pcb_good X (upcb k')" and m: "mem k' = m'"
    and mem: "\<And>x. x \<in> fs_region X \<union> rng VIDEO 4000 \<Longrightarrow> ld8 (u_tr X) m' x = ld8 (u_tr X) (mem k) x"
  shows "uinv X k'" "uview X k' = uabs X (mem k) (upcb k') (kbd k)"
proof -
  have "fs_same (u_tr X) (u_bb X) (u_m0 X) (mem k')"
    using uinvD(5) [OF inv] mem m by (simp add: fs_same_def fs_region_def)
  then show "uinv X k'" using uinvD [OF inv] pcb same by (intro uinv_frame [OF inv]) simp_all
  show "uview X k' = uabs X (mem k) (upcb k') (kbd k)"
    using uabs_frame [OF uinvD(1,7) [OF inv], of "mem k'" "mem k"] mem m same(4) by (simp add: uview_def)
qed

lemma kernel_set_mem:
  assumes "uinv X k" "\<And>p. p \<notin> cur_tr (u_mc X) k ` prog_page \<Longrightarrow> m p = mem k p"
  shows "uinv X (k\<lparr>mem := m\<rparr>)" "uview X (k\<lparr>mem := m\<rparr>) = uview X k"
proof -
  note D = uinvD [OF assms(1)] and S = ustaticD [OF uinvD(1) [OF assms(1)]]
  have "ld8 (u_tr X) m x = ld8 (u_tr X) (mem k) x" if "x \<in> fs_region X \<union> rng VIDEO 4000" for x
  proof -
    note x = kernel_region [OF D(1) that]
    then have "u_tr X x \<notin> u_tr X ` prog_page"
      using x S(5) address_space.tr_inj [OF S(1)] by (auto dest: inj_onD)
    then show ?thesis using assms(2) D(3) by (simp add: ld8_def)
  qed
  note c = store_call [OF assms(1), of "k\<lparr>mem := m\<rparr>", OF _ _ _ _ _ _ this]
  show "uinv X (k\<lparr>mem := m\<rparr>)" using c(1) D(6) by (simp add: upcb_def)
  show "uview X (k\<lparr>mem := m\<rparr>) = uview X k" using c(2) D(6) by (simp add: upcb_def uview_def)
qed

text \<open>\<open>getargs\<close>\<close>

lemma kernel_getargs:
  assumes "uinv X k" "length (us_args (uview X k)) < unat n" "rng buf (Suc (length (us_args (uview X k)))) \<subseteq> prog_page"
  shows "\<exists>k'. ece391_getargs (kernel_os X) buf n k = Some (0, k') \<and> uinv X k' \<and>
    str_at (kernel_os X) k' buf (us_args (uview X k)) \<and>
    keeps (kernel_os X) (prog_page - rng buf (Suc (length (us_args (uview X k))))) k k' \<and> uview X k' = uview X k"
proof -
  note D = uinvD [OF assms(1)] and S = ustaticD [OF uinvD(1) [OF assms(1)]]
  let ?p = "upcb k" let ?as = "take (unat (args_len ?p)) (args ?p)"
  let ?m = "store_bytes (u_tr X) (mem k) buf (?as @ [0])" let ?k = "(on_kernel_stack k)\<lparr>mem := ?m\<rparr>"
  have as: "us_args (uview X k) = ?as" by (simp add: uview_def uabs_def)
  have g: "unat (args_len ?p) < 128" "length (args ?p) = 128" "0 \<notin> set ?as" using D(6) by (simp_all add: pcb_good_def)
  then have len: "length ?as = unat (args_len ?p)" by simp
  have r: "rng buf (Suc (length ?as)) \<subseteq> prog_page" using assms(3) as by simp
  then have r': "rng buf (Suc (length ?as)) \<subseteq> u_mapped X" using S(5) by blast
  have "unat (args_len ?p + 1) = Suc (unat (args_len ?p))" using g(1) by (simp add: unat_plus_if')
  then have "\<not> n < args_len ?p + 1" using assms(2) as len by (simp add: word_less_nat_alt)
  then have ga: "getargs (u_mc X) buf n (on_kernel_stack k) = Some (0, ?k)"
    using g len D(3) by (simp add: getargs_def Let_def store_bytes_snoc)
  have ld: "ld8 (u_tr X) ?m x = ld8 (u_tr X) (mem k) x" if "x \<in> u_mapped X" "x \<notin> rng buf (Suc (length ?as))" for x
    using that r' g(1) len by (intro address_space.ld8_store_outside [OF S(1)]) auto
  have "ld8 (u_tr X) ?m x = ld8 (u_tr X) (mem k) x" if "x \<in> fs_region X \<union> rng VIDEO 4000" for x
    using kernel_region(1,2) [OF D(1) that] r by (intro ld) auto
  note c = store_call [OF assms(1), of ?k, OF _ _ _ _ _ _ this]
  have u: "upcb ?k = ?p" "cur_tr (u_mc X) ?k = u_tr X" using D(3) by (simp_all add: upcb_def on_kernel_stack_def cur_tr_def)
  have "cstring (u_tr X) ?m buf ?as" using g len r' by (intro address_space.cstring_store [OF S(1)]) auto
  moreover have "keeps (kernel_os X) (prog_page - rng buf (Suc (length ?as))) k ?k"
    unfolding keeps_def using ld S(5) D(3) u(2) by auto
  ultimately show ?thesis
    using c u D(6) ga as by (simp add: ece391_getargs_def kernel_int80_def handle_syscall_def sys_ret_def str_at_def uview_def)
qed

text \<open>Calls that change one descriptor.\<close>

lemma upcb_cur: "r_esp k = tss_esp0 k - 20 \<Longrightarrow> upcb k = cur_pcb k"
  by (simp add: upcb_def cur_pcb_def cur_pcb_at_def)

lemma ufiles_update:
  assumes "length fds = 8" "2 \<le> i" "i < 8"
  shows "ufiles X (fds[i := d]) = (ufiles X fds)(i := if flags d = 0 then None else Some (ufile_of X d))"
  using assms by (auto simp: fun_eq_iff ufiles_def fd_live_def)

lemma pcb_good_fd:
  assumes "pcb_good X p" "2 \<le> i" "i < 8" "fd_ok d"
  shows "pcb_good X (p\<lparr>files := (files p)[i := d]\<rparr>)"
    "uabs X m (p\<lparr>files := (files p)[i := d]\<rparr>) kb =
      (uabs X m p kb)\<lparr>us_files := (us_files (uabs X m p kb))(i := if flags d = 0 then None else Some (ufile_of X d))\<rparr>"
proof -
  have f: "fds_ok (files p)" using assms(1) by (simp add: pcb_good_def)
  show "pcb_good X (p\<lparr>files := (files p)[i := d]\<rparr>)"
    using assms fds_ok_update [OF f assms(4,2)] by (simp add: pcb_good_def)
  have "length (files p) = 8" using f by (simp add: fds_ok_def)
  then show "uabs X m (p\<lparr>files := (files p)[i := d]\<rparr>) kb =
      (uabs X m p kb)\<lparr>us_files := (us_files (uabs X m p kb))(i := if flags d = 0 then None else Some (ufile_of X d))\<rparr>"
    using ufiles_update [OF _ assms(2,3), of "files p" X d] by (simp add: uabs_def)
qed

lemma kernel_close:
  assumes "uinv X k" "2 \<le> i" "i < 8" "us_files (uview X k) i \<noteq> None"
  shows "\<exists>k'. ece391_close (kernel_os X) (of_nat i) k = Some (0, k') \<and> uinv X k' \<and> keeps (kernel_os X) prog_page k k' \<and>
    uview X k' = (uview X k)\<lparr>us_files := (us_files (uview X k))(i := None)\<rparr>"
proof -
  note D = uinvD [OF assms(1)]
  let ?fd = "files (upcb k) ! i" let ?k0 = "on_kernel_stack k"
  have live: "flags ?fd \<noteq> 0" using assms(4) ufiles_None [OF assms(2,3), of X "files (upcb k)"] by (simp add: uview_def uabs_def)
  have "fd_ok ?fd" using D(9) assms(3) by (simp add: fds_ok_def)
  then obtain f where f: "fops ?fd = Some f" using live by (auto simp: fd_ok_def)
  let ?k1 = "snd (fops_close (u_mc X) f (of_nat i) ?k0)"
  let ?k' = "upd_fd i (\<lambda>d. d\<lparr>fops := None, inode := 0, pos := 0, flags := 0\<rparr>) ?k1"
  have s: "unat (of_nat i :: u32) = i" "sint (of_nat i :: u32) = int i" using fd_small [OF assms(3)] .
  have cl: "sys_close (u_mc X) (of_nat i) ?k0 = Some (0, ?k')"
    using assms(2,3) s live f by (simp add: sys_close_def Let_def)
  have "cur_pcb ?k1 = upcb k" using cur_pcb_frame [of ?k1 ?k0] by simp
  then have p: "upcb ?k' = (upcb k)\<lparr>files := (files (upcb k))[i := fd_reset ?fd]\<rparr>"
    by (subst upcb_cur) (simp_all add: fops_tss on_kernel_stack_def fd_reset_def)
  note g = pcb_good_fd [OF D(6) assms(2,3) fd_ok_reset [of ?fd]]
  note c = store_call [OF assms(1), of ?k' "mem k", simplified p, simplified, OF g(1)]
  have "cur_tr (u_mc X) ?k' = cur_tr (u_mc X) k" by (rule cur_tr_cong) simp
  then have "keeps (kernel_os X) prog_page k ?k'" by (simp add: keeps_def)
  moreover have "uview X ?k' = (uview X k)\<lparr>us_files := (us_files (uview X k))(i := None)\<rparr>"
    unfolding c(2) g(2) by (simp add: uview_def)
  ultimately show ?thesis
    using cl c(1) by (auto simp: ece391_close_def kernel_int80_def handle_syscall_def sys_ret_def)
qed

lemma us_free_ufiles: "us_free (ufiles X fds) = open_fd_loop 2 fds"
proof -
  have "find (\<lambda>i. ufiles X fds i = None) [2..<8] = find (\<lambda>i. flags (fds ! i) = 0) [2..<8]"
    by (rule find_cong) (auto simp: ufiles_None simp del: upt_rec_numeral)
  then show ?thesis by (simp add: us_free_def open_fd_loop_eq del: upt_rec_numeral)
qed

lemma entry_region: "ustatic X \<Longrightarrow> j < length (u_names X) \<Longrightarrow> rng (bootblock_dentry (u_bb X) (of_nat j)) 64 \<subseteq> fs_region X"
  using entry_rng [of j "u_bb X" "u_tr X" "u_m0 X"] by (simp add: fs_region_def ustatic_def dir_names_def)

lemma dir_now:
  assumes "uinv X k"
  shows "dir_at (u_tr X) (mem k) (u_bb X) (u_mapped X) (fr_dentry (u_fr X)) (u_names X)"
proof -
  note D = uinvD [OF assms] and S = ustaticD [OF uinvD(1) [OF assms]]
  have "dir_names (u_tr X) (mem k) (u_bb X) (u_names X)" using fs_same_dir [OF D(5) S(3,4)] .
  moreover have "rng (bootblock_dentry (u_bb X) (of_nat j)) 64 \<subseteq> u_mapped X \<and>
      rng (bootblock_dentry (u_bb X) (of_nat j)) 64 \<inter> rng (fr_dentry (u_fr X)) 64 = {}" if "j < length (u_names X)" for j
    using entry_region [OF D(1) that] S(6,13) by blast
  ultimately show ?thesis using S(7) by (simp add: dir_at_def)
qed

lemma entry_now:
  assumes "uinv X k" "j < length (u_names X)" "e = bootblock_dentry (u_bb X) (of_nat j)"
  shows "dentry_ftype (u_tr X) (mem k) e = dentry_ftype (u_tr X) (u_m0 X) e"
    "dentry_inode (u_tr X) (mem k) e = dentry_inode (u_tr X) (u_m0 X) e"
proof -
  note D = uinvD [OF assms(1)]
  have "rng (e + 32) 4 \<subseteq> rng e 64" "rng (e + 36) 4 \<subseteq> rng e 64" using rng_sub [of 32 4 64 e] rng_sub [of 36 4 64 e] by simp_all
  then have "rng (e + 32) 4 \<subseteq> fs_region X" "rng (e + 36) 4 \<subseteq> fs_region X" using entry_region [OF D(1) assms(2)] assms(3) by blast+
  then show "dentry_ftype (u_tr X) (mem k) e = dentry_ftype (u_tr X) (u_m0 X) e"
    "dentry_inode (u_tr X) (mem k) e = dentry_inode (u_tr X) (u_m0 X) e"
    using fs_sameD [OF D(5)] by (simp_all add: dentry_ftype_def dentry_inode_def fs_region_def)
qed

lemma kernel_open_none:
  assumes "uinv X k" "str_at (kernel_os X) k a xs" "us_free (us_files (uview X k)) = None \<or> udir X xs = None"
  shows "\<exists>k'. ece391_open (kernel_os X) a k = Some (-1, k') \<and> uinv X k' \<and> keeps (kernel_os X) prog_page k k' \<and> uview X k' = uview X k"
  unfolding ece391_open_def
proof (rule quiet_call [OF assms(1)])
  note D = uinvD [OF assms(1)] and S = ustaticD [OF uinvD(1) [OF assms(1)]]
  have dir: "dir_at (cur_tr (u_mc X) (on_kernel_stack k)) (mem (on_kernel_stack k)) (bootblock (on_kernel_stack k)) (u_mapped X)
      (fr_dentry (u_fr X)) (u_names X)" using dir_now [OF assms(1)] D(3,4) by simp
  have "open_fd_loop 2 (files (upcb k)) = None \<or> first_index xs (u_names X) = None"
    using assms(3) us_free_ufiles [of X "files (upcb k)"]
    by (auto simp: uview_def uabs_def udir_def Let_def split: option.splits if_splits)
  then have "sys_open (u_mc X) (u_fr X) a (on_kernel_stack k) = Some (-1, on_kernel_stack k)"
    using sys_open_eq [OF _ dir, of a xs] S(1) D(3) assms(2) by (auto simp: str_at_def split: option.split)
  then show "handle_syscall (u_mc X) (u_fr X) 5 a (o_above (kernel_os X) 0) (o_above (kernel_os X) 1) (on_kernel_stack k) =
      Some (Flow (Ret (-1)), on_kernel_stack k)"
    by (simp add: handle_syscall_def sys_ret_def)
qed

lemma opened_file:
  assumes "uinv X k" "first_index xs (u_names X) = Some j" "e = bootblock_dentry (u_bb X) (of_nat j)" "pos d = 0"
  shows "\<exists>f. get_device_fops (dentry_ftype (u_tr X) (mem k) e) (ptab k) = Some f \<and>
    udir X xs = Some (ufile_of X (open_fill (u_bb X) (dentry_ftype (u_tr X) (mem k) e) (dentry_inode (u_tr X) (mem k) e) (Some f) d))"
proof -
  note D = uinvD [OF assms(1)]
  have j: "j < length (u_names X)" using first_index_Some [OF assms(2)] by simp
  note e = entry_now [OF assms(1) j assms(3)]
  have "dentry_ftype (u_tr X) (u_m0 X) e \<in> {0, 1, 2}" using D(1) j assms(3) by (simp add: ustatic_def)
  then consider "dentry_ftype (u_tr X) (u_m0 X) e = 0" | "dentry_ftype (u_tr X) (u_m0 X) e = 1" | "dentry_ftype (u_tr X) (u_m0 X) e = 2"
    by blast
  then show ?thesis
  proof cases
    case 1
    then show ?thesis using D(8) assms(2,4) unfolding e
      by (intro exI [of _ rtc_fops]) (simp add: assms(3) devices_good_def udir_def Let_def ufile_of_def open_fill_def)
  next
    case 2
    then show ?thesis using D(8) assms(2,4) unfolding e
      by (intro exI [of _ dir_fops]) (simp add: assms(3) devices_good_def udir_def Let_def ufile_of_def open_fill_def)
  next
    case 3
    then show ?thesis using D(8) assms(2,4) unfolding e
      by (intro exI [of _ fs_fops]) (simp add: assms(3) devices_good_def udir_def Let_def ufile_of_def open_fill_def)
  qed
qed

lemma kernel_open:
  assumes "uinv X k" "str_at (kernel_os X) k a xs" "us_free (us_files (uview X k)) = Some i" "udir X xs = Some uf"
  shows "\<exists>k'. ece391_open (kernel_os X) a k = Some (of_nat i, k') \<and> uinv X k' \<and> keeps (kernel_os X) prog_page k k' \<and>
    uview X k' = (uview X k)\<lparr>us_files := (us_files (uview X k))(i \<mapsto> uf)\<rparr>"
proof -
  note D = uinvD [OF assms(1)] and S = ustaticD [OF uinvD(1) [OF assms(1)]]
  let ?k0 = "on_kernel_stack k" let ?d = "files (upcb k) ! i"
  have dir: "dir_at (cur_tr (u_mc X) ?k0) (mem ?k0) (bootblock ?k0) (u_mapped X) (fr_dentry (u_fr X)) (u_names X)"
    using dir_now [OF assms(1)] D(3,4) by simp
  have free: "open_fd_loop 2 (files (upcb k)) = Some i"
    using assms(3) us_free_ufiles [of X "files (upcb k)"] by (simp add: uview_def uabs_def)
  note i = open_fd_loop_Some [OF free]
  have "fd_ok ?d" using D(9) i(2) by (simp add: fds_ok_def)
  then have pos: "pos ?d = 0" using i(3) by (simp add: fd_ok_def)
  obtain j where j: "first_index xs (u_names X) = Some j" using assms(4) by (auto simp: udir_def split: option.splits)
  define e where "e = bootblock_dentry (u_bb X) (of_nat j)"
  obtain f where f: "get_device_fops (dentry_ftype (u_tr X) (mem k) e) (ptab k) = Some f"
    and uf: "udir X xs = Some (ufile_of X (open_fill (u_bb X) (dentry_ftype (u_tr X) (mem k) e) (dentry_inode (u_tr X) (mem k) e) (Some f) ?d))"
    using opened_file [OF assms(1) j e_def pos] by blast
  define fill where "fill = open_fill (u_bb X) (dentry_ftype (u_tr X) (mem k) e) (dentry_inode (u_tr X) (mem k) e) (Some f)"
  define m where "m = store_bytes (u_tr X) (mem k) (fr_dentry (u_fr X)) (load_bytes (u_tr X) (mem k) e 64)"
  define k1 where "k1 = upd_fd i fill (?k0\<lparr>mem := m\<rparr>)"
  define k' where "k' = snd (fops_open (u_mc X) f a k1)"
  have op: "sys_open (u_mc X) (u_fr X) a ?k0 = Some (of_nat i, k')"
    using sys_open_eq [OF _ dir, of a xs] S(1) D(3,4) assms(2) free j f
    by (simp add: str_at_def Let_def e_def k'_def k1_def fill_def m_def)
  have k1: "pg k1 = pg k" "bootblock k1 = bootblock k" "ptab k1 = ptab k" "kbd k1 = kbd k" "mem k1 = m" "tss_esp0 k1 = tss_esp0 k"
    "cur_pcb k1 = (upcb k)\<lparr>files := (files (upcb k))[i := fill ?d]\<rparr>" "r_esp k1 = tss_esp0 k - 20"
    by (simp_all add: k1_def) (simp add: on_kernel_stack_def)
  have "cur_pcb k' = cur_pcb k1" unfolding k'_def by (rule cur_pcb_frame) simp_all
  then have p: "upcb k' = (upcb k)\<lparr>files := (files (upcb k))[i := fill ?d]\<rparr>"
    using upcb_cur [of k'] k1 by (simp add: k'_def)
  have ok: "fd_ok (fill ?d)" "flags (fill ?d) \<noteq> 0" by (simp_all add: fill_def fd_ok_open_fill)
  note g = pcb_good_fd [OF D(6) i(1,2) ok(1)]
  have ld: "ld8 (u_tr X) m x = ld8 (u_tr X) (mem k) x" if "x \<in> u_mapped X" "x \<notin> rng (fr_dentry (u_fr X)) 64" for x
    using that S(7) unfolding m_def by (intro address_space.ld8_store_outside [OF S(1)]) auto
  have "ld8 (u_tr X) m x = ld8 (u_tr X) (mem k) x" if "x \<in> fs_region X \<union> rng VIDEO 4000" for x
    using kernel_region(1,3) [OF D(1) that] by (rule ld)
  note c = store_call [OF assms(1), of k' m, OF _ _ _ _ _ _ this]
  have k': "pg k' = pg k" "bootblock k' = bootblock k" "ptab k' = ptab k" "kbd k' = kbd k" "mem k' = m"
    using k1 by (simp_all add: k'_def)
  have inv: "uinv X k'" using c(1) k' p g(1) by simp
  have "uview X k' = uabs X (mem k) (upcb k') (kbd k)" using c(2) k' p g(1) by simp
  then have "uview X k' = (uview X k)\<lparr>us_files := (us_files (uview X k))(i \<mapsto> uf)\<rparr>"
    unfolding p g(2) using ok(2) uf assms(4) by (simp add: uview_def fill_def)
  moreover have "keeps (kernel_os X) prog_page k k'"
    unfolding keeps_def using ld S(5,11) D(3) cur_tr_cong [OF k'(1), of "u_mc X"] k'(5) by auto
  ultimately show ?thesis
    using op inv by (auto simp: ece391_open_def kernel_int80_def handle_syscall_def sys_ret_def)
qed

lemma fd_store_call:
  assumes "uinv X k" "2 \<le> i" "i < 8" "fd_ok d" "B \<subseteq> prog_page"
    and "\<And>x. x \<in> u_mapped X \<Longrightarrow> x \<notin> B \<Longrightarrow> x \<notin> rng (fr_dentry (u_fr X)) 64 \<Longrightarrow> ld8 (u_tr X) m x = ld8 (u_tr X) (mem k) x"
    and k': "k' = upd_fd i (\<lambda>_. d) ((on_kernel_stack k)\<lparr>mem := m\<rparr>)"
  shows "uinv X k'"
    "uview X k' = (uview X k)\<lparr>us_files := (us_files (uview X k))(i := if flags d = 0 then None else Some (ufile_of X d))\<rparr>"
    "keeps (kernel_os X) (prog_page - B) k k'"
proof -
  note D = uinvD [OF assms(1)] and S = ustaticD [OF uinvD(1) [OF assms(1)]]
  have f: "pg k' = pg k" "bootblock k' = bootblock k" "ptab k' = ptab k" "kbd k' = kbd k" "tss_esp0 k' = tss_esp0 k"
    "cur_pcb k' = (upcb k)\<lparr>files := (files (upcb k))[i := d]\<rparr>" "r_esp k' = tss_esp0 k - 20"
    by (simp_all add: k') (simp add: on_kernel_stack_def)
  then have p: "upcb k' = (upcb k)\<lparr>files := (files (upcb k))[i := d]\<rparr>" using upcb_cur [of k'] by simp
  note g = pcb_good_fd [OF D(6) assms(2-4)]
  have m: "mem k' = m" by (simp add: k')
  have "ld8 (u_tr X) m x = ld8 (u_tr X) (mem k) x" if "x \<in> fs_region X \<union> rng VIDEO 4000" for x
    using kernel_region [OF D(1) that] assms(5) by (intro assms(6)) auto
  note c = store_call [OF assms(1), of k' m, OF _ _ _ _ _ _ this]
  show "uinv X k'" using c(1) f m p g(1) by simp
  have "uview X k' = uabs X (mem k) (upcb k') (kbd k)" using c(2) f m p g(1) by simp
  then show "uview X k' = (uview X k)\<lparr>us_files := (us_files (uview X k))(i := if flags d = 0 then None else Some (ufile_of X d))\<rparr>"
    unfolding p g(2) by (simp add: uview_def)
  have tr: "cur_tr (u_mc X) k' = u_tr X" using cur_tr_cong [OF f(1), of "u_mc X"] D(3) by simp
  show "keeps (kernel_os X) (prog_page - B) k k'"
    unfolding keeps_def
  proof
    fix x assume "x \<in> prog_page - B"
    then have "ld8 (u_tr X) m x = ld8 (u_tr X) (mem k) x" using S(5,11) by (intro assms(6)) auto
    then show "get8 (kernel_os X) k' x = get8 (kernel_os X) k x" using D(3) tr m by simp
  qed
qed

text \<open>What the file system in memory looks like now.\<close>

lemma fs_now:
  assumes "uinv X k"
  shows "fs_wf (u_tr X) (mem k) (u_bb X)" "rng (u_bb X) (fs_size (u_tr X) (mem k) (u_bb X)) = fs_region X"
    "inode_cnt (u_tr X) (mem k) (u_bb X) = inode_cnt (u_tr X) (u_m0 X) (u_bb X)"
    "ino < inode_cnt (u_tr X) (u_m0 X) (u_bb X) \<Longrightarrow> file_bytes (u_tr X) (mem k) (u_bb X) ino = file_bytes (u_tr X) (u_m0 X) (u_bb X) ino"
proof -
  note D = uinvD [OF assms] and S = ustaticD [OF uinvD(1) [OF assms]]
  show "fs_wf (u_tr X) (mem k) (u_bb X)" using address_space.fs_same_wf [OF S(1,2) D(5)] .
  show "rng (u_bb X) (fs_size (u_tr X) (mem k) (u_bb X)) = fs_region X"
    using address_space.fs_same_size [OF S(1) D(5)] by (simp add: fs_region_def)
  show "inode_cnt (u_tr X) (mem k) (u_bb X) = inode_cnt (u_tr X) (u_m0 X) (u_bb X)" using fs_same_header(2) [OF D(5)] .
  show "ino < inode_cnt (u_tr X) (u_m0 X) (u_bb X) \<Longrightarrow> file_bytes (u_tr X) (mem k) (u_bb X) ino = file_bytes (u_tr X) (u_m0 X) (u_bb X) ino"
    using fs_same_file_bytes [OF S(2) D(5)] .
qed

lemma sys_read_live:
  assumes "2 \<le> i" "i < 8" "flags (files (upcb k) ! i) \<noteq> 0" "fops (files (upcb k) ! i) = Some f"
    and "fops_read mc (fr_dentry fr) f i buf n (on_kernel_stack k) = Some (Read_ret r, k')"
  shows "handle_syscall mc fr 3 (of_nat i) buf n (on_kernel_stack k) = Some (Flow (Ret r), k')"
proof -
  have "unat (of_nat i :: u32) = i" "sint (of_nat i :: u32) = int i" using fd_small [OF assms(2)] .
  moreover have "(of_nat i :: u32) \<noteq> 1" using calculation(1) assms(1) by auto
  ultimately show ?thesis using assms by (simp add: handle_syscall_def sys_read_def sys_read_ret_def Let_def)
qed

lemma kernel_read_data:
  assumes "uinv X k" "2 \<le> i" "i < 8" "us_files (uview X k) i = Some (Data bs)" "rng buf (unat n) \<subseteq> prog_page"
  shows "\<exists>k'. ece391_read (kernel_os X) (of_nat i) buf n k = Some (of_nat (length (take (unat n) bs)), k') \<and> uinv X k' \<and>
    keeps (kernel_os X) (prog_page - rng buf (unat n)) k k' \<and>
    bytes_at (kernel_os X) k' buf (length (take (unat n) bs)) = take (unat n) bs \<and>
    uview X k' = (uview X k)\<lparr>us_files := (us_files (uview X k))(i \<mapsto> Data (drop (unat n) bs))\<rparr>"
proof -
  note D = uinvD [OF assms(1)] and S = ustaticD [OF uinvD(1) [OF assms(1)]] and F = fs_now [OF assms(1)]
  let ?d = "files (upcb k) ! i" let ?fb = "file_bytes (u_tr X) (u_m0 X) (u_bb X) (inode_num ?d)" let ?data = "take (unat n) bs"
  have live: "flags ?d \<noteq> 0" and uf: "ufile_of X ?d = Data bs"
    using assms(4) by (auto simp: uview_def uabs_def ufiles_def fd_live_def split: if_splits)
  have d: "fops ?d = Some fs_fops" "inode_num ?d < inode_cnt (u_tr X) (u_m0 X) (u_bb X)" "unat (pos ?d) \<le> length ?fb"
    "bs = drop (unat (pos ?d)) ?fb"
    using uf by (auto simp: ufile_of_def split: option.splits fops_t.splits if_splits)
  let ?d' = "?d\<lparr>pos := pos ?d + of_nat (length ?data)\<rparr>" let ?m = "store_bytes (u_tr X) (mem k) buf ?data"
  let ?k' = "upd_fd i (\<lambda>_. ?d') ((on_kernel_stack k)\<lparr>mem := ?m\<rparr>)"
  have sub: "rng buf (length ?data) \<subseteq> rng buf (unat n)" by (rule rng_mono) simp
  have "length ?data < 4294967296" by (rule le_less_trans [OF _ unat_lt_2p32 [of n]]) simp
  then have l32: "length ?data \<le> 4294967296" "length ?data < 4294967296" by simp_all
  have "fs_read (u_tr X) (u_bb X) (mem k) ?d buf n = (of_nat (length ?data), ?d', ?m)"
  proof (rule address_space.fs_read_eq [OF S(1) F(1)])
    show "rng (u_bb X) (fs_size (u_tr X) (mem k) (u_bb X)) \<subseteq> u_mapped X" unfolding F(2) by (rule S(6))
    show "inode_num ?d < inode_cnt (u_tr X) (mem k) (u_bb X)" unfolding F(3) by (rule d(2))
    show "rng buf (unat n) \<subseteq> u_mapped X" using assms(5) S(5) by blast
    show "rng (u_bb X) (fs_size (u_tr X) (mem k) (u_bb X)) \<inter> rng buf (unat n) = {}" unfolding F(2) using assms(5) S(10) by blast
    show "?data = take (unat n) (drop (unat (pos ?d)) (file_bytes (u_tr X) (mem k) (u_bb X) (inode_num ?d)))"
      using d(4) F(4) [OF d(2)] by simp
  qed
  then have "fops_read (u_mc X) (fr_dentry (u_fr X)) fs_fops i buf n (on_kernel_stack k) = Some (Read_ret (of_nat (length ?data)), ?k')"
    using D(3,4) by (simp add: fops_read_def)
  from sys_read_live [OF assms(2,3) live d(1) this]
  have rd: "ece391_read (kernel_os X) (of_nat i) buf n k = Some (of_nat (length ?data), ?k')"
    by (simp add: ece391_read_def kernel_int80_def)
  have "fd_ok ?d" using D(9) assms(3) by (simp add: fds_ok_def)
  then have ok: "fd_ok ?d'" using live by (simp add: fd_ok_def)
  have "ld8 (u_tr X) ?m x = ld8 (u_tr X) (mem k) x" if "x \<in> u_mapped X" "x \<notin> rng buf (unat n)" for x
    using that sub S(5) assms(5) l32 by (intro address_space.ld8_store_outside [OF S(1)]) auto
  note c = fd_store_call [OF assms(1-3) ok assms(5) this refl]
  have "length ?fb < 4294967296" by (simp add: file_len_def)
  moreover have "length ?data \<le> length ?fb - unat (pos ?d)" using d(4) by simp
  then have "unat (pos ?d) + length ?data \<le> length ?fb" using d(3) by linarith
  ultimately have p: "unat (pos ?d') = unat (pos ?d) + length ?data"
    using l32 by (simp add: unat_plus_if' unat_of_nat_u32)
  have "drop (length ?data) bs = drop (unat n) bs" by (simp add: min_def)
  then have "ufile_of X ?d' = Data (drop (unat n) bs)"
    using d p \<open>unat (pos ?d) + length ?data \<le> length ?fb\<close> by (simp add: ufile_of_def add.commute)
  have k': "cur_tr (u_mc X) ?k' = u_tr X" "mem ?k' = ?m" using cur_tr_cong [of ?k' k "u_mc X"] D(3) by simp_all
  have "rng buf (length ?data) \<subseteq> u_mapped X" using sub S(5) assms(5) by blast
  then have "bytes_at (kernel_os X) ?k' buf (length ?data) = ?data"
    unfolding bytes_at_def kernel_os_simps k' using l32(1) by (rule address_space.load_store_same [OF S(1)])
  moreover note \<open>ufile_of X ?d' = Data (drop (unat n) bs)\<close>
  ultimately show ?thesis using rd c(1-3) live by (intro exI [of _ ?k']) simp
qed

text \<open>Reading a directory.\<close>

lemma kernel_read_dir:
  assumes "uinv X k" "2 \<le> i" "i < 8" "us_files (uview X k) i = Some (Entries xs)" "rng buf (u_extent (unat n) (Entries xs)) \<subseteq> prog_page"
    and "u_read (unat n) (Entries xs) = (data, f')"
  shows "\<exists>k'. ece391_read (kernel_os X) (of_nat i) buf n k = Some (of_nat (length data), k') \<and> uinv X k' \<and>
    keeps (kernel_os X) (prog_page - rng buf (u_extent (unat n) (Entries xs))) k k' \<and> bytes_at (kernel_os X) k' buf (length data) = data \<and>
    uview X k' = (uview X k)\<lparr>us_files := (us_files (uview X k))(i \<mapsto> f')\<rparr>"
proof -
  note D = uinvD [OF assms(1)] and S = ustaticD [OF uinvD(1) [OF assms(1)]]
  let ?d = "files (upcb k) ! i" let ?d' = "?d\<lparr>pos := pos ?d + 1\<rparr>" let ?dt = "fr_dentry (u_fr X)"
  have live: "flags ?d \<noteq> 0" and uf: "ufile_of X ?d = Entries xs"
    using assms(4) by (auto simp: uview_def uabs_def ufiles_def fd_live_def split: if_splits)
  have d: "fops ?d = Some dir_fops" "unat (pos ?d) \<le> length (u_names X)" "xs = drop (unat (pos ?d)) (u_names X)"
    using uf by (auto simp: ufile_of_def split: option.splits fops_t.splits if_splits)
  have names: "length (u_names X) \<le> 63" using S(3) by (simp add: dir_names_def)
  then have p: "unat (pos ?d') = Suc (unat (pos ?d))" using d(2) by (simp add: unat_plus_if')
  have "fd_ok ?d" using D(9) assms(3) by (simp add: fds_ok_def)
  then have ok: "fd_ok ?d'" using live by (simp add: fd_ok_def)
  have dir: "dir_names (u_tr X) (mem k) (u_bb X) (u_names X)" using dir_now [OF assms(1)] by (simp add: dir_at_def)
  have result: ?thesis
    if r: "read_directory_entry (u_tr X) (u_bb X) (mem k) ?dt (pos ?d) buf n = Some (of_nat (length data), m)"
      and ld: "\<And>x. x \<in> u_mapped X \<Longrightarrow> x \<notin> rng buf (u_extent (unat n) (Entries xs)) \<Longrightarrow> x \<notin> rng ?dt 64 \<Longrightarrow> ld8 (u_tr X) m x = ld8 (u_tr X) (mem k) x"
      and got: "load_bytes (u_tr X) m buf (length data) = data" and f': "ufile_of X ?d' = f'" for m
  proof -
    let ?k' = "upd_fd i (\<lambda>_. ?d') ((on_kernel_stack k)\<lparr>mem := m\<rparr>)"
    have "fops_read (u_mc X) ?dt dir_fops i buf n (on_kernel_stack k) = Some (Read_ret (of_nat (length data)), ?k')"
      using r D(3,4) by (simp add: fops_read_def dir_read_def)
    from sys_read_live [OF assms(2,3) live d(1) this]
    have rd: "ece391_read (kernel_os X) (of_nat i) buf n k = Some (of_nat (length data), ?k')"
      by (simp add: ece391_read_def kernel_int80_def)
    note c = fd_store_call [OF assms(1-3) ok assms(5) ld refl]
    have k': "cur_tr (u_mc X) ?k' = u_tr X" "mem ?k' = m" using cur_tr_cong [of ?k' k "u_mc X"] D(3) by simp_all
    have "bytes_at (kernel_os X) ?k' buf (length data) = data" unfolding bytes_at_def kernel_os_simps k' by (rule got)
    then show ?thesis using rd c(1-3) live f' by (intro exI [of _ ?k']) simp
  qed
  show ?thesis
  proof (cases xs)
    case Nil
    then have e: "data = []" "f' = Device" "unat (pos ?d) = length (u_names X)" using assms(6) d(2,3) by auto
    have "\<not> pos ?d < dir_entries_cnt (u_tr X) (mem k) (u_bb X)" using dir e(3) by (simp add: dir_names_def word_less_nat_alt)
    then have "read_directory_entry (u_tr X) (u_bb X) (mem k) ?dt (pos ?d) buf n = Some (0, mem k)"
      by (simp add: read_directory_entry_def not_less)
    moreover have "ufile_of X ?d' = Device" using d(1) p e(3) by (simp add: ufile_of_def)
    ultimately show ?thesis using e by (intro result [of "mem k"]) simp_all
  next
    case (Cons x ys)
    let ?j = "unat (pos ?d)" let ?e = "bootblock_dentry (u_bb X) (of_nat ?j)"
    have j: "?j < length (u_names X)" "x = u_names X ! ?j" "ys = drop (Suc ?j) (u_names X)"
      using Cons d(3) by (metis drop_eq_Nil linorder_not_le list.discI, metis Cons_nth_drop_Suc drop_eq_Nil linorder_not_le list.inject list.discI,
          metis Cons_nth_drop_Suc drop_eq_Nil linorder_not_le list.inject list.discI)
    have data: "data = take (unat n) x" and f': "f' = Entries ys" using assms(6) Cons by auto
    have "length x < 64" using S(4) j(1,2) nth_mem by blast
    then have len: "length x < 64" "u_extent (unat n) (Entries xs) = length data + 2" "length data + 2 \<le> 65" by (simp_all add: data Cons)
    have sub: "rng buf (length data + 2) \<subseteq> rng buf (u_extent (unat n) (Entries xs))" unfolding len(2) by (rule order_refl)
    have e: "rng ?e 64 \<subseteq> u_mapped X" "rng ?e 64 \<inter> rng ?dt 64 = {}"
      using dir_now [OF assms(1)] j(1) unfolding dir_at_def by blast+
    let ?m1 = "store_bytes (u_tr X) (mem k) ?dt (load_bytes (u_tr X) (mem k) ?e 64)" let ?m = "store_bytes (u_tr X) ?m1 buf (data @ [10, 0])"
    have buf: "rng buf (length data + 2) \<subseteq> u_mapped X" "rng buf (length data + 2) \<inter> rng ?dt 64 = {}"
      using sub assms(5) S(5,11) by blast+
    have "read_directory_entry (u_tr X) (u_bb X) (mem k) ?dt (of_nat ?j) buf n = Some (of_nat (length data), ?m)"
      using len(1) j(2) data by (intro address_space.read_directory_entry_eq [OF S(1) dir j(1) _ e(1) S(7) e(2) _ buf]) simp_all
    moreover have "ld8 (u_tr X) ?m y = ld8 (u_tr X) (mem k) y"
      if "y \<in> u_mapped X" "y \<notin> rng buf (u_extent (unat n) (Entries xs))" "y \<notin> rng ?dt 64" for y
    proof -
      have "ld8 (u_tr X) ?m y = ld8 (u_tr X) ?m1 y"
        using that sub buf(1) len(3) by (intro address_space.ld8_store_outside [OF S(1)]) auto
      also have "\<dots> = ld8 (u_tr X) (mem k) y"
        using that S(7) by (intro address_space.ld8_store_outside [OF S(1)]) auto
      finally show ?thesis .
    qed
    moreover have "load_bytes (u_tr X) ?m buf (length data + 2) = data @ [10, 0]"
      using address_space.load_store_same [OF S(1), of buf "data @ [10, 0]" ?m1] buf(1) len(3) by simp
    then have "load_bytes (u_tr X) ?m buf (length data) = data"
      using take_load_bytes [of "length data" "length data + 2" "u_tr X" ?m buf] by simp
    moreover have "ufile_of X ?d' = f'" using d(1) p j(1,3) by (simp add: ufile_of_def f')
    ultimately show ?thesis by (intro result [of ?m]) simp_all
  qed
qed

text \<open>Writing to the terminal.\<close>

context address_space
begin

lemma terminal_write_loop_eq:
  assumes "rng (scr_mem scr) 4000 \<subseteq> mapped" "screen_wf scr"
    and "rng buf n \<subseteq> mapped" "rng (scr_mem scr) 4000 \<inter> rng buf n = {}" "n < 4294967296"
  shows "screen_abs tr (terminal_write_loop tr buf n (scr, m)) = fold a_putc (load_bytes tr m buf n) (screen_abs tr (scr, m)) \<and>
    screen_wf (fst (terminal_write_loop tr buf n (scr, m))) \<and> scr_mem (fst (terminal_write_loop tr buf n (scr, m))) = scr_mem scr \<and>
    (\<forall>x. x \<in> mapped \<longrightarrow> x \<notin> rng (scr_mem scr) 4000 \<longrightarrow> ld8 tr (snd (terminal_write_loop tr buf n (scr, m))) x = ld8 tr m x)"
  using assms
proof (induction n arbitrary: buf scr m)
  case (Suc n)
  let ?c = "ld8 tr m buf"
  obtain scr' m' where p: "putc_in_terminal tr ?c (scr, m) = (scr', m')" by fastforce
  have wf': "screen_wf scr'" "scr_mem scr' = scr_mem scr"
    using p putc_wf [OF Suc.prems(2), of tr ?c m] putc_mem [of tr ?c scr m] by auto
  have sub: "rng (buf + 1) n \<subseteq> rng buf (Suc n)" using rng_sub [of 1 n "Suc n" buf] by simp
  have keep: "ld8 tr m' x = ld8 tr m x" if "x \<in> mapped" "x \<notin> rng (scr_mem scr) 4000" for x
    using ld8_putc [OF Suc.prems(1,2) that, of ?c m] p by simp
  have "load_bytes tr m' (buf + 1) n = load_bytes tr m (buf + 1) n"
    using sub Suc.prems by (intro load_bytes_cong keep) auto
  moreover have "screen_abs tr (scr', m') = a_putc ?c (screen_abs tr (scr, m))"
    using putc_refines [OF Suc.prems(1,2), of ?c m] p by simp
  moreover have "rng (scr_mem scr') 4000 \<subseteq> mapped" "rng (buf + 1) n \<subseteq> mapped" "rng (scr_mem scr') 4000 \<inter> rng (buf + 1) n = {}"
    using wf'(2) sub Suc.prems(1,3,4) by auto
  note Suc.IH [OF this(1) wf'(1) this(2,3), of m']
  ultimately show ?case using wf'(2) keep Suc.prems(5) p by simp
qed simp

end

lemma kernel_write:
  assumes "uinv X k" "buf \<in> prog_page" "rng buf (unat n) \<subseteq> prog_page" "unat n < 2147483648"
  shows "\<exists>k'. ece391_write (kernel_os X) 1 buf n k = Some (n, k') \<and> uinv X k' \<and> keeps (kernel_os X) prog_page k k' \<and>
    uview X k' = emits a_putc (bytes_at (kernel_os X) k buf (unat n)) (uview X k)"
proof -
  note D = uinvD [OF assms(1)] and S = ustaticD [OF uinvD(1) [OF assms(1)]]
  let ?t = "u_term X" let ?scr = "screen (terminals (kbd k) ! ?t)"
  have t: "unat (term_num (upcb k)) = ?t" using D(6) S(9) by (simp add: pcb_good_def unat_of_nat_u32)
  have kb: "?t < length (terminals (kbd k))" "screen_wf ?scr" "scr_mem ?scr = VIDEO" using D(7) by (simp_all add: kbd_good_def)
  have fd: "flags (files (upcb k) ! 1) \<noteq> 0" "fops (files (upcb k) ! 1) = Some term_fops"
    using D(9) by (auto simp: fds_ok_def fd_ok_def split: if_splits)
  have sn: "sint n = int (unat n)" using sint_small_u32 [of "unat n"] assms(4) by simp
  have nz: "buf \<noteq> 0" using assms(2) by (auto simp: rng_def)
  obtain scr m where w: "terminal_write_loop (u_tr X) buf (unat n) (?scr, mem k) = (scr, m)" by fastforce
  have L: "screen_abs (u_tr X) (scr, m) = fold a_putc (load_bytes (u_tr X) (mem k) buf (unat n)) (screen_abs (u_tr X) (?scr, mem k))"
    "screen_wf scr" "scr_mem scr = VIDEO"
    "\<And>x. x \<in> u_mapped X \<Longrightarrow> x \<notin> rng VIDEO 4000 \<Longrightarrow> ld8 (u_tr X) m x = ld8 (u_tr X) (mem k) x"
    using address_space.terminal_write_loop_eq [OF S(1), of ?scr buf "unat n" "mem k"] kb S(5,8,12) assms(3,4) w by auto
  define h where "h = (if of_nat ?t = current_terminal (upd_term ?t (\<lambda>tm. tm\<lparr>screen := scr\<rparr>) (kbd k))
    then outbs (m_outb (u_mc X)) (move_cursor (of_nat ?t) scr PAGE_SIZE) (hw (on_kernel_stack k)) else hw (on_kernel_stack k))"
  define k' where "k' = (on_kernel_stack k)\<lparr>kbd := upd_term ?t (\<lambda>tm. tm\<lparr>screen := scr\<rparr>) (kbd k), mem := m, hw := h\<rparr>"
  have "terminal_write (m_outb (u_mc X)) (u_tr X) ?t buf (sint n) (kbd k, mem k, hw (on_kernel_stack k)) =
      (sint n, upd_term ?t (\<lambda>tm. tm\<lparr>screen := scr\<rparr>) (kbd k), m, h)"
    using nz w sn by (simp add: terminal_write_def h_def Let_def)
  then have "fops_write (u_mc X) term_fops 1 buf n (on_kernel_stack k) = Some (n, k')"
    using D(3) t by (simp add: fops_write_def k'_def)
  then have wr: "ece391_write (kernel_os X) 1 buf n k = Some (n, k')"
    using fd by (simp add: ece391_write_def kernel_int80_def handle_syscall_def sys_ret_def sys_write_def Let_def)
  have f: "pg k' = pg k" "bootblock k' = bootblock k" "ptab k' = ptab k" "mem k' = m" "upcb k' = upcb k"
    "kbd k' = upd_term ?t (\<lambda>tm. tm\<lparr>screen := scr\<rparr>) (kbd k)"
    by (simp_all add: k'_def upcb_def) (simp_all add: on_kernel_stack_def)
  have scr': "screen (terminals (kbd k') ! ?t) = scr" "kbd_good X (kbd k')" using kb L(2,3) by (simp_all add: f(6) upd_term_def kbd_good_def)
  have "fs_same (u_tr X) (u_bb X) (u_m0 X) (mem k')"
    unfolding fs_same_def fs_region_def [symmetric]
  proof
    fix x assume x: "x \<in> fs_region X"
    then have "ld8 (u_tr X) m x = ld8 (u_tr X) (mem k) x" using S(6,14) by (intro L(4)) auto
    then show "ld8 (u_tr X) (mem k') x = ld8 (u_tr X) (u_m0 X) x" using x D(5) f(4) by (simp add: fs_same_def fs_region_def)
  qed
  then have "uinv X k'" using D(6) scr'(2) f by (intro uinv_frame [OF assms(1)]) simp_all
  moreover have "uview X k' = emits a_putc (bytes_at (kernel_os X) k buf (unat n)) (uview X k)"
    using L(1) scr'(1) f(4,5) D(3) by (simp add: uview_def uabs_def emits_def bytes_at_def)
  moreover have "keeps (kernel_os X) prog_page k k'"
    unfolding keeps_def
  proof
    fix x assume "x \<in> prog_page"
    then have "ld8 (u_tr X) m x = ld8 (u_tr X) (mem k) x" using S(5,12) by (intro L(4)) auto
    then show "get8 (kernel_os X) k' x = get8 (kernel_os X) k x" using f(4) D(3) cur_tr_cong [OF f(1), of "u_mc X"] by simp
  qed
  ultimately show ?thesis using wr by blast
qed

lemma kernel_read:
  assumes "uinv X k" "2 \<le> i" "i < 8" "us_files (uview X k) i = Some f" "f \<noteq> Device" "u_read (unat n) f = (d, f')"
    and "rng buf (u_extent (unat n) f) \<subseteq> prog_page"
  shows "\<exists>k'. ece391_read (kernel_os X) (of_nat i) buf n k = Some (of_nat (length d), k') \<and> uinv X k' \<and>
    keeps (kernel_os X) (prog_page - rng buf (u_extent (unat n) f)) k k' \<and> bytes_at (kernel_os X) k' buf (length d) = d \<and>
    uview X k' = (uview X k)\<lparr>us_files := (us_files (uview X k))(i \<mapsto> f')\<rparr>"
proof (cases f)
  case (Data bs)
  then show ?thesis using kernel_read_data [OF assms(1-3), of bs buf n] assms(4,6,7) by auto
next
  case (Entries xs)
  then show ?thesis using kernel_read_dir [OF assms(1-3), of xs buf n d f'] assms(4,6,7) by blast
next
  case Device
  then show ?thesis using assms(5) by simp
qed

text \<open>The kernel keeps the contract.\<close>

interpretation kos: user_os "kernel_os X" "uinv X" prog_page "uview X" a_putc "udir X" for X
proof unfold_locales
  fix k assume k: "uinv X k"
  have "inj_on (u_tr X) prog_page"
    using ustaticD(1,5) [OF uinvD(1) [OF k]] by (auto simp: address_space_def intro: inj_on_subset)
  then show "inj_on (o_tr (kernel_os X) k) prog_page \<and> 0 \<notin> prog_page" using uinvD(3) [OF k] by (simp add: rng_def)
next
  fix k m assume "uinv X k" "\<And>p. p \<notin> o_tr (kernel_os X) k ` prog_page \<Longrightarrow> m p = o_mem (kernel_os X) k p"
  then show "uinv X (o_set_mem (kernel_os X) m k) \<and> uview X (o_set_mem (kernel_os X) m k) = uview X k \<and>
      o_mem (kernel_os X) (o_set_mem (kernel_os X) m k) = m \<and> o_tr (kernel_os X) (o_set_mem (kernel_os X) m k) = o_tr (kernel_os X) k"
    using kernel_set_mem [of X k m] by (simp add: cur_tr_def)
qed (fact kernel_write kernel_write_bad kernel_read kernel_read_bad kernel_close kernel_close_bad kernel_getargs kernel_vidmap_bad
    kernel_number_bad | (rule kernel_open; assumption) | (rule kernel_open_none; assumption))+

end
