(* ===== verification/Userrun.thy ===== *)
theory Userrun
  imports Userkernel Message
begin

text \<open>
  The user programs run on the kernel: the facts of the locale \<open>user_os\<close> for the kernel of theory
  \<open>System\<close>, over the concrete program page, file system image and text screen.
\<close>

section \<open>The terminal of the running program\<close>

definition prog_screen :: "'h uctx \<Rightarrow> 'h kernel \<Rightarrow> ascreen" where
  "prog_screen X k = screen_abs (cur_tr (u_mc X) k) (screen (terminals (kbd k) ! u_term X), mem k)"

definition prog_args :: "'h kernel \<Rightarrow> bytes" where
  "prog_args k = take (unat (args_len (upcb k))) (args (upcb k))"

lemma uview_out: "uinv X k \<Longrightarrow> us_out (uview X k) = prog_screen X k"
  by (simp add: uview_def uabs_def prog_screen_def uinvD(3))

lemma uview_args: "us_args (uview X k) = prog_args k"
  by (simp add: uview_def uabs_def prog_args_def)

lemma uview_files: "us_files (uview X k) = ufiles X (files (upcb k))"
  by (simp add: uview_def uabs_def)

lemma prog_args_short: "uinv X k \<Longrightarrow> length (prog_args k) < 128"
  using uinvD(6) [of X k] by (simp add: pcb_good_def prog_args_def)

lemma prints_on_screen:
  assumes "uinv X k" "uinv X k'" "uview X k' = emits a_putc bs u" "us_out u = us_out (uview X k)"
  shows "prog_screen X k' = fold a_putc bs (prog_screen X k)"
  using assms by (simp add: emits_def flip: uview_out)

section \<open>A machine for the examples\<close>

text \<open>
  A file system with the directory \<open>.\<close> and the file \<open>hi\<close> of three bytes, and a program at
  \<open>0x8000000\<close> whose literals lie from \<open>0x8100000\<close> on.
\<close>

definition disk_image :: memory where
  "disk_image = (\<lambda>a. 0)(0x10000 := 2, 0x10004 := 1, 0x10008 := 1,
     0x10040 := 46, 0x10060 := 1, 0x10080 := 104, 0x10081 := 105, 0x100A0 := 2,
     0x11000 := 3, 0x12000 := 97, 0x12001 := 98, 0x12002 := 99)"

definition run_lits :: "string list" where
  "run_lits = [''.'', ''helloo'', ''shel'', [], ''\<newline>'', ''could not read arguments\<newline>'', ''file not found\<newline>'',
     ''file read failed\<newline>'', '':'', ''hi'', ''b''] @ syserr_lits"

definition run_mem :: memory where
  "run_mem a = (if a \<in> rng 0x8100000 2560 then lit_mem 0x8100000 (map lit run_lits) a else disk_image a)"

definition run_lit :: "string \<Rightarrow> addr" where
  "run_lit l = (case first_index (lit l) (map lit run_lits) of Some j \<Rightarrow> 0x8100000 + of_nat (128 * j) | None \<Rightarrow> 0)"

definition run_kernel :: "bytes \<Rightarrow> nat kernel" where
  "run_kernel as = sample_kernel\<lparr>mem := run_mem,
     pcbs := \<lambda>_. sample_pcb\<lparr>args := as @ replicate (128 - length as) 0, args_len := of_nat (length as)\<rparr>\<rparr>"

definition run_ctx :: "nat uctx" where
  "run_ctx = \<lparr>u_mc = sample_machine, u_fr = sample_frame, u_wait = \<lambda>k. None, u_child = \<lambda>eip esp k. None, u_lit = run_lit,
     u_above = \<lambda>i. 0, u_tr = \<lambda>a. a, u_mapped = UNIV, u_m0 = disk_image, u_bb = 0x10000, u_names = [[46], [104, 105]], u_term = 0\<rparr>"

lemma run_ctx_simps [simp]:
  "u_mc run_ctx = sample_machine" "u_fr run_ctx = sample_frame" "u_lit run_ctx = run_lit" "u_tr run_ctx = (\<lambda>a. a)"
  "u_mapped run_ctx = UNIV" "u_m0 run_ctx = disk_image" "u_bb run_ctx = 0x10000" "u_names run_ctx = [[46], [104, 105]]" "u_term run_ctx = 0"
  by (simp_all add: run_ctx_def)

lemma run_kernel_simps [simp]:
  "mem (run_kernel as) = run_mem" "pg (run_kernel as) = flat_paging" "bootblock (run_kernel as) = 0x10000"
  "kbd (run_kernel as) = demo_kbd" "ptab (run_kernel as) = sample_ptab"
  "upcb (run_kernel as) = sample_pcb\<lparr>args := as @ replicate (128 - length as) 0, args_len := of_nat (length as)\<rparr>"
  by (simp_all add: run_kernel_def upcb_def) (simp add: sample_kernel_def)+

lemma run_tr: "cur_tr sample_machine (run_kernel as) = (\<lambda>a. a)"
  using sample_tr cur_tr_cong [of "run_kernel as" sample_kernel sample_machine] by (simp add: sample_kernel_def)

lemma disk_header:
  "dir_entries_cnt (\<lambda>a. a) disk_image 0x10000 = 2" "inode_cnt (\<lambda>a. a) disk_image 0x10000 = 1"
  "data_block_cnt (\<lambda>a. a) disk_image 0x10000 = 1" "fs_size (\<lambda>a. a) disk_image 0x10000 = 12288"
  by (simp_all add: dir_entries_cnt_def inode_cnt_def data_block_cnt_def fs_size_def ld32_def ld8_def
      disk_image_def word_of_bytes_def)

lemma disk_file:
  "file_len (\<lambda>a. a) disk_image 0x10000 0 = 3"
  "inode_data_block (\<lambda>a. a) disk_image (get_inode_ptr 0x10000 0) 0 = 0"
  "file_bytes (\<lambda>a. a) disk_image 0x10000 0 = [97, 98, 99]"
proof -
  show l: "file_len (\<lambda>a. a) disk_image 0x10000 0 = 3"
    and d: "inode_data_block (\<lambda>a. a) disk_image (get_inode_ptr 0x10000 0) 0 = 0"
    by (simp_all add: file_len_def inode_length_def inode_data_block_def get_inode_ptr_def ld32_def ld8_def
        disk_image_def word_of_bytes_def)
  show "file_bytes (\<lambda>a. a) disk_image 0x10000 0 = [97, 98, 99]"
    by (simp add: file_bytes_def l file_byte_def block_addr_def disk_header d upt_rec numeral_3_eq_3)
      (simp add: disk_image_def ld8_def)
qed

lemma disk_wf: "fs_wf (\<lambda>a. a) disk_image 0x10000"
proof -
  have k: "k * 4096 < 3 \<longleftrightarrow> k = 0" for k :: nat by (cases k) auto
  then show ?thesis
    by (auto simp: fs_wf_def disk_header inode_wf_def disk_file)
qed

lemma disk_entries:
  "dentry_ftype (\<lambda>a. a) disk_image (bootblock_dentry 0x10000 0) = 1"
  "dentry_ftype (\<lambda>a. a) disk_image (bootblock_dentry 0x10000 1) = 2"
  "dentry_inode (\<lambda>a. a) disk_image (bootblock_dentry 0x10000 1) = 0"
  "cstring (\<lambda>a. a) disk_image (bootblock_dentry 0x10000 0) [46]"
  "cstring (\<lambda>a. a) disk_image (bootblock_dentry 0x10000 1) [104, 105]"
  by (simp_all add: dentry_ftype_def dentry_inode_def bootblock_dentry_def ld32_def ld8_def disk_image_def
      word_of_bytes_def cstring_def)

lemma run_static: "ustatic run_ctx"
proof -
  have "dir_names (\<lambda>a. a) disk_image 0x10000 [[46], [104, 105]]"
    using disk_entries by (simp add: dir_names_def disk_header All_less_Suc)
  then show ?thesis
    using disk_entries by (simp add: ustatic_def fs_region_def disk_wf disk_header rng_disjoint All_less_Suc)
qed

lemma run_same: "fs_same (\<lambda>a. a) 0x10000 disk_image run_mem"
  using rng_disjoint(1) [of "0x10000" 12288 "0x8100000" 2560] by (auto simp: fs_same_def disk_header ld8_def run_mem_def)

lemma run_uinv:
  assumes "length as < 128" "0 \<notin> set as"
  shows "uinv run_ctx (run_kernel as)"
proof -
  have "pcb_good run_ctx (upcb (run_kernel as))"
    using assms sample_fds_ok by (simp add: pcb_good_def unat_of_nat_u32) (simp add: sample_pcb_def)
  moreover have "kbd_good run_ctx demo_kbd" by (simp add: kbd_good_def demo_term_def screen_wf_def)
  moreover have "devices_good sample_ptab" by (simp add: devices_good_def get_device_fops_def sample_ptab_def word_le_nat_alt)
  ultimately show ?thesis by (simp add: uinv_def udyn_def run_static run_tr run_same)
qed

lemma run_args: "length as < 128 \<Longrightarrow> prog_args (run_kernel as) = as"
  by (simp add: prog_args_def unat_of_nat_u32)

lemma run_files: "us_files (uview run_ctx (run_kernel as)) i = None"
proof -
  have "flags (sample_fds ! i) = 0" if "2 \<le> i" "i < 8" using that by (simp add: sample_fds_def nth_append)
  then show ?thesis by (simp add: uview_files ufiles_def fd_live_def) (simp add: sample_pcb_def)
qed

lemma run_free: "us_free (us_files (uview run_ctx (run_kernel as))) = Some 2"
  using find_upt_Some [of "\<lambda>i. us_files (uview run_ctx (run_kernel as)) i = None" 2 8 2] run_files
  by (simp add: us_free_def del: upt_rec_numeral)

lemma run_lits_ok: "list_all (\<lambda>l. length l < 128 \<and> 0 \<notin> set (lit l)) run_lits" "length run_lits = 20"
  by (simp_all add: run_lits_def syserr_lits_def)

lemma run_lits_at:
  assumes "set L \<subseteq> set run_lits" "rng 0x8100000 2560 \<subseteq> R"
  shows "lits_at (kernel_os run_ctx) R L (run_kernel as)"
  unfolding lits_at_def
proof
  fix l assume "l \<in> set L"
  then have "lit l \<in> set (map lit run_lits)" using assms(1) by auto
  then obtain j where "first_index (lit l) (map lit run_lits) = Some j"
    using first_index_None [of "lit l" "map lit run_lits"] by (cases "first_index (lit l) (map lit run_lits)") auto
  moreover from first_index_Some [OF this] have j: "j < 20" "map lit run_lits ! j = lit l" using run_lits_ok(2) by auto
  ultimately have a: "run_lit l = 0x8100000 + of_nat (128 * j)" by (simp add: run_lit_def)
  have "length (lit l) < 128 \<and> 0 \<notin> set (lit l)" using run_lits_ok j by (force simp: list_all_length simp flip: length_lit)
  then have c: "cstring (\<lambda>a. a) (lit_mem 0x8100000 (map lit run_lits)) (run_lit l) (lit l)"
    "rng (run_lit l) (Suc (length (lit l))) \<subseteq> rng 0x8100000 2560"
    using lit_mem_cstring [of j "map lit run_lits" "0x8100000"] j run_lits_ok(2) unfolding a by simp_all
  have "cstring (\<lambda>a. a) run_mem (run_lit l) (lit l)"
    by (rule cstring_view [OF c(1)]) (use c(2) in \<open>auto simp: ld8_def run_mem_def\<close>)
  then show "rng (o_lit (kernel_os run_ctx) l) (Suc (length l)) \<subseteq> R \<and>
      str_at (kernel_os run_ctx) (run_kernel as) (o_lit (kernel_os run_ctx) l) (lit l)"
    using c(2) assms(2) by (simp add: str_at_def run_tr)
qed

lemma run_dir:
  "udir run_ctx [104, 105] = Some (Data [97, 98, 99])" "udir run_ctx (lit ''.'') = Some (Entries [[46], [104, 105]])"
  "xs \<notin> {[46], [104, 105]} \<Longrightarrow> udir run_ctx xs = None"
proof -
  show "xs \<notin> {[46], [104, 105]} \<Longrightarrow> udir run_ctx xs = None" using first_index_None [of xs "[[46], [104, 105]]"] by (simp add: udir_def)
  have "first_index [104, 105] [[46], [104, 105 :: u8]] = Some 1" "first_index [46] [[46], [104, 105 :: u8]] = Some 0"
    by (simp_all add: first_index_def)
  then show "udir run_ctx [104, 105] = Some (Data [97, 98, 99])" "udir run_ctx (lit ''.'') = Some (Entries [[46], [104, 105]])"
    by (simp_all add: udir_def Let_def disk_entries disk_header disk_file)
qed

section \<open>The programs\<close>

abbreviation cat_literals :: "string list" where
  "cat_literals \<equiv> [''could not read arguments\<newline>'', ''file not found\<newline>'', ''file read failed\<newline>'']"

text \<open>
  \<open>cat\<close> on the kernel. Called with the name of a regular file while a descriptor is free, it
  returns 0 after the bytes of the whole file, however long, have been printed on the terminal of its
  process; with any other name that the directory does not have, or with all descriptors in use, it
  prints \<open>file not found\<close> and returns 2.
\<close>

theorem cat_on_kernel:
  assumes "uinv X k" "rng buf 1024 \<subseteq> prog_page"
  shows "(\<forall>i bs. us_free (ufiles X (files (upcb k))) = Some i \<and> udir X (prog_args k) = Some (Data bs) \<longrightarrow>
       (\<exists>k'. cat_main (kernel_os X) buf k = Some (0, k') \<and> uinv X k' \<and> prog_screen X k' = fold a_putc bs (prog_screen X k))) \<and>
     (lits_at (kernel_os X) (prog_page - rng buf 1024) cat_literals k \<and>
       (us_free (ufiles X (files (upcb k))) = None \<or> udir X (prog_args k) = None) \<longrightarrow>
       (\<exists>k'. cat_main (kernel_os X) buf k = Some (2, k') \<and> uinv X k' \<and>
          prog_screen X k' = fold a_putc (lit ''file not found\<newline>'') (prog_screen X k)))"
proof (intro conjI allI impI)
  have a: "length (us_args (uview X k)) < 1024" using prog_args_short [OF assms(1)] by (simp add: uview_args)
  fix i bs assume "us_free (ufiles X (files (upcb k))) = Some i \<and> udir X (prog_args k) = Some (Data bs)"
  then show "\<exists>k'. cat_main (kernel_os X) buf k = Some (0, k') \<and> uinv X k' \<and> prog_screen X k' = fold a_putc bs (prog_screen X k)"
    using kos.cat_prints [OF assms a, of i bs] prints_on_screen [OF assms(1)] by (fastforce simp: uview_args uview_files)
next
  have a: "length (us_args (uview X k)) < 1024" using prog_args_short [OF assms(1)] by (simp add: uview_args)
  assume "lits_at (kernel_os X) (prog_page - rng buf 1024) cat_literals k \<and>
    (us_free (ufiles X (files (upcb k))) = None \<or> udir X (prog_args k) = None)"
  then show "\<exists>k'. cat_main (kernel_os X) buf k = Some (2, k') \<and> uinv X k' \<and>
      prog_screen X k' = fold a_putc (lit ''file not found\<newline>'') (prog_screen X k)"
    using kos.cat_not_found [OF assms a] prints_on_screen [OF assms(1)] by (fastforce simp: uview_args uview_files)
qed

theorem cat_on_kernel_witness:
  "(\<exists>k'. cat_main (kernel_os run_ctx) 0x8200000 (run_kernel [104, 105]) = Some (0, k') \<and>
      prog_screen run_ctx k' = fold a_putc [97, 98, 99] (prog_screen run_ctx (run_kernel [104, 105]))) \<and>
   (\<exists>k'. cat_main (kernel_os run_ctx) 0x8200000 (run_kernel [110, 111]) = Some (2, k') \<and>
      prog_screen run_ctx k' = fold a_putc (lit ''file not found\<newline>'') (prog_screen run_ctx (run_kernel [110, 111])))"
proof
  have b: "rng 0x8200000 1024 \<subseteq> prog_page" using rng_sub [of "0x200000" 1024 4194304 "0x8000000"] by simp
  note f = run_free [unfolded uview_files]
  have i: "uinv run_ctx (run_kernel [104, 105])" "uinv run_ctx (run_kernel [110, 111])" by (simp_all add: run_uinv)
  show "\<exists>k'. cat_main (kernel_os run_ctx) 0x8200000 (run_kernel [104, 105]) = Some (0, k') \<and>
      prog_screen run_ctx k' = fold a_putc [97, 98, 99] (prog_screen run_ctx (run_kernel [104, 105]))"
    using conjunct1 [OF cat_on_kernel [OF i(1) b]] f run_dir(1) by (auto simp: run_args)
  have "rng 0x8100000 2560 \<subseteq> prog_page - rng 0x8200000 1024"
    using rng_sub [of "0x100000" 2560 4194304 "0x8000000"] rng_disjoint(1) [of "0x8100000" 2560 "0x8200000" 1024] by auto
  then have "lits_at (kernel_os run_ctx) (prog_page - rng 0x8200000 1024) cat_literals (run_kernel [110, 111])"
    by (rule run_lits_at [rotated]) (simp add: run_lits_def)
  moreover have "udir run_ctx (prog_args (run_kernel [110, 111])) = None" by (simp add: run_args run_dir(3))
  ultimately show "\<exists>k'. cat_main (kernel_os run_ctx) 0x8200000 (run_kernel [110, 111]) = Some (2, k') \<and>
      prog_screen run_ctx k' = fold a_putc (lit ''file not found\<newline>'') (prog_screen run_ctx (run_kernel [110, 111]))"
    using cat_on_kernel [OF i(2) b] by blast
qed

text \<open>
  C39. \<open>ls\<close> on the kernel, with its buffer of 33 bytes: in a directory whose names have 1 to 31
  characters it prints the names of all entries in their order, each whole and followed by a
  newline, and returns 0. (A name of 32 characters is outside of this: the kernel stores 34 bytes for it.)
\<close>

theorem ls_on_kernel:
  assumes "uinv X k" "rng buf 33 \<subseteq> prog_page" "lits_at (kernel_os X) prog_page [''.''] k"
    and "us_free (ufiles X (files (upcb k))) = Some i" "udir X (lit ''.'') = Some (Entries names)"
    and "\<forall>name \<in> set names. name \<noteq> [] \<and> length name \<le> 31"
  shows "\<exists>k'. ls_main (kernel_os X) buf k = Some (0, k') \<and> uinv X k' \<and>
    prog_screen X k' = fold a_putc (concat (map (\<lambda>name. name @ [10]) names)) (prog_screen X k)"
  using kos.ls_lists [OF assms(1-3), of i names] assms(4-6) prints_on_screen [OF assms(1)]
  by (fastforce simp: uview_files kos.ls_text_def)

theorem ls_on_kernel_witness:
  "\<exists>k'. ls_main (kernel_os run_ctx) 0x8200000 (run_kernel []) = Some (0, k') \<and>
     prog_screen run_ctx k' = fold a_putc (lit ''.\<newline>hi\<newline>'') (prog_screen run_ctx (run_kernel []))"
proof -
  have b: "rng 0x8200000 33 \<subseteq> prog_page" "rng 0x8100000 2560 \<subseteq> prog_page"
    using rng_sub [of "0x200000" 33 4194304 "0x8000000"] rng_sub [of "0x100000" 2560 4194304 "0x8000000"] by simp_all
  have "lits_at (kernel_os run_ctx) prog_page [''.''] (run_kernel [])"
    by (rule run_lits_at [OF _ b(2)]) (simp add: run_lits_def)
  moreover have "uinv run_ctx (run_kernel [])" by (simp add: run_uinv)
  ultimately show ?thesis using ls_on_kernel [OF _ b(1) _ run_free [unfolded uview_files] run_dir(2)] by auto
qed

text \<open>
  C38. The error tests of \<open>syserr\<close> all pass on the kernel: calls with negative, too big, unopened and
  reserved descriptors, a seventh \<open>open\<close>, names that do not exist, pointers outside the program for
  \<open>vidmap\<close> and wrong call numbers are refused with -1, and nothing a program can observe changes but
  the report of the tests on the terminal.
\<close>

theorem syserr_on_kernel:
  assumes "uinv X k" "lits_at (kernel_os X) prog_page (''.'' # ''helloo'' # ''shel'' # [] # syserr_lits) k"
    and "\<forall>i \<in> {2..<8}. ufiles X (files (upcb k)) i = None"
    and "udir X (lit ''.'') = Some f" "udir X (lit ''helloo'') = None" "udir X (lit ''shel'') = None" "udir X [] = None"
  shows "\<exists>k'. syserr_all (kernel_os X) buf k = Some (0, k') \<and> uinv X k' \<and>
    uview X k' = (uview X k)\<lparr>us_out := fold a_putc (concat (map lit syserr_lits)) (prog_screen X k)\<rparr>"
  using kos.syserr_passes [OF assms(1,2), of f buf] assms(3-7) by (simp add: uview_files emits_def uview_out [OF assms(1)])

theorem syserr_on_kernel_witness:
  "\<exists>k'. syserr_all (kernel_os run_ctx) 0x8200000 (run_kernel []) = Some (0, k') \<and> uinv run_ctx k' \<and>
     us_files (uview run_ctx k') = us_files (uview run_ctx (run_kernel []))"
proof -
  have "rng 0x8100000 2560 \<subseteq> prog_page" using rng_sub [of "0x100000" 2560 4194304 "0x8000000"] by simp
  then have "lits_at (kernel_os run_ctx) prog_page (''.'' # ''helloo'' # ''shel'' # [] # syserr_lits) (run_kernel [])"
    by (rule run_lits_at [rotated]) (auto simp: run_lits_def)
  moreover have "uinv run_ctx (run_kernel [])" by (simp add: run_uinv)
  moreover have "\<forall>i \<in> {2..<8}. ufiles run_ctx (files (upcb (run_kernel []))) i = None" using run_files by (simp only: uview_files) simp
  moreover have "udir run_ctx (lit ''helloo'') = None" "udir run_ctx (lit ''shel'') = None" "udir run_ctx [] = None" by (simp_all add: run_dir(3))
  ultimately show ?thesis using syserr_on_kernel [OF _ _ _ run_dir(2), of "run_kernel []"] by fastforce
qed

text \<open>
  C40. The loop of \<open>counter\<close> on the kernel terminates for every limit and prints the decimal numerals
  from 1 to the limit, one a line.
\<close>

theorem counter_on_kernel:
  assumes "uinv X k" "rng buf 33 \<subseteq> prog_page" "lits_at (kernel_os X) (prog_page - rng buf 33) [''\<newline>''] k"
  shows "\<exists>k'. counter_loop (kernel_os X) buf limit 0 k = Some k' \<and> uinv X k' \<and>
    prog_screen X k' = fold a_putc (concat (map (\<lambda>i. itoa_text 10 i @ [10]) [1..<Suc (unat limit)])) (prog_screen X k)"
proof -
  have "concat (map (\<lambda>i. itoa_text 10 i @ [10]) [1..<Suc n]) = counter_text 0 n" for n
    unfolding counter_text_def One_nat_def map_Suc_upt [symmetric] by (simp only: map_map comp_def)
  then show ?thesis
    using kos.counter_loop_ok [OF assms, of 0 limit] prints_on_screen [OF assms(1)] by fastforce
qed

theorem counter_on_kernel_witness:
  "\<exists>k'. counter_loop (kernel_os run_ctx) 0x8200000 2 0 (run_kernel []) = Some k' \<and>
     prog_screen run_ctx k' = fold a_putc (lit ''1\<newline>2\<newline>'') (prog_screen run_ctx (run_kernel []))"
proof -
  have b: "rng 0x8200000 33 \<subseteq> prog_page" using rng_sub [of "0x200000" 33 4194304 "0x8000000"] by simp
  have "rng 0x8100000 2560 \<subseteq> prog_page - rng 0x8200000 33"
    using rng_sub [of "0x100000" 2560 4194304 "0x8000000"] rng_disjoint(1) [of "0x8100000" 2560 "0x8200000" 33] by auto
  then have "lits_at (kernel_os run_ctx) (prog_page - rng 0x8200000 33) [''\<newline>''] (run_kernel [])"
    by (rule run_lits_at [rotated]) (simp add: run_lits_def)
  moreover have "uinv run_ctx (run_kernel [])" by (simp add: run_uinv)
  moreover have "concat (map (\<lambda>i. itoa_text 10 i @ [10]) [1..<Suc (unat (2 :: u32))]) = lit ''1\<newline>2\<newline>''"
    by code_simp
  ultimately show ?thesis using counter_on_kernel [OF _ b, of run_ctx "run_kernel []" 2] by auto
qed

end
