(* ===== verification/Boot.thy ===== *)
theory Boot
  imports System Message "HOL-Library.Monad_Syntax"
begin

text \<open>
  Start-up: \<open>entry\<close> of \<^verbatim>\<open>student-distrib/kernel.c\<close>, with the segment descriptors of
  \<^verbatim>\<open>x86_desc.h\<close> and the structures of \<^verbatim>\<open>multiboot.h\<close>. It prints what the boot loader reports,
  builds the descriptors of the local descriptor table and the task state segment, initialises
  the interrupt controller, the file system, paging, the interrupt descriptor table and the
  devices, and starts the first terminal, whose shell is the first program.
\<close>

section \<open>Segment descriptors\<close>

record seg_desc_t =
  seg_lim_15_00 :: u16
  base_15_00 :: u16
  base_23_16 :: u8
  seg_type :: "4 word"
  seg_sys :: bool
  seg_dpl :: "2 word"
  seg_present :: bool
  seg_lim_19_16 :: "4 word"
  avail :: bool
  seg_reserved :: bool
  opsize :: bool
  granularity :: bool
  base_31_24 :: u8

definition SET_LDT_PARAMS :: "u32 \<Rightarrow> u32 \<Rightarrow> seg_desc_t \<Rightarrow> seg_desc_t" where
  "SET_LDT_PARAMS addr lim str =
     str\<lparr>base_31_24 := ucast (drop_bit 24 (addr AND 0xFF000000)), base_23_16 := ucast (drop_bit 16 (addr AND 0x00FF0000)),
         base_15_00 := ucast (addr AND 0x0000FFFF), seg_lim_19_16 := ucast (drop_bit 16 (lim AND 0x000F0000)),
         seg_lim_15_00 := ucast (lim AND 0x0000FFFF)\<rparr>"

definition SET_TSS_PARAMS :: "u32 \<Rightarrow> u32 \<Rightarrow> seg_desc_t \<Rightarrow> seg_desc_t" where
  "SET_TSS_PARAMS addr lim str =
     str\<lparr>base_31_24 := ucast (drop_bit 24 (addr AND 0xFF000000)), base_23_16 := ucast (drop_bit 16 (addr AND 0x00FF0000)),
         base_15_00 := ucast (addr AND 0x0000FFFF), seg_lim_19_16 := ucast (drop_bit 16 (lim AND 0x000F0000)),
         seg_lim_15_00 := ucast (lim AND 0x0000FFFF)\<rparr>"

abbreviation (input) KERNEL_DS :: u16 where "KERNEL_DS \<equiv> 0x18"
abbreviation (input) KERNEL_TSS :: u16 where "KERNEL_TSS \<equiv> 0x30"
abbreviation (input) KERNEL_LDT :: u16 where "KERNEL_LDT \<equiv> 0x38"
abbreviation (input) TSS_SIZE :: u32 where "TSS_SIZE \<equiv> 104"

text \<open>\<open>tss_size\<close> and \<open>ldt_size\<close> of \<^verbatim>\<open>x86_desc.S\<close>: the limits of 104 bytes and of four descriptors.\<close>

definition tss_size :: u32 where "tss_size = 103"

definition ldt_size :: u32 where "ldt_size = 31"

section \<open>The information of the boot loader\<close>

abbreviation (input) MULTIBOOT_BOOTLOADER_MAGIC :: u32 where "MULTIBOOT_BOOTLOADER_MAGIC \<equiv> 0x2BADB002"

text \<open>
  Members of \<open>multiboot_info_t\<close>, \<open>module_t\<close> and \<open>memory_map_t\<close> by their offsets. Until
  \<open>virtualmem_init\<close> has run, addresses are physical.
\<close>

definition mbi_flags :: "memory \<Rightarrow> addr \<Rightarrow> u32" where "mbi_flags m a = ld32 (\<lambda>a. a) m a"
definition mbi_mem_lower :: "memory \<Rightarrow> addr \<Rightarrow> u32" where "mbi_mem_lower m a = ld32 (\<lambda>a. a) m (a + 4)"
definition mbi_mem_upper :: "memory \<Rightarrow> addr \<Rightarrow> u32" where "mbi_mem_upper m a = ld32 (\<lambda>a. a) m (a + 8)"
definition mbi_boot_device :: "memory \<Rightarrow> addr \<Rightarrow> u32" where "mbi_boot_device m a = ld32 (\<lambda>a. a) m (a + 12)"
definition mbi_cmdline :: "memory \<Rightarrow> addr \<Rightarrow> u32" where "mbi_cmdline m a = ld32 (\<lambda>a. a) m (a + 16)"
definition mbi_mods_count :: "memory \<Rightarrow> addr \<Rightarrow> u32" where "mbi_mods_count m a = ld32 (\<lambda>a. a) m (a + 20)"
definition mbi_mods_addr :: "memory \<Rightarrow> addr \<Rightarrow> u32" where "mbi_mods_addr m a = ld32 (\<lambda>a. a) m (a + 24)"
definition mbi_elf_sec :: "addr \<Rightarrow> addr" where "mbi_elf_sec a = a + 28"
definition mbi_mmap_length :: "memory \<Rightarrow> addr \<Rightarrow> u32" where "mbi_mmap_length m a = ld32 (\<lambda>a. a) m (a + 44)"
definition mbi_mmap_addr :: "memory \<Rightarrow> addr \<Rightarrow> u32" where "mbi_mmap_addr m a = ld32 (\<lambda>a. a) m (a + 48)"

text \<open>Word \<open>i\<close> of an \<open>elf_section_header_table_t\<close>, a \<open>module_t\<close> or a \<open>memory_map_t\<close> at \<open>a\<close>.\<close>

definition member :: "memory \<Rightarrow> addr \<Rightarrow> nat \<Rightarrow> u32" where
  "member m a i = ld32 (\<lambda>a. a) m (a + 4 * of_nat i)"

definition CHECK_FLAG :: "u32 \<Rightarrow> nat \<Rightarrow> bool" where
  "CHECK_FLAG fs b \<longleftrightarrow> fs AND push_bit b 1 \<noteq> 0"

section \<open>Printing it\<close>

text \<open>
  What the linker and the compiler fix: where a string literal is, the stack of the calls of
  \<open>printf\<close>, the entry points and handlers, the addresses of \<open>tss\<close>, \<open>ldt\<close> and of the array \<open>shell\<close>
  of \<open>start_terminal\<close>.
\<close>

record entry_env =
  ev_lit :: "string \<Rightarrow> addr"
  ev_stack :: pframe
  ev_points :: entry_points
  ev_keyboard :: u32
  ev_rtc :: u32
  ev_pit :: u32
  ev_tss :: addr
  ev_ldt :: addr
  ev_shell :: addr

definition say :: "entry_env \<Rightarrow> translation \<Rightarrow> string \<Rightarrow> u32 list \<Rightarrow> screen_t \<times> memory \<Rightarrow> (screen_t \<times> memory) option" where
  "say ev tr s ws = call_printf tr (ev_stack ev) (ev_lit ev s) ws"

fun show_bytes :: "entry_env \<Rightarrow> addr \<Rightarrow> nat list \<Rightarrow> screen_t \<times> memory \<Rightarrow> (screen_t \<times> memory) option" where
  "show_bytes ev md [] st = Some st"
| "show_bytes ev md (i # is) st = do {
     let mod_start = member (snd st) md 0;
     st \<leftarrow> say ev (\<lambda>a. a) ''0x%x '' [scast (ld8 (\<lambda>a. a) (snd st) (mod_start + of_nat i))] st;
     show_bytes ev md is st }"

text \<open>
  \<open>mod_count\<close> is compared with the unsigned \<open>mods_count\<close>, which is read again for every module, and
  an entry of the memory map gives the distance to the next: both loops end only for proper tables.
\<close>

partial_function (option) show_modules ::
  "entry_env \<Rightarrow> addr \<Rightarrow> u32 \<Rightarrow> addr \<Rightarrow> screen_t \<times> memory \<Rightarrow> (screen_t \<times> memory) option" where
  "show_modules ev mbi mod_count md st =
     (if mod_count < mbi_mods_count (snd st) mbi then do {
        st \<leftarrow> say ev (\<lambda>a. a) ''Module %d loaded at address: 0x%#x\<newline>'' [mod_count, member (snd st) md 0] st;
        st \<leftarrow> say ev (\<lambda>a. a) ''Module %d ends at address: 0x%#x\<newline>'' [mod_count, member (snd st) md 1] st;
        st \<leftarrow> say ev (\<lambda>a. a) ''First few bytes of module:\<newline>'' [] st;
        st \<leftarrow> show_bytes ev md [0..<16] st;
        st \<leftarrow> say ev (\<lambda>a. a) ''\<newline>'' [] st;
        show_modules ev mbi (mod_count + 1) (md + 16) st }
      else Some st)"

partial_function (option) show_mmap ::
  "entry_env \<Rightarrow> addr \<Rightarrow> addr \<Rightarrow> screen_t \<times> memory \<Rightarrow> (screen_t \<times> memory) option" where
  "show_mmap ev mbi mmap st =
     (if mmap < mbi_mmap_addr (snd st) mbi + mbi_mmap_length (snd st) mbi then do {
        st \<leftarrow> say ev (\<lambda>a. a)
          '' size = 0x%x,     base_addr = 0x%#x%#x\<newline>     type = 0x%x,  length    = 0x%#x%#x\<newline>''
          [member (snd st) mmap 0, member (snd st) mmap 2, member (snd st) mmap 1,
           member (snd st) mmap 5, member (snd st) mmap 4, member (snd st) mmap 3] st;
        show_mmap ev mbi (mmap + member (snd st) mmap 0 + 4) st }
      else Some st)"

text \<open>The messages; \<open>False\<close> is the return for a report with both bits 4 and 5.\<close>

definition show_info :: "entry_env \<Rightarrow> addr \<Rightarrow> screen_t \<times> memory \<Rightarrow> (bool \<times> screen_t \<times> memory) option" where
  "show_info ev mbi st = do {
     let set = (\<lambda>st b. CHECK_FLAG (mbi_flags (snd st) mbi) b);
     st \<leftarrow> say ev (\<lambda>a. a) ''flags = 0x%#x\<newline>'' [mbi_flags (snd st) mbi] st;
     st \<leftarrow> (if set st 0 then say ev (\<lambda>a. a) ''mem_lower = %uKB, mem_upper = %uKB\<newline>''
                               [mbi_mem_lower (snd st) mbi, mbi_mem_upper (snd st) mbi] st else Some st);
     st \<leftarrow> (if set st 1 then say ev (\<lambda>a. a) ''boot_device = 0x%#x\<newline>'' [mbi_boot_device (snd st) mbi] st else Some st);
     st \<leftarrow> (if set st 2 then say ev (\<lambda>a. a) ''cmdline = %s\<newline>'' [mbi_cmdline (snd st) mbi] st else Some st);
     st \<leftarrow> (if set st 3 then show_modules ev mbi 0 (mbi_mods_addr (snd st) mbi) st else Some st);
     if set st 4 \<and> set st 5 then do {
       st \<leftarrow> say ev (\<lambda>a. a) ''Both bits 4 and 5 are set.\<newline>'' [] st;
       Some (False, st) }
     else do {
       st \<leftarrow> (if set st 5 then
                let e = mbi_elf_sec mbi
                in say ev (\<lambda>a. a) ''elf_sec: num = %u, size = 0x%#x, addr = 0x%#x, shndx = 0x%#x\<newline>''
                     [member (snd st) e 0, member (snd st) e 1, member (snd st) e 2, member (snd st) e 3] st
              else Some st);
       st \<leftarrow> (if set st 6 then do {
                st \<leftarrow> say ev (\<lambda>a. a) ''mmap_addr = 0x%#x, mmap_length = 0x%x\<newline>''
                       [mbi_mmap_addr (snd st) mbi, mbi_mmap_length (snd st) mbi] st;
                show_mmap ev mbi (mbi_mmap_addr (snd st) mbi) st }
              else Some st);
       Some (True, st) } }"

section \<open>Initialisation\<close>

text \<open>
  The state beside the kernel's: the static screen coordinates, the descriptor tables and their
  registers, the table of handlers and the interrupt flag.
\<close>

record 'h boot =
  b_con :: screen_t
  b_k :: "'h kernel"
  b_idt :: idt
  b_irqs :: "u32 list"
  b_ldt_desc :: seg_desc_t
  b_tss_desc :: seg_desc_t
  b_tss_ldt :: u16
  b_ldtr :: u16
  b_tr :: u16
  b_idtr :: bool
  b_if :: bool

text \<open>The fields that a block does not set keep what is on the stack, \<open>d\<close>.\<close>

definition make_ldt_desc :: "entry_env \<Rightarrow> seg_desc_t \<Rightarrow> seg_desc_t" where
  "make_ldt_desc ev d =
     SET_LDT_PARAMS (ev_ldt ev) ldt_size
       (d\<lparr>granularity := False, opsize := True, seg_reserved := False, avail := False, seg_present := True,
          seg_dpl := 0, seg_sys := False, seg_type := 2\<rparr>)"

definition make_tss_desc :: "entry_env \<Rightarrow> seg_desc_t \<Rightarrow> seg_desc_t" where
  "make_tss_desc ev d =
     SET_TSS_PARAMS (ev_tss ev) tss_size
       (d\<lparr>granularity := False, opsize := False, seg_reserved := False, avail := False,
          seg_lim_19_16 := ucast (TSS_SIZE AND 0x000F0000), seg_present := True, seg_dpl := 0, seg_sys := False,
          seg_type := 9, seg_lim_15_00 := ucast (TSS_SIZE AND 0x0000FFFF)\<rparr>)"

definition init_descriptors :: "entry_env \<Rightarrow> seg_desc_t \<Rightarrow> 'h boot \<Rightarrow> 'h boot" where
  "init_descriptors ev d b =
     b\<lparr>b_ldt_desc := make_ldt_desc ev d, b_ldtr := KERNEL_LDT, b_tss_desc := make_tss_desc ev d, b_tss_ldt := KERNEL_LDT,
       b_k := (b_k b)\<lparr>tss_ss0 := KERNEL_DS, tss_esp0 := 0x800000\<rparr>, b_tr := KERNEL_TSS\<rparr>"

definition init_devices :: "'h machine \<Rightarrow> entry_env \<Rightarrow> addr \<Rightarrow> 'h boot \<Rightarrow> 'h boot" where
  "init_devices mc ev mbi b =
     (let k = b_k b;
          (_, _, h) = i8259_init (m_outb mc) (hw k);
          k = k\<lparr>hw := h\<rparr>;
          (bb, pt) = fs_init (member (mem k) (mbi_mods_addr (mem k) mbi) 0) (ptab k);
          k = k\<lparr>bootblock := bb, ptab := pt\<rparr>;
          k = k\<lparr>pg := virtualmem_init (m_lay mc) (pg k)\<rparr>;
          (t, irqs) = isrs_install (ev_points ev) (b_idt b, b_irqs b);
          (irqs, pt, kb, h) =
            kybd_init (m_inb mc) (m_outb mc) (ev_keyboard ev) (get_video_mem (b_con b)) (irqs, ptab k, kbd k, hw k);
          k = k\<lparr>ptab := pt, kbd := kb, hw := h\<rparr>;
          (irqs, pt, rs) = rtc_init (ev_rtc ev) (irqs, ptab k, rtc k);
          k = k\<lparr>ptab := pt, rtc := rs\<rparr>;
          (irqs, k) = pit_init mc (ev_pit ev) (irqs, k)
      in b\<lparr>b_k := k, b_idt := t, b_irqs := irqs, b_idtr := True\<rparr>)"

section \<open>Entry\<close>

text \<open>
  \<open>entry\<close> returns after a wrong magic number or an inconsistent report; it goes on to the first
  program, or to the \<open>hlt\<close> loop at its end.
\<close>

datatype entry_out = Entry_return | Entry_hlt | Entry_flow flow

definition b_screen :: "screen_t \<times> memory \<Rightarrow> 'h boot \<Rightarrow> 'h boot" where
  "b_screen st b = b\<lparr>b_con := fst st, b_k := (b_k b)\<lparr>mem := snd st\<rparr>\<rparr>"

definition start_first :: "'h machine \<Rightarrow> frame \<Rightarrow> entry_env \<Rightarrow> 'h boot \<Rightarrow> (entry_out \<times> 'h boot) option" where
  "start_first mc fr ev b =
     (let k = b_k b;
          (r, kb, nx, h) = start_terminal (m_outb mc) (ev_shell ev) (ptab k) 0 (kbd k, next_execute k, hw k);
          k = k\<lparr>kbd := kb, next_execute := nx, hw := h\<rparr>
      in case r of
           St_return _ \<Rightarrow> Some (Entry_hlt, b\<lparr>b_k := k\<rparr>)
         | St_execute_loop \<Rightarrow> do { (fl, k) \<leftarrow> shell_loop mc fr (ev_shell ev) k; Some (Entry_flow fl, b\<lparr>b_k := k\<rparr>) })"

definition entry ::
  "'h machine \<Rightarrow> frame \<Rightarrow> entry_env \<Rightarrow> seg_desc_t \<Rightarrow> u32 \<Rightarrow> addr \<Rightarrow> 'h boot \<Rightarrow> (entry_out \<times> 'h boot) option" where
  "entry mc fr ev d magic addr b =
     (let st = clear (\<lambda>a. a) (b_con b, mem (b_k b))
      in if magic \<noteq> MULTIBOOT_BOOTLOADER_MAGIC then do {
           st \<leftarrow> say ev (\<lambda>a. a) ''Invalid magic number: 0x%#x\<newline>'' [magic] st;
           Some (Entry_return, b_screen st b) }
         else do {
           (go, st) \<leftarrow> show_info ev addr st;
           if \<not> go then Some (Entry_return, b_screen st b)
           else do {
             let b = init_devices mc ev addr (init_descriptors ev d (b_screen st b));
             st \<leftarrow> say ev (cur_tr mc (b_k b)) ''Enabling Interrupts\<newline>'' [] (b_con b, mem (b_k b));
             let b = (b_screen st b)\<lparr>b_if := True\<rparr>;
             let b = b_screen (clear (cur_tr mc (b_k b)) (b_con b, mem (b_k b))) b;
             start_first mc fr ev b } })"

section \<open>What the descriptors say\<close>

definition seg_base :: "seg_desc_t \<Rightarrow> u32" where
  "seg_base d = push_bit 24 (ucast (base_31_24 d)) OR push_bit 16 (ucast (base_23_16 d)) OR ucast (base_15_00 d)"

definition seg_limit :: "seg_desc_t \<Rightarrow> u32" where
  "seg_limit d = push_bit 16 (ucast (seg_lim_19_16 d)) OR ucast (seg_lim_15_00 d)"

lemma byte_masks:
  "(0xFF000000 :: u32) = push_bit 24 (mask 8)" "(0xFF0000 :: u32) = push_bit 16 (mask 8)" "(0xFFFF :: u32) = mask 16"
  "(0xF0000 :: u32) = push_bit 16 (mask 4)"
  by (simp_all add: mask_eq_exp_minus_1 push_bit_eq_mult)

lemma seg_base_set: "seg_base (SET_LDT_PARAMS a lim d) = a"
proof (rule bit_word_eqI)
  fix n assume n: "n < LENGTH(32)"
  consider "n < 16" | "16 \<le> n" "n < 24" | "24 \<le> n" by linarith
  then show "bit (seg_base (SET_LDT_PARAMS a lim d)) n = bit a n"
    using n unfolding seg_base_def SET_LDT_PARAMS_def byte_masks by cases (auto simp: bit_simps)
qed

lemma seg_limit_set: "lim < 0x100000 \<Longrightarrow> seg_limit (SET_LDT_PARAMS a lim d) = lim"
proof -
  assume "lim < 0x100000"
  then have "uint lim < 2 ^ 20" by (simp add: word_less_def)
  then have t: "take_bit 20 (uint lim) = uint lim" by (simp add: take_bit_int_eq_self_iff)
  have b: "\<not> bit lim n" if "20 \<le> n" for n
  proof
    assume "bit lim n"
    then have "bit (take_bit 20 (uint lim)) n" using bit_imp_le_length [of lim n] t
      by (simp add: bit_uint_iff)
    then show False using that by (simp add: bit_take_bit_iff)
  qed
  show ?thesis
  proof (rule bit_word_eqI)
    fix n assume n: "n < LENGTH(32)"
    consider "n < 16" | "16 \<le> n" "n < 20" | "20 \<le> n" by linarith
    then show "bit (seg_limit (SET_LDT_PARAMS a lim d)) n = bit lim n"
      using n b unfolding seg_limit_def SET_LDT_PARAMS_def byte_masks by cases (auto simp: bit_simps)
  qed
qed

lemma SET_TSS_eq: "SET_TSS_PARAMS = SET_LDT_PARAMS"
  by (intro ext) (simp add: SET_TSS_PARAMS_def SET_LDT_PARAMS_def)

section \<open>The initialised system\<close>

text \<open>The static variables as the image of the kernel has them.\<close>

definition static_ok :: "'h boot \<Rightarrow> bool" where
  "static_ok b \<longleftrightarrow> ptab (b_k b) = ptable_init \<and> current_terminal (kbd (b_k b)) = -1 \<and> length (terminals (kbd (b_k b))) = 3 \<and>
     paging_shape (pg (b_k b)) \<and> length (b_idt b) = 256 \<and> length (b_irqs b) = 16"

text \<open>Devices, handlers and tables after the initialisation.\<close>

definition devices_ok :: "ptable \<Rightarrow> bool" where
  "devices_ok pt \<longleftrightarrow> pt = ptable_init\<lparr>devices := [Some rtc_fops, Some dir_fops, Some fs_fops, Some term_fops, None, None]\<rparr>"

text \<open>
  The flag that tells a trap gate from an interrupt gate is left open for the exceptions: the code and
  the comments of \<^verbatim>\<open>idt_set.c\<close> differ on it (\<open>isrs_install_gate\<close> has what the code sets).
\<close>

definition gates_ok :: "entry_points \<Rightarrow> idt \<Rightarrow> bool" where
  "gates_ok ep t \<longleftrightarrow>
     (\<forall>n < 32. \<exists>trap. gate (t ! n) = Some (isr_entry ep n, if n \<in> {3, 4, 5} then 3 else 0, trap)) \<and>
     (\<forall>n < 16. gate (t ! (32 + n)) = Some (irq_entry ep n, 0, False)) \<and> gate (t ! 0x80) = Some (handle_syscall_entry ep, 3, True)"

definition handlers_ok :: "entry_env \<Rightarrow> u32 list \<Rightarrow> bool" where
  "handlers_ok ev q \<longleftrightarrow>
     q = (replicate 16 (irq_handler_default_entry (ev_points ev)))[0 := ev_pit ev, 1 := ev_keyboard ev, 8 := ev_rtc ev]"

definition fresh_term :: "addr \<Rightarrow> terminal_t \<Rightarrow> bool" where
  "fresh_term vm tm \<longleftrightarrow> screen tm = \<lparr>scr_x = 0, scr_y = 0, scr_mem = vm\<rparr> \<and> line_buf tm = replicate 128 0 \<and>
     buf_count tm = 0 \<and> \<not> reading tm"

lemma kybd_init_parts:
  assumes "length (terminals kb) = 3"
  shows "\<exists>kb' h'. kybd_init inb outb hnd vm (q, pt, kb, h) = (add_irq 1 hnd q, snd (add_device 3 term_fops pt), kb', h') \<and>
    length (terminals kb') = 3 \<and> current_terminal kb' = current_terminal kb \<and> (\<forall>t < 3. fresh_term vm (terminals kb' ! t))"
proof -
  obtain t0 t1 t2 where "terminals kb = [t0, t1, t2]" using assms by (auto simp: length_Suc_conv numeral_3_eq_3)
  then show ?thesis
    by (simp add: kybd_init_def Let_def upd_term_def upt_rec fresh_term_def lt3 all_conj_distrib)
qed

lemma init_devices_parts:
  assumes "static_ok b"
  shows "\<exists>k. init_devices mc ev mbi b = b\<lparr>b_k := k, b_idt := fst (isrs_install (ev_points ev) (b_idt b, b_irqs b)),
      b_irqs := (replicate 16 (irq_handler_default_entry (ev_points ev)))[1 := ev_keyboard ev, 8 := ev_rtc ev, 0 := ev_pit ev],
      b_idtr := True\<rparr> \<and>
    devices_ok (ptab k) \<and> current_terminal (kbd k) = -1 \<and> length (terminals (kbd k)) = 3 \<and>
    (\<forall>t < 3. fresh_term (scr_mem (b_con b)) (terminals (kbd k) ! t)) \<and>
    pg k = virtualmem_init (m_lay mc) (pg (b_k b)) \<and> mem k = mem (b_k b) \<and>
    bootblock k = member (mem (b_k b)) (mbi_mods_addr (mem (b_k b)) mbi) 0 \<and> tss_esp0 k = tss_esp0 (b_k b) \<and> tss_ss0 k = tss_ss0 (b_k b)"
proof -
  have s: "ptab (b_k b) = ptable_init" "length (terminals (kbd (b_k b))) = 3" "length (b_irqs b) = 16"
    "current_terminal (kbd (b_k b)) = -1" using assms by (simp_all add: static_ok_def)
  obtain h where h: "i8259_init (m_outb mc) (hw (b_k b)) = (255, 255, h)" by (simp add: i8259_init_def)
  obtain t where q: "isrs_install (ev_points ev) (b_idt b, b_irqs b) = (t, replicate 16 (irq_handler_default_entry (ev_points ev)))"
    using s(3) by (simp add: isrs_install_def Let_def fold_update_const del: upt_rec_numeral)
  obtain pt1 where f: "fs_init (member (mem (b_k b)) (mbi_mods_addr (mem (b_k b)) mbi) 0) ptable_init =
      (member (mem (b_k b)) (mbi_mods_addr (mem (b_k b)) mbi) 0, pt1)"
    "pt1 = ptable_init\<lparr>devices := [None, Some dir_fops, Some fs_fops, None, None, None]\<rparr>"
    by (simp add: fs_init_def add_device_def ptable_init_def word_le_nat_alt)
  obtain kb' h' where kb: "kybd_init (m_inb mc) (m_outb mc) (ev_keyboard ev) (get_video_mem (b_con b))
      (replicate 16 (irq_handler_default_entry (ev_points ev)), pt1, kbd (b_k b), h) =
      (add_irq 1 (ev_keyboard ev) (replicate 16 (irq_handler_default_entry (ev_points ev))), snd (add_device 3 term_fops pt1), kb', h')"
    "length (terminals kb') = 3" "current_terminal kb' = -1" "\<forall>t < 3. fresh_term (scr_mem (b_con b)) (terminals kb' ! t)"
    using kybd_init_parts [OF s(2), where vm = "get_video_mem (b_con b)"] s(4) by (metis get_video_mem_def)
  show ?thesis
    by (simp add: init_devices_def Let_def s(1) h f(1) q kb(1) rtc_init_def pit_init_def split_def)
      (simp add: f(2) add_device_def add_irq_def ptable_init_def devices_ok_def word_le_nat_alt,
       rule exI, rule conjI, rule refl, simp add: kb)
qed

section \<open>Properties\<close>

text \<open>
  C5. Initialisation. From the static variables of the image, the four kinds of files have their
  operations registered, every exception, interrupt and the system call vector have their gates
  and the timer, keyboard and clock their handlers; the terminals are empty, the page tables have
  the documented contents with paging switched on, the file system is the first boot module, and
  the descriptors of the task state segment and the local descriptor table hold the addresses and
  limits of these structures.
\<close>

theorem entry_initialises:
  assumes "static_ok b" "layout_ok (m_lay mc)"
    and "b' = init_devices mc ev mbi (init_descriptors ev d b)"
  shows "devices_ok (ptab (b_k b')) \<and> gates_ok (ev_points ev) (b_idt b') \<and> handlers_ok ev (b_irqs b') \<and>
    (\<forall>t < 3. fresh_term (scr_mem (b_con b)) (terminals (kbd (b_k b')) ! t)) \<and>
    tables_ok (pg (b_k b')) \<and> cr3 (pg (b_k b')) = pd_first_ptr \<and> bit (cr0 (pg (b_k b'))) 31 \<and> bit (cr4 (pg (b_k b'))) 4 \<and>
    bootblock (b_k b') = member (mem (b_k b)) (mbi_mods_addr (mem (b_k b)) mbi) 0 \<and>
    seg_base (b_tss_desc b') = ev_tss ev \<and> seg_limit (b_tss_desc b') = 103 \<and> tss_esp0 (b_k b') = KERNEL_MEM_END \<and>
    seg_base (b_ldt_desc b') = ev_ldt ev \<and> seg_limit (b_ldt_desc b') = 31"
proof -
  let ?b = "init_descriptors ev d b"
  have ok: "static_ok ?b" "b_con ?b = b_con b" "mem (b_k ?b) = mem (b_k b)" "pg (b_k ?b) = pg (b_k b)" "b_idt ?b = b_idt b"
    "b_irqs ?b = b_irqs b" using assms(1) by (simp_all add: init_descriptors_def static_ok_def)
  obtain k where k: "b' = ?b\<lparr>b_k := k, b_idt := fst (isrs_install (ev_points ev) (b_idt b, b_irqs b)),
      b_irqs := (replicate 16 (irq_handler_default_entry (ev_points ev)))[1 := ev_keyboard ev, 8 := ev_rtc ev, 0 := ev_pit ev],
      b_idtr := True\<rparr>" "devices_ok (ptab k)" "\<forall>t < 3. fresh_term (scr_mem (b_con b)) (terminals (kbd k) ! t)"
    "pg k = virtualmem_init (m_lay mc) (pg (b_k b))" "bootblock k = member (mem (b_k b)) (mbi_mods_addr (mem (b_k b)) mbi) 0"
    "tss_esp0 k = tss_esp0 (b_k ?b)"
    using init_devices_parts [OF ok(1), of mc ev mbi] assms(3) ok by auto
  have g: "gates_ok (ev_points ev) (b_idt b')"
    using isrs_install_gate [of "b_idt b" _ "ev_points ev" "b_irqs b"] assms(1) k(1) by (auto simp: gates_ok_def static_ok_def)
  have h: "handlers_ok ev (b_irqs b')" using k(1) by (simp add: handlers_ok_def list_update_swap)
  have v: "tables_ok (pg k)" "cr3 (pg k) = pd_first_ptr" "bit (cr0 (pg k)) 31" "bit (cr4 (pg k)) 4"
    using virtualmem_init_correct [OF assms(2) _ k(4)] assms(1) by (simp_all add: static_ok_def)
  have s: "seg_base (b_tss_desc b') = ev_tss ev" "seg_limit (b_tss_desc b') = 103"
    "seg_base (b_ldt_desc b') = ev_ldt ev" "seg_limit (b_ldt_desc b') = 31" "tss_esp0 (b_k b') = KERNEL_MEM_END"
    using k(1,6) seg_limit_set [of 103] seg_limit_set [of 31]
    by (simp_all add: init_descriptors_def make_tss_desc_def make_ldt_desc_def SET_TSS_eq seg_base_set tss_size_def ldt_size_def)
  show ?thesis using g h v s k by simp
qed

text \<open>The boot loader of the example loads its report at \<open>0x9000\<close>.\<close>

definition sample_env :: entry_env where
  "sample_env = \<lparr>ev_lit = (\<lambda>s. if s = ''flags = 0x%#x\<newline>'' then 0x2000 else 0x2040),
     ev_stack = \<lparr>pf_args = 0x10000, pf_bufs = \<lparr>cb_x = 0x11000, cb_u = 0x12000, cb_d = 0x13000\<rparr>\<rparr>,
     ev_points = \<lparr>isr_entry = of_nat, irq_entry = (\<lambda>n. 0x1000 + of_nat n), handle_syscall_entry = 0x12345678,
       irq_handler_default_entry = 7\<rparr>,
     ev_keyboard = 0x401000, ev_rtc = 0x402000, ev_pit = 0x403000, ev_tss = 0x12345678, ev_ldt = 0x404000, ev_shell = 0x600000\<rparr>"

definition blank_seg :: seg_desc_t where
  "blank_seg = \<lparr>seg_lim_15_00 = 0, base_15_00 = 0, base_23_16 = 0, seg_type = 0, seg_sys = False, seg_dpl = 0, seg_present = False,
     seg_lim_19_16 = 0, avail = False, seg_reserved = False, opsize = False, granularity = False, base_31_24 = 0\<rparr>"

definition sample_boot :: "nat boot" where
  "sample_boot = \<lparr>b_con = \<lparr>scr_x = 0, scr_y = 0, scr_mem = VIDEO\<rparr>,
     b_k = elf_kernel\<lparr>ptab := ptable_init, kbd := demo_kbd\<lparr>current_terminal := -1\<rparr>,
       pg := cleared_paging\<rparr>, b_idt = replicate 256 blank_gate,
     b_irqs = replicate 16 0, b_ldt_desc = blank_seg, b_tss_desc = blank_seg, b_tss_ldt = 0, b_ldtr = 0, b_tr = 0,
     b_idtr = False, b_if = False\<rparr>"

lemma sample_boot_static: "static_ok sample_boot"
  using cleared_paging_shape by (simp add: static_ok_def sample_boot_def elf_kernel_def)

theorem entry_initialises_witness:
  "seg_base (b_tss_desc (init_devices sample_machine sample_env 0x9000 (init_descriptors sample_env blank_seg sample_boot))) =
     0x12345678"
proof -
  have "layout_ok (m_lay sample_machine)" by (simp add: sample_machine_def sample_layout_ok)
  from entry_initialises [OF sample_boot_static this refl, of sample_env "0x9000" blank_seg]
  show ?thesis by (simp add: sample_env_def)
qed

lemma start_first_terminal:
  assumes "devices_ok pt" "current_terminal kb = -1"
  shows "\<exists>h'. start_terminal outb shell pt 0 (kb, nx, h) = (St_execute_loop, kb\<lparr>current_terminal := 0\<rparr>, nx, h')"
  using assms by (simp add: devices_ok_def ptable_init_def free_procs_def start_terminal_def Let_def get_active_process_def)

lemma start_first_execute:
  assumes "devices_ok (ptab (b_k b))" "current_terminal (kbd (b_k b)) = -1" "start_first mc fr ev b = Some (out, b')"
  shows "\<exists>fl q. out = Entry_flow fl \<and> b_if b' = b_if b \<and> sys_inv (b_k b') (t_base 0 q no_procs) q"
proof -
  let ?k = "b_k b"
  have pt: "active_processes (ptab ?k) = [-1, -1, -1]" "get_device_fops TERM_FTYPE (ptab ?k) = Some term_fops"
    "ptable_wf (ptab ?k)" "\<not> proc_live (ptab ?k) p" for p
    using assms(1) sample_ptab_wf(1) sample_ptab_wf(2) [of p]
    by (simp_all add: devices_ok_def get_device_fops_def ptable_init_def sample_ptab_def)
  obtain h where st: "start_terminal (m_outb mc) (ev_shell ev) (ptab ?k) 0 (kbd ?k, next_execute ?k, hw ?k) =
      (St_execute_loop, (kbd ?k)\<lparr>current_terminal := 0\<rparr>, next_execute ?k, h)"
    using start_first_terminal [OF assms(1,2), of "m_outb mc" "ev_shell ev" "next_execute ?k" "hw ?k"] by blast
  let ?k1 = "?k\<lparr>kbd := (kbd ?k)\<lparr>current_terminal := 0\<rparr>, hw := h\<rparr>"
  have "?k\<lparr>kbd := (kbd ?k)\<lparr>current_terminal := 0\<rparr>, next_execute := next_execute ?k, hw := h\<rparr> = ?k1" by simp
  then obtain fl k' where k': "shell_loop mc fr (ev_shell ev) ?k1 = Some (fl, k')" "out = Entry_flow fl" "b' = b\<lparr>b_k := k'\<rparr>"
    using assms(3) st by (auto simp: start_first_def Let_def bind_eq_Some_conv)
  have "\<exists>q. sys_inv k' (t_base (visible ?k1) q no_procs) q"
    using pt by (intro shell_loop_boot [OF _ _ _ _ _ k'(1)]) simp_all
  then show ?thesis using k'(2,3) by auto
qed

lemma entry_start:
  assumes "entry mc fr ev d MULTIBOOT_BOOTLOADER_MAGIC addr b = Some (out, b')" "out \<noteq> Entry_return"
  shows "\<exists>st0 con m B. B = init_devices mc ev addr (init_descriptors ev d (b_screen st0 b)) \<and>
    start_first mc fr ev (B\<lparr>b_con := con, b_k := (b_k B)\<lparr>mem := m\<rparr>, b_if := True\<rparr>) = Some (out, b')"
proof -
  obtain st0 where s: "show_info ev addr (clear (\<lambda>a. a) (b_con b, mem (b_k b))) = Some (True, st0)"
    using assms unfolding entry_def Let_def by (auto simp: bind_eq_Some_conv split: if_splits)
  define B where "B = init_devices mc ev addr (init_descriptors ev d (b_screen st0 b))"
  obtain st where e: "start_first mc fr ev (b_screen (clear (cur_tr mc (b_k ((b_screen st B)\<lparr>b_if := True\<rparr>)))
      (b_con ((b_screen st B)\<lparr>b_if := True\<rparr>), mem (b_k ((b_screen st B)\<lparr>b_if := True\<rparr>)))) ((b_screen st B)\<lparr>b_if := True\<rparr>)) = Some (out, b')"
    using assms(1) s unfolding entry_def Let_def B_def [symmetric] by (auto simp: bind_eq_Some_conv B_def [symmetric])
  have "b_screen x ((b_screen st B)\<lparr>b_if := True\<rparr>) = B\<lparr>b_con := fst x, b_k := (b_k B)\<lparr>mem := snd x\<rparr>, b_if := True\<rparr>" for x
    by (simp add: b_screen_def)
  with e show ?thesis using B_def by metis
qed

text \<open>
  The boot, if it comes to an end. Whenever \<open>entry\<close> does not return early because of what the boot
  loader reports, and a shell is started in the end, interrupts are enabled and the kernel is in a
  state in order, in which the shell of terminal 0 is the only process. A wrong magic number always
  makes it return. That a shell is started is shown in theory \<open>Bootrun\<close>.
\<close>

lemma entry_boots:
  assumes "static_ok b" "entry mc fr ev d magic addr b = Some (out, b')"
  shows "(out = Entry_return \<or> (\<exists>fl q. out = Entry_flow fl \<and> b_if b' \<and> sys_inv (b_k b') (t_base 0 q no_procs) q)) \<and>
    (magic \<noteq> MULTIBOOT_BOOTLOADER_MAGIC \<longrightarrow> out = Entry_return)"
proof (cases "magic = MULTIBOOT_BOOTLOADER_MAGIC \<and> out \<noteq> Entry_return")
  case False
  with assms(2) show ?thesis unfolding entry_def Let_def by (auto simp: bind_eq_Some_conv)
next
  case True
  then obtain st0 con m B where B: "B = init_devices mc ev addr (init_descriptors ev d (b_screen st0 b))"
    "start_first mc fr ev (B\<lparr>b_con := con, b_k := (b_k B)\<lparr>mem := m\<rparr>, b_if := True\<rparr>) = Some (out, b')"
    using entry_start [of mc fr ev d addr b out b'] assms(2) by blast
  have "static_ok (init_descriptors ev d (b_screen st0 b))"
    using assms(1) by (simp add: static_ok_def init_descriptors_def b_screen_def)
  then have "devices_ok (ptab (b_k B))" "current_terminal (kbd (b_k B)) = -1"
    using init_devices_parts [of "init_descriptors ev d (b_screen st0 b)" mc ev addr] B(1) by auto
  then show ?thesis using start_first_execute [OF _ _ B(2)] True by auto
qed

end
