(* ===== verification/Bootrun.thy ===== *)
theory Bootrun
  imports Boot
begin

text \<open>
  The boot runs through: for a proper report of the boot loader every message is printed, every
  loop over the report ends, and \<open>entry\<close> enters the shell that is in the file system. What has to
  be in memory is the region \<open>rd\<close>, apart from the screen and the stack of \<open>printf\<close>.
\<close>

section \<open>Messages\<close>

text \<open>The literals of \<open>entry\<close> are where the compiler put them.\<close>

definition entry_literals :: "string list" where
  "entry_literals = [''flags = 0x%#x\<newline>'', ''mem_lower = %uKB, mem_upper = %uKB\<newline>'', ''boot_device = 0x%#x\<newline>'',
     ''cmdline = %s\<newline>'', ''Module %d loaded at address: 0x%#x\<newline>'', ''Module %d ends at address: 0x%#x\<newline>'',
     ''First few bytes of module:\<newline>'', ''0x%x '', ''\<newline>'',
     ''elf_sec: num = %u, size = 0x%#x, addr = 0x%#x, shndx = 0x%#x\<newline>'', ''mmap_addr = 0x%#x, mmap_length = 0x%x\<newline>'',
     '' size = 0x%x,     base_addr = 0x%#x%#x\<newline>     type = 0x%x,  length    = 0x%#x%#x\<newline>'', ''Enabling Interrupts\<newline>'']"

definition env_ok :: "memory \<Rightarrow> addr set \<Rightarrow> entry_env \<Rightarrow> bool" where
  "env_ok m rd ev \<longleftrightarrow> print_ok UNIV (ev_stack ev) rd \<lparr>scr_x = 0, scr_y = 0, scr_mem = VIDEO\<rparr> \<and>
     (\<forall>s \<in> set entry_literals. cstring (\<lambda>a. a) m (ev_lit ev s) (lit s) \<and> rng (ev_lit ev s) (Suc (length s)) \<subseteq> rd)"

text \<open>What holds of the screen and of memory between two messages.\<close>

definition said :: "memory \<Rightarrow> addr set \<Rightarrow> screen_t \<times> memory \<Rightarrow> bool" where
  "said m rd st \<longleftrightarrow> screen_wf (fst st) \<and> scr_mem (fst st) = VIDEO \<and> (\<forall>x \<in> rd. snd st x = m x)"

lemma print_ok_screen:
  "print_ok mapped pf rd c \<Longrightarrow> screen_wf con \<Longrightarrow> scr_mem con = scr_mem c \<Longrightarrow> print_ok mapped pf rd con"
  by (simp add: print_ok_def bufs_ok_def)

lemma say_ok:
  assumes env: "env_ok m rd ev" and st: "said m rd st" and s: "s \<in> set entry_literals"
    and t: "fmt_text None (lit s) as = Some ts" and a: "list_all2 (parg_word (\<lambda>a. a) m rd) as ws" "length ws \<le> 16"
  shows "\<exists>st'. say ev (\<lambda>a. a) s ws st = Some st' \<and> said m rd st'"
proof -
  obtain con m1 where [simp]: "st = (con, m1)" by fastforce
  have keep: "ld8 (\<lambda>a. a) m1 x = ld8 (\<lambda>a. a) m x" if "x \<in> rd" for x using st that by (simp add: said_def ld8_def)
  have ok: "print_ok UNIV (ev_stack ev) rd con"
    using env st by (auto simp: env_ok_def said_def intro: print_ok_screen)
  have l: "cstring (\<lambda>a. a) m (ev_lit ev s) (lit s)" "rng (ev_lit ev s) (Suc (length (lit s))) \<subseteq> rd"
    using env s by (auto simp: env_ok_def)
  have l1: "cstring (\<lambda>a. a) m1 (ev_lit ev s) (lit s)" using l keep by (intro cstring_cong_ld8 [OF l(1)]) blast
  have pw: "parg_word (\<lambda>a. a) m1 rd b v" if "parg_word (\<lambda>a. a) m rd b v" for b v
  proof (cases b)
    case (PStr bs)
    then have c: "cstring (\<lambda>a. a) m v bs" "rng v (Suc (length bs)) \<subseteq> rd" using that by (simp_all add: parg_word_def)
    then have "cstring (\<lambda>a. a) m1 v bs" using keep by (intro cstring_cong_ld8 [OF c(1)]) blast
    then show ?thesis using c(2) PStr by (simp add: parg_word_def)
  qed (use that in \<open>simp add: parg_word_def\<close>)
  have a1: "list_all2 (parg_word (\<lambda>a. a) m1 rd) as ws" using a(1) pw by (rule list_all2_mono)
  obtain con' m' where r: "call_printf (\<lambda>a. a) (ev_stack ev) (ev_lit ev s) ws (con, m1) = Some (con', m')" "screen_wf con'"
    "scr_mem con' = scr_mem con" "\<forall>x. x \<notin> rng (scr_mem con) 4000 \<union> stack_space (ev_stack ev) \<longrightarrow> ld8 (\<lambda>a. a) m' x = ld8 (\<lambda>a. a) m1 x"
    using flat.call_printf_eq [OF ok l1 l(2) a1 a(2) t] by auto
  moreover have "m' x = m x" if "x \<in> rd" for x
  proof -
    have "x \<notin> rng (scr_mem con) 4000 \<union> stack_space (ev_stack ev)" using ok that unfolding print_ok_def by blast
    then show ?thesis using r(4) keep [OF that] by (simp add: ld8_def)
  qed
  ultimately show ?thesis using st by (auto simp: say_def said_def)
qed

text \<open>Messages whose arguments are all numbers.\<close>

lemma say_numbers:
  assumes "env_ok m rd ev" "said m rd st" "s \<in> set entry_literals" "fmt_text None (lit s) (map PNum ws) = Some ts" "length ws \<le> 16"
  shows "\<exists>st'. say ev (\<lambda>a. a) s ws st = Some st' \<and> said m rd st'"
  using say_ok [OF assms(1-4) _ assms(5)] by (simp add: list_all2_conv_all_nth parg_word_def)

lemma say_entry:
  assumes "env_ok m rd ev" "said m rd st"
  shows "\<exists>st'. say ev (\<lambda>a. a) ''flags = 0x%#x\<newline>'' [a] st = Some st' \<and> said m rd st'"
    "\<exists>st'. say ev (\<lambda>a. a) ''mem_lower = %uKB, mem_upper = %uKB\<newline>'' [a, b] st = Some st' \<and> said m rd st'"
    "\<exists>st'. say ev (\<lambda>a. a) ''boot_device = 0x%#x\<newline>'' [a] st = Some st' \<and> said m rd st'"
    "\<exists>st'. say ev (\<lambda>a. a) ''Module %d loaded at address: 0x%#x\<newline>'' [a, b] st = Some st' \<and> said m rd st'"
    "\<exists>st'. say ev (\<lambda>a. a) ''Module %d ends at address: 0x%#x\<newline>'' [a, b] st = Some st' \<and> said m rd st'"
    "\<exists>st'. say ev (\<lambda>a. a) ''First few bytes of module:\<newline>'' [] st = Some st' \<and> said m rd st'"
    "\<exists>st'. say ev (\<lambda>a. a) ''0x%x '' [a] st = Some st' \<and> said m rd st'"
    "\<exists>st'. say ev (\<lambda>a. a) ''\<newline>'' [] st = Some st' \<and> said m rd st'"
    "\<exists>st'. say ev (\<lambda>a. a) ''elf_sec: num = %u, size = 0x%#x, addr = 0x%#x, shndx = 0x%#x\<newline>'' [a, b, c, d] st = Some st' \<and>
       said m rd st'"
    "\<exists>st'. say ev (\<lambda>a. a) ''mmap_addr = 0x%#x, mmap_length = 0x%x\<newline>'' [a, b] st = Some st' \<and> said m rd st'"
    "\<exists>st'. say ev (\<lambda>a. a) '' size = 0x%x,     base_addr = 0x%#x%#x\<newline>     type = 0x%x,  length    = 0x%#x%#x\<newline>''
       [a, b, c, d, e, f] st = Some st' \<and> said m rd st'"
  by (rule say_numbers [OF assms], simp add: entry_literals_def, simp add: fmt_conv_def, simp)+

section \<open>Reports\<close>

text \<open>A memory map whose entries lead, one after the other, to the end \<open>e\<close> of the table.\<close>

inductive mmap_ok :: "memory \<Rightarrow> addr set \<Rightarrow> addr \<Rightarrow> addr \<Rightarrow> bool" for m rd e where
  mmap_end: "\<not> a < e \<Longrightarrow> mmap_ok m rd e a"
| mmap_entry: "a < e \<Longrightarrow> rng a 4 \<subseteq> rd \<Longrightarrow> mmap_ok m rd e (a + member m a 0 + 4) \<Longrightarrow> mmap_ok m rd e a"

definition report_ok :: "memory \<Rightarrow> addr set \<Rightarrow> addr \<Rightarrow> bool" where
  "report_ok m rd mbi \<longleftrightarrow> rng mbi 52 \<subseteq> rd \<and> \<not> (CHECK_FLAG (mbi_flags m mbi) 4 \<and> CHECK_FLAG (mbi_flags m mbi) 5) \<and>
     (CHECK_FLAG (mbi_flags m mbi) 2 \<longrightarrow> (\<exists>xs. cstring (\<lambda>a. a) m (mbi_cmdline m mbi) xs \<and>
        rng (mbi_cmdline m mbi) (Suc (length xs)) \<subseteq> rd)) \<and>
     (CHECK_FLAG (mbi_flags m mbi) 6 \<longrightarrow> mmap_ok m rd (mbi_mmap_addr m mbi + mbi_mmap_length m mbi) (mbi_mmap_addr m mbi))"

lemma said_word: "said m rd st \<Longrightarrow> rng a 4 \<subseteq> rd \<Longrightarrow> ld32 (\<lambda>a. a) (snd st) a = ld32 (\<lambda>a. a) m a"
  by (intro ld32_cong_ld8) (auto simp: said_def ld8_def)

lemma said_report:
  assumes "said m rd st" "rng mbi 52 \<subseteq> rd"
  shows "mbi_flags (snd st) mbi = mbi_flags m mbi" "mbi_mods_count (snd st) mbi = mbi_mods_count m mbi"
    "mbi_cmdline (snd st) mbi = mbi_cmdline m mbi" "mbi_mmap_addr (snd st) mbi = mbi_mmap_addr m mbi"
    "mbi_mmap_length (snd st) mbi = mbi_mmap_length m mbi"
proof -
  have "rng (mbi + of_nat i) 4 \<subseteq> rd" if "i \<le> 48" for i using rng_sub [of i 4 52 mbi] that assms(2) by auto
  from this [of 0] this [of 20] this [of 16] this [of 48] this [of 44]
  show "mbi_flags (snd st) mbi = mbi_flags m mbi" "mbi_mods_count (snd st) mbi = mbi_mods_count m mbi"
    "mbi_cmdline (snd st) mbi = mbi_cmdline m mbi" "mbi_mmap_addr (snd st) mbi = mbi_mmap_addr m mbi"
    "mbi_mmap_length (snd st) mbi = mbi_mmap_length m mbi"
    using said_word [OF assms(1)]
    by (simp_all add: mbi_flags_def mbi_mods_count_def mbi_cmdline_def mbi_mmap_addr_def mbi_mmap_length_def)
qed

lemma show_bytes_ok:
  assumes "env_ok m rd ev" "said m rd st"
  shows "\<exists>st'. show_bytes ev md is st = Some st' \<and> said m rd st'"
  using assms(2)
proof (induction "is" arbitrary: st)
  case (Cons i "is")
  obtain st1 where "say ev (\<lambda>a. a) ''0x%x '' [scast (ld8 (\<lambda>a. a) (snd st) (member (snd st) md 0 + of_nat i))] st = Some st1" "said m rd st1"
    using say_entry(7) [OF assms(1) Cons.prems] by blast
  then show ?case using Cons.IH [of st1] by simp
qed simp

lemma show_modules_ok:
  assumes env: "env_ok m rd ev" and mbi: "rng mbi 52 \<subseteq> rd" and st: "said m rd st" and i: "i \<le> mbi_mods_count m mbi"
  shows "\<exists>st'. show_modules ev mbi i md st = Some st' \<and> said m rd st'"
  using st i
proof (induction "unat (mbi_mods_count m mbi) - unat i" arbitrary: i md st)
  case 0
  then have "\<not> i < mbi_mods_count (snd st) mbi" by (simp add: said_report(2) [OF 0(2) mbi] word_less_nat_alt)
  then show ?case using 0(2) by (subst show_modules.simps) simp
next
  case (Suc n)
  then have i: "i < mbi_mods_count m mbi" by (simp add: word_less_nat_alt)
  then have i1: "unat (i + 1) = Suc (unat i)" "i + 1 \<le> mbi_mods_count m mbi"
    using unat_lt_2p32 [of "mbi_mods_count m mbi"] unat_add1_u32 [of i] by (auto simp: word_less_nat_alt word_le_nat_alt)
  note e = say_entry [OF env]
  obtain s1 where s1: "say ev (\<lambda>a. a) ''Module %d loaded at address: 0x%#x\<newline>'' [i, member (snd st) md 0] st = Some s1" "said m rd s1"
    using e(4) [OF Suc.prems(1)] by blast
  obtain s2 where s2: "say ev (\<lambda>a. a) ''Module %d ends at address: 0x%#x\<newline>'' [i, member (snd s1) md 1] s1 = Some s2" "said m rd s2"
    using e(5) [OF s1(2)] by blast
  obtain s3 where s3: "say ev (\<lambda>a. a) ''First few bytes of module:\<newline>'' [] s2 = Some s3" "said m rd s3" using e(6) [OF s2(2)] by blast
  obtain s4 where s4: "show_bytes ev md [0..<16] s3 = Some s4" "said m rd s4" using show_bytes_ok [OF env s3(2)] by blast
  obtain s5 where s5: "say ev (\<lambda>a. a) ''\<newline>'' [] s4 = Some s5" "said m rd s5" using e(8) [OF s4(2)] by blast
  have "\<exists>st'. show_modules ev mbi (i + 1) (md + 16) s5 = Some st' \<and> said m rd st'"
    using Suc.hyps(2) i1 s5(2) by (intro Suc.hyps(1)) auto
  then show ?case
    using i s1(1) s2(1) s3(1) s4(1) s5(1) by (subst show_modules.simps) (simp add: said_report(2) [OF Suc.prems(1) mbi] del: upt_rec_numeral)
qed

lemma show_mmap_ok:
  assumes env: "env_ok m rd ev" and mbi: "rng mbi 52 \<subseteq> rd" and st: "said m rd st"
    and ok: "mmap_ok m rd (mbi_mmap_addr m mbi + mbi_mmap_length m mbi) a"
  shows "\<exists>st'. show_mmap ev mbi a st = Some st' \<and> said m rd st'"
  using ok st
proof (induction a arbitrary: st rule: mmap_ok.induct)
  case (mmap_end a)
  then show ?case by (subst show_mmap.simps) (simp add: said_report [OF mmap_end(2) mbi])
next
  case (mmap_entry a)
  obtain s1 where s1: "say ev (\<lambda>a. a) '' size = 0x%x,     base_addr = 0x%#x%#x\<newline>     type = 0x%x,  length    = 0x%#x%#x\<newline>''
      [member (snd st) a 0, member (snd st) a 2, member (snd st) a 1, member (snd st) a 5, member (snd st) a 4, member (snd st) a 3] st =
      Some s1" "said m rd s1"
    using say_entry(11) [OF env mmap_entry(5)] by blast
  have "member (snd s1) a 0 = member m a 0" using said_word [OF s1(2) mmap_entry(2)] by (simp add: member_def)
  then show ?case
    using mmap_entry(1) s1(1) mmap_entry(4) [OF s1(2)]
    by (subst show_mmap.simps) (simp add: said_report [OF mmap_entry(5) mbi])
qed

lemma optional_message:
  assumes "said m rd st" "c \<Longrightarrow> \<exists>st'. f = Some st' \<and> said m rd st'"
  shows "\<exists>st'. (if c then f else Some st) = Some st' \<and> said m rd st'"
  using assms by (cases c) (simp_all del: split_paired_Ex)

lemma show_info_ok:
  assumes env: "env_ok m rd ev" and rep: "report_ok m rd mbi" and st: "said m rd st"
  shows "\<exists>st'. show_info ev mbi st = Some (True, st') \<and> said m rd st'"
proof -
  have mbi: "rng mbi 52 \<subseteq> rd" using rep by (simp add: report_ok_def)
  define set where "set = (\<lambda>b. CHECK_FLAG (mbi_flags m mbi) b)"
  have fl: "CHECK_FLAG (mbi_flags (snd s) mbi) b = set b" if "said m rd s" for s b
    using said_report(1) [OF that mbi] by (simp add: set_def)
  note e = say_entry [OF env]
  obtain s1 where s1: "say ev (\<lambda>a. a) ''flags = 0x%#x\<newline>'' [mbi_flags (snd st) mbi] st = Some s1" "said m rd s1" using e(1) [OF st] by blast
  obtain s2 where s2: "(if set 0 then say ev (\<lambda>a. a) ''mem_lower = %uKB, mem_upper = %uKB\<newline>''
      [mbi_mem_lower (snd s1) mbi, mbi_mem_upper (snd s1) mbi] s1 else Some s1) = Some s2" "said m rd s2"
    using optional_message [OF s1(2) e(2) [OF s1(2)]] by blast
  obtain s3 where s3: "(if set 1 then say ev (\<lambda>a. a) ''boot_device = 0x%#x\<newline>'' [mbi_boot_device (snd s2) mbi] s2 else Some s2) = Some s3"
    "said m rd s3" using optional_message [OF s2(2) e(3) [OF s2(2)]] by blast
  have cl: "\<exists>s'. say ev (\<lambda>a. a) ''cmdline = %s\<newline>'' [mbi_cmdline (snd s3) mbi] s3 = Some s' \<and> said m rd s'" if c: "set 2"
  proof -
    obtain xs where xs: "cstring (\<lambda>a. a) m (mbi_cmdline m mbi) xs" "rng (mbi_cmdline m mbi) (Suc (length xs)) \<subseteq> rd"
      using rep c by (auto simp: report_ok_def set_def)
    show ?thesis
      by (rule say_ok [OF env s3(2), where as = "[PStr xs]"])
        (simp_all add: entry_literals_def fmt_conv_def parg_word_def said_report(3) [OF s3(2) mbi] xs)
  qed
  obtain s4 where s4: "(if set 2 then say ev (\<lambda>a. a) ''cmdline = %s\<newline>'' [mbi_cmdline (snd s3) mbi] s3 else Some s3) = Some s4" "said m rd s4"
    using optional_message [OF s3(2) cl] by blast
  obtain s5 where s5: "(if set 3 then show_modules ev mbi 0 (mbi_mods_addr (snd s4) mbi) s4 else Some s4) = Some s5" "said m rd s5"
    using optional_message [OF s4(2) show_modules_ok [OF env mbi s4(2) word_zero_le]] by blast
  let ?e = "mbi_elf_sec mbi"
  obtain s6 where s6: "(if set 5 then say ev (\<lambda>a. a) ''elf_sec: num = %u, size = 0x%#x, addr = 0x%#x, shndx = 0x%#x\<newline>''
      [member (snd s5) ?e 0, member (snd s5) ?e 1, member (snd s5) ?e 2, member (snd s5) ?e 3] s5 else Some s5) = Some s6" "said m rd s6"
    using optional_message [OF s5(2) e(9) [OF s5(2)]] by blast
  have mm: "\<exists>s'. do { s \<leftarrow> say ev (\<lambda>a. a) ''mmap_addr = 0x%#x, mmap_length = 0x%x\<newline>''
      [mbi_mmap_addr (snd s6) mbi, mbi_mmap_length (snd s6) mbi] s6; show_mmap ev mbi (mbi_mmap_addr (snd s) mbi) s } = Some s' \<and> said m rd s'"
    if c: "set 6"
  proof -
    obtain s where s: "say ev (\<lambda>a. a) ''mmap_addr = 0x%#x, mmap_length = 0x%x\<newline>''
        [mbi_mmap_addr (snd s6) mbi, mbi_mmap_length (snd s6) mbi] s6 = Some s" "said m rd s" using e(10) [OF s6(2)] by blast
    have "mmap_ok m rd (mbi_mmap_addr m mbi + mbi_mmap_length m mbi) (mbi_mmap_addr m mbi)"
      using rep c by (simp add: report_ok_def set_def)
    from show_mmap_ok [OF env mbi s(2) this] show ?thesis using s(1) said_report(4) [OF s(2) mbi] by simp
  qed
  obtain s7 where s7: "(if set 6 then do { s \<leftarrow> say ev (\<lambda>a. a) ''mmap_addr = 0x%#x, mmap_length = 0x%x\<newline>''
      [mbi_mmap_addr (snd s6) mbi, mbi_mmap_length (snd s6) mbi] s6; show_mmap ev mbi (mbi_mmap_addr (snd s) mbi) s } else Some s6) = Some s7"
    "said m rd s7" using optional_message [OF s6(2) mm] by blast
  have n45: "\<not> (set 4 \<and> set 5)" using rep by (simp add: report_ok_def set_def)
  have "show_info ev mbi st = Some (True, s7)"
    unfolding show_info_def Let_def s1(1) bind.bind_lunit fl [OF s1(2)] s2(1) fl [OF s2(2)] s3(1) fl [OF s3(2)] s4(1) fl [OF s4(2)] s5(1)
      fl [OF s5(2)] if_not_P [OF n45] s6(1) fl [OF s6(2)] s7(1) by simp
  then show ?thesis using s7(2) by blast
qed

section \<open>Commands in another view of memory\<close>

text \<open>
  Whether a command line names an executable depends on the bytes of the file system image and of
  the command line only.
\<close>

lemma load_view: "load_bytes tr m a n = load_bytes (\<lambda>a. a) (\<lambda>a. m (tr a)) a n"
  by (induction n arbitrary: a) (simp_all add: ld8_def)

lemma dir_names_view: "dir_names tr m bb names = dir_names (\<lambda>a. a) (\<lambda>a. m (tr a)) bb names"
  by (simp only: dir_names_def cstring_def dir_entries_cnt_def view [of tr m] load_view [of tr m])

lemma ld32_view_cong:
  assumes "\<And>x. x \<in> rng a 4 \<Longrightarrow> ld8 tr' m' x = ld8 tr m x"
  shows "ld32 tr' m' a = ld32 tr m a"
  using ld32_cong_ld8 [of a "\<lambda>a. a" "\<lambda>a. m' (tr' a)" "\<lambda>a. m (tr a)"] assms view [of tr m] view [of tr' m'] by simp

text \<open>The file system is the same file system through another directory and in another memory.\<close>

lemma fs_seen:
  assumes wf: "fs_wf tr m bb" "dir_names tr m bb names" "\<forall>x \<in> set names. length x < 64"
    and v: "\<forall>x \<in> rng bb (fs_size tr m bb). ld8 tr' m' x = ld8 tr m x"
  shows "fs_wf tr' m' bb" "fs_size tr' m' bb = fs_size tr m bb" "inode_cnt tr' m' bb = inode_cnt tr m bb" "dir_names tr' m' bb names"
    "ino < inode_cnt tr m bb \<Longrightarrow> file_bytes tr' m' bb ino = file_bytes tr m bb ino"
    "j < length names \<Longrightarrow> dentry_ftype tr' m' (bootblock_dentry bb (of_nat j)) = dentry_ftype tr m (bootblock_dentry bb (of_nat j))"
    "j < length names \<Longrightarrow> dentry_inode tr' m' (bootblock_dentry bb (of_nat j)) = dentry_inode tr m (bootblock_dentry bb (of_nat j))"
proof -
  let ?m = "\<lambda>a. m (tr a)" and ?m' = "\<lambda>a. m' (tr' a)"
  have same: "fs_same (\<lambda>a. a) bb ?m ?m'" using v by (simp add: fs_same_def fs_view(2) [of tr] ld8_def)
  have wf': "fs_wf (\<lambda>a. a) ?m bb" using wf(1) by (simp only: fs_view(5) [of tr m bb])
  show "fs_wf tr' m' bb" using flat.fs_same_wf [OF wf' same] by (simp only: fs_view(5) [of tr' m' bb])
  show "fs_size tr' m' bb = fs_size tr m bb"
    using flat.fs_same_size [OF same] by (simp only: fs_view(2) [of tr m bb] fs_view(2) [of tr' m' bb])
  show "inode_cnt tr' m' bb = inode_cnt tr m bb"
    using fs_same_header(2) [OF same] by (simp only: fs_view(1) [of tr m bb] fs_view(1) [of tr' m' bb])
  show "dir_names tr' m' bb names"
    using fs_same_dir [OF same _ wf(3)] wf(2) dir_names_view [of tr m bb names] dir_names_view [of tr' m' bb names] by blast
  show "file_bytes tr' m' bb ino = file_bytes tr m bb ino" if "ino < inode_cnt tr m bb"
    using fs_same_file_bytes [OF wf' same, of ino] that
    by (simp only: fs_view(1) [of tr m bb] fs_view(3) [of tr m bb ino] fs_view(3) [of tr' m' bb ino])
  have e: "rng (bootblock_dentry bb (of_nat j)) 64 \<subseteq> rng bb (fs_size tr m bb)" if "j < length names"
    using that wf(2) by (intro entry_rng) (simp add: dir_names_def)
  have "ld32 tr' m' (bootblock_dentry bb (of_nat j) + of_nat i) = ld32 tr m (bootblock_dentry bb (of_nat j) + of_nat i)"
    if "j < length names" "i + 4 \<le> 64" for i
    using e [OF that(1)] rng_sub [of i 4 64 "bootblock_dentry bb (of_nat j)"] that(2) v by (intro ld32_view_cong) blast
  from this [of 32] this [of 36]
  show "j < length names \<Longrightarrow> dentry_ftype tr' m' (bootblock_dentry bb (of_nat j)) = dentry_ftype tr m (bootblock_dentry bb (of_nat j))"
    "j < length names \<Longrightarrow> dentry_inode tr' m' (bootblock_dentry bb (of_nat j)) = dentry_inode tr m (bootblock_dentry bb (of_nat j))"
    by (simp_all add: dentry_ftype_def dentry_inode_def)
qed

lemma command_ok_view:
  assumes ok: "command_ok tr m bb mapped names command xs fr ino" and map: "kernel_page \<subseteq> mapped'" "rng command (Suc (length xs)) \<subseteq> mapped'"
    and v: "\<And>x. x \<in> rng bb (fs_size tr m bb) \<union> rng command (Suc (length xs)) \<Longrightarrow> ld8 tr' m' x = ld8 tr m x"
  shows "command_ok tr' m' bb mapped' names command xs fr ino"
    "file_bytes tr' m' bb ino = file_bytes tr m bb ino"
proof -
  note ok' = ok [unfolded command_ok_def]
  have f: "fs_wf tr m bb" "dir_names tr m bb names" "\<forall>x \<in> set names. length x < 64" using ok' by blast+
  have v': "\<forall>x \<in> rng bb (fs_size tr m bb). ld8 tr' m' x = ld8 tr m x" using v by blast
  note s = fs_seen [OF f v']
  have "ino < inode_cnt tr m bb" using ok' by blast
  then show fb: "file_bytes tr' m' bb ino = file_bytes tr m bb ino" by (rule s(5))
  have fl: "file_len tr' m' bb ino = file_len tr m bb ino" using arg_cong [OF fb, of length] by simp
  have "cstring tr m command xs" using ok' by blast
  then have c: "cstring tr' m' command xs" using v by (rule cstring_cong) blast
  obtain j where j: "first_index (cmd_word xs) names = Some j" "dentry_inode tr m (bootblock_dentry bb (of_nat j)) = ino"
    using ok' by blast
  then have "dentry_inode tr' m' (bootblock_dentry bb (of_nat j)) = ino" using s(7) [of j] first_index_Some [OF j(1)] by simp
  then show "command_ok tr' m' bb mapped' names command xs fr ino"
    unfolding command_ok_def s(2,3) fb fl using ok' map c s(1,4) j(1) by blast
qed

section \<open>From the report to the shell\<close>

text \<open>The view of memory through the first page directory.\<close>

lemma first_dir_view:
  assumes "layout_ok (m_lay mc)" "paging_shape g" "pg k = virtualmem_init (m_lay mc) g" "x \<in> kernel_page \<union> rng VIDEO 4096"
  shows "cur_tr mc k x = x"
  using virtualmem_init_correct [OF assms(1,2) assms(3)] assms(4) by (auto simp: cur_tr_def proc_tr_def kernel_tr_def)

lemma clear_frame:
  assumes "p \<notin> tr ` rng (scr_mem con) 4000"
  shows "snd (clear tr (con, m)) p = m p"
  using assms by (simp add: clear_def Let_def fold_put_cell_frame)

lemma clear_said:
  assumes "scr_mem con = VIDEO" "rd \<inter> rng VIDEO 4000 = {}"
  shows "said m rd (clear (\<lambda>a. a) (con, m))"
  using assms clear_frame [of _ "\<lambda>a. a" con m] by (auto simp: said_def screen_wf_def clear_def Let_def)

text \<open>The last message, printed after paging has been switched on.\<close>

lemma say_enabling:
  assumes env: "env_ok m rd ev" and st: "said m rd st" and id: "\<And>x. x \<in> kernel_page \<union> rng VIDEO 4096 \<Longrightarrow> tr x = x"
    and s: "s \<in> set entry_literals" "fmt_text None (lit s) [] = Some ts"
    and k: "stack_space (ev_stack ev) \<subseteq> kernel_page" "rng (ev_lit ev s) (Suc (length s)) \<subseteq> kernel_page"
  shows "\<exists>con' m'. say ev tr s [] st = Some (con', m') \<and> scr_mem con' = VIDEO \<and> (\<forall>x \<in> kernel_page \<inter> rd. m' x = m x)"
proof -
  let ?M = "kernel_page \<union> rng VIDEO 4096" and ?pf = "ev_stack ev" and ?rd = "rng (ev_lit ev s) (Suc (length (lit s)))"
  obtain con m1 where [simp]: "st = (con, m1)" by fastforce
  have as: "address_space tr ?M" by (rule address_space.intro) (auto simp: inj_on_def id)
  have scr: "screen_wf con" "scr_mem con = VIDEO" "\<And>x. x \<in> rd \<Longrightarrow> m1 x = m x" using st by (auto simp: said_def)
  have lit: "cstring (\<lambda>a. a) m (ev_lit ev s) (lit s)" "?rd \<subseteq> rd" using env s(1) by (simp_all add: env_ok_def)
  have v: "rng VIDEO 4000 \<subseteq> rng VIDEO 4096" by (rule rng_mono) simp
  have env': "print_ok UNIV ?pf rd \<lparr>scr_x = 0, scr_y = 0, scr_mem = VIDEO\<rparr>" using env by (simp add: env_ok_def)
  have ok: "print_ok ?M ?pf ?rd con"
    using env' scr(1,2) lit(2) k v unfolding print_ok_def bufs_ok_def stack_space_def by (auto 0 3)
  have l1: "cstring tr m1 (ev_lit ev s) (lit s)"
  proof (rule cstring_cong [OF lit(1)])
    fix x assume "x \<in> ?rd"
    then have "x \<in> rd" "x \<in> kernel_page" using lit(2) k(2) by auto
    then show "ld8 tr m1 x = ld8 (\<lambda>a. a) m x" using scr(3) id by (simp add: ld8_def)
  qed
  obtain con' m' where r: "call_printf tr ?pf (ev_lit ev s) [] (con, m1) = Some (con', m')" "scr_mem con' = scr_mem con"
    "\<forall>x \<in> ?M. x \<notin> rng (scr_mem con) 4000 \<union> stack_space ?pf \<longrightarrow> ld8 tr m' x = ld8 tr m1 x"
    using address_space.call_printf_eq [OF as ok l1 order_refl _ _ s(2), of "[]"] by auto
  have "m' x = m x" if x: "x \<in> kernel_page \<inter> rd" for x
  proof -
    have "x \<notin> rng (scr_mem con) 4000 \<union> stack_space ?pf" using env' scr(2) x unfolding print_ok_def by auto
    then show ?thesis using r(3) x id scr(3) by (auto simp: ld8_def)
  qed
  then show ?thesis using r scr(2) by (auto simp: say_def)
qed

text \<open>
  The shell is in the file system, which is the first boot module: what the image and the command
  line need.
\<close>

definition shell_ok :: "memory \<Rightarrow> addr set \<Rightarrow> addr \<Rightarrow> bytes list \<Rightarrow> bytes \<Rightarrow> frame \<Rightarrow> u32 \<Rightarrow> entry_env \<Rightarrow> bool" where
  "shell_ok m rd bb names xs fr ino ev \<longleftrightarrow> command_ok (\<lambda>a. a) m bb UNIV names (ev_shell ev) xs fr ino \<and>
     rng bb (fs_size (\<lambda>a. a) m bb) \<union> rng (ev_shell ev) (Suc (length xs)) \<subseteq> kernel_page \<inter> rd"

lemma start_first_shell:
  assumes dev: "devices_ok (ptab (b_k b))" "current_terminal (kbd (b_k b)) = -1" and lay: "layout_ok (m_lay mc)" "paging_shape g"
    and pg: "pg (b_k b) = virtualmem_init (m_lay mc) g" and bb: "bootblock (b_k b) = bb"
    and sh: "shell_ok m rd bb names xs fr ino ev" and eq: "\<And>x. x \<in> kernel_page \<inter> rd \<Longrightarrow> mem (b_k b) x = m x"
    and fil: "elf = file_bytes (\<lambda>a. a) m bb ino"
  shows "\<exists>b'. start_first mc fr ev b =
      Some (Entry_flow (Enter_user (word_of_bytes (elf ! 24) (elf ! 25) (elf ! 26) (elf ! 27)) 0x83FFFFC), b') \<and>
    load_bytes (cur_tr mc (b_k b')) (mem (b_k b')) START_EXE_ADDR (length elf) = elf"
proof -
  let ?k = "b_k b"
  obtain h where st: "start_terminal (m_outb mc) (ev_shell ev) (ptab ?k) 0 (kbd ?k, next_execute ?k, hw ?k) =
      (St_execute_loop, (kbd ?k)\<lparr>current_terminal := 0\<rparr>, next_execute ?k, h)"
    using start_first_terminal [OF dev, of "m_outb mc" "ev_shell ev" "next_execute ?k" "hw ?k"] by blast
  let ?k1 = "?k\<lparr>kbd := (kbd ?k)\<lparr>current_terminal := 0\<rparr>, next_execute := next_execute ?k, hw := h\<rparr>"
  have id: "cur_tr mc ?k1 x = x" if "x \<in> kernel_page" for x
    using first_dir_view [OF lay, of ?k1 x] pg that by simp
  have as: "address_space (cur_tr mc ?k1) kernel_page" using id by (intro address_space.intro inj_onI) metis
  have c: "command_ok (\<lambda>a. a) m bb UNIV names (ev_shell ev) xs fr ino"
    "rng bb (fs_size (\<lambda>a. a) m bb) \<union> rng (ev_shell ev) (Suc (length xs)) \<subseteq> kernel_page \<inter> rd"
    using sh unfolding shell_ok_def by blast+
  have e: "ld8 (cur_tr mc ?k1) (mem ?k1) x = ld8 (\<lambda>a. a) m x"
    if "x \<in> rng bb (fs_size (\<lambda>a. a) m bb) \<union> rng (ev_shell ev) (Suc (length xs))" for x
  proof -
    have x: "x \<in> kernel_page \<inter> rd" using that c(2) by blast
    then have "cur_tr mc ?k1 x = x" using id by blast
    then show ?thesis using eq [OF x] by (simp add: ld8_def)
  qed
  have "rng (ev_shell ev) (Suc (length xs)) \<subseteq> kernel_page" using c(2) by blast
  note cv = command_ok_view [OF c(1) _ this e]
  have "command_ok (cur_tr mc ?k1) (mem ?k1) (bootblock ?k1) kernel_page names (ev_shell ev) xs fr ino"
    "elf = file_bytes (cur_tr mc ?k1) (mem ?k1) (bootblock ?k1) ino"
    using cv bb fil by simp_all
  moreover have "tables_ok (pg ?k1)" "paging_shape (pg ?k1)"
    using virtualmem_init_tables [OF lay(2)] virtualmem_init_shape [OF lay(2)] pg by simp_all
  moreover have "\<not> proc_live (ptab ?k1) 1" "exec_term ?k1 = of_nat 0"
    using dev sample_ptab_wf(2) [of 1]
    by (simp_all add: devices_ok_def sample_ptab_def exec_term_def curr_terminal_running_process_def get_active_process_def ptable_init_def)
  ultimately obtain k' where k': "execute mc fr (ev_shell ev) ?k1 =
      Some (Enter_user (word_of_bytes (elf ! 24) (elf ! 25) (elf ! 26) (elf ! 27)) 0x83FFFFC, k')"
    "load_bytes (cur_tr mc k') (mem k') START_EXE_ADDR (length elf) = elf"
    using execute_start_eq [OF as _ _ lay(1), of names "ev_shell ev" xs fr ino 1 0 elf, OF _ _ _ _ _ _ _ _ _ _ refl] id by auto
  have "shell_loop mc fr (ev_shell ev) ?k1 =
      Some (Enter_user (word_of_bytes (elf ! 24) (elf ! 25) (elf ! 26) (elf ! 27)) 0x83FFFFC, k')"
    using k'(1) by (subst shell_loop.simps) simp
  then show ?thesis using st k'(2) by (simp add: start_first_def Let_def)
qed

lemma entry_runs:
  assumes ok: "static_ok b" "layout_ok (m_lay mc)" "scr_mem (b_con b) = VIDEO" and m: "m = mem (b_k b)"
    and env: "env_ok m rd ev" and rep: "report_ok m rd mbi" "rng (mbi + 24) 4 \<subseteq> rd" "rng (mbi_mods_addr m mbi) 4 \<subseteq> rd"
    and k: "stack_space (ev_stack ev) \<subseteq> kernel_page" "rng (ev_lit ev ''Enabling Interrupts\<newline>'') 21 \<subseteq> kernel_page"
    and sh: "shell_ok m rd (member m (mbi_mods_addr m mbi) 0) names xs fr ino ev"
    and fil: "elf = file_bytes (\<lambda>a. a) m (member m (mbi_mods_addr m mbi) 0) ino"
  shows "\<exists>b'. entry mc fr ev d MULTIBOOT_BOOTLOADER_MAGIC mbi b =
      Some (Entry_flow (Enter_user (word_of_bytes (elf ! 24) (elf ! 25) (elf ! 26) (elf ! 27)) 0x83FFFFC), b') \<and>
    load_bytes (cur_tr mc (b_k b')) (mem (b_k b')) START_EXE_ADDR (length elf) = elf"
proof -
  let ?bb = "member m (mbi_mods_addr m mbi) 0" and ?s = "''Enabling Interrupts\<newline>''"
  have dj: "rd \<inter> rng VIDEO 4000 = {}" using env unfolding env_ok_def print_ok_def by auto
  obtain st1 where s1: "show_info ev mbi (clear (\<lambda>a. a) (b_con b, mem (b_k b))) = Some (True, st1)" "said m rd st1"
    using show_info_ok [OF env rep(1) clear_said [OF ok(3) dj]] unfolding m by blast
  let ?b1 = "init_descriptors ev d (b_screen st1 b)"
  have st: "static_ok ?b1" "mem (b_k ?b1) = snd st1" "b_con ?b1 = fst st1" "pg (b_k ?b1) = pg (b_k b)" "paging_shape (pg (b_k b))"
    using ok(1) by (simp_all add: static_ok_def init_descriptors_def b_screen_def)
  define B where "B = init_devices mc ev mbi ?b1"
  have "member (snd st1) (mbi_mods_addr (snd st1) mbi) 0 = ?bb"
    using said_word [OF s1(2)] rep(2,3) by (simp add: member_def mbi_mods_addr_def)
  then have B: "devices_ok (ptab (b_k B))" "current_terminal (kbd (b_k B)) = -1" "pg (b_k B) = virtualmem_init (m_lay mc) (pg (b_k b))"
    "mem (b_k B) = snd st1" "bootblock (b_k B) = ?bb" "b_con B = fst st1"
    using init_devices_parts [OF st(1), of mc ev mbi] unfolding B_def st by (auto simp: st(3))
  have id: "cur_tr mc K x = x" if "pg K = pg (b_k B)" "x \<in> kernel_page \<union> rng VIDEO 4096" for x and K :: "'a kernel"
    using first_dir_view [OF ok(2) st(5) _ that(2), of K] that(1) B(3) by simp
  have l: "?s \<in> set entry_literals" "fmt_text None (lit ?s) [] = Some (lit ?s)" "Suc (length ?s) = 21"
    by (simp_all add: entry_literals_def fmt_conv_def)
  have k2: "rng (ev_lit ev ?s) (Suc (length ?s)) \<subseteq> kernel_page" unfolding l(3) by (rule k(2))
  have "(b_con B, mem (b_k B)) = st1" using B(4,6) by simp
  then obtain con2 m2 where s2: "say ev (cur_tr mc (b_k B)) ?s [] (b_con B, mem (b_k B)) = Some (con2, m2)" "scr_mem con2 = VIDEO"
    "\<forall>x \<in> kernel_page \<inter> rd. m2 x = m x"
    using say_enabling [OF env s1(2) id [OF refl] l(1,2) k(1) k2] by metis
  define B2 where "B2 = (b_screen (con2, m2) B)\<lparr>b_if := True\<rparr>"
  define B3 where "B3 = b_screen (clear (cur_tr mc (b_k B2)) (b_con B2, mem (b_k B2))) B2"
  have e: "entry mc fr ev d MULTIBOOT_BOOTLOADER_MAGIC mbi b = start_first mc fr ev B3"
    unfolding entry_def Let_def B3_def B2_def using s1(1) s2(1) unfolding B_def by simp
  have "mem (b_k B3) x = m x" if x: "x \<in> kernel_page \<inter> rd" for x
  proof -
    have "cur_tr mc (b_k B2) ` rng VIDEO 4000 = rng VIDEO 4000"
      using id [of "b_k B2"] rng_mono [of 4000 4096 VIDEO] by (force simp: B2_def b_screen_def image_iff)
    then have "x \<notin> cur_tr mc (b_k B2) ` rng (scr_mem con2) 4000" using dj x s2(2) by auto
    then show ?thesis using clear_frame s2(3) x by (simp add: B3_def B2_def b_screen_def)
  qed
  moreover have "ptab (b_k B3) = ptab (b_k B)" "kbd (b_k B3) = kbd (b_k B)" "pg (b_k B3) = pg (b_k B)" "bootblock (b_k B3) = bootblock (b_k B)"
    by (simp_all add: B3_def B2_def b_screen_def)
  ultimately show ?thesis
    unfolding e using B by (intro start_first_shell [OF _ _ ok(2) st(5) _ _ sh _ fil]) simp_all
qed

section \<open>Properties\<close>

text \<open>
  C3. The boot reaches the shell. For every proper report of the boot loader whose first module is
  a file system with an executable for the command line of \<open>start_terminal\<close>, \<open>entry\<close> prints the
  report, initialises the system and enters that program at the entry point of its file, with the
  file loaded: no loop over the modules or the memory map runs on, and nothing that is printed
  damages the image. Interrupts are enabled then, and the invariant of the kernel holds with the
  shell of terminal 0 as the only process.
\<close>

theorem entry_reaches_shell:
  assumes "static_ok b" "layout_ok (m_lay mc)" "scr_mem (b_con b) = VIDEO" "m = mem (b_k b)"
    and "env_ok m rd ev" "report_ok m rd mbi" "rng (mbi_mods_addr m mbi) 4 \<subseteq> rd"
    and "stack_space (ev_stack ev) \<subseteq> kernel_page" "rng (ev_lit ev ''Enabling Interrupts\<newline>'') 21 \<subseteq> kernel_page"
    and "shell_ok m rd (member m (mbi_mods_addr m mbi) 0) names xs fr ino ev"
    and "elf = file_bytes (\<lambda>a. a) m (member m (mbi_mods_addr m mbi) 0) ino"
  shows "\<exists>b'. entry mc fr ev d MULTIBOOT_BOOTLOADER_MAGIC mbi b =
      Some (Entry_flow (Enter_user (word_of_bytes (elf ! 24) (elf ! 25) (elf ! 26) (elf ! 27)) 0x83FFFFC), b') \<and>
    load_bytes (cur_tr mc (b_k b')) (mem (b_k b')) START_EXE_ADDR (length elf) = elf \<and>
    b_if b' \<and> (\<exists>q. sys_inv (b_k b') (t_base 0 q no_procs) q)"
proof -
  let ?fl = "Enter_user (word_of_bytes (elf ! 24) (elf ! 25) (elf ! 26) (elf ! 27)) 0x83FFFFC"
  have "rng (mbi + of_nat 24) 4 \<subseteq> rng mbi 52" by (rule rng_sub) simp
  then have "rng (mbi + 24) 4 \<subseteq> rd" using assms(6) by (auto simp: report_ok_def)
  then have "\<exists>b'. entry mc fr ev d MULTIBOOT_BOOTLOADER_MAGIC mbi b = Some (Entry_flow ?fl, b') \<and>
      load_bytes (cur_tr mc (b_k b')) (mem (b_k b')) START_EXE_ADDR (length elf) = elf"
    using assms by (intro entry_runs) simp_all
  then obtain b' where b': "entry mc fr ev d MULTIBOOT_BOOTLOADER_MAGIC mbi b = Some (Entry_flow ?fl, b')"
    "load_bytes (cur_tr mc (b_k b')) (mem (b_k b')) START_EXE_ADDR (length elf) = elf" by blast
  moreover have "b_if b' \<and> (\<exists>q. sys_inv (b_k b') (t_base 0 q no_procs) q)" using entry_boots [OF assms(1) b'(1)] by auto
  ultimately show ?thesis by blast
qed

text \<open>
  A machine at power-on: one module, the file system image at \<open>0x500000\<close>, reported at \<open>0x9000\<close>;
  the literals are at \<open>0x700000\<close>.
\<close>

definition boot_mem :: memory where
  "boot_mem a =
     (if a \<in> rng 0x700000 1664 then lit_mem 0x700000 (map lit entry_literals) a
      else (elf_mem(0x9000 := 8, 0x9014 := 1, 0x9019 := 0x91, 0x9102 := 0x50)) a)"

definition boot_env :: entry_env where
  "boot_env = sample_env\<lparr>ev_lit := (\<lambda>s. 0x700000 + of_nat (128 * length (takeWhile (\<lambda>t. t \<noteq> s) entry_literals))),
     ev_stack := \<lparr>pf_args = 0x710000, pf_bufs = \<lparr>cb_x = 0x711000, cb_u = 0x712000, cb_d = 0x713000\<rparr>\<rparr>\<rparr>"

definition boot_region :: "addr set" where
  "boot_region = rng 0x500000 12288 \<union> rng 0x600000 5 \<union> rng 0x700000 1664 \<union> rng 0x9000 52 \<union> rng 0x9100 4"

definition power_on :: "nat boot" where
  "power_on = sample_boot\<lparr>b_k := (b_k sample_boot)\<lparr>mem := boot_mem\<rparr>\<rparr>"

lemma entry_literals_short: "list_all (\<lambda>s. length (lit s) < 128 \<and> 0 \<notin> set (lit s)) entry_literals" "length entry_literals = 13"
  by (simp_all add: entry_literals_def)

lemma takeWhile_index:
  "s \<in> set xs \<Longrightarrow> length (takeWhile (\<lambda>t. t \<noteq> s) xs) < length xs \<and> xs ! length (takeWhile (\<lambda>t. t \<noteq> s) xs) = s"
  by (induction xs) auto

lemma boot_lit:
  assumes "s \<in> set entry_literals"
  shows "cstring (\<lambda>a. a) boot_mem (ev_lit boot_env s) (lit s)" "rng (ev_lit boot_env s) (Suc (length s)) \<subseteq> rng 0x700000 1664"
proof -
  define i where "i = length (takeWhile (\<lambda>t. t \<noteq> s) entry_literals)"
  have i: "i < 13" and s: "entry_literals ! i = s"
    using takeWhile_index [OF assms] entry_literals_short(2) by (simp_all add: i_def)
  have e: "ev_lit boot_env s = 0x700000 + of_nat (128 * i)" by (simp add: boot_env_def i_def)
  have "length (lit s) < 128 \<and> 0 \<notin> set (lit s)" using entry_literals_short(1) assms by (simp add: list_all_iff)
  then have c: "cstring (\<lambda>a. a) (lit_mem 0x700000 (map lit entry_literals)) (ev_lit boot_env s) (lit s)"
    "rng (ev_lit boot_env s) (Suc (length (lit s))) \<subseteq> rng 0x700000 1664"
    using lit_mem_cstring [of i "map lit entry_literals" "0x700000"] i s unfolding e by (simp_all add: entry_literals_short(2))
  then show "rng (ev_lit boot_env s) (Suc (length s)) \<subseteq> rng 0x700000 1664" by simp
  have "ld8 (\<lambda>a. a) boot_mem x = ld8 (\<lambda>a. a) (lit_mem 0x700000 (map lit entry_literals)) x" if "x \<in> rng 0x700000 1664" for x
    using that by (simp add: ld8_def boot_mem_def)
  then show "cstring (\<lambda>a. a) boot_mem (ev_lit boot_env s) (lit s)" using c by (intro cstring_cong_ld8 [OF c(1)]) blast
qed

lemma boot_regions:
  "boot_region \<inter> (rng VIDEO 4000 \<union> stack_space (ev_stack boot_env)) = {}" "stack_space (ev_stack boot_env) \<subseteq> kernel_page"
  "rng 0x500000 12288 \<union> rng 0x600000 5 \<union> rng 0x700000 1664 \<subseteq> kernel_page"
proof -
  show "boot_region \<inter> (rng VIDEO 4000 \<union> stack_space (ev_stack boot_env)) = {}"
    unfolding boot_region_def stack_space_def buf_space_def boot_env_def by (simp add: Int_Un_distrib Int_Un_distrib2 rng_disjoint)
  have k: "rng (KERNEL_LOC + of_nat i) j \<subseteq> kernel_page" if "i + j \<le> 4194304" for i j using that by (intro rng_sub) simp_all
  show "stack_space (ev_stack boot_env) \<subseteq> kernel_page"
    unfolding stack_space_def buf_space_def boot_env_def
    using k [of "0x310000" 64] k [of "0x311000" 64] k [of "0x312000" 36] k [of "0x313000" 36] by simp
  show "rng 0x500000 12288 \<union> rng 0x600000 5 \<union> rng 0x700000 1664 \<subseteq> kernel_page"
    using k [of "0x100000" 12288] k [of "0x200000" 5] k [of "0x300000" 1664] by simp
qed

lemma boot_env_ok: "env_ok boot_mem boot_region boot_env"
proof -
  have "print_ok UNIV (ev_stack boot_env) boot_region \<lparr>scr_x = 0, scr_y = 0, scr_mem = VIDEO\<rparr>"
    using boot_regions(1) unfolding print_ok_def bufs_ok_def buf_space_def boot_env_def
    by (simp add: Int_Un_distrib Int_Un_distrib2 rng_disjoint screen_wf_def)
  then show ?thesis using boot_lit unfolding env_ok_def boot_region_def by blast
qed

lemma boot_words:
  "mbi_flags boot_mem 0x9000 = 8" "mbi_mods_addr boot_mem 0x9000 = 0x9100" "member boot_mem 0x9100 0 = 0x500000"
  by (simp_all add: mbi_flags_def mbi_mods_addr_def member_def ld32_def ld8_def boot_mem_def rng_iff elf_mem_def word_of_bytes_def)

lemma boot_report_ok: "report_ok boot_mem boot_region 0x9000"
proof -
  have "rng 0x9000 52 \<subseteq> boot_region" unfolding boot_region_def by blast
  then show ?thesis unfolding report_ok_def boot_words CHECK_FLAG_def by simp
qed

lemma boot_shell_ok: "shell_ok boot_mem boot_region 0x500000 [[115, 104]] [115, 104, 32, 120] elf_frame 0 boot_env"
  "file_bytes (\<lambda>a. a) boot_mem 0x500000 0 = file_bytes (\<lambda>a. a) elf_mem 0x500000 0"
proof -
  have sh: "ev_shell boot_env = 0x600000" by (simp add: boot_env_def sample_env_def)
  have l: "Suc (length [115, 104, 32, 120 :: u8]) = 5" by simp
  have sz: "fs_size (\<lambda>a. a) elf_mem 0x500000 = 12288" by (simp add: fs_size_def elf_header)
  have same: "ld8 (\<lambda>a. a) boot_mem x = ld8 (\<lambda>a. a) elf_mem x" if "x \<in> rng 0x500000 12288 \<union> rng 0x600000 5" for x
  proof -
    have "x \<notin> rng 0x700000 1664"
      using that rng_disjoint [of "0x500000" 12288 "0x700000" 1664] rng_disjoint [of "0x600000" 5 "0x700000" 1664] by auto
    moreover have "x \<notin> {0x9000, 0x9014, 0x9019, 0x9102}" using that by (auto simp: rng_iff)
    ultimately show ?thesis by (simp add: ld8_def boot_mem_def)
  qed
  note v = command_ok_view [OF elf_command_ok, of UNIV "\<lambda>a. a" boot_mem, unfolded sz l]
  have sz': "fs_size (\<lambda>a. a) boot_mem 0x500000 = 12288"
    using flat.fs_same_size [of "0x500000" elf_mem boot_mem] same sz by (simp add: fs_same_def)
  show "shell_ok boot_mem boot_region 0x500000 [[115, 104]] [115, 104, 32, 120] elf_frame 0 boot_env"
    unfolding shell_ok_def sh sz' l using v(1) same boot_regions(3) by (auto simp: boot_region_def)
  show "file_bytes (\<lambda>a. a) boot_mem 0x500000 0 = file_bytes (\<lambda>a. a) elf_mem 0x500000 0" using v(2) same by auto
qed

lemma power_on_ok: "static_ok power_on" "layout_ok (m_lay sample_machine)" "scr_mem (b_con power_on) = VIDEO" "boot_mem = mem (b_k power_on)"
  "rng (ev_lit boot_env ''Enabling Interrupts\<newline>'') 21 \<subseteq> kernel_page"
proof -
  show "static_ok power_on" using sample_boot_static by (simp add: static_ok_def power_on_def)
  show "layout_ok (m_lay sample_machine)" by (simp add: sample_machine_def sample_layout_ok)
  show "scr_mem (b_con power_on) = VIDEO" "boot_mem = mem (b_k power_on)" by (simp_all add: power_on_def sample_boot_def)
  have e: "''Enabling Interrupts\<newline>'' \<in> set entry_literals" "Suc (length ''Enabling Interrupts\<newline>'') = 21"
    by (simp_all add: entry_literals_def)
  show "rng (ev_lit boot_env ''Enabling Interrupts\<newline>'') 21 \<subseteq> kernel_page"
    using boot_lit(2) [OF e(1)] boot_regions(3) unfolding e(2) by blast
qed

lemma elf_entry:
  "word_of_bytes (file_bytes (\<lambda>a. a) elf_mem 0x500000 0 ! 24) (file_bytes (\<lambda>a. a) elf_mem 0x500000 0 ! 25)
     (file_bytes (\<lambda>a. a) elf_mem 0x500000 0 ! 26) (file_bytes (\<lambda>a. a) elf_mem 0x500000 0 ! 27) = 0x8048018"
  by (simp add: elf_file_bytes elf_bytes word_of_bytes_def)

theorem entry_reaches_shell_witness:
  "\<exists>b' q. entry sample_machine elf_frame boot_env blank_seg 0x2BADB002 0x9000 power_on =
     Some (Entry_flow (Enter_user 0x8048018 0x83FFFFC), b') \<and> sys_inv (b_k b') (t_base 0 q no_procs) q"
proof -
  have "rng (mbi_mods_addr boot_mem 0x9000) 4 \<subseteq> boot_region" unfolding boot_words boot_region_def by blast
  from entry_reaches_shell [OF power_on_ok(1-4) boot_env_ok boot_report_ok this boot_regions(2) power_on_ok(5), unfolded boot_words,
    OF boot_shell_ok(1) boot_shell_ok(2) [symmetric]]
  show ?thesis unfolding elf_entry by blast
qed

end
