(* ===== verification/Command.thy ===== *)
theory Command
  imports Userrun Bootrun
begin

text \<open>
  A command from beginning to end: a running program calls \<open>execute\<close> with a command line, the
  kernel starts the process, the program of the new process runs on the kernel, and its \<open>halt\<close> gives
  the processor back to the caller. This composes the starting and ending of processes (theories
  \<open>Exec\<close> and \<open>System\<close>) with the programs on the contract of the system (theories \<open>Contract\<close> and
  \<open>Userkernel\<close>).
\<close>

section \<open>Programs keep the processes\<close>

text \<open>
  The contract once more, now with the invariant of the kernel: a program that makes none of the calls
  \<open>execute\<close> and \<open>halt\<close> leaves the tree of processes as it is and stays the running process \<open>c\<close>.
\<close>

definition uproc :: "'h uctx \<Rightarrow> ptree \<Rightarrow> nat \<Rightarrow> 'h kernel \<Rightarrow> bool" where
  "uproc X T c k \<longleftrightarrow> uinv X k \<and> sys_inv k T c \<and> (\<forall>k. u_wait X k = None)"

lemma uprocD: "uproc X T c k \<Longrightarrow> uinv X k" "uproc X T c k \<Longrightarrow> sys_inv k T c"
  by (simp_all add: uproc_def)

lemma kernel_stack_of:
  assumes "sys_inv k T c"
  shows "sys_inv (on_kernel_stack k) T c" "on_stack (on_kernel_stack k) c"
proof -
  show "sys_inv (on_kernel_stack k) T c" using assms by (simp add: on_kernel_stack_def sys_inv_def tree_rel_def saved_def)
  have "c \<in> t_live T" "1 \<le> c" "c \<le> 6"
    using assms tree_okD(4) [of T "t_term T c" c] tree_okD(1) [of T c] by (auto simp: sys_inv_def)
  then have "c \<in> {1, 2, 3, 4, 5, 6}" by auto
  moreover have "tss_esp0 k = stack_top c" using assms by (simp add: sys_inv_def)
  ultimately show "on_stack (on_kernel_stack k) c"
    by (auto simp: on_stack_def cur_pcb_at_def on_kernel_stack_def stack_top_def pcb_of_esp_def pcb_addr_def)
qed

lemma plain_call_out:
  assumes "handle_syscall mc fr eax ebx ecx edx k = Some (out, k')" "eax \<noteq> 1" "eax \<noteq> 2"
  shows "out = Blocked \<or> (\<exists>v. out = Flow (Ret v))"
proof (cases "eax = 3")
  case True
  with assms(1) obtain r where "out = (case r of Read_ret v \<Rightarrow> Flow (Ret v) | Read_blocked \<Rightarrow> Blocked)"
    by (auto simp: handle_syscall_def sys_read_ret_def split: option.splits prod.splits)
  then show ?thesis by (cases r) auto
next
  case False
  with assms show ?thesis by (auto simp: handle_syscall_def sys_ret_def split: option.splits prod.splits if_splits)
qed

lemma call_keeps_processes:
  assumes "uproc X T c k" "o_int80 (kernel_os X) eax ebx ecx edx k = Some (v, k')" "eax \<noteq> 1" "eax \<noteq> 2"
  shows "sys_inv k' T c"
proof -
  obtain out k1 where h: "handle_syscall (u_mc X) (u_fr X) eax ebx ecx edx (on_kernel_stack k) = Some (out, k1)"
    using assms(2) by (auto simp: kernel_int80_def bind_eq_Some_conv)
  have "u_wait X k1 = None" using assms(1) by (simp add: uproc_def)
  then have "k' = k1" using assms(2) plain_call_out [OF h assms(3,4)] by (auto simp: kernel_int80_def h bind_eq_Some_conv)
  then show ?thesis
    using quiet_inv [OF kernel_stack_of [OF uprocD(2) [OF assms(1)]] syscall_quiet [OF h assms(3,4)]] by simp
qed

lemma with_processes:
  assumes "uproc X T c k" "\<exists>k'. o_int80 (kernel_os X) eax ebx ecx edx k = Some (v, k') \<and> uinv X k' \<and> P k'" "eax \<noteq> 1" "eax \<noteq> 2"
  shows "\<exists>k'. o_int80 (kernel_os X) eax ebx ecx edx k = Some (v, k') \<and> uproc X T c k' \<and> P k'"
  using assms call_keeps_processes [OF assms(1)] by (auto simp: uproc_def)

lemmas kernel_laws =
  kos.write_out [unfolded ece391_write_def] kos.write_bad [unfolded ece391_write_def] kos.read_file [unfolded ece391_read_def]
  kos.read_bad [unfolded ece391_read_def] kos.open_file [unfolded ece391_open_def] kos.open_none [unfolded ece391_open_def]
  kos.close_file [unfolded ece391_close_def] kos.close_bad [unfolded ece391_close_def] kos.getargs [unfolded ece391_getargs_def]
  kos.vidmap_bad [unfolded ece391_vidmap_def] kos.number_bad

interpretation kps: user_os "kernel_os X" "uproc X T c" prog_page "uview X" a_putc "udir X" for X T c
proof unfold_locales
  fix k m assume u: "uproc X T c k" and m: "\<And>p. p \<notin> o_tr (kernel_os X) k ` prog_page \<Longrightarrow> m p = o_mem (kernel_os X) k p"
  have "sys_inv (k\<lparr>mem := m\<rparr>) T c" using uprocD(2) [OF u] by (simp add: sys_inv_def tree_rel_def saved_def)
  then show "uproc X T c (o_set_mem (kernel_os X) m k) \<and> uview X (o_set_mem (kernel_os X) m k) = uview X k \<and>
      o_mem (kernel_os X) (o_set_mem (kernel_os X) m k) = m \<and> o_tr (kernel_os X) (o_set_mem (kernel_os X) m k) = o_tr (kernel_os X) k"
    using kos.set_mem [OF uprocD(1) [OF u] m] u by (simp add: uproc_def)
next
  fix k assume "uproc X T c k"
  then show "inj_on (o_tr (kernel_os X) k) prog_page \<and> 0 \<notin> prog_page" using kos.space uprocD(1) by blast
qed (unfold ece391_read_def ece391_write_def ece391_open_def ece391_close_def ece391_getargs_def ece391_vidmap_def,
    ((rule with_processes, assumption, rule kernel_laws, (erule uprocD(1) | assumption)+, auto)[1])+)

section \<open>Starting the program\<close>

text \<open>The screen of terminal \<open>t\<close>, in the physical page that belongs to it.\<close>

definition term_screen :: "'h kernel \<Rightarrow> nat \<Rightarrow> ascreen" where
  "term_screen k t = screen_abs (\<lambda>a. a + of_nat t * PAGE_SIZE) (screen (terminals (kbd k) ! t), mem k)"

text \<open>The system as the new program finds it when the kernel is \<open>k\<close>.\<close>

definition cmd_ctx :: "'h machine \<Rightarrow> frame \<Rightarrow> (string \<Rightarrow> addr) \<Rightarrow> (nat \<Rightarrow> u32) \<Rightarrow> bytes list \<Rightarrow> nat \<Rightarrow> 'h kernel \<Rightarrow> 'h uctx" where
  "cmd_ctx mc fr lits av names t k =
     \<lparr>u_mc = mc, u_fr = fr, u_wait = \<lambda>k. None, u_child = \<lambda>eip esp k. None, u_lit = lits, u_above = av, u_tr = cur_tr mc k,
      u_mapped = kernel_page \<union> prog_page \<union> rng VIDEO 4096, u_m0 = mem k, u_bb = bootblock k, u_names = names, u_term = t\<rparr>"

lemma cmd_ctx_simps [simp]:
  "u_mc (cmd_ctx mc fr lits av names t k) = mc" "u_fr (cmd_ctx mc fr lits av names t k) = fr"
  "u_wait (cmd_ctx mc fr lits av names t k) = (\<lambda>k. None)" "u_lit (cmd_ctx mc fr lits av names t k) = lits"
  "u_tr (cmd_ctx mc fr lits av names t k) = cur_tr mc k" "u_m0 (cmd_ctx mc fr lits av names t k) = mem k"
  "u_mapped (cmd_ctx mc fr lits av names t k) = kernel_page \<union> prog_page \<union> rng VIDEO 4096"
  "u_bb (cmd_ctx mc fr lits av names t k) = bootblock k" "u_names (cmd_ctx mc fr lits av names t k) = names"
  "u_term (cmd_ctx mc fr lits av names t k) = t"
  by (simp_all add: cmd_ctx_def)

lemma screen_view:
  assumes "scr_mem scr = VIDEO" "\<And>x. x \<in> rng VIDEO 4096 \<Longrightarrow> ld8 tr' m' x = ld8 tr m x"
  shows "screen_abs tr' (scr, m') = screen_abs tr (scr, m)"
proof -
  have "get_cell tr' VIDEO (int i) m' = get_cell tr VIDEO (int i) m" if "i < 2000" for i
    unfolding get_cell_def using that cell_in_rng(1) [of "int i" VIDEO] rng_mono [of 4000 4096 VIDEO] by (intro assms(2)) auto
  then show ?thesis using assms(1) by (simp add: screen_abs_def cells_def)
qed

lemma pages_apart:
  assumes "q \<in> {1..6}" "t < 3"
  defines "u \<equiv> KERNEL_MEM_END + (of_nat q - 1) * SPACE_4MB"
  shows "kernel_page \<inter> rng u 4194304 = {}" "rng (VIDEO + of_nat t * PAGE_SIZE) 4096 \<inter> (kernel_page \<union> rng u 4194304) = {}"
proof -
  have "q \<in> {1, 2, 3, 4, 5, 6}" "t \<in> {0, 1, 2}" using assms(1,2) by auto
  then have "kernel_page \<inter> rng u 4194304 = {}" "rng (VIDEO + of_nat t * PAGE_SIZE) 4096 \<inter> rng u 4194304 = {}"
    "rng (VIDEO + of_nat t * PAGE_SIZE) 4096 \<inter> kernel_page = {}"
    unfolding u_def by (auto intro!: rng_disjoint(1))
  then show "kernel_page \<inter> rng u 4194304 = {}" "rng (VIDEO + of_nat t * PAGE_SIZE) 4096 \<inter> (kernel_page \<union> rng u 4194304) = {}" by blast+
qed

lemma child_space:
  assumes lay: "layout_ok (m_lay mc)" "tables_ok g" "paging_shape g" and q: "q \<in> {1..6}" and t: "t < 3"
    and pg: "pg k = exec_paging mc q t g"
  shows "inj_on (cur_tr mc k) (kernel_page \<union> prog_page \<union> rng VIDEO 4096)"
    "\<And>x. x \<in> rng VIDEO 4096 \<Longrightarrow> cur_tr mc k x = x + of_nat t * PAGE_SIZE"
proof -
  let ?D = "process_pd (m_lay mc) (pds g ! (q - 1)) (of_nat q) (of_nat t)" and ?tr = "cur_tr mc k"
  let ?u = "KERNEL_MEM_END + (of_nat q - 1) * SPACE_4MB"
  have g: "pg k = g\<lparr>pds := (pds g)[q - 1 := ?D], cr3 := pd_row (q - 1)\<rparr>" by (simp add: pg exec_paging_def)
  have l: "length (pds g) = 6" "q - 1 < 6" using lay(3) q by (auto simp: paging_shape_def)
  then have len: "length (pds g ! (q - 1)) = 1024" using lay(3) by (auto simp: paging_shape_def)
  note nv = new_view [OF lay q t g, of ?tr]
  have trd: "?tr = proc_tr (m_lay mc) (pg k) (pd_of (pg k) (cr3 (pg k)))" by (simp add: cur_tr_def)
  have "pd_of (pg k) (cr3 (pg k)) = map_vidmap False ?D" using l by (simp add: g pd_of_def map_vidmap_def)
  then have tr: "?tr = proc_tr (m_lay mc) (pg k) (map_vidmap False ?D)" by (simp add: cur_tr_def)
  show V: "?tr x = x + of_nat t * PAGE_SIZE" if "x \<in> rng VIDEO 4096" for x
    using video_view(1) [OF lay(1) nv(4) [OF trd] len t that, of False "of_nat q"] by (simp add: tr proc_tr_def)
  have i: "?tr ` kernel_page \<subseteq> kernel_page" "?tr ` prog_page \<subseteq> rng ?u 4194304" "?tr ` rng VIDEO 4096 \<subseteq> rng (VIDEO + of_nat t * PAGE_SIZE) 4096"
    using image_shift [of KERNEL_LOC 4194304 ?tr 0] nv(2) [OF trd] image_shift [of PROG_VM_START 4194304 ?tr "?u - PROG_VM_START"] nv(3) [OF trd]
      image_shift [of VIDEO 4096 ?tr] V by simp_all
  have "kernel_page \<inter> rng ?u 4194304 = {}" "rng (VIDEO + of_nat t * PAGE_SIZE) 4096 \<inter> (kernel_page \<union> rng ?u 4194304) = {}"
    using pages_apart [OF q t] by blast+
  moreover have "inj_on ?tr kernel_page" using nv(2) [OF trd] by (intro inj_on_shift [of _ _ 0]) simp
  moreover have "inj_on ?tr prog_page" using nv(3) [OF trd] by (rule inj_on_shift)
  moreover have "inj_on ?tr (rng VIDEO 4096)" using V by (rule inj_on_shift)
  ultimately show "inj_on ?tr (kernel_page \<union> prog_page \<union> rng VIDEO 4096)"
    using i unfolding inj_on_Un by blast
qed

lemma udir_seen:
  assumes wf: "fs_wf (cur_tr mc k) (mem k) (bootblock k)" "dir_names (cur_tr mc k) (mem k) (bootblock k) names"
      "\<forall>x \<in> set names. length x < 64" and bb: "bootblock k' = bootblock k"
    and v: "\<forall>x \<in> rng (bootblock k) (fs_size (cur_tr mc k) (mem k) (bootblock k)). ld8 (cur_tr mc k') (mem k') x = ld8 (cur_tr mc k) (mem k) x"
  shows "udir (cmd_ctx mc fr lits av names t k') = udir (cmd_ctx mc fr lits av names t k)"
proof
  fix xs
  note s = fs_seen [OF wf v]
  show "udir (cmd_ctx mc fr lits av names t k') xs = udir (cmd_ctx mc fr lits av names t k) xs"
  proof (cases "first_index xs names")
    case (Some j)
    then have "j < length names" using first_index_Some by blast
    then show ?thesis using Some s(3) s(5) s(6,7) [of j] by (simp add: udir_def Let_def bb)
  qed (simp add: udir_def)
qed

text \<open>
  What a command needs: process \<open>c\<close> runs and calls \<open>execute\<close>, a process is running on the terminal that
  is on the screen, a process slot is free, the command line names an executable, and the terminal of
  the caller is in order.
\<close>

definition can_run ::
  "'h machine \<Rightarrow> frame \<Rightarrow> addr set \<Rightarrow> bytes list \<Rightarrow> addr \<Rightarrow> bytes \<Rightarrow> u32 \<Rightarrow> 'h kernel \<Rightarrow> ptree \<Rightarrow> nat \<Rightarrow> bool" where
  "can_run mc fr mapped names command xs exe k T c \<longleftrightarrow>
     sys_inv k T c \<and> on_stack k c \<and> t_act T (visible k) \<noteq> None \<and> \<not> {1..6} \<subseteq> t_live T \<and>
     inj_on (cur_tr mc k) mapped \<and> (\<forall>x \<in> kernel_page. cur_tr mc k x = x) \<and>
     command_ok (cur_tr mc k) (mem k) (bootblock k) mapped names command xs fr exe \<and>
     (\<forall>j < length names. dentry_ftype (cur_tr mc k) (mem k) (bootblock_dentry (bootblock k) (of_nat j)) \<in> {0, 1, 2}) \<and>
     layout_ok (m_lay mc) \<and> tables_ok (pg k) \<and> paging_shape (pg k) \<and> devices_good (ptab k) \<and>
     length (terminals (kbd k)) = 3 \<and> screen_wf (screen (terminals (kbd k) ! t_term T c)) \<and>
     scr_mem (screen (terminals (kbd k) ! t_term T c)) = VIDEO \<and> (\<forall>a. length (args (pcbs k a)) = 128)"

lemma lowest_free:
  assumes "\<not> {1..6} \<subseteq> {p. proc_live s p}"
  obtains q where "q \<in> {1..6}" "\<not> proc_live s q" "\<forall>r \<in> {1..<q}. proc_live s r"
proof -
  have "\<exists>q. q \<in> {1..6} \<and> \<not> proc_live s q" using assms by blast
  then obtain q where "q \<in> {1..6} \<and> \<not> proc_live s q" "\<forall>r < q. \<not> (r \<in> {1..6} \<and> \<not> proc_live s r)"
    unfolding exists_least_iff [of "\<lambda>q. q \<in> {1..6} \<and> \<not> proc_live s q"] by blast
  then show thesis using that [of q] by auto
qed

lemma devices_set_active [simp]: "devices (snd (set_active_process t p s)) = devices s"
  by (simp add: set_active_process_def)

lemma child_static:
  assumes lay: "layout_ok (m_lay mc)" "tables_ok g" "paging_shape g" "q \<in> {1..6}" "t < 3" "pg k = exec_paging mc q t g"
    and fs: "fs_wf (cur_tr mc k) (mem k) (bootblock k)" "dir_names (cur_tr mc k) (mem k) (bootblock k) names"
      "\<forall>x \<in> set names. length x < 64" "rng (bootblock k) (fs_size (cur_tr mc k) (mem k) (bootblock k)) \<subseteq> kernel_page"
      "\<forall>j < length names. dentry_ftype (cur_tr mc k) (mem k) (bootblock_dentry (bootblock k) (of_nat j)) \<in> {0, 1, 2}"
    and fr: "rng (fr_dentry fr) 64 \<subseteq> kernel_page"
      "rng (bootblock k) (fs_size (cur_tr mc k) (mem k) (bootblock k)) \<inter> rng (fr_dentry fr) 64 = {}"
  shows "ustatic (cmd_ctx mc fr lits av names t k)"
proof -
  have "prog_page \<inter> kernel_page = {}" "prog_page \<inter> rng VIDEO 4000 = {}" "kernel_page \<inter> rng VIDEO 4000 = {}"
    by (simp_all add: rng_disjoint)
  moreover have "rng VIDEO 4000 \<subseteq> rng VIDEO 4096" by (rule rng_mono) simp
  ultimately show ?thesis
    unfolding ustatic_def fs_region_def cmd_ctx_simps using child_space(1) [OF lay] fs fr lay(5) by blast
qed

lemma execute_enters:
  assumes run: "can_run mc fr mapped names command xs exe k T c" and t: "t = t_term T c"
    and fil: "file = file_bytes (cur_tr mc k) (mem k) (bootblock k) exe"
  obtains q k1 where
    "execute mc fr command k = Some (Enter_user (word_of_bytes (file ! 24) (file ! 25) (file ! 26) (file ! 27)) 0x83FFFFC, k1)"
    "load_bytes (cur_tr mc k1) (mem k1) START_EXE_ADDR (length file) = file"
    "pg k1 = exec_paging mc q t (pg k)" "devices (ptab k1) = devices (ptab k)"
    "child_ok fr k q (cmd_args xs) (upcb k1)" "kbd k1 = kbd k" "bootblock k1 = bootblock k" "length (args (upcb k1)) = 128"
    "\<forall>x \<in> rng (bootblock k) (fs_size (cur_tr mc k) (mem k) (bootblock k)). ld8 (cur_tr mc k1) (mem k1) x = ld8 (cur_tr mc k) (mem k) x"
    "\<forall>p. p \<notin> kernel_page \<union> rng (KERNEL_MEM_END + (of_nat q - 1) * SPACE_4MB) 4194304 \<longrightarrow> mem k1 p = mem k p"
    "q \<in> {1..6}" "q \<notin> t_live T" "sys_inv k1 (t_exec c q T) q" "t < 3" "exec_term k = of_nat t"
proof -
  note ok = run [unfolded can_run_def]
  have inv: "sys_inv k T c" and st: "on_stack k c" and vis: "t_act T (visible k) \<noteq> None"
    and lay: "layout_ok (m_lay mc)" "tables_ok (pg k)" "paging_shape (pg k)"
    and cok: "command_ok (cur_tr mc k) (mem k) (bootblock k) mapped names command xs fr exe" using ok by blast+
  note cmd = cok [unfolded command_ok_def]
  have tree: "tree_ok T" "tree_rel k T" "visible k < 3" using inv by (simp_all add: sys_inv_def)
  have t3: "t < 3" and et: "exec_term k = of_nat t"
    using running_pcb(4,5) [OF inv st] running_visible [OF tree] vis by (simp_all add: t exec_term_def pcb_ok_def)
  have "\<not> {1..6} \<subseteq> {p. proc_live (ptab k) p}" using ok tree(2) by (simp add: tree_rel_def)
  then obtain q where q: "q \<in> {1..6}" "\<not> proc_live (ptab k) q" "\<forall>r \<in> {1..<q}. proc_live (ptab k) r" by (rule lowest_free)
  obtain k1 where ex: "execute mc fr command k =
      Some (Enter_user (word_of_bytes (file ! 24) (file ! 25) (file ! 26) (file ! 27)) 0x83FFFFC, k1)"
    and ld: "load_bytes (cur_tr mc k1) (mem k1) START_EXE_ADDR (length file) = file"
    and pg: "pg k1 = exec_paging mc q t (pg k)" and pt: "devices (ptab k1) = devices (ptab k)"
    and ch: "child_ok fr k q (cmd_args xs) (pcbs k1 (pcb_addr (of_nat q)))" and kb: "kbd k1 = kbd k" and bb: "bootblock k1 = bootblock k"
    and al: "length (args (pcbs k1 (pcb_addr (of_nat q)))) = 128"
    and seen: "\<forall>x \<in> rng (bootblock k) (fs_size (cur_tr mc k) (mem k) (bootblock k)). ld8 (cur_tr mc k1) (mem k1) x = ld8 (cur_tr mc k) (mem k) x"
    and frame: "\<forall>p. p \<notin> kernel_page \<union> rng (KERNEL_MEM_END + (of_nat q - 1) * SPACE_4MB) 4194304 \<longrightarrow> mem k1 p = mem k p"
    using execute_start_eq [OF address_space.intro _ cok lay q et t3 fil refl] ok by auto
  obtain q' where q': "q' \<notin> t_live T" "sys_inv k1 (t_exec c q' T) q'" using execute_child [OF inv st vis ex] by blast
  have "1 \<le> q'" using tree_okD(4) [of "t_exec c q' T" "t_term (t_exec c q' T) q'" q'] tree_okD(1) [of "t_exec c q' T" q'] q'(2) by (auto simp: sys_inv_def)
  moreover have "q' - 1 = q - 1" using q'(2) pg by (simp add: sys_inv_def exec_paging_def)
  ultimately have qq: "q' = q" using q(1) by (cases q; cases q') auto
  have up: "upcb k1 = pcbs k1 (pcb_addr (of_nat q))"
    using kernel_stack_of(2) [OF q'(2)] by (simp add: on_stack_def qq flip: on_kernel_stack_simps(8)) (simp add: cur_pcb_def on_kernel_stack_def)
  show thesis
    using that [of k1 q] ex ld pg pt ch kb bb al seen frame q(1) q' t3 et unfolding qq up by blast
qed

lemma program_started:
  assumes run: "can_run mc fr mapped names command xs exe k T c" and t: "t = t_term T c"
    and fil: "file = file_bytes (cur_tr mc k) (mem k) (bootblock k) exe"
  shows "\<exists>e q k1. handle_syscall mc fr 2 command ecx edx k = Some (Flow (Enter_user e 0x83FFFFC), k1) \<and> q \<notin> t_live T \<and>
    uproc (cmd_ctx mc fr lits av names t k1) (t_exec c q T) q k1 \<and> prog_args k1 = cmd_args xs \<and>
    ufiles (cmd_ctx mc fr lits av names t k1) (files (upcb k1)) = (\<lambda>i. None) \<and>
    udir (cmd_ctx mc fr lits av names t k1) = udir (cmd_ctx mc fr lits av names t k) \<and>
    prog_screen (cmd_ctx mc fr lits av names t k1) k1 = term_screen k t \<and>
    (\<forall>x \<in> rng VIDEO 4096. cur_tr mc k1 x = x + of_nat t * PAGE_SIZE) \<and>
    load_bytes (cur_tr mc k1) (mem k1) START_EXE_ADDR (length file) = file"
proof -
  note ok = run [unfolded can_run_def]
  have lay: "layout_ok (m_lay mc)" "tables_ok (pg k)" "paging_shape (pg k)" and rel: "tree_rel k T"
    and cok: "command_ok (cur_tr mc k) (mem k) (bootblock k) mapped names command xs fr exe" using ok by (auto simp: sys_inv_def)
  note cmd = cok [unfolded command_ok_def]
  obtain q k1 where ex: "execute mc fr command k =
      Some (Enter_user (word_of_bytes (file ! 24) (file ! 25) (file ! 26) (file ! 27)) 0x83FFFFC, k1)"
    and ld: "load_bytes (cur_tr mc k1) (mem k1) START_EXE_ADDR (length file) = file"
    and pg: "pg k1 = exec_paging mc q t (pg k)" and pt: "devices (ptab k1) = devices (ptab k)"
    and ch: "child_ok fr k q (cmd_args xs) (upcb k1)" and kb: "kbd k1 = kbd k" and bb: "bootblock k1 = bootblock k"
    and al: "length (args (upcb k1)) = 128"
    and seen: "\<forall>x \<in> rng (bootblock k) (fs_size (cur_tr mc k) (mem k) (bootblock k)). ld8 (cur_tr mc k1) (mem k1) x = ld8 (cur_tr mc k) (mem k) x"
    and frame: "\<forall>p. p \<notin> kernel_page \<union> rng (KERNEL_MEM_END + (of_nat q - 1) * SPACE_4MB) 4194304 \<longrightarrow> mem k1 p = mem k p"
    and q: "q \<in> {1..6}" "q \<notin> t_live T" "sys_inv k1 (t_exec c q T) q" and t3: "t < 3" and et: "exec_term k = of_nat t"
    by (rule execute_enters [OF run t fil])
  let ?X = "cmd_ctx mc fr lits av names t k1"
  have fs: "fs_wf (cur_tr mc k) (mem k) (bootblock k)" "dir_names (cur_tr mc k) (mem k) (bootblock k) names" "\<forall>x \<in> set names. length x < 64"
    using cmd by blast+
  note s = fs_seen [OF fs seen]
  have "rng (fr_dentry fr) 64 \<subseteq> kernel_page" "rng (bootblock k) (fs_size (cur_tr mc k) (mem k) (bootblock k)) \<inter> rng (fr_dentry fr) 64 = {}"
    using cmd unfolding frame_ok_def by blast+
  then have static: "ustatic ?X"
    using s(1,2,4,6) cmd ok fs(3) by (intro child_static [OF lay q(1) t3 pg]) (simp_all add: bb)
  have len: "length (cmd_args xs) < 127" "0 \<notin> set (cmd_args xs)"
    using cmd cmd_lengths(2) [of xs] cmd_no_nul(2) [of xs] by (auto simp: cstring_def)
  have p: "files (upcb k1) = init_files fr (Some term_fops)" "term_num (upcb k1) = of_nat t" "args_len (upcb k1) = of_nat (length (cmd_args xs))"
    "take (length (cmd_args xs)) (args (upcb k1)) = cmd_args xs"
    using ch et tree_relD(2) [OF rel] by (simp_all add: child_ok_def)
  have n: "unat (of_nat (length (cmd_args xs)) :: u32) = length (cmd_args xs)" using len(1) by (intro unat_of_nat_u32) simp
  have "pcb_good ?X (upcb k1)" using len al p n by (simp add: pcb_good_def fds_ok_init)
  moreover have "kbd_good ?X (kbd k1)" using ok t3 by (simp add: kbd_good_def kb t)
  moreover have "devices_good (ptab k1)" using ok by (simp only: devices_good_def get_device_fops_def pt)
  ultimately have "uinv ?X k1" using static by (simp add: uinv_def udyn_def fs_same_def)
  then have u: "uproc ?X (t_exec c q T) q k1" using q(3) by (simp add: uproc_def)
  have none: "ufiles ?X (files (upcb k1)) = (\<lambda>i. None)"
    by (auto simp: fun_eq_iff ufiles_def fd_live_def p(1) init_files_def nth_Cons split: nat.splits)
  have scr: "scr_mem (screen (terminals (kbd k) ! t)) = VIDEO" using ok by (simp add: t)
  have "ld8 (cur_tr mc k1) (mem k1) x = ld8 (\<lambda>a. a + of_nat t * PAGE_SIZE) (mem k) x" if "x \<in> rng VIDEO 4096" for x
  proof -
    have "x + of_nat t * PAGE_SIZE \<in> rng (VIDEO + of_nat t * PAGE_SIZE) 4096" using that rng_shift by simp
    then show ?thesis using pages_apart(2) [OF q(1) t3] frame child_space(2) [OF lay q(1) t3 pg that] by (auto simp: ld8_def)
  qed
  from screen_view [OF scr this] have ps: "prog_screen ?X k1 = term_screen k t" by (simp add: prog_screen_def term_screen_def kb)
  have pa: "prog_args k1 = cmd_args xs" using p(3,4) n by (simp add: prog_args_def)
  have ud: "udir ?X = udir (cmd_ctx mc fr lits av names t k)" by (rule udir_seen [OF fs bb seen])
  show ?thesis using ex u none ps pa ud ld q(2) child_space(2) [OF lay q(1) t3 pg] by (auto simp: handle_syscall_def sys_flow_def)
qed

section \<open>Ending the program\<close>

lemma sys_inv_restored:
  assumes "sys_inv k T c" "q \<notin> t_live T" "sys_inv k' (t_halt q (t_exec c q T)) c"
  shows "sys_inv k' T c"
proof -
  let ?T = "t_halt q (t_exec c q T)"
  have c: "t_act T (t_term T c) = Some c" "tree_ok T" using assms(1) by (simp_all add: sys_inv_def)
  then have "c \<in> t_live T" using tree_okD(4) by blast
  then have "c \<noteq> q" using assms(2) by blast
  then have t: "t_live ?T = t_live T" "t_act ?T = t_act T" "t_term ?T c = t_term T c"
    using assms(2) c(1) by (auto simp: t_halt_def t_exec_def fun_eq_iff)
  have p: "t_par ?T p = t_par T p" "t_term ?T p = t_term T p" if "p \<in> t_live T" for p
    using that assms(2) by (auto simp: t_halt_def t_exec_def)
  then have "tree_rel k' T" using assms(3) t by (simp add: sys_inv_def tree_rel_def pcb_ok_def)
  then show ?thesis using assms(3) c t by (simp add: sys_inv_def)
qed

lemma program_ended:
  assumes "uproc X (t_exec c q T) q k2" "sys_inv k T c" "q \<notin> t_live T"
  shows "\<exists>k3. handle_syscall (u_mc X) (u_fr X) 1 status ecx edx (on_kernel_stack k2) = Some (Flow (Resume_parent (ucast status)), k3) \<and>
    sys_inv k3 T c \<and> mem k3 = mem k2 \<and> kbd k3 = kbd k2"
proof -
  note st = kernel_stack_of [OF uprocD(2) [OF assms(1)]]
  have p: "t_par (t_exec c q T) q = Some c" by (simp add: t_exec_def)
  obtain k3 where k3: "halt (u_mc X) (u_fr X) (ucast status) (on_kernel_stack k2) = Some (Resume_parent (ucast status), k3)"
    "mem k3 = mem k2" "kbd k3 = kbd k2"
    using halt_eq [OF halt_parent(3,1,2) [OF st p], of "u_mc X" "u_fr X" "ucast status"] by auto
  moreover have "sys_inv k3 T c" using sys_inv_restored [OF assms(2,3)] halt_child [OF st p k3(1)] by blast
  ultimately show ?thesis by (simp add: handle_syscall_def sys_flow_def)
qed

lemma screen_after:
  assumes "uinv X k2" "mem k3 = mem k2" "kbd k3 = kbd k2" "u_term X = t"
    and "\<And>x. x \<in> rng VIDEO 4096 \<Longrightarrow> u_tr X x = x + of_nat t * PAGE_SIZE"
  shows "term_screen k3 t = prog_screen X k2"
proof -
  have "scr_mem (screen (terminals (kbd k2) ! t)) = VIDEO" using uinvD(7) [OF assms(1)] assms(4) by (simp add: kbd_good_def)
  then show ?thesis
    using screen_view [of "screen (terminals (kbd k2) ! t)" "\<lambda>a. a + of_nat t * PAGE_SIZE" "mem k2" "u_tr X" "mem k2"] assms uinvD(3) [OF assms(1)]
    by (simp add: term_screen_def prog_screen_def ld8_def)
qed

section \<open>The whole command\<close>

text \<open>
  \<open>run_command\<close> is what happens between a program's call of \<open>execute\<close> and its return: the kernel either
  refuses or enters the new process; its program runs from \<open>_start\<close>, which calls \<open>main\<close> and then halts
  with the value that \<open>main\<close> returns; the caller goes on in \<open>execute\<close> with the status. \<open>ctx\<close> gives the
  system as the new program finds it.
\<close>

definition run_command ::
  "'h machine \<Rightarrow> frame \<Rightarrow> ('h kernel \<Rightarrow> 'h uctx) \<Rightarrow> ('h kernel os \<Rightarrow> 'h kernel \<Rightarrow> (u32 \<times> 'h kernel) option) \<Rightarrow>
   addr \<Rightarrow> 'h kernel \<Rightarrow> (u32 \<times> 'h kernel) option" where
  "run_command mc fr cx main command k = do {
     (out, k) \<leftarrow> handle_syscall mc fr 2 command 0 0 k;
     case out of
       Flow (Ret v) \<Rightarrow> Some (v, k)
     | Flow (Enter_user eip esp) \<Rightarrow> do {
         (v, k) \<leftarrow> main (kernel_os (cx k)) k;
         (out, k) \<leftarrow> handle_syscall mc fr 1 v 0 0 (on_kernel_stack k);
         case out of Flow (Resume_parent status) \<Rightarrow> Some (execute_return status, k) | _ \<Rightarrow> None }
     | _ \<Rightarrow> None }"

text \<open>The executable has the literals of the program where the program expects them.\<close>

definition has_lits :: "bytes \<Rightarrow> (string \<Rightarrow> addr) \<Rightarrow> string list \<Rightarrow> bool" where
  "has_lits file lits L \<longleftrightarrow> (\<forall>l \<in> set L. 0 \<notin> set (lit l) \<and> (\<exists>off. lits l = START_EXE_ADDR + of_nat off \<and>
     off + length l < length file \<and> take (Suc (length l)) (drop off file) = lit l @ [0]))"

lemma lits_loaded:
  assumes "has_lits file lits L" "load_bytes (cur_tr mc k) (mem k) START_EXE_ADDR (length file) = file" "length file \<le> 0x3B8000"
    and "rng START_EXE_ADDR (length file) \<subseteq> R"
  shows "lits_at (kernel_os (cmd_ctx mc fr lits av names t k)) R L k"
  unfolding lits_at_def
proof
  fix l assume l: "l \<in> set L"
  then obtain off where off: "lits l = START_EXE_ADDR + of_nat off" "off + length l < length file"
    "take (Suc (length l)) (drop off file) = lit l @ [0]" and nz: "0 \<notin> set (lit l)"
    using assms(1) unfolding has_lits_def by blast
  have b: "ld8 (cur_tr mc k) (mem k) (lits l + of_nat i) = (lit l @ [0]) ! i" if "i \<le> length l" for i
  proof -
    have "ld8 (cur_tr mc k) (mem k) (START_EXE_ADDR + of_nat (off + i)) = file ! (off + i)"
      using that off(2) nth_load_bytes [of "off + i" "length file" "cur_tr mc k" "mem k" START_EXE_ADDR] by (simp add: assms(2))
    moreover have "take (Suc (length l)) (drop off file) ! i = file ! (off + i)" using that off(2) by simp
    ultimately show ?thesis using off(1,3) by (simp add: add.assoc)
  qed
  have "load_bytes (cur_tr mc k) (mem k) (lits l) (length l) = lit l"
    using b by (intro load_bytes_eqI) (auto simp: nth_append)
  then have "cstring (cur_tr mc k) (mem k) (lits l) (lit l)"
    using b [of "length l"] nz off(2) assms(3) by (simp add: cstring_def nth_append)
  moreover have "rng (lits l) (Suc (length l)) \<subseteq> rng START_EXE_ADDR (length file)" unfolding off(1) using off(2) by (intro rng_sub) simp
  ultimately show "rng (o_lit (kernel_os (cmd_ctx mc fr lits av names t k)) l) (Suc (length l)) \<subseteq> R \<and>
      str_at (kernel_os (cmd_ctx mc fr lits av names t k)) k (o_lit (kernel_os (cmd_ctx mc fr lits av names t k)) l) (lit l)"
    using assms(4) by (auto simp: str_at_def)
qed

lemma run_command_ok:
  assumes run: "can_run mc fr mapped names command xs exe k T c" and t: "t = t_term T c"
    and fil: "file = file_bytes (cur_tr mc k) (mem k) (bootblock k) exe"
    and main: "\<And>q k1 X. X = cmd_ctx mc fr lits av names t k1 \<Longrightarrow> uproc X (t_exec c q T) q k1 \<Longrightarrow> prog_args k1 = cmd_args xs \<Longrightarrow>
      ufiles X (files (upcb k1)) = (\<lambda>i. None) \<Longrightarrow> udir X = udir (cmd_ctx mc fr lits av names t k) \<Longrightarrow>
      load_bytes (cur_tr mc k1) (mem k1) START_EXE_ADDR (length file) = file \<Longrightarrow>
      \<exists>k2 u. main (kernel_os X) k1 = Some (v, k2) \<and> uproc X (t_exec c q T) q k2 \<and> uview X k2 = emits a_putc bs u \<and>
        us_out u = us_out (uview X k1)"
  shows "\<exists>k'. run_command mc fr (cmd_ctx mc fr lits av names t) main command k = Some (execute_return (ucast v), k') \<and> sys_inv k' T c \<and>
    term_screen k' t = fold a_putc bs (term_screen k t)"
proof -
  obtain e q k1 where k1: "handle_syscall mc fr 2 command 0 0 k = Some (Flow (Enter_user e 0x83FFFFC), k1)" "q \<notin> t_live T"
      "uproc (cmd_ctx mc fr lits av names t k1) (t_exec c q T) q k1" "prog_args k1 = cmd_args xs"
      "ufiles (cmd_ctx mc fr lits av names t k1) (files (upcb k1)) = (\<lambda>i. None)"
      "udir (cmd_ctx mc fr lits av names t k1) = udir (cmd_ctx mc fr lits av names t k)"
      "load_bytes (cur_tr mc k1) (mem k1) START_EXE_ADDR (length file) = file"
    and scr: "prog_screen (cmd_ctx mc fr lits av names t k1) k1 = term_screen k t"
      "\<forall>x \<in> rng VIDEO 4096. cur_tr mc k1 x = x + of_nat t * PAGE_SIZE"
    using program_started [OF run t fil, of 0 0 lits av] by blast
  let ?X = "cmd_ctx mc fr lits av names t k1"
  obtain k2 u where k2: "main (kernel_os ?X) k1 = Some (v, k2)" "uproc ?X (t_exec c q T) q k2" "uview ?X k2 = emits a_putc bs u"
      "us_out u = us_out (uview ?X k1)"
    using main [OF refl k1(3-7)] by blast
  have inv: "sys_inv k T c" using run by (simp add: can_run_def)
  obtain k3 where k3: "handle_syscall mc fr 1 v 0 0 (on_kernel_stack k2) = Some (Flow (Resume_parent (ucast v)), k3)" "sys_inv k3 T c"
      "mem k3 = mem k2" "kbd k3 = kbd k2"
    using program_ended [OF k2(2) inv k1(2), of v 0 0] by auto
  have "term_screen k3 t = prog_screen ?X k2"
    using scr(2) by (intro screen_after [OF uprocD(1) [OF k2(2)] k3(3,4)]) simp_all
  also have "\<dots> = fold a_putc bs (prog_screen ?X k1)" by (rule prints_on_screen [OF uprocD(1) [OF k1(3)] uprocD(1) [OF k2(2)] k2(3,4)])
  finally show ?thesis using k1(1) k2(1) k3(1,2) scr(1) by (simp add: run_command_def)
qed

section \<open>Commands of the shell\<close>

lemma exe_region:
  assumes "can_run mc fr mapped names command xs exe k T c" "file = file_bytes (cur_tr mc k) (mem k) (bootblock k) exe"
  shows "length file \<le> 0x3B8000" "rng START_EXE_ADDR (length file) \<subseteq> prog_page" "length (cmd_args xs) < 128"
proof -
  show l: "length file \<le> 0x3B8000" using assms by (auto simp: can_run_def command_ok_def)
  have "rng (PROG_VM_START + of_nat 0x48000) (length file) \<subseteq> prog_page" using l by (intro rng_sub) simp
  then show "rng START_EXE_ADDR (length file) \<subseteq> prog_page" by simp
  show "length (cmd_args xs) < 128" using assms(1) cmd_lengths(2) [of xs] by (auto simp: can_run_def command_ok_def)
qed

lemma no_files_free: "us_free (\<lambda>i. None) = Some 2"
  using find_upt_Some [of "\<lambda>i. True" 2 8 2] by (simp add: us_free_def del: upt_rec_numeral)

text \<open>
  C4. The command \<open>cat name\<close>, from the call of \<open>execute\<close> to its return. If the directory has a regular
  file of that name, the bytes of the file appear on the terminal of the caller and \<open>execute\<close> returns
  0; if it has no entry of that name, \<open>file not found\<close> appears and \<open>execute\<close> returns 2. In both cases the
  processes are those from before the call, with the caller running, and the invariant of the kernel
  holds.
\<close>

theorem cat_command:
  assumes "can_run mc fr mapped names command xs exe k T c" "t = t_term T c" "rng buf 1024 \<subseteq> prog_page"
    and "file = file_bytes (cur_tr mc k) (mem k) (bootblock k) exe"
  shows "(\<forall>bs. udir (cmd_ctx mc fr lits av names t k) (cmd_args xs) = Some (Data bs) \<longrightarrow>
       (\<exists>k'. run_command mc fr (cmd_ctx mc fr lits av names t) (\<lambda>os. cat_main os buf) command k = Some (0, k') \<and>
          sys_inv k' T c \<and> term_screen k' t = fold a_putc bs (term_screen k t))) \<and>
     (has_lits file lits cat_literals \<and> rng START_EXE_ADDR (length file) \<inter> rng buf 1024 = {} \<and> cmd_args xs \<notin> set names \<longrightarrow>
       (\<exists>k'. run_command mc fr (cmd_ctx mc fr lits av names t) (\<lambda>os. cat_main os buf) command k = Some (2, k') \<and>
          sys_inv k' T c \<and> term_screen k' t = fold a_putc (lit ''file not found\<newline>'') (term_screen k t)))"
proof (intro conjI allI impI)
  note reg = exe_region [OF assms(1,4)] and ok = run_command_ok [OF assms(1,2,4)]
  fix bs assume d: "udir (cmd_ctx mc fr lits av names t k) (cmd_args xs) = Some (Data bs)"
  show "\<exists>k'. run_command mc fr (cmd_ctx mc fr lits av names t) (\<lambda>os. cat_main os buf) command k = Some (0, k') \<and>
    sys_inv k' T c \<and> term_screen k' t = fold a_putc bs (term_screen k t)"
    using ok [of lits av "\<lambda>os. cat_main os buf" 0 bs] kps.cat_prints [OF _ assms(3), of _ _ _ _ 2 bs] reg(3) d no_files_free
    by (fastforce simp: uview_args uview_files execute_return_def)
next
  note reg = exe_region [OF assms(1,4)] and ok = run_command_ok [OF assms(1,2,4)]
  assume a: "has_lits file lits cat_literals \<and> rng START_EXE_ADDR (length file) \<inter> rng buf 1024 = {} \<and> cmd_args xs \<notin> set names"
  have d: "udir (cmd_ctx mc fr lits av names t k) (cmd_args xs) = None" using a first_index_None [of "cmd_args xs" names] by (simp add: udir_def)
  have l: "lits_at (kernel_os (cmd_ctx mc fr lits av names t k1)) (prog_page - rng buf 1024) cat_literals k1"
    if "load_bytes (cur_tr mc k1) (mem k1) START_EXE_ADDR (length file) = file" for k1
    using a that reg(1,2) by (intro lits_loaded) auto
  show "\<exists>k'. run_command mc fr (cmd_ctx mc fr lits av names t) (\<lambda>os. cat_main os buf) command k = Some (2, k') \<and>
    sys_inv k' T c \<and> term_screen k' t = fold a_putc (lit ''file not found\<newline>'') (term_screen k t)"
    using ok [of lits av "\<lambda>os. cat_main os buf" 2 "lit ''file not found\<newline>''"] kps.cat_not_found [OF _ assms(3)] reg(3) d l
    by (fastforce simp: uview_args uview_files execute_return_def)
qed

text \<open>
  For the example: an image at \<open>0x500000\<close> with the executable \<open>cat\<close>, whose literals begin at byte 40, and
  the file \<open>hi\<close>. Process 2 of \<open>kernel3\<close> calls \<open>execute\<close> with the command line \<open>xs\<close> at \<open>0x600000\<close>.
\<close>

definition seg :: "addr \<Rightarrow> bytes \<Rightarrow> memory \<Rightarrow> memory" where
  "seg base bs m a = (if unat (a - base) < length bs then bs ! unat (a - base) else m a)"

definition cat_exe :: bytes where
  "cat_exe = [0x7F, 0x45, 0x4C, 0x46] @ replicate 20 0 @ [0x18, 0x80, 0x04, 0x08] @ replicate 12 0 @
     lit ''could not read arguments\<newline>'' @ 0 # lit ''file not found\<newline>'' @ 0 # lit ''file read failed\<newline>'' @ [0]"

definition cat_lit :: "string \<Rightarrow> addr" where
  "cat_lit l = (if l = ''could not read arguments\<newline>'' then 0x8048028 else if l = ''file not found\<newline>'' then 0x8048042 else 0x8048052)"

definition cmd_disk :: memory where
  "cmd_disk = (\<lambda>a. 0)(0x500000 := 2, 0x500004 := 2, 0x500008 := 2, 0x500040 := 99, 0x500041 := 97, 0x500042 := 116, 0x500060 := 2,
     0x500080 := 104, 0x500081 := 105, 0x5000A0 := 2, 0x5000A4 := 1, 0x501000 := 100, 0x502000 := 3, 0x502004 := 1,
     0x504000 := 97, 0x504001 := 98, 0x504002 := 99)"

definition cmd_mem :: "bytes \<Rightarrow> memory" where
  "cmd_mem xs = seg 0x600000 xs (seg 0x503000 cat_exe cmd_disk)"

definition cmd_kernel :: "bytes \<Rightarrow> nat kernel" where
  "cmd_kernel xs = kernel3\<lparr>mem := cmd_mem xs, bootblock := 0x500000, pg := elf_paging\<lparr>cr3 := pd_row 1\<rparr>\<rparr>"

lemma length_cat_exe: "length cat_exe = 100"
  by (simp add: cat_exe_def)

lemma seg_out: "length bs \<le> unat (a - base) \<Longrightarrow> seg base bs m a = m a"
  by (simp add: seg_def)

lemma cmd_mem_low:
  assumes "length xs < 64" "unat (a - 0x500000) < 0x3000 \<or> unat (a - 0x504000) < 0x1000"
  shows "cmd_mem xs a = cmd_disk a"
proof -
  have "a \<in> rng 0x500000 0x3000 \<union> rng 0x504000 0x1000" using assms(2) by (auto simp: rng_def)
  moreover have "(rng 0x500000 0x3000 \<union> rng 0x504000 0x1000) \<inter> (rng 0x503000 100 \<union> rng 0x600000 64) = {}"
    by (simp add: Int_Un_distrib Int_Un_distrib2 rng_disjoint)
  ultimately have "a \<notin> rng 0x503000 100" "a \<notin> rng 0x600000 64" by blast+
  then show ?thesis using assms(1) by (simp add: cmd_mem_def seg_def length_cat_exe rng_def)
qed

lemma cmd_words:
  assumes "length xs < 64"
  shows "dir_entries_cnt (\<lambda>a. a) (cmd_mem xs) 0x500000 = 2" "inode_cnt (\<lambda>a. a) (cmd_mem xs) 0x500000 = 2"
    "data_block_cnt (\<lambda>a. a) (cmd_mem xs) 0x500000 = 2" "fs_size (\<lambda>a. a) (cmd_mem xs) 0x500000 = 20480"
    "file_len (\<lambda>a. a) (cmd_mem xs) 0x500000 0 = 100" "file_len (\<lambda>a. a) (cmd_mem xs) 0x500000 1 = 3"
    "inode_data_block (\<lambda>a. a) (cmd_mem xs) (get_inode_ptr 0x500000 0) 0 = 0"
    "inode_data_block (\<lambda>a. a) (cmd_mem xs) (get_inode_ptr 0x500000 1) 0 = 1"
    "dentry_ftype (\<lambda>a. a) (cmd_mem xs) (bootblock_dentry 0x500000 0) = 2" "dentry_inode (\<lambda>a. a) (cmd_mem xs) (bootblock_dentry 0x500000 0) = 0"
    "dentry_ftype (\<lambda>a. a) (cmd_mem xs) (bootblock_dentry 0x500000 1) = 2" "dentry_inode (\<lambda>a. a) (cmd_mem xs) (bootblock_dentry 0x500000 1) = 1"
    "cstring (\<lambda>a. a) (cmd_mem xs) (bootblock_dentry 0x500000 0) [99, 97, 116]"
    "cstring (\<lambda>a. a) (cmd_mem xs) (bootblock_dentry 0x500000 1) [104, 105]"
  by (simp_all add: dir_entries_cnt_def inode_cnt_def data_block_cnt_def fs_size_def file_len_def inode_length_def inode_data_block_def
      get_inode_ptr_def dentry_ftype_def dentry_inode_def bootblock_dentry_def cstring_def ld32_def ld8_def word_of_bytes_def
      cmd_mem_low [OF assms] cmd_disk_def)

lemma cmd_files:
  assumes "length xs < 64"
  shows "file_bytes (\<lambda>a. a) (cmd_mem xs) 0x500000 0 = cat_exe" "file_bytes (\<lambda>a. a) (cmd_mem xs) 0x500000 1 = [97, 98, 99]"
proof -
  note w = cmd_words [OF assms]
  have "cmd_mem xs (0x503000 + of_nat i) = cat_exe ! i" if "i < 100" for i
  proof -
    have "0x503000 + of_nat i \<in> rng 0x503000 100" using that by (intro rng_offset) auto
    moreover have "rng 0x503000 100 \<inter> rng 0x600000 64 = {}" by (simp add: rng_disjoint)
    ultimately have "0x503000 + of_nat i \<notin> rng 0x600000 64" by blast
    then show ?thesis using that assms by (simp add: cmd_mem_def seg_def length_cat_exe rng_def unat_of_nat_u32)
  qed
  then have "map (file_byte (\<lambda>a. a) (cmd_mem xs) 0x500000 0) [0..<100] = cat_exe"
    by (intro nth_equalityI) (simp_all add: length_cat_exe file_byte_def block_addr_def w ld8_def del: upt_rec_numeral)
  then show "file_bytes (\<lambda>a. a) (cmd_mem xs) 0x500000 0 = cat_exe" by (simp only: file_bytes_def w(5))
  show "file_bytes (\<lambda>a. a) (cmd_mem xs) 0x500000 1 = [97, 98, 99]"
    by (simp add: file_bytes_def w(6) file_byte_def block_addr_def w upt_rec numeral_3_eq_3)
      (simp add: ld8_def cmd_mem_low [OF assms] cmd_disk_def)
qed

lemma cmd_tr: "cur_tr sample_machine (cmd_kernel xs) = (\<lambda>a. a)"
proof -
  have "pg (cmd_kernel xs) = elf_paging\<lparr>cr3 := pd_row 1\<rparr>" by (simp add: cmd_kernel_def)
  then show ?thesis
    using tables_ok_on [OF elf_paging_ok(1)]
    by (intro cur_tr_flat) (simp_all add: paging_on_def, simp add: elf_paging_def flat_paging_def pd_of_def)
qed

lemma cmd_wf: "length xs < 64 \<Longrightarrow> fs_wf (\<lambda>a. a) (cmd_mem xs) 0x500000"
proof -
  assume "length xs < 64"
  note w = cmd_words [OF this]
  have k: "k * 4096 < 100 \<longleftrightarrow> k = 0" "k * 4096 < 3 \<longleftrightarrow> k = 0" for k :: nat by (cases k; auto)+
  have "inode_wf (\<lambda>a. a) (cmd_mem xs) 0x500000 0" "inode_wf (\<lambda>a. a) (cmd_mem xs) 0x500000 1"
    by (simp_all add: inode_wf_def w k)
  then have "inode_wf (\<lambda>a. a) (cmd_mem xs) 0x500000 (of_nat k)" if "k < 2" for k using that by (cases "k = 0") (auto simp: less_2_cases_iff)
  then show ?thesis by (simp add: fs_wf_def w)
qed

lemma cmd_line_ok:
  assumes "length xs < 64" "0 \<notin> set xs" "cmd_word xs = [99, 97, 116]"
  shows "command_ok (\<lambda>a. a) (cmd_mem xs) 0x500000 UNIV [[99, 97, 116], [104, 105]] 0x600000 xs elf_frame 0"
proof -
  note w = cmd_words [OF assms(1)]
  have "cmd_mem xs (0x600000 + of_nat i) = (if i < length xs then xs ! i else 0)" if "i \<le> length xs" for i
  proof -
    have "0x600000 + of_nat i \<in> rng 0x600000 64" using that assms(1) by (intro rng_offset) auto
    moreover have "rng 0x600000 64 \<inter> (rng 0x503000 100 \<union> rng 0x500000 0x5000) = {}" by (simp add: Int_Un_distrib rng_disjoint)
    ultimately have "0x600000 + of_nat i \<notin> rng 0x503000 100" "0x600000 + of_nat i \<notin> rng 0x500000 0x5000" by blast+
    moreover have "cmd_disk a = 0" if "a \<notin> rng 0x500000 0x5000" for a using that by (auto simp: cmd_disk_def rng_def)
    ultimately show ?thesis using that assms(1) by (simp add: cmd_mem_def seg_def length_cat_exe rng_def unat_of_nat_u32) auto
  qed
  then have c: "cstring (\<lambda>a. a) (cmd_mem xs) 0x600000 xs"
    using assms(1,2) by (auto simp: cstring_def ld8_def intro!: load_bytes_eqI)
  have img: "rng 0x500000 20480 \<subseteq> kernel_page" using rng_sub [of "0x100000" 20480 4194304 KERNEL_LOC] by simp
  have "frame_ok elf_frame (rng 0x600000 64 \<union> rng 0x500000 20480)"
    using rng_sub [of "0x3F0000" 128 4194304 KERNEL_LOC] rng_sub [of "0x3F0100" 128 4194304 KERNEL_LOC]
      rng_sub [of "0x3F0200" 40 4194304 KERNEL_LOC] rng_sub [of "0x3F0300" 64 4194304 KERNEL_LOC]
    by (simp add: frame_ok_def elf_frame_def Int_Un_distrib Int_Un_distrib2 rng_disjoint)
  moreover have "rng 0x600000 (Suc (length xs)) \<subseteq> rng 0x600000 64" using assms(1) by (intro rng_mono) simp
  ultimately have fr: "frame_ok elf_frame (rng 0x600000 (Suc (length xs)) \<union> rng 0x500000 20480)" unfolding frame_ok_def by blast
  have d: "dir_names (\<lambda>a. a) (cmd_mem xs) 0x500000 [[99, 97, 116], [104, 105]]"
    using w(13,14) by (simp add: dir_names_def w(1) All_less_Suc)
  have j: "first_index (cmd_word xs) [[99, 97, 116], [104, 105]] = Some 0" by (simp add: assms(3) first_index_def)
  show ?thesis
    unfolding command_ok_def using c img fr d j cmd_wf [OF assms(1)] cmd_files(1) [OF assms(1)] assms(1)
    by (simp add: w cat_exe_def)
qed

lemma cmd_can_run:
  assumes "length xs < 64" "0 \<notin> set xs" "cmd_word xs = [99, 97, 116]"
  shows "can_run sample_machine elf_frame UNIV [[99, 97, 116], [104, 105]] 0x600000 xs 0 (cmd_kernel xs) tree3 2"
proof -
  let ?k = "cmd_kernel xs"
  have f: "mem ?k = cmd_mem xs" "bootblock ?k = 0x500000" "pg ?k = elf_paging\<lparr>cr3 := pd_row 1\<rparr>" "kbd ?k = demo_kbd" "ptab ?k = ptab kernel3"
    "pcbs ?k = pcbs kernel3" by (simp_all add: cmd_kernel_def demo_kbd_def)
  have "quiet kernel3 ?k" by (rule quiet_simple) (simp_all add: cmd_kernel_def)
  then have inv: "sys_inv ?k tree3 2" by (rule quiet_inv [OF kernel3_inv])
  have st: "on_stack ?k 2" using kernel3_inv(2) by (simp add: cmd_kernel_def on_stack_def cur_pcb_at_def)
  have pg: "tables_ok (pg ?k)" "paging_shape (pg ?k)" using elf_paging_ok by (simp_all add: f(3) tables_ok_def paging_on_def paging_shape_def)
  have dev: "devices_good (ptab ?k)" by (simp add: f(5) devices_good_def get_device_fops_def sample_ptab_def word_le_nat_alt)
  have al: "length (args (pcbs ?k a)) = 128" for a by (simp add: f(6) kernel3_def pcb3_def sample_pcb_def)
  have "4 \<in> {1..6} - t_live tree3" by (simp add: tree3_def)
  then have t: "\<not> {1..6} \<subseteq> t_live tree3" "t_act tree3 (visible ?k) \<noteq> None" "t_term tree3 2 = 0" by (blast, simp_all add: f(4) tree3_def)
  show ?thesis
    unfolding can_run_def using inv st t pg dev al cmd_line_ok [OF assms] cmd_words(9,11) [OF assms(1)] sample_layout_ok
    by (simp add: cmd_tr f(1,2,4) All_less_Suc demo_term_def screen_wf_def)
qed

lemma cat_has_lits: "has_lits cat_exe cat_lit cat_literals"
  unfolding has_lits_def length_cat_exe
proof
  let ?at = "\<lambda>l off. 0 \<notin> set (lit l) \<and> cat_lit l = START_EXE_ADDR + of_nat off \<and> off + length l < 100 \<and>
    take (Suc (length l)) (drop off cat_exe) = lit l @ [0]"
  have at: "?at ''could not read arguments\<newline>'' 40" "?at ''file not found\<newline>'' 66" "?at ''file read failed\<newline>'' 82"
    by (simp_all add: cat_lit_def cat_exe_def)
  fix l assume "l \<in> set cat_literals"
  then have "l = ''could not read arguments\<newline>'' \<or> l = ''file not found\<newline>'' \<or> l = ''file read failed\<newline>''" by (simp only: list.set) blast
  then have "\<exists>off. ?at l off" using at by blast
  then show "0 \<notin> set (lit l) \<and> (\<exists>off. cat_lit l = START_EXE_ADDR + of_nat off \<and> off + length l < 100 \<and>
      take (Suc (length l)) (drop off cat_exe) = lit l @ [0])" by blast
qed

theorem cat_command_witness:
  "(\<exists>k'. run_command sample_machine elf_frame (cmd_ctx sample_machine elf_frame cat_lit (\<lambda>i. 0) [[99, 97, 116], [104, 105]] 0)
       (\<lambda>os. cat_main os 0x8200000) 0x600000 (cmd_kernel (lit ''cat hi'')) = Some (0, k') \<and>
     sys_inv k' tree3 2 \<and> term_screen k' 0 = fold a_putc [97, 98, 99] (term_screen (cmd_kernel (lit ''cat hi'')) 0)) \<and>
   (\<exists>k'. run_command sample_machine elf_frame (cmd_ctx sample_machine elf_frame cat_lit (\<lambda>i. 0) [[99, 97, 116], [104, 105]] 0)
       (\<lambda>os. cat_main os 0x8200000) 0x600000 (cmd_kernel (lit ''cat no'')) = Some (2, k') \<and> sys_inv k' tree3 2)"
proof
  let ?names = "[[99, 97, 116], [104, 105 :: u8]]"
  have b: "rng 0x8200000 1024 \<subseteq> prog_page" using rng_sub [of "0x200000" 1024 4194304 "0x8000000"] by simp
  have t: "0 = t_term tree3 2" by (simp add: tree3_def)
  have w: "cmd_word (lit ''cat hi'') = [99, 97, 116]" "cmd_word (lit ''cat no'') = [99, 97, 116]" "cmd_args (lit ''cat hi'') = [104, 105]"
    "cmd_args (lit ''cat no'') = [110, 111]" by (simp_all add: cmd_word_def cmd_args_def)
  have n: "length (lit ''cat hi'') < 64" "0 \<notin> set (lit ''cat hi'')" "length (lit ''cat no'') < 64" "0 \<notin> set (lit ''cat no'')" by simp_all
  note r = cmd_can_run [OF n(1,2) w(1)] cmd_can_run [OF n(3,4) w(2)]
  have m: "mem (cmd_kernel xs) = cmd_mem xs" "bootblock (cmd_kernel xs) = 0x500000" for xs by (simp_all add: cmd_kernel_def)
  have "first_index [104, 105] ?names = Some 1" by (simp add: first_index_def)
  then have "udir (cmd_ctx sample_machine elf_frame cat_lit (\<lambda>i. 0) ?names 0 (cmd_kernel (lit ''cat hi''))) [104, 105] = Some (Data [97, 98, 99])"
    using cmd_words [of "lit ''cat hi''"] cmd_files(2) [of "lit ''cat hi''"] by (simp add: udir_def Let_def cmd_tr m del: lit_simps)
  then show "\<exists>k'. run_command sample_machine elf_frame (cmd_ctx sample_machine elf_frame cat_lit (\<lambda>i. 0) ?names 0)
       (\<lambda>os. cat_main os 0x8200000) 0x600000 (cmd_kernel (lit ''cat hi'')) = Some (0, k') \<and>
     sys_inv k' tree3 2 \<and> term_screen k' 0 = fold a_putc [97, 98, 99] (term_screen (cmd_kernel (lit ''cat hi'')) 0)"
    using conjunct1 [OF cat_command [OF r(1) t b refl, of cat_lit "\<lambda>i. 0"]] unfolding w by blast
  have f: "file_bytes (cur_tr sample_machine (cmd_kernel (lit ''cat no''))) (mem (cmd_kernel (lit ''cat no''))) (bootblock (cmd_kernel (lit ''cat no''))) 0 = cat_exe"
    using cmd_files(1) [of "lit ''cat no''"] by (simp add: cmd_tr m del: lit_simps)
  have "rng START_EXE_ADDR 100 \<inter> rng 0x8200000 1024 = {}" by (simp add: rng_disjoint)
  then show "\<exists>k'. run_command sample_machine elf_frame (cmd_ctx sample_machine elf_frame cat_lit (\<lambda>i. 0) ?names 0)
       (\<lambda>os. cat_main os 0x8200000) 0x600000 (cmd_kernel (lit ''cat no'')) = Some (2, k') \<and> sys_inv k' tree3 2"
    using conjunct2 [OF cat_command [OF r(2) t b f [symmetric], of cat_lit "\<lambda>i. 0"]] cat_has_lits unfolding w length_cat_exe by fastforce
qed

section \<open>The calls on the tree of processes\<close>



end
