(* ===== verification/Greprun.thy ===== *)
theory Greprun
  imports Grep Userrun
begin

text \<open>
  The program \<open>grep\<close> run on the kernel: the facts of theory \<open>Grep\<close> for the kernel of theory \<open>System\<close>.
\<close>

lemma run_page: "rng 0x8200000 1025 \<subseteq> prog_page" "rng 0x8210000 33 \<subseteq> prog_page" "rng 0x8220000 1024 \<subseteq> prog_page" "rng 0x8100000 2560 \<subseteq> prog_page"
  using rng_sub [of "0x200000" 1025 4194304 "0x8000000"] rng_sub [of "0x210000" 33 4194304 "0x8000000"]
    rng_sub [of "0x220000" 1024 4194304 "0x8000000"] rng_sub [of "0x100000" 2560 4194304 "0x8000000"] by simp_all

lemma run_apart:
  "rng 0x8100000 2560 \<inter> rng 0x8200000 1025 = {}" "rng 0x8100000 2560 \<inter> rng 0x8210000 33 = {}" "rng 0x8100000 2560 \<inter> rng 0x8220000 1024 = {}"
  "rng 0x8210000 33 \<inter> rng 0x8200000 1025 = {}" "rng 0x8220000 1024 \<inter> rng 0x8200000 1025 = {}" "rng 0x8220000 1024 \<inter> rng 0x8210000 33 = {}"
  by (simp_all add: rng_disjoint)

lemma run_data_end: "get8 (kernel_os run_ctx) (run_kernel as) (0x8200000 + 1024) \<noteq> 10"
proof -
  have "(0x8200400 :: u32) \<notin> rng 0x8100000 2560" by (simp add: rng_def)
  then show ?thesis by (simp add: get8_def run_tr ld8_def run_mem_def disk_image_def)
qed

lemma short_text: "length bs < 1024 \<Longrightarrow> short_lines bs"
  unfolding short_lines_def using sublist_length_le by (metis order_le_less_trans)

lemma abc_lines: "split_lines [97, 98, 99] = [[97, 98, 99]]"
  by (simp add: split_lines_none)

text \<open>
  C37. \<open>do_one_file\<close> of \<open>grep\<close> on the kernel. For every regular file of text whose lines fit the buffer,
  wherever the reads cut its lines, it returns 0 after the name and the line have been printed for
  exactly those lines that contain the searched string, in their order, and the descriptor that it
  opened is free again. Text means without zero bytes, and lines of less than 1024 bytes fit; the byte
  behind the 1024 bytes of a full buffer, which the code reads without having set it, is no newline.
\<close>

theorem grep_file_on_kernel:
  assumes "uinv X k" "rng data 1025 \<subseteq> prog_page" "lits_at (kernel_os X) (prog_page - rng data 1025) ['':'', ''\<newline>''] k"
    and "str_at (kernel_os X) k str pat" "rng str (Suc (length pat)) \<subseteq> prog_page - rng data 1025"
    and "str_at (kernel_os X) k fname nm" "rng fname (Suc (length nm)) \<subseteq> prog_page - rng data 1025" "length nm < 2147483648"
    and "us_free (ufiles X (files (upcb k))) = Some i" "udir X nm = Some (Data bs)" "0 \<notin> set bs" "short_lines bs"
    and "get8 (kernel_os X) k (data + 1024) \<noteq> 10"
  shows "\<exists>k'. do_one_file (kernel_os X) data str fname k = Some (0, k') \<and> uinv X k' \<and>
    ufiles X (files (upcb k')) = ufiles X (files (upcb k)) \<and>
    prog_screen X k' = fold a_putc (concat (map (\<lambda>l. if pat \<noteq> [] \<and> sublist pat l then nm @ [58] @ l @ [10] else []) (split_lines bs))) (prog_screen X k)"
proof -
  have env: "kos.grep_env X data str fname pat nm ['':'', ''\<newline>''] k" using assms(1-8) by (simp add: kos.grep_env_def)
  have f: "us_free (us_files (uview X k)) = Some i" using assms(9) by (simp add: uview_files)
  from kos.do_one_file_greps [OF env f assms(10-13)] obtain k' where k': "do_one_file (kernel_os X) data str fname k = Some (0, k')"
      "kos.grep_env X data str fname pat nm ['':'', ''\<newline>''] k'" "uview X k' = emits a_putc (grep_text pat nm bs) (uview X k)" by blast
  have u: "uinv X k'" using k'(2) by (simp add: kos.grep_env_def)
  moreover have "us_files (uview X k') = us_files (uview X k)" using k'(3) by (simp add: emits_def)
  moreover have "grep_text pat nm bs = concat (map (\<lambda>l. if pat \<noteq> [] \<and> sublist pat l then nm @ [58] @ l @ [10] else []) (split_lines bs))"
    by (simp add: grep_text_def grep_hit_def [abs_def])
  ultimately show ?thesis using k'(1) prints_on_screen [OF assms(1) u k'(3) refl] by (auto simp: uview_files)
qed

theorem grep_file_on_kernel_witness:
  "\<exists>k'. do_one_file (kernel_os run_ctx) 0x8200000 (run_lit ''b'') (run_lit ''hi'') (run_kernel []) = Some (0, k') \<and>
     prog_screen run_ctx k' = fold a_putc (lit ''hi:abc\<newline>'') (prog_screen run_ctx (run_kernel []))"
proof -
  let ?R = "prog_page - rng 0x8200000 1025"
  have sub: "rng 0x8100000 2560 \<subseteq> ?R" using run_page(4) run_apart(1) by blast
  have l: "lits_at (kernel_os run_ctx) ?R ['':'', ''\<newline>'', ''hi'', ''b''] (run_kernel [])"
    by (rule run_lits_at [OF _ sub]) (simp add: run_lits_def)
  then have l2: "lits_at (kernel_os run_ctx) ?R ['':'', ''\<newline>''] (run_kernel [])" by (simp add: lits_at_def)
  have s: "str_at (kernel_os run_ctx) (run_kernel []) (run_lit ''b'') [98]" "rng (run_lit ''b'') (Suc (length [98 :: u8])) \<subseteq> ?R"
    "str_at (kernel_os run_ctx) (run_kernel []) (run_lit ''hi'') [104, 105]" "rng (run_lit ''hi'') (Suc (length [104, 105 :: u8])) \<subseteq> ?R"
    using l by (simp_all add: lits_at_def)
  have u: "uinv run_ctx (run_kernel [])" by (simp add: run_uinv)
  have "sublist [98] [97, 98, 99 :: u8]" by (simp add: sublist_code)
  then have "concat (map (\<lambda>l. if [98] \<noteq> [] \<and> sublist [98] l then [104, 105] @ [58] @ l @ [10] else []) (split_lines [97, 98, 99])) =
      lit ''hi:abc\<newline>''" by (simp add: abc_lines)
  then show ?thesis
    using grep_file_on_kernel [OF u run_page(1) l2 s _ run_free [unfolded uview_files] run_dir(1) _ short_text run_data_end] by auto
qed

text \<open>
  The whole of \<open>grep\<close> on the kernel, in a directory where every entry that does not begin with a dot is
  a text file with a name of 1 to 31 characters and lines that fit the buffer: it prints the matching
  lines of all these files in the order of the directory, and returns 0. A directory with executables
  or the clock in it is outside of this statement.
\<close>

lemma grep_on_kernel:
  assumes "uinv X k" "rng data 1025 \<subseteq> prog_page" "rng buf 33 \<subseteq> prog_page - rng data 1025"
    and "rng search 1024 \<subseteq> prog_page - rng data 1025 - rng buf 33"
    and "lits_at (kernel_os X) (prog_page - rng data 1025 - rng buf 33 - rng search 1024) ['':'', ''\<newline>'', ''.''] k"
    and "get8 (kernel_os X) k (data + 1024) \<noteq> 10"
    and "i \<in> {2..<8}" "j \<in> {2..<8}" "i \<noteq> j" "ufiles X (files (upcb k)) i = None" "ufiles X (files (upcb k)) j = None"
    and "udir X (lit ''.'') = Some (Entries names)" "\<forall>nm \<in> set names. entry_ok (udir X) nm"
  shows "\<exists>k'. grep_main (kernel_os X) buf search data k = Some (0, k') \<and> uinv X k' \<and>
    prog_screen X k' = fold a_putc (concat (map (grep_entry (udir X) (prog_args k)) names)) (prog_screen X k)"
proof -
  let ?f = "us_files (uview X k)" let ?A = "us_args (uview X k)"
  have a: "length ?A < 128" using prog_args_short [OF assms(1)] by (simp add: uview_args)
  have sub: "rng search (Suc (length ?A)) \<subseteq> rng search 1024" using a by (intro rng_mono) simp
  have f: "?f i = None" "?f j = None" using assms(10,11) by (simp_all add: uview_files)
  have l: "lits_at (kernel_os X) (prog_page - rng data 1025 - rng buf 33 - rng search (Suc (length ?A))) ['':'', ''\<newline>'', ''.''] k"
    using sub by (intro kos.lits_mono [OF assms(5)]) blast
  obtain i' where i': "us_free ?f = Some i'" using us_free_some [OF assms(7), of ?f] f by auto
  obtain j' where j': "us_free (?f(i' \<mapsto> Device)) = Some j'"
    using us_free_some [OF assms(7), of "?f(i' \<mapsto> Device)"] us_free_some [OF assms(8), of "?f(i' \<mapsto> Device)"] f assms(9)
    by (cases "i = i'") auto
  have "rng search (Suc (length ?A)) \<subseteq> prog_page - rng data 1025 - rng buf 33" "length ?A < 1024" using sub assms(4) a by auto
  from kos.grep_main_greps [OF assms(1-3) this(1) l assms(6) this(2) i' j' assms(12,13)] obtain k' where
    k': "grep_main (kernel_os X) buf search data k = Some (0, k')" "uinv X k'"
      "uview X k' = emits a_putc (concat (map (grep_entry (udir X) ?A) names)) ((uview X k)\<lparr>us_files := ?f(i' \<mapsto> Device)\<rparr>)" by blast
  then show ?thesis using prints_on_screen [OF assms(1) k'(2,3)] by (simp add: uview_args)
qed

lemma grep_on_kernel_witness:
  "\<exists>k'. grep_main (kernel_os run_ctx) 0x8210000 0x8220000 0x8200000 (run_kernel [98]) = Some (0, k') \<and>
     prog_screen run_ctx k' = fold a_putc (lit ''hi:abc\<newline>'') (prog_screen run_ctx (run_kernel [98]))"
proof -
  let ?R = "prog_page - rng 0x8200000 1025 - rng 0x8210000 33"
  have r: "rng 0x8210000 33 \<subseteq> prog_page - rng 0x8200000 1025" "rng 0x8220000 1024 \<subseteq> ?R"
    using run_page run_apart by blast+
  have "rng 0x8100000 2560 \<subseteq> ?R - rng 0x8220000 1024"
    using run_page run_apart by blast
  then have l: "lits_at (kernel_os run_ctx) (?R - rng 0x8220000 1024) ['':'', ''\<newline>'', ''.''] (run_kernel [98])"
    by (rule run_lits_at [rotated]) (simp add: run_lits_def)
  have e: "\<forall>nm \<in> set [[46], [104, 105]]. entry_ok (udir run_ctx) nm"
    using short_text [of "[97, 98, 99]"] by (simp add: entry_ok_def run_dir(1))
  have "sublist [98] [97, 98, 99 :: u8]" by (simp add: sublist_code)
  then have t: "concat (map (grep_entry (udir run_ctx) (prog_args (run_kernel [98]))) [[46], [104, 105]]) = lit ''hi:abc\<newline>''"
    using run_dir(2) by (simp add: run_args grep_entry_def run_dir(1) grep_text_def abc_lines grep_hit_def)
  have f: "ufiles run_ctx (files (upcb (run_kernel [98]))) i = None" for i using run_files [of "[98]" i] by (simp only: uview_files)
  have u: "uinv run_ctx (run_kernel [98])" by (simp add: run_uinv)
  show ?thesis
    using grep_on_kernel [OF u run_page(1) r l run_data_end, of 2 3, OF _ _ _ f f run_dir(2) e] unfolding t by auto
qed

end
