(* ===== verification/Blink.thy ===== *)
theory Blink
  imports Prelude "HOL-Library.Monad_Syntax"
begin

text \<open>
  The blinking characters of the program \<open>fish\<close>: \<^verbatim>\<open>fish/blink.S\<close> and the allocator of
  \<^verbatim>\<open>fish/fish.c\<close>. A linked list of cells of the array \<open>blink_array\<close> says which character alternates with
  which at which place of the screen; \<open>mp1_rtc_tasklet\<close> is called on every tick of the clock.
  Shown: the list operations implement operations on an abstract list of entries, a tick ends and
  advances every entry, and a character blinks with its period. Two things go wrong in the code: an
  entry at location 0 makes the list cyclic, and \<open>mp1_ioctl_sync\<close> always draws the character for off.
\<close>

section \<open>Cells and pointers\<close>

text \<open>
  A pointer to a cell is the index of the cell, \<open>None\<close> the null pointer; the only cells are those of
  \<open>blink_array\<close>. \<open>vmem\<close> is the video page, by offset from \<open>vmem_base_addr\<close>. An access through a pointer
  that is no cell is the result \<open>None\<close>, and so is a walk that does not end.
\<close>

record blink =
  location :: u16
  on_char :: u8
  off_char :: u8
  on_length :: u16
  off_length :: u16
  countdown :: u16
  status :: u16
  nxt :: "nat option"

record fish =
  blink_array :: "blink list"
  mp1_list_head :: "nat option"
  vmem :: "u32 \<Rightarrow> u8"

abbreviation CELLS :: nat where "CELLS \<equiv> 80 * 25"

definition zero_blink :: blink where
  "zero_blink = \<lparr>location = 0, on_char = 0, off_char = 0, on_length = 0, off_length = 0, countdown = 0, status = 0, nxt = None\<rparr>"

definition set_blink :: "nat \<Rightarrow> blink \<Rightarrow> fish \<Rightarrow> fish" where
  "set_blink i b f = f\<lparr>blink_array := (blink_array f)[i := b]\<rparr>"

fun mp1_malloc_loop :: "nat \<Rightarrow> blink list \<Rightarrow> nat option" where
  "mp1_malloc_loop i [] = None"
| "mp1_malloc_loop i (b # bs) = (if location b = 0 then Some i else mp1_malloc_loop (i + 1) bs)"

definition mp1_malloc :: "fish \<Rightarrow> nat option" where
  "mp1_malloc f = mp1_malloc_loop 0 (take CELLS (blink_array f))"

definition mp1_free :: "nat \<Rightarrow> fish \<Rightarrow> fish" where
  "mp1_free i f = set_blink i zero_blink f"

section \<open>The routines of \<open>blink.S\<close>\<close>

definition mp1_poke :: "u8 \<Rightarrow> u32 \<Rightarrow> fish \<Rightarrow> fish" where
  "mp1_poke cl eax f = f\<lparr>vmem := (vmem f)(eax := cl)\<rparr>"

text \<open>
  \<open>decw\<close>, a signed comparison with 0 and, when the time is over, the other character for its length.
  The offset of a cell of the screen is twice its location.
\<close>

definition scr_offset :: "blink \<Rightarrow> u32" where
  "scr_offset b = push_bit 1 (ucast (location b))"

definition tasklet_body :: "nat \<Rightarrow> fish \<Rightarrow> fish" where
  "tasklet_body i f =
     (let b = (blink_array f ! i)\<lparr>countdown := countdown (blink_array f ! i) - 1\<rparr>
      in if sint (countdown b) > 0 then set_blink i b f
         else if status b AND 1 = 0
         then set_blink i (b\<lparr>countdown := on_length b, status := status b XOR 1\<rparr>) (mp1_poke (on_char b) (scr_offset b) f)
         else set_blink i (b\<lparr>countdown := off_length b, status := status b XOR 1\<rparr>) (mp1_poke (off_char b) (scr_offset b) f))"

text \<open>The walk over the list; \<open>None\<close> for a walk that does not end, and for a pointer outside the array.\<close>

partial_function (option) tasklet_loop :: "nat option \<Rightarrow> fish \<Rightarrow> fish option" where
  "tasklet_loop ebx f =
     (case ebx of None \<Rightarrow> Some f
      | Some i \<Rightarrow>
          if i < length (blink_array f)
          then let f = tasklet_body i f in tasklet_loop (nxt (blink_array f ! i)) f
          else None)"

definition mp1_rtc_tasklet :: "fish \<Rightarrow> fish option" where
  "mp1_rtc_tasklet f = tasklet_loop (mp1_list_head f) f"

definition mp1_ioctl_add :: "blink \<Rightarrow> fish \<Rightarrow> u32 \<times> fish" where
  "mp1_ioctl_add b f =
     (if location b \<ge> 80 * 25 then (-1, f)
      else let b = b\<lparr>status := 1, countdown := on_length b\<rparr>
           in case mp1_malloc f of None \<Rightarrow> (-1, f)
              | Some i \<Rightarrow>
                  let f = set_blink i (b\<lparr>nxt := mp1_list_head f\<rparr>) f;
                      f = f\<lparr>mp1_list_head := Some i\<rparr>
                  in (0, mp1_poke (on_char b) (scr_offset b) f))"

text \<open>The helper gives \<open>Some None\<close> when no cell of the list has the location.\<close>

partial_function (option) find_loop :: "u16 \<Rightarrow> nat option \<Rightarrow> fish \<Rightarrow> nat option option" where
  "find_loop ax ebx f =
     (case ebx of None \<Rightarrow> Some None
      | Some i \<Rightarrow>
          if i < length (blink_array f)
          then if location (blink_array f ! i) = ax then Some (Some i) else find_loop ax (nxt (blink_array f ! i)) f
          else None)"

definition mp1_find_helper :: "u32 \<Rightarrow> fish \<Rightarrow> nat option option" where
  "mp1_find_helper arg f = find_loop (ucast arg) (mp1_list_head f) f"

text \<open>\<open>edx\<close> of the search for the predecessor points to the head of the list or to the link of a cell.\<close>

datatype link = Head | Link nat

fun get_link :: "link \<Rightarrow> fish \<Rightarrow> nat option" where
  "get_link Head f = mp1_list_head f"
| "get_link (Link i) f = nxt (blink_array f ! i)"

fun set_link :: "link \<Rightarrow> nat option \<Rightarrow> fish \<Rightarrow> fish" where
  "set_link Head p f = f\<lparr>mp1_list_head := p\<rparr>"
| "set_link (Link i) p f = set_blink i ((blink_array f ! i)\<lparr>nxt := p\<rparr>) f"

partial_function (option) remove_find_prev :: "nat \<Rightarrow> link \<Rightarrow> fish \<Rightarrow> link option" where
  "remove_find_prev eax edx f =
     (if get_link edx f = Some eax then Some edx
      else case get_link edx f of None \<Rightarrow> None
           | Some i \<Rightarrow> if i < length (blink_array f) then remove_find_prev eax (Link i) f else None)"

definition mp1_ioctl_remove :: "u32 \<Rightarrow> fish \<Rightarrow> (u32 \<times> fish) option" where
  "mp1_ioctl_remove arg f = do {
     r \<leftarrow> mp1_find_helper arg f;
     case r of None \<Rightarrow> Some (-1, f)
     | Some i \<Rightarrow> do {
         edx \<leftarrow> remove_find_prev i Head f;
         let f = set_link edx (nxt (blink_array f ! i)) f;
         Some (0, mp1_free i f) } }"

text \<open>
  After \<open>testb $0x1\<close> the overflow flag is 0 and the sign flag the highest bit of the result, so \<open>cmovl\<close>
  moves when the result is negative.
\<close>

definition mp1_ioctl_sync :: "u32 \<Rightarrow> fish \<Rightarrow> (u32 \<times> fish) option" where
  "mp1_ioctl_sync arg f = do {
     r \<leftarrow> mp1_find_helper (drop_bit 16 arg) f;
     case r of None \<Rightarrow> Some (-1, f)
     | Some esi \<Rightarrow> do {
         r \<leftarrow> mp1_find_helper (arg AND 0xFFFF) f;
         case r of None \<Rightarrow> Some (-1, f)
         | Some edi \<Rightarrow>
             let a = blink_array f ! esi;
                 b = (blink_array f ! edi)\<lparr>on_length := on_length a, off_length := off_length a, countdown := countdown a, status := status a\<rparr>;
                 f = set_blink edi b f;
                 t = ucast (status b) AND 1 :: u8;
                 ecx = (if sint t < 0 then on_char b else off_char b)
             in Some (0, mp1_poke ecx (scr_offset b) f) } }"

definition mp1_ioctl_find :: "blink \<Rightarrow> fish \<Rightarrow> (u32 \<times> blink) option" where
  "mp1_ioctl_find b f = do {
     r \<leftarrow> mp1_find_helper (ucast (location b)) f;
     case r of None \<Rightarrow> Some (-1, b) | Some i \<Rightarrow> Some (0, blink_array f ! i) }"

section \<open>The list behind the pointers\<close>

primrec chain :: "blink list \<Rightarrow> nat option \<Rightarrow> nat list \<Rightarrow> bool" where
  "chain A p [] \<longleftrightarrow> p = None"
| "chain A p (i # is) \<longleftrightarrow> p = Some i \<and> i < length A \<and> chain A (nxt (A ! i)) is"

lemma chain_upd: "i \<notin> set is \<Longrightarrow> chain (A[i := b]) p is = chain A p is"
  by (induction "is" arbitrary: p) auto

lemma chain_upd_data: "nxt b = nxt (A ! i) \<Longrightarrow> chain (A[i := b]) p is = chain A p is"
proof (induction "is" arbitrary: p)
  case (Cons j js)
  have "nxt (A[i := b] ! j) = nxt (A ! j)" if "j < length A" using that Cons.prems by (cases "i = j") simp_all
  then show ?case by (simp add: Cons.IH [OF Cons.prems] cong: conj_cong)
qed simp

lemma chain_bound: "chain A p is \<Longrightarrow> i \<in> set is \<Longrightarrow> i < length A"
  by (induction "is" arbitrary: p) auto

text \<open>
  The cells in the list are those whose location is not 0, which is how \<open>mp1_malloc\<close> tells a free cell.
  An entry of the abstract list is a cell without its link.
\<close>

definition blink_list :: "fish \<Rightarrow> nat list \<Rightarrow> bool" where
  "blink_list f ps \<longleftrightarrow> length (blink_array f) = CELLS \<and> chain (blink_array f) (mp1_list_head f) ps \<and> distinct ps \<and>
     (\<forall>i < CELLS. i \<in> set ps \<longleftrightarrow> location (blink_array f ! i) \<noteq> 0)"

definition blink_entry :: "blink \<Rightarrow> blink" where
  "blink_entry b = b\<lparr>nxt := None\<rparr>"

definition blink_entries :: "fish \<Rightarrow> nat list \<Rightarrow> blink list" where
  "blink_entries f ps = map (\<lambda>i. blink_entry (blink_array f ! i)) ps"

definition blinks :: "fish \<Rightarrow> blink list \<Rightarrow> bool" where
  "blinks f bs \<longleftrightarrow> (\<exists>ps. blink_list f ps \<and> bs = blink_entries f ps)"

lemma blink_entry_simps [simp]:
  "location (blink_entry b) = location b" "on_char (blink_entry b) = on_char b" "off_char (blink_entry b) = off_char b" "on_length (blink_entry b) = on_length b"
  "off_length (blink_entry b) = off_length b" "countdown (blink_entry b) = countdown b" "status (blink_entry b) = status b" "nxt (blink_entry b) = None"
  "blink_entry (blink_entry b) = blink_entry b" "scr_offset (blink_entry b) = scr_offset b"
  by (simp_all add: blink_entry_def scr_offset_def)

lemma set_blink_simps [simp]:
  "blink_array (set_blink i b f) = (blink_array f)[i := b]" "mp1_list_head (set_blink i b f) = mp1_list_head f" "vmem (set_blink i b f) = vmem f"
  by (simp_all add: set_blink_def)

lemma mp1_poke_simps [simp]:
  "blink_array (mp1_poke c a f) = blink_array f" "mp1_list_head (mp1_poke c a f) = mp1_list_head f" "vmem (mp1_poke c a f) = (vmem f)(a := c)"
  by (simp_all add: mp1_poke_def)

lemma malloc_loop_Some:
  "mp1_malloc_loop k bs = Some r \<Longrightarrow> \<exists>i < length bs. r = k + i \<and> location (bs ! i) = 0 \<and> (\<forall>j < i. location (bs ! j) \<noteq> 0)"
proof (induction bs arbitrary: k)
  case (Cons b bs)
  show ?case
  proof (cases "location b = 0")
    case True
    then show ?thesis using Cons.prems by (intro exI [of _ 0]) simp
  next
    case False
    with Cons.prems Cons.IH [of "k + 1"] obtain i where
      i: "i < length bs" "r = k + 1 + i" "location (bs ! i) = 0" "\<forall>j < i. location (bs ! j) \<noteq> 0" by auto
    have "location ((b # bs) ! j) \<noteq> 0" if "j < Suc i" for j using that False i(4) by (cases j) auto
    then show ?thesis using i by (intro exI [of _ "Suc i"]) simp
  qed
qed simp

lemma malloc_loop_None: "mp1_malloc_loop k bs = None \<longleftrightarrow> (\<forall>b \<in> set bs. location b \<noteq> 0)"
  by (induction bs arbitrary: k) auto

lemma mp1_malloc_Some:
  assumes "mp1_malloc f = Some i"
  shows "i < length (blink_array f)" "location (blink_array f ! i) = 0"
    "\<And>j. j < i \<Longrightarrow> location (blink_array f ! j) \<noteq> 0" "i < CELLS"
  using malloc_loop_Some [OF assms [unfolded mp1_malloc_def]] by auto

lemma mp1_malloc_None: "mp1_malloc f = None \<longleftrightarrow> (\<forall>i < min CELLS (length (blink_array f)). location (blink_array f ! i) \<noteq> 0)"
  by (auto simp: mp1_malloc_def malloc_loop_None all_set_conv_all_nth)

lemma mp1_malloc_first:
  assumes "i < CELLS" "i < length (blink_array f)" "location (blink_array f ! i) = 0" "\<And>j. j < i \<Longrightarrow> location (blink_array f ! j) \<noteq> 0"
  shows "mp1_malloc f = Some i"
proof (cases "mp1_malloc f")
  case None
  then show ?thesis using assms(1-3) by (auto simp: mp1_malloc_None)
next
  case (Some j)
  note j = mp1_malloc_Some [OF Some]
  then show ?thesis using Some assms(3,4) by (metis linorder_neqE_nat)
qed

lemma blink_list_full:
  assumes "blink_list f ps"
  shows "mp1_malloc f = None \<longleftrightarrow> length ps = CELLS"
proof -
  have ps: "set ps \<subseteq> {..< CELLS}" "distinct ps" "length (blink_array f) = CELLS" using assms chain_bound by (fastforce simp: blink_list_def)+
  have "mp1_malloc f = None \<longleftrightarrow> set ps = {..< CELLS}" using assms ps(1) by (auto simp: mp1_malloc_None blink_list_def)
  also have "\<dots> \<longleftrightarrow> card (set ps) = CELLS" using ps(1) by (metis card_lessThan card_subset_eq finite_lessThan)
  finally show ?thesis using distinct_card [OF ps(2)] by simp
qed

section \<open>Adding, finding and removing\<close>

definition started :: "blink \<Rightarrow> blink" where
  "started b = (blink_entry b)\<lparr>status := 1, countdown := on_length b\<rparr>"

lemma add_ok:
  assumes "blinks f bs" "location b \<noteq> 0" "location b < 80 * 25" "length bs < CELLS"
  shows "\<exists>f'. mp1_ioctl_add b f = (0, f') \<and> blinks f' (started b # bs) \<and> vmem f' = (vmem f)(scr_offset b := on_char b)"
proof -
  obtain ps where ps: "blink_list f ps" "bs = blink_entries f ps" using assms(1) by (auto simp: blinks_def)
  then have "mp1_malloc f \<noteq> None" using blink_list_full [OF ps(1)] assms(4) by (simp add: blink_entries_def)
  then obtain i where m: "mp1_malloc f = Some i" by auto
  note i = mp1_malloc_Some(1,2,4) [OF m]
  let ?b = "b\<lparr>status := 1, countdown := on_length b, nxt := mp1_list_head f\<rparr>"
  let ?f = "mp1_poke (on_char b) (scr_offset b) ((set_blink i ?b f)\<lparr>mp1_list_head := Some i\<rparr>)"
  have n: "i \<notin> set ps" using ps(1) i by (auto simp: blink_list_def)
  have add: "mp1_ioctl_add b f = (0, ?f)" using m assms(3) by (simp add: mp1_ioctl_add_def Let_def scr_offset_def)
  have "blink_list ?f (i # ps)"
    using ps(1) i n assms(2) chain_upd [OF n] by (auto simp: blink_list_def nth_list_update)
  moreover have "blink_entries ?f (i # ps) = started b # bs"
    using i n by (auto simp: blink_entries_def ps(2) started_def blink_entry_def nth_list_update)
  ultimately show ?thesis unfolding add by (auto simp: blinks_def)
qed

lemma add_refused: "blinks f bs \<Longrightarrow> location b \<ge> 80 * 25 \<or> length bs = CELLS \<Longrightarrow> mp1_ioctl_add b f = (-1, f)"
  using blink_list_full [of f] by (fastforce simp: blinks_def blink_entries_def mp1_ioctl_add_def)

lemma find_loop_ok:
  assumes "chain (blink_array f) p ps"
  shows "find_loop ax p f = Some (find (\<lambda>i. location (blink_array f ! i) = ax) ps)"
  using assms by (induction ps arbitrary: p) (subst find_loop.simps; simp)+

lemma find_ok:
  "blink_list f ps \<Longrightarrow> mp1_find_helper arg f = Some (find (\<lambda>i. location (blink_array f ! i) = ucast arg) ps)"
  by (simp add: mp1_find_helper_def find_loop_ok blink_list_def)

lemma find_split:
  "find P xs = Some i \<Longrightarrow> \<exists>us vs. xs = us @ i # vs \<and> P i \<and> (\<forall>u \<in> set us. \<not> P u)"
proof (induction xs)
  case (Cons x xs)
  show ?case
  proof (cases "P x")
    case True
    then show ?thesis using Cons.prems by (intro exI [of _ "[]"] exI [of _ xs]) simp
  next
    case False
    with Cons obtain us vs where "xs = us @ i # vs" "P i" "\<forall>u \<in> set us. \<not> P u" by auto
    with False show ?thesis by (intro exI [of _ "x # us"] exI [of _ vs]) simp
  qed
qed simp

text \<open>The walk to the predecessor, and the list without the cell.\<close>

lemma find_prev_ok:
  assumes "chain (blink_array f) (get_link edx f) (us @ i # vs)" "i \<notin> set us"
  shows "remove_find_prev i edx f = Some (if us = [] then edx else Link (last us))"
  using assms by (induction us arbitrary: edx) (subst remove_find_prev.simps; simp)+

lemma unlink_chain:
  assumes "chain A p (us @ i # vs)" "distinct (us @ i # vs)"
  shows "us = [] \<Longrightarrow> chain A (nxt (A ! i)) vs"
    "us \<noteq> [] \<Longrightarrow> chain (A[last us := (A ! last us)\<lparr>nxt := nxt (A ! i)\<rparr>]) p (us @ vs)"
proof -
  show "us = [] \<Longrightarrow> chain A (nxt (A ! i)) vs" using assms(1) by simp
  show "us \<noteq> [] \<Longrightarrow> chain (A[last us := (A ! last us)\<lparr>nxt := nxt (A ! i)\<rparr>]) p (us @ vs)"
    using assms
  proof (induction us arbitrary: p)
    case (Cons u us)
    show ?case
    proof (cases "us = []")
      case True
      then show ?thesis using Cons.prems chain_upd [of u vs A] by auto
    next
      case False
      moreover have "u \<noteq> last us" using False Cons.prems(3) by auto
      ultimately show ?thesis using Cons.IH [of "nxt (A ! u)"] Cons.prems by simp
    qed
  qed simp
qed

fun remove_loc :: "u16 \<Rightarrow> blink list \<Rightarrow> blink list" where
  "remove_loc l [] = []"
| "remove_loc l (b # bs) = (if location b = l then bs else b # remove_loc l bs)"

lemma remove_loc_split: "\<forall>u \<in> set us. location u \<noteq> l \<Longrightarrow> location b = l \<Longrightarrow> remove_loc l (us @ b # vs) = us @ vs"
  by (induction us) auto

lemma remove_loc_none: "\<forall>b \<in> set bs. location b \<noteq> l \<Longrightarrow> remove_loc l bs = bs"
  by (induction bs) auto

lemma remove_ok:
  assumes "blinks f bs"
  shows "\<exists>r f'. mp1_ioctl_remove arg f = Some (r, f') \<and> r = (if ucast arg \<in> location ` set bs then 0 else -1) \<and>
    blinks f' (remove_loc (ucast arg) bs) \<and> vmem f' = vmem f"
proof -
  let ?l = "ucast arg :: u16" and ?A = "blink_array f"
  obtain ps where ps: "blink_list f ps" "bs = blink_entries f ps" using assms by (auto simp: blinks_def)
  have len: "length ?A = CELLS" and ch: "chain ?A (mp1_list_head f) ps" and d: "distinct ps" using ps(1) by (simp_all add: blink_list_def)
  show ?thesis
  proof (cases "find (\<lambda>i. location (?A ! i) = ?l) ps")
    case None
    then have n: "\<forall>b \<in> set bs. location b \<noteq> ?l" by (auto simp: ps(2) blink_entries_def find_None_iff)
    then have "mp1_ioctl_remove arg f = Some (-1, f)" using find_ok [OF ps(1)] None by (simp add: mp1_ioctl_remove_def)
    then show ?thesis using n assms remove_loc_none [OF n] by auto
  next
    case (Some i)
    from find_split [OF this] obtain us vs where sp: "ps = us @ i # vs" "location (?A ! i) = ?l" "\<forall>u \<in> set us. location (?A ! u) \<noteq> ?l" by blast
    have i: "i \<notin> set us" "i \<notin> set vs" "i < CELLS" "i \<notin> set (us @ vs)" using d ch chain_bound [OF ch, of i] len by (auto simp: sp)
    let ?n = "nxt (?A ! i)" and ?edx = "if us = [] then Head else Link (last us)"
    define g where "g = set_link ?edx ?n f"
    have prev: "remove_find_prev i Head f = Some ?edx" using find_prev_ok [of f Head us i vs] ch i(1) by (simp add: sp)
    have rem: "mp1_ioctl_remove arg f = Some (0, mp1_free i g)"
      using find_ok [OF ps(1)] Some prev by (simp add: mp1_ioctl_remove_def g_def Let_def)
    have g: "chain (blink_array g) (mp1_list_head g) (us @ vs)" "length (blink_array g) = CELLS" "vmem g = vmem f"
      using unlink_chain [OF ch [unfolded sp] d [unfolded sp]] len by (auto simp: g_def)
    have e: "blink_entry (blink_array g ! j) = blink_entry (?A ! j)" if "j < CELLS" for j
      using that len by (cases "last us = j") (auto simp: g_def blink_entry_def)
    have loc: "location (blink_array g ! j) = location (?A ! j)" if "j < CELLS" for j using arg_cong [OF e [OF that], of location] by simp
    have mem: "j \<in> set (us @ vs) \<longleftrightarrow> location (blink_array (mp1_free i g) ! j) \<noteq> 0" if "j < CELLS" for j
      using that ps(1) i g(2) loc [OF that] by (auto simp: blink_list_def mp1_free_def zero_blink_def sp nth_list_update)
    have "blink_list (mp1_free i g) (us @ vs)"
      using mem chain_upd [OF i(4)] g(1,2) d unfolding blink_list_def by (auto simp: mp1_free_def sp)
    moreover have "blink_entries (mp1_free i g) (us @ vs) = remove_loc ?l bs"
    proof -
      have "blink_entry (blink_array (mp1_free i g) ! j) = blink_entry (?A ! j)" if "j \<in> set (us @ vs)" for j
        using e [of j] that i chain_bound [OF ch, of j] len by (cases "i = j") (auto simp: mp1_free_def sp)
      then have "blink_entries (mp1_free i g) (us @ vs) = blink_entries f (us @ vs)" by (auto simp: blink_entries_def)
      then show ?thesis
        using remove_loc_split [of "blink_entries f us" ?l "blink_entry (?A ! i)" "blink_entries f vs"] sp(2,3) by (simp add: ps(2) sp(1) blink_entries_def)
    qed
    moreover have "?l \<in> location ` set bs" using sp(2) by (force simp: ps(2) sp(1) blink_entries_def)
    ultimately show ?thesis using rem g(3) by (auto simp: blinks_def mp1_free_def)
  qed
qed

text \<open>\<open>mp1_ioctl_sync\<close> copies the times and the state, but draws the character for off in any case.\<close>

definition synced :: "blink \<Rightarrow> blink \<Rightarrow> blink" where
  "synced a b = b\<lparr>on_length := on_length a, off_length := off_length a, countdown := countdown a, status := status a\<rparr>"

fun sync_list :: "u16 \<Rightarrow> blink \<Rightarrow> blink list \<Rightarrow> blink list" where
  "sync_list l a [] = []"
| "sync_list l a (b # bs) = (if location b = l then synced a b # bs else b # sync_list l a bs)"

lemma sync_list_split:
  "\<forall>u \<in> set us. location u \<noteq> l \<Longrightarrow> location b = l \<Longrightarrow> sync_list l a (us @ b # vs) = us @ synced a b # vs"
  by (induction us) auto

lemma one_not_neg: "\<not> sint (w AND 1 :: u8) < 0"
proof -
  have "w AND 1 = 0 \<or> w AND 1 = 1" unfolding and_one_eq by (metis not_mod_2_eq_1_eq_0)
  then show ?thesis by auto
qed

lemma find_map: "find P (map g xs) = map_option g (find (\<lambda>x. P (g x)) xs)"
  by (induction xs) auto

lemma sync_ok:
  assumes "blinks f bs" "find (\<lambda>b. location b = ucast (drop_bit 16 arg)) bs = Some a" "find (\<lambda>b. location b = ucast (arg AND 0xFFFF)) bs = Some b"
  shows "\<exists>f'. mp1_ioctl_sync arg f = Some (0, f') \<and> blinks f' (sync_list (ucast (arg AND 0xFFFF)) a bs) \<and>
    vmem f' = (vmem f)(scr_offset b := off_char b)"
proof -
  let ?A = "blink_array f" and ?l = "ucast (arg AND 0xFFFF) :: u16"
  obtain ps where ps: "blink_list f ps" "bs = blink_entries f ps" using assms(1) by (auto simp: blinks_def)
  have len: "length ?A = CELLS" using ps(1) by (simp add: blink_list_def)
  obtain i where i: "find (\<lambda>i. location (?A ! i) = ucast (drop_bit 16 arg)) ps = Some i" "a = blink_entry (?A ! i)"
    using assms(2) by (auto simp: ps(2) blink_entries_def find_map)
  obtain j where j: "find (\<lambda>i. location (?A ! i) = ?l) ps = Some j" "b = blink_entry (?A ! j)"
    using assms(3) by (auto simp: ps(2) blink_entries_def find_map)
  from find_split [OF j(1)] obtain us vs where sp: "ps = us @ j # vs" "location (?A ! j) = ?l" "\<forall>u \<in> set us. location (?A ! u) \<noteq> ?l" by blast
  let ?b = "synced (?A ! i) (?A ! j)" let ?f = "mp1_poke (off_char (?A ! j)) (scr_offset (?A ! j)) (set_blink j ?b f)"
  have b: "location ?b = location (?A ! j)" "off_char ?b = off_char (?A ! j)" "nxt ?b = nxt (?A ! j)" "scr_offset ?b = scr_offset (?A ! j)"
    by (simp_all add: synced_def scr_offset_def)
  have run: "mp1_ioctl_sync arg f = Some (0, ?f)"
    using find_ok [OF ps(1)] i(1) j(1) b by (simp add: mp1_ioctl_sync_def Let_def one_not_neg flip: synced_def)
  have jb: "j < CELLS" using ps(1) chain_bound [of ?A "mp1_list_head f" ps j] by (auto simp: blink_list_def sp)
  have "location ((?A[j := ?b]) ! k) = location (?A ! k)" if "k < CELLS" for k using that len b(1) by (cases "j = k") simp_all
  then have "blink_list ?f ps" using ps(1) chain_upd_data [OF b(3)] by (simp add: blink_list_def)
  moreover have "blink_entries ?f ps = sync_list ?l a bs"
  proof -
    have d: "j \<notin> set us" "j \<notin> set vs" using ps(1) by (auto simp: blink_list_def sp)
    have "blink_entry ?b = synced a (blink_entry (?A ! j))" by (simp add: synced_def blink_entry_def i(2))
    then have "blink_entries ?f ps = blink_entries f us @ synced a (blink_entry (?A ! j)) # blink_entries f vs"
      using d len jb by (auto simp: blink_entries_def sp(1) nth_list_update intro!: map_cong)
    then show ?thesis using sync_list_split [of "blink_entries f us" ?l "blink_entry (?A ! j)" a "blink_entries f vs"] sp(2,3) by (simp add: ps(2) sp(1) blink_entries_def)
  qed
  ultimately show ?thesis using run j(2) by (auto simp: blinks_def)
qed

section \<open>One tick\<close>

definition tick :: "blink \<Rightarrow> blink" where
  "tick b = (if sint (countdown b - 1) > 0 then b\<lparr>countdown := countdown b - 1\<rparr>
     else b\<lparr>countdown := (if status b AND 1 = 0 then on_length b else off_length b), status := status b XOR 1\<rparr>)"

definition tick_poke :: "blink \<Rightarrow> (u32 \<Rightarrow> u8) \<Rightarrow> (u32 \<Rightarrow> u8)" where
  "tick_poke b v = (if sint (countdown b - 1) > 0 then v
     else v(scr_offset b := (if status b AND 1 = 0 then on_char b else off_char b)))"

lemma tick_simps [simp]: "location (tick b) = location b" "nxt (tick b) = nxt b" "blink_entry (tick b) = tick (blink_entry b)" "tick_poke (blink_entry b) = tick_poke b"
  by (auto simp: tick_def tick_poke_def blink_entry_def scr_offset_def fun_eq_iff)

lemma tasklet_body: "tasklet_body i f = (set_blink i (tick (blink_array f ! i)) f)\<lparr>vmem := tick_poke (blink_array f ! i) (vmem f)\<rparr>"
  by (simp add: tasklet_body_def tick_def tick_poke_def set_blink_def mp1_poke_def scr_offset_def Let_def)

lemma tasklet_loop_ok:
  assumes "chain (blink_array f) p ps" "distinct ps"
  shows "\<exists>f'. tasklet_loop p f = Some f' \<and> mp1_list_head f' = mp1_list_head f \<and> length (blink_array f') = length (blink_array f) \<and>
    (\<forall>i < length (blink_array f). blink_array f' ! i = (if i \<in> set ps then tick (blink_array f ! i) else blink_array f ! i)) \<and>
    vmem f' = fold (\<lambda>i. tick_poke (blink_array f ! i)) ps (vmem f)"
  using assms
proof (induction ps arbitrary: p f)
  case Nil
  then show ?case by (subst tasklet_loop.simps) simp
next
  case (Cons i ps)
  let ?A = "blink_array f" and ?f = "tasklet_body i f"
  have p: "p = Some i" "i < length ?A" "chain ?A (nxt (?A ! i)) ps" "i \<notin> set ps" "distinct ps" using Cons.prems by auto
  have f: "blink_array ?f = ?A[i := tick (?A ! i)]" "mp1_list_head ?f = mp1_list_head f" "vmem ?f = tick_poke (?A ! i) (vmem f)"
    by (simp_all add: tasklet_body)
  have "chain (blink_array ?f) (nxt (blink_array ?f ! i)) ps" using p chain_upd [OF p(4)] by (simp add: f)
  from Cons.IH [OF this p(5)] obtain f' where f': "tasklet_loop (nxt (blink_array ?f ! i)) ?f = Some f'"
      "mp1_list_head f' = mp1_list_head f" "length (blink_array f') = length ?A"
      "\<forall>k < length ?A. blink_array f' ! k = (if k \<in> set ps then tick (blink_array ?f ! k) else blink_array ?f ! k)"
      "vmem f' = fold (\<lambda>i. tick_poke (blink_array ?f ! i)) ps (vmem ?f)"
    by (auto simp: f)
  have "fold (\<lambda>k. tick_poke (blink_array ?f ! k)) ps v = fold (\<lambda>k. tick_poke (?A ! k)) ps v" for v
  proof (intro fold_cong refl)
    fix k assume "k \<in> set ps"
    then have "i \<noteq> k" using p(4) by blast
    then show "tick_poke (blink_array ?f ! k) = tick_poke (?A ! k)" by (simp add: f)
  qed
  moreover have "tasklet_loop p f = Some f'" using f'(1) p(1,2) by (subst tasklet_loop.simps) (simp add: Let_def)
  moreover have "blink_array f' ! k = (if k \<in> set (i # ps) then tick (?A ! k) else ?A ! k)" if "k < length ?A" for k
    using that f'(4) p(4) by (cases "k = i") (auto simp: f)
  ultimately show ?case using f'(2,3,5) f(3) by auto
qed

lemma tasklet_ok:
  assumes "blinks f bs"
  shows "\<exists>f'. mp1_rtc_tasklet f = Some f' \<and> blinks f' (map tick bs) \<and> vmem f' = fold tick_poke bs (vmem f)"
proof -
  let ?A = "blink_array f"
  obtain ps where ps: "blink_list f ps" "bs = blink_entries f ps" using assms by (auto simp: blinks_def)
  have c: "chain ?A (mp1_list_head f) ps" "distinct ps" "length ?A = CELLS" using ps(1) by (simp_all add: blink_list_def)
  from tasklet_loop_ok [OF c(1,2)] obtain f' where f': "mp1_rtc_tasklet f = Some f'" "mp1_list_head f' = mp1_list_head f" "length (blink_array f') = CELLS"
      "\<forall>i < CELLS. blink_array f' ! i = (if i \<in> set ps then tick (?A ! i) else ?A ! i)"
      "vmem f' = fold (\<lambda>i. tick_poke (?A ! i)) ps (vmem f)"
    by (auto simp: mp1_rtc_tasklet_def c(3))
  have "chain (blink_array f') p is = chain ?A p is" for p "is"
  proof (induction "is" arbitrary: p)
    case (Cons i "is")
    have "nxt (blink_array f' ! i) = nxt (?A ! i)" if "i < CELLS" using that f'(4) by simp
    then show ?case by (simp add: Cons f'(3) c(3) cong: conj_cong)
  qed simp
  then have "blink_list f' ps" using ps(1) f'(2-4) by (auto simp: blink_list_def)
  moreover have "blink_entries f' ps = map tick bs" using f'(4) chain_bound [OF c(1)] c(3) by (simp add: blink_entries_def ps(2))
  moreover have "fold (\<lambda>i. tick_poke (?A ! i)) ps v = fold tick_poke bs v" for v by (simp add: ps(2) blink_entries_def fold_map comp_def)
  ultimately show ?thesis using f'(1,5) by (auto simp: blinks_def)
qed

text \<open>
  C34. The list of blinking characters. On a list that represents the entries \<open>bs\<close>, \<open>mp1_ioctl_add\<close> puts
  the new entry in front and draws its character, or refuses it when its location is not on the screen
  or all cells are taken; \<open>mp1_ioctl_remove\<close> takes the first entry at the location out and frees its
  cell, or returns -1; \<open>mp1_ioctl_sync\<close> copies the rhythm of one entry to another, but draws its character
  for off whatever the state; and a tick ends, advances every entry and draws those that change.
\<close>

theorem blink_calls_refine:
  assumes "blinks f bs"
  shows "(\<forall>b. location b \<noteq> 0 \<longrightarrow>
       (if location b < 80 * 25 \<and> length bs < CELLS
        then \<exists>f'. mp1_ioctl_add b f = (0, f') \<and> blinks f' (started b # bs) \<and> vmem f' = (vmem f)(scr_offset b := on_char b)
        else mp1_ioctl_add b f = (-1, f))) \<and>
     (\<forall>arg. \<exists>r f'. mp1_ioctl_remove arg f = Some (r, f') \<and> r = (if ucast arg \<in> location ` set bs then 0 else -1) \<and>
        blinks f' (remove_loc (ucast arg) bs) \<and> vmem f' = vmem f) \<and>
     (\<forall>arg a b. find (\<lambda>b. location b = ucast (drop_bit 16 arg)) bs = Some a \<and> find (\<lambda>b. location b = ucast (arg AND 0xFFFF)) bs = Some b \<longrightarrow>
        (\<exists>f'. mp1_ioctl_sync arg f = Some (0, f') \<and> blinks f' (sync_list (ucast (arg AND 0xFFFF)) a bs) \<and>
          vmem f' = (vmem f)(scr_offset b := off_char b))) \<and>
     (\<exists>f'. mp1_rtc_tasklet f = Some f' \<and> blinks f' (map tick bs) \<and> vmem f' = fold tick_poke bs (vmem f))"
proof (intro conjI allI impI)
  have n: "length bs \<le> CELLS"
  proof -
    obtain ps where ps: "blink_list f ps" "bs = blink_entries f ps" using assms by (auto simp: blinks_def)
    then have "set ps \<subseteq> {..< CELLS}" "distinct ps" using chain_bound by (fastforce simp: blink_list_def)+
    then show ?thesis using card_mono [of "{..< CELLS}" "set ps"] distinct_card [of ps] by (simp add: ps(2) blink_entries_def)
  qed
  fix b :: blink assume "location b \<noteq> 0"
  then show "if location b < 80 * 25 \<and> length bs < CELLS
        then \<exists>f'. mp1_ioctl_add b f = (0, f') \<and> blinks f' (started b # bs) \<and> vmem f' = (vmem f)(scr_offset b := on_char b)
        else mp1_ioctl_add b f = (-1, f)"
    using add_ok [OF assms, of b] add_refused [OF assms, of b] n
    by (cases "location b < 80 * 25 \<and> length bs < CELLS") (auto simp: not_less)
next
  show "\<exists>f'. mp1_rtc_tasklet f = Some f' \<and> blinks f' (map tick bs) \<and> vmem f' = fold tick_poke bs (vmem f)" by (rule tasklet_ok [OF assms])
qed (use remove_ok [OF assms] sync_ok [OF assms] in blast)+

section \<open>The rhythm\<close>

definition shown :: "blink \<Rightarrow> nat \<Rightarrow> u8" where
  "shown b k = (if k mod (unat (on_length b) + unat (off_length b)) < unat (on_length b) then on_char b else off_char b)"

definition phase :: "blink \<Rightarrow> nat \<Rightarrow> blink" where
  "phase b k =
     (let n = unat (on_length b); m = unat (off_length b); r = k mod (n + m)
      in if r < n then (blink_entry b)\<lparr>status := 1, countdown := of_nat (n - r)\<rparr>
         else (blink_entry b)\<lparr>status := 0, countdown := of_nat (n + m - r)\<rparr>)"

lemma countdown_step:
  assumes "0 < n" "n \<le> 32767"
  shows "(sint (of_nat n - 1 :: u16) > 0) = (n > 1)" "of_nat n - 1 = (of_nat (n - 1) :: u16)"
proof -
  show e: "of_nat n - 1 = (of_nat (n - 1) :: u16)" using assms(1) by (simp add: of_nat_diff)
  have "sint (of_nat j :: u16) = int j" if "j \<le> 32767" for j
    using that by (simp add: signed_of_nat signed_take_bit_int_eq_self)
  from this [of "n - 1"] assms have "sint (of_nat (n - 1) :: u16) = int (n - 1)" by simp
  then show "(sint (of_nat n - 1 :: u16) > 0) = (n > 1)" unfolding e by simp
qed

lemma tick_phase:
  assumes n: "0 < unat (on_length b)" "unat (on_length b) \<le> 32767" and m: "0 < unat (off_length b)" "unat (off_length b) \<le> 32767"
  shows "tick (phase b k) = phase b (Suc k)"
    "v (scr_offset b) = shown b k \<Longrightarrow> tick_poke (phase b k) v (scr_offset b) = shown b (Suc k)"
proof -
  define N M r where d: "N = unat (on_length b)" "M = unat (off_length b)" "r = k mod (N + M)"
  have s: "Suc k mod (N + M) = (if Suc r = N + M then 0 else Suc r)" by (simp add: d mod_Suc)
  have r: "r < N + M" using n by (simp add: d)
  have w: "of_nat N = on_length b" "of_nat M = off_length b" by (simp_all add: d)
  have ph: "phase b k = (if r < N then (blink_entry b)\<lparr>status := 1, countdown := of_nat (N - r)\<rparr> else (blink_entry b)\<lparr>status := 0, countdown := of_nat (N + M - r)\<rparr>)"
    by (simp add: phase_def Let_def d)
  have "phase b (Suc k) = (if Suc k mod (N + M) < N then (blink_entry b)\<lparr>status := 1, countdown := of_nat (N - Suc k mod (N + M))\<rparr>
      else (blink_entry b)\<lparr>status := 0, countdown := of_nat (N + M - Suc k mod (N + M))\<rparr>)"
    by (simp add: phase_def Let_def d)
  note ph' = this [unfolded s]
  have sh: "shown b k = (if r < N then on_char b else off_char b)" by (simp add: shown_def d)
  have "shown b (Suc k) = (if Suc k mod (N + M) < N then on_char b else off_char b)" by (simp add: shown_def d)
  note sh' = this [unfolded s]
  have "tick (phase b k) = phase b (Suc k) \<and> (v (scr_offset b) = shown b k \<longrightarrow> tick_poke (phase b k) v (scr_offset b) = shown b (Suc k))"
  proof (cases "r < N")
    case True
    note c = countdown_step [of "N - r"]
    have "0 < N - r" "N - r \<le> 32767" using True n by (auto simp: d)
    note c = c [OF this]
    show ?thesis
    proof (cases "N - r > 1")
      case True
      then have "N - r - 1 = N - Suc r" "Suc r < N" "Suc r \<noteq> N + M" by auto
      then show ?thesis using True c \<open>r < N\<close> by (simp add: ph ph' sh sh' tick_def tick_poke_def)
    next
      case False
      then have "Suc r = N" "N \<noteq> N + M" using True m by (auto simp: d)
      then show ?thesis using False c \<open>r < N\<close> w by (simp add: ph ph' sh sh' tick_def tick_poke_def scr_offset_def)
    qed
  next
    case False
    note c = countdown_step [of "N + M - r"]
    have "0 < N + M - r" "N + M - r \<le> 32767" using False m r by (auto simp: d)
    note c = c [OF this]
    show ?thesis
    proof (cases "N + M - r > 1")
      case True
      then have "N + M - r - 1 = N + M - Suc r" "\<not> Suc r < N" "Suc r \<noteq> N + M" using False by auto
      then show ?thesis using True c False by (simp add: ph ph' sh sh' tick_def tick_poke_def)
    next
      case F: False
      then have "Suc r = N + M" using r by linarith
      moreover have "0 < N" using n by (simp add: d)
      ultimately have "Suc r = N + M" "0 < N" by blast+
      then show ?thesis using False F c w by (simp add: ph ph' sh sh' tick_def tick_poke_def scr_offset_def)
    qed
  qed
  then show "tick (phase b k) = phase b (Suc k)" "v (scr_offset b) = shown b k \<Longrightarrow> tick_poke (phase b k) v (scr_offset b) = shown b (Suc k)" by auto
qed

primrec fish_ticks :: "nat \<Rightarrow> fish \<Rightarrow> fish option" where
  "fish_ticks 0 f = Some f"
| "fish_ticks (Suc k) f = do { f \<leftarrow> fish_ticks k f; mp1_rtc_tasklet f }"

lemma scr_offset_inj: "scr_offset a = scr_offset b \<longleftrightarrow> location a = location b"
proof
  assume e: "scr_offset a = scr_offset b"
  have s: "bit (scr_offset c) (Suc n) = bit (location c) n" if "n < 16" for c n
    unfolding scr_offset_def bit_push_bit_iff bit_ucast_iff using that by simp
  have "bit (location a) n = bit (location b) n" if "n < 16" for n using s [OF that, of a] s [OF that, of b] e by simp
  then show "location a = location b" by (intro bit_word_eqI) simp
qed (simp add: scr_offset_def)

lemma tick_poke_other: "location e \<noteq> location b \<Longrightarrow> tick_poke e v (scr_offset b) = v (scr_offset b)"
  using scr_offset_inj [of e b] by (auto simp: tick_poke_def)

lemma ticks_other: "\<forall>e \<in> set bs. location e \<noteq> location b \<Longrightarrow> fold tick_poke bs v (scr_offset b) = v (scr_offset b)"
  by (induction bs arbitrary: v) (simp_all add: tick_poke_other)

lemma phase_0: "0 < unat (on_length b) \<Longrightarrow> phase b 0 = started b"
  by (simp add: phase_def started_def)

text \<open>
  C35. A character blinks. After an entry with times between 1 and 32767 has been added at a place of the
  screen that no other entry uses, every number of ticks ends, and after \<open>k\<close> of them the screen shows
  its first character if \<open>k\<close> lies within the first part of the period of both times, and its second
  character otherwise.
\<close>

theorem character_blinks:
  assumes "blinks f bs" "length bs < CELLS" "location b \<noteq> 0" "location b < 80 * 25" "\<forall>e \<in> set bs. location e \<noteq> location b"
    and "0 < unat (on_length b)" "unat (on_length b) \<le> 32767" "0 < unat (off_length b)" "unat (off_length b) \<le> 32767"
  shows "\<exists>f0 g. mp1_ioctl_add b f = (0, f0) \<and> fish_ticks k f0 = Some g \<and>
    vmem g (scr_offset b) = (if k mod (unat (on_length b) + unat (off_length b)) < unat (on_length b) then on_char b else off_char b)"
proof -
  obtain f0 where f0: "mp1_ioctl_add b f = (0, f0)" "blinks f0 (started b # bs)" "vmem f0 = (vmem f)(scr_offset b := on_char b)"
    using add_ok [OF assms(1,3,4,2)] by blast
  have "\<exists>g. fish_ticks k f0 = Some g \<and> blinks g (phase b k # map (tick ^^ k) bs) \<and> vmem g (scr_offset b) = shown b k"
  proof (induction k)
    case 0
    then show ?case using f0(2,3) assms(6) by (simp add: phase_0 shown_def)
  next
    case (Suc k)
    then obtain g where g: "fish_ticks k f0 = Some g" "blinks g (phase b k # map (tick ^^ k) bs)" "vmem g (scr_offset b) = shown b k" by blast
    from tasklet_ok [OF g(2)] obtain g' where g': "mp1_rtc_tasklet g = Some g'" "blinks g' (map tick (phase b k # map (tick ^^ k) bs))"
      "vmem g' = fold tick_poke (phase b k # map (tick ^^ k) bs) (vmem g)" by blast
    have "location ((tick ^^ k) e) = location e" for e by (induction k) simp_all
    then have "fold tick_poke (map (tick ^^ k) bs) v (scr_offset b) = v (scr_offset b)" for v using assms(5) by (intro ticks_other) simp
    then have "vmem g' (scr_offset b) = shown b (Suc k)" using g' tick_phase(2) [OF assms(6-9)] g(3) by simp
    moreover have "map tick (phase b k # map (tick ^^ k) bs) = phase b (Suc k) # map (tick ^^ Suc k) bs"
      using tick_phase(1) [OF assms(6-9)] by simp
    ultimately show ?case using g(1) g'(1,2) by (simp add: comp_def)
  qed
  then show ?thesis using f0(1) by (auto simp: shown_def)
qed

section \<open>An entry at location 0\<close>

lemma self_link_never_ends:
  assumes "tasklet_loop p f = Some f'"
  shows "\<not> (\<exists>i. p = Some i \<and> nxt (blink_array f ! i) = Some i)"
  using assms
proof (induction rule: tasklet_loop.raw_induct [rotated 1, consumes 1, case_names step])
  case (step rec p f f')
  show ?case
  proof
    assume "\<exists>i. p = Some i \<and> nxt (blink_array f ! i) = Some i"
    then obtain i where i: "p = Some i" "nxt (blink_array f ! i) = Some i" by blast
    with step(2) have "i < length (blink_array f)" "rec (nxt (blink_array (tasklet_body i f) ! i)) (tasklet_body i f) = Some f'"
      by (auto simp: Let_def split: if_splits)
    moreover from this(1) i(2) have "nxt (blink_array (tasklet_body i f) ! i) = Some i" by (simp add: tasklet_body)
    ultimately show False using step(1) by blast
  qed
qed

text \<open>
  C36. Location 0. \<open>mp1_ioctl_add\<close> accepts an entry at the first cell of the screen, but \<open>mp1_malloc\<close> takes a
  cell with location 0 for free. The next entry that is added gets the same cell, the cell becomes its
  own successor, and the following tick does not end.
\<close>

theorem location_zero_hangs:
  assumes "blinks f bs" "length bs < CELLS" "location a = 0" "location b < 80 * 25"
  shows "\<exists>f1 f2. mp1_ioctl_add a f = (0, f1) \<and> mp1_ioctl_add b f1 = (0, f2) \<and> mp1_rtc_tasklet f2 = None"
proof -
  obtain ps where ps: "blink_list f ps" "bs = blink_entries f ps" using assms(1) by (auto simp: blinks_def)
  then obtain i where m: "mp1_malloc f = Some i" using blink_list_full [OF ps(1)] assms(2) by (auto simp: blink_entries_def)
  note i = mp1_malloc_Some [OF m]
  obtain f1 where f1: "mp1_ioctl_add a f = (0, f1)" "mp1_list_head f1 = Some i"
      "blink_array f1 = (blink_array f)[i := a\<lparr>status := 1, countdown := on_length a, nxt := mp1_list_head f\<rparr>]"
    using m assms(3) by (simp add: mp1_ioctl_add_def Let_def)
  have "mp1_malloc f1 = Some i" using i assms(3) by (intro mp1_malloc_first) (auto simp: f1(3))
  then obtain f2 where f2: "mp1_ioctl_add b f1 = (0, f2)" "mp1_list_head f2 = Some i" "nxt (blink_array f2 ! i) = Some i"
    using not_le [of "80 * 25" "location b"] assms(4) i(1) f1(2,3) by (simp add: mp1_ioctl_add_def Let_def)
  then have "mp1_rtc_tasklet f2 = None"
    using self_link_never_ends [of "Some i" f2] by (cases "mp1_rtc_tasklet f2") (auto simp: mp1_rtc_tasklet_def)
  with f1(1) f2(1) show ?thesis by blast
qed

section \<open>Examples\<close>

definition fish_init :: fish where
  "fish_init = \<lparr>blink_array = replicate CELLS zero_blink, mp1_list_head = None, vmem = \<lambda>_. 32\<rparr>"

definition demo_blink :: "u16 \<Rightarrow> blink" where
  "demo_blink l = zero_blink\<lparr>location := l, on_char := 73, off_char := 77, on_length := 7, off_length := 6\<rparr>"

lemma fish_init_blinks: "blinks fish_init []"
  unfolding blinks_def by (intro exI [of _ "[]"]) (simp add: blink_list_def blink_entries_def fish_init_def zero_blink_def)

theorem blink_calls_refine_witness:
  "\<exists>f'. mp1_ioctl_add (demo_blink 60) fish_init = (0, f') \<and> blinks f' [started (demo_blink 60)] \<and> vmem f' 120 = 73"
proof -
  have "location (demo_blink 60) \<noteq> 0" "location (demo_blink 60) < 80 * 25" "scr_offset (demo_blink 60) = 120" "on_char (demo_blink 60) = 73"
    by (simp_all add: demo_blink_def zero_blink_def scr_offset_def)
  then show ?thesis using conjunct1 [OF blink_calls_refine [OF fish_init_blinks]] by fastforce
qed

theorem character_blinks_witness:
  "\<exists>f0 g. mp1_ioctl_add (demo_blink 60) fish_init = (0, f0) \<and> fish_ticks 20 f0 = Some g \<and> vmem g 120 = 77"
proof -
  have "scr_offset (demo_blink 60) = 120" by (simp add: demo_blink_def zero_blink_def scr_offset_def)
  then show ?thesis
    using character_blinks [OF fish_init_blinks, of "demo_blink 60" 20] by (simp add: demo_blink_def zero_blink_def)
qed

theorem location_zero_hangs_witness:
  "\<exists>f1 f2. mp1_ioctl_add (demo_blink 0) fish_init = (0, f1) \<and> mp1_ioctl_add (demo_blink 60) f1 = (0, f2) \<and> mp1_rtc_tasklet f2 = None"
  using location_zero_hangs [OF fish_init_blinks, of "demo_blink 0" "demo_blink 60"] by (simp add: demo_blink_def zero_blink_def)

end
