(* ===== verification/Spec2Isabelle.thy ===== *)
theory Spec2Isabelle
  imports Fault Command Greprun Blink
begin

text \<open>
  Verification of the operating system of this repository: the kernel under
  \<^verbatim>\<open>src/student-distrib\<close> and the user programs under \<^verbatim>\<open>src/syscalls\<close> and \<^verbatim>\<open>src/fish\<close>.

  \<^bold>\<open>The program.\<close> The kernel runs up to six processes on three text terminals of a 32-bit x86 machine
  with one processor. The boot loader hands it the image of a read-only file system; \<^verbatim>\<open>entry\<close> in
  \<^verbatim>\<open>kernel.c\<close> initialises paging, the interrupt controller, the keyboard, the real-time clock and the
  timer and executes the first shell. A program enters the kernel with \<^verbatim>\<open>int 0x80\<close>; the ten calls of
  \<^verbatim>\<open>sys_calls.c\<close> work on the process table and the control blocks of \<^verbatim>\<open>process.c\<close>, the page directories
  of \<^verbatim>\<open>virtualmem.c\<close>, the files of \<^verbatim>\<open>fs.c\<close> and the drivers under \<^verbatim>\<open>devices\<close>. The timer interrupt of \<^verbatim>\<open>pit.c\<close>
  switches between the active processes of the terminals.

  \<^bold>\<open>The model.\<close> Pure functions are HOL functions; a component with state has a record for it and one
  definition per C function, which returns the changed state. Integers are words of their width, so
  wrap-around is that of the machine. Memory is a function from physical addresses to bytes, and every
  access goes through the translation that is in force at that point (theory \<open>Memory\<close>): the identity until
  paging is switched on, then the walk through the loaded page directory, so accesses to the bytes of
  files, screens, buffers and programs alias as on the machine. An access to an absent page has no page
  fault in the model; theory \<open>Virtualmem\<close> says which pages are present, and the examples run with directories
  in which every page they use is. Control blocks, the process table, the page tables and the static
  data of the drivers are records beside that memory: a stray store of the code into one of them is not
  a change of the record, and what is said about them is for calls with pointers in the page of the
  program (\<open>hazard\<close> in theory \<open>System\<close> and the text of each property name the exceptions). The result \<open>None\<close> stands for what
  the C code does not define and for what does not end: an access outside an array, a call through a null
  pointer, an endless loop. Loops without an obvious bound are partial functions into \<open>option\<close>, and the theorems show that
  they return. The hardware behind the input and output ports is a parameter, a state machine with a
  function for reading and one for writing a port. A blocking read is split at its wait: the part before,
  the part after, and a parameter for what other processes and interrupts do in between. Handlers and
  system calls run uninterrupted between these points, which excludes races inside a handler.

  \<^bold>\<open>Theories of the kernel library.\<close>
  \<^item> \<open>Prelude\<close>: types of \<^verbatim>\<open>types.h\<close>, lemmas on words and address ranges, named collections of facts.
  \<^item> \<open>Memory\<close>: loads and stores; the locale \<open>address_space\<close> is the interface to address translation
    (a translation that is injective on the mapped addresses), with interpretation \<open>flat\<close> for the time before
    paging; \<open>Virtualmem\<close> shows its law for the directory of every process.
  \<^item> \<open>Lib_Mem\<close>, \<open>Lib_String\<close>, \<open>Console\<close>, \<open>Printf\<close>, \<open>Message\<close>: \<^verbatim>\<open>lib.c\<close>. The word-wise \<open>memcpy\<close> equals a byte-wise copy,
    \<open>memmove\<close> allows any overlap, \<open>itoa\<close> prints the numeral of its argument within 33 bytes, a character printed
    on video memory refines printing on an abstract screen, \<open>printf\<close> prints the expansion of its format.

  \<^bold>\<open>Theories of the components.\<close>
  \<^item> \<open>Process\<close>: \<^verbatim>\<open>process.c\<close>. The process table is an instance (\<open>pt\<close>) of the locale \<open>slot_table\<close>, a table with
    allocation of the lowest free slot and release; so is the descriptor table of a process (\<open>fdt\<close> in \<open>Files\<close>).
  \<^item> \<open>Proctree\<close>: the abstract tree of processes that \<open>execute\<close> and \<open>halt\<close> change.
  \<^item> \<open>Fs\<close>: \<^verbatim>\<open>fs.c\<close>. Reading across block borders, lookup by name, loading of programs.
  \<^item> \<open>Virtualmem\<close>: \<^verbatim>\<open>virtualmem.c\<close>. What a page directory translates to; isolation of processes.
  \<^item> \<open>I8259\<close>, \<open>Isr\<close>: \<^verbatim>\<open>i8259.c\<close>, \<^verbatim>\<open>idt_set.c\<close>, \<^verbatim>\<open>isr.c\<close>; ports, interrupt masks, gates and handlers.
  \<^item> \<open>Rtc\<close>: \<^verbatim>\<open>devices/rtc.c\<close>. A virtual clock for each process on one hardware rate.
  \<^item> \<open>Terminal\<close>: \<^verbatim>\<open>devices/keyboard.c\<close>. Scan codes, the line editor, switching of terminals.
  \<^item> \<open>Pit\<close>: \<^verbatim>\<open>devices/pit.c\<close>. Scheduling: the switch, fairness, and that an interrupted process resumes.
  \<^item> \<open>Kernel\<close>: the state of the kernel as a record of the states above, and the file operations tables.
  \<^item> \<open>Files\<close>, \<open>Exec\<close>, \<open>Calls\<close>: \<^verbatim>\<open>sys_calls.c\<close>: \<open>open\<close>, \<open>close\<close>, \<open>read\<close>, \<open>write\<close>; \<open>parse_arg\<close>, \<open>execute\<close>, \<open>halt\<close>; \<open>getargs\<close>,
    \<open>vidmap\<close> and the signal calls. A call that leaves to user mode or to the parent is a value of the type \<open>flow\<close>.
  \<^item> \<open>System\<close>: \<open>handle_syscall\<close> of \<^verbatim>\<open>isr_asm.S\<close> and the steps of the whole kernel as an inductive relation over events.
    Every run keeps the invariant \<open>sys_inv\<close> unless it passes one of the events that \<open>hazard\<close> names, which are defects of
    the code: \<open>execute\<close> while the terminal on the screen has no process, the end of a base shell while another terminal
    is on the screen, a shell executed inside the keyboard handler, unchecked pointers and command lines.
  \<^item> \<open>Fault\<close>: exceptions end the process that raised them, with a result that differs from the documented one.
  \<^item> \<open>Boot\<close>, \<open>Bootrun\<close>: \<^verbatim>\<open>kernel.c\<close>. For every proper report of the boot loader with a shell in the file
    system, start-up gets to the shell and establishes the invariant.

  \<^bold>\<open>Theories of the user programs.\<close>
  \<^item> \<open>Userlib\<close>: \<^verbatim>\<open>ece391support.c\<close>, with its routines shown equal to those of the kernel library.
  \<^item> \<open>Userprog\<close>: the programs \<open>cat\<close>, \<open>ls\<close>, \<open>hello\<close>, \<open>counter\<close>, \<open>testprint\<close>, \<open>shell\<close> and \<open>syserr\<close>, over a record \<open>os\<close> of memory
    and \<^verbatim>\<open>int 0x80\<close>. The addresses of their local arrays are arguments.
  \<^item> \<open>Contract\<close>: the locale \<open>user_os\<close>, what each call promises a program, and the programs proved inside it.
  \<^item> \<open>Grep\<close>: the program \<open>grep\<close>, whose 1024-byte window is shown equal to splitting the file into lines.
  \<^item> \<open>Userkernel\<close>: the interpretation \<open>kos\<close>; the kernel keeps the contract.
  \<^item> \<open>Userrun\<close>, \<open>Greprun\<close>: what the programs print on the terminal when they run on the kernel.
  \<^item> \<open>Command\<close>: a command from the call of \<open>execute\<close> to its return; the interpretation \<open>kps\<close> adds the invariant of the
    whole kernel to the contract. What \<open>execute\<close> and \<open>halt\<close> do to the abstract tree, in every case.

  \<^item> \<open>Blink\<close>: \<^verbatim>\<open>fish/blink.S\<close> and the allocator of \<^verbatim>\<open>fish/fish.c\<close>, a linked list in an array, which implements an
    abstract list of blinking characters; a character blinks with its period.

  \<^bold>\<open>Bounds.\<close> The sizes are those of the source: 6 processes, 3 terminals, 8 descriptors, lines of 128
  characters, 63 directory entries, a screen of 80 by 25, the buffers of 33 bytes for names in \<open>ls\<close> and \<open>grep\<close> (names of up
  to 31 characters). No fuel is used.

  \<^bold>\<open>Not modelled.\<close> The assembly of \<^verbatim>\<open>boot.S\<close> and the register saving of \<^verbatim>\<open>isr_asm.S\<close>; races that need an
  interrupt inside a handler; page faults of the kernel's own accesses; \<^verbatim>\<open>ece391emulate.c\<close>, which maps the calls to those of Linux; \<^verbatim>\<open>test.c\<close>, which is
  commented out; the program \<open>pingpong\<close> and the main program of \<open>fish\<close>, which draw in timed loops of blocking reads, and \<open>sigtest\<close>, which needs signals, a
  feature that this kernel refuses.
\<close>

end
